(* ===== verification/Prelude.thy ===== *)
theory Prelude
  imports Main "HOL-Library.AList"
begin

text \<open>
  The vocabulary every component shares: the parts of the Go standard library the
  sources use (\<open>strings\<close>, \<open>strconv\<close>, \<open>path/filepath\<close>, \<open>bufio.Scanner\<close>), the result
  type of fallible code, and the lemmas about them that carry the component proofs.

  A Go string is a sequence of bytes, so it is a \<^typ>\<open>string\<close>, a list of 8-bit
  characters. A function that returns \<open>(T, error)\<close> returns \<^typ>\<open>'e + 'a\<close>, \<open>Inl\<close> for
  the error. Collections: \<open>go_defs\<close> unfolds the small library functions.
\<close>

named_theorems go_defs \<open>definitions of the Go library functions\<close>

section \<open>Results\<close>

text \<open>\<open>v, err := e; if err != nil { return err }\<close>\<close>

definition and_then :: "'e + 'a \<Rightarrow> ('a \<Rightarrow> 'e + 'b) \<Rightarrow> 'e + 'b" where
  "and_then r f = (case r of Inl e \<Rightarrow> Inl e | Inr a \<Rightarrow> f a)"

lemma and_then_simps [simp]:
  "and_then (Inl e) f = Inl e"
  "and_then (Inr a) f = f a"
  by (simp_all add: and_then_def)

lemma and_then_Inr_iff:
  "and_then r f = Inr b \<longleftrightarrow> (\<exists>a. r = Inr a \<and> f a = Inr b)"
  by (cases r) auto

definition is_ok :: "'e + 'a \<Rightarrow> bool" where
  "is_ok r = (case r of Inl _ \<Rightarrow> False | Inr _ \<Rightarrow> True)"

lemma is_ok_simps [simp]: "is_ok (Inl e) = False" "is_ok (Inr a) = True"
  by (simp_all add: is_ok_def)

lemma is_ok_iff: "is_ok r \<longleftrightarrow> (\<exists>a. r = Inr a)"
  by (cases r) auto

section \<open>Package strings\<close>

fun has_prefix :: "string \<Rightarrow> string \<Rightarrow> bool" where
  "has_prefix s [] = True"
| "has_prefix [] (p # ps) = False"
| "has_prefix (c # s) (p # ps) = (c = p \<and> has_prefix s ps)"

lemma has_prefix_iff: "has_prefix s p \<longleftrightarrow> (\<exists>t. s = p @ t)"
  by (induction s p rule: has_prefix.induct) auto

definition has_suffix :: "string \<Rightarrow> string \<Rightarrow> bool" where
  [go_defs]: "has_suffix s p = has_prefix (rev s) (rev p)"

definition trim_prefix :: "string \<Rightarrow> string \<Rightarrow> string" where
  [go_defs]: "trim_prefix s p = (if has_prefix s p then drop (length p) s else s)"

definition cut_prefix :: "string \<Rightarrow> string \<Rightarrow> string option" where
  [go_defs]: "cut_prefix s p = (if has_prefix s p then Some (drop (length p) s) else None)"

definition trim_suffix :: "string \<Rightarrow> string \<Rightarrow> string" where
  [go_defs]: "trim_suffix s p = (if has_suffix s p then take (length s - length p) s else s)"

text \<open>\<open>strings.Cut(s, sep)\<close>: what stands before and after the first \<open>sep\<close>.\<close>

fun cut :: "string \<Rightarrow> string \<Rightarrow> (string \<times> string) option" where
  "cut s sep =
     (if has_prefix s sep then Some ([], drop (length sep) s)
      else case s of
        [] \<Rightarrow> None
      | c # cs \<Rightarrow> map_option (\<lambda>(a, b). (c # a, b)) (cut cs sep))"

declare cut.simps [simp del]

definition contains :: "string \<Rightarrow> string \<Rightarrow> bool" where
  [go_defs]: "contains s sub = (cut s sub \<noteq> None)"

text \<open>\<open>strings.Split(s, sep)\<close> for a separator of one byte.\<close>

fun split_on :: "char \<Rightarrow> string \<Rightarrow> string list" where
  "split_on sep [] = [[]]"
| "split_on sep (c # cs) =
     (if c = sep then [] # split_on sep cs
      else case split_on sep cs of
        [] \<Rightarrow> [[c]]
      | w # ws \<Rightarrow> (c # w) # ws)"

fun join :: "string \<Rightarrow> string list \<Rightarrow> string" where
  "join sep [] = []"
| "join sep [w] = w"
| "join sep (w # v # ws) = w @ sep @ join sep (v # ws)"

lemma join_snoc: "ws \<noteq> [] \<Longrightarrow> join sep (ws @ [w]) = join sep ws @ sep @ w"
  by (induction sep ws rule: join.induct) auto

fun index_byte :: "string \<Rightarrow> char \<Rightarrow> nat option" where
  "index_byte [] b = None"
| "index_byte (c # cs) b = (if c = b then Some 0 else map_option Suc (index_byte cs b))"

definition contains_any :: "string \<Rightarrow> string \<Rightarrow> bool" where
  [go_defs]: "contains_any s chars = list_ex (\<lambda>c. c \<in> set chars) s"

definition count_char :: "char \<Rightarrow> string \<Rightarrow> nat" where
  [go_defs]: "count_char c s = length (filter (\<lambda>d. d = c) s)"

text \<open>\<open>strings.Trim\<close>, \<open>TrimLeft\<close> and \<open>TrimRight\<close> with a set of ASCII characters.\<close>

definition trim_left_set :: "string \<Rightarrow> string \<Rightarrow> string" where
  [go_defs]: "trim_left_set cs s = dropWhile (\<lambda>c. c \<in> set cs) s"

definition trim_right_set :: "string \<Rightarrow> string \<Rightarrow> string" where
  [go_defs]: "trim_right_set cs s = rev (dropWhile (\<lambda>c. c \<in> set cs) (rev s))"

definition trim_set :: "string \<Rightarrow> string \<Rightarrow> string" where
  [go_defs]: "trim_set cs s = trim_right_set cs (trim_left_set cs s)"

subsection \<open>White space\<close>

text \<open>
  \<open>unicode.IsSpace\<close> as the byte sequences of its code points in UTF-8: the six ASCII
  ones, U+0085, U+00A0, U+1680, U+2000 to U+200A, U+2028, U+2029, U+202F, U+205F and
  U+3000. UTF-8 is self-synchronising, so a sequence found at a byte position is a
  whole code point there.
\<close>

definition space_seqs :: "string list" where
  "space_seqs =
     [[CHR 0x09], [CHR 0x0A], [CHR 0x0B], [CHR 0x0C], [CHR 0x0D], [CHR 0x20],
      [CHR 0xC2, CHR 0x85], [CHR 0xC2, CHR 0xA0], [CHR 0xE1, CHR 0x9A, CHR 0x80],
      [CHR 0xE2, CHR 0x80, CHR 0x80], [CHR 0xE2, CHR 0x80, CHR 0x81],
      [CHR 0xE2, CHR 0x80, CHR 0x82], [CHR 0xE2, CHR 0x80, CHR 0x83],
      [CHR 0xE2, CHR 0x80, CHR 0x84], [CHR 0xE2, CHR 0x80, CHR 0x85],
      [CHR 0xE2, CHR 0x80, CHR 0x86], [CHR 0xE2, CHR 0x80, CHR 0x87],
      [CHR 0xE2, CHR 0x80, CHR 0x88], [CHR 0xE2, CHR 0x80, CHR 0x89],
      [CHR 0xE2, CHR 0x80, CHR 0x8A], [CHR 0xE2, CHR 0x80, CHR 0xA8],
      [CHR 0xE2, CHR 0x80, CHR 0xA9], [CHR 0xE2, CHR 0x80, CHR 0xAF],
      [CHR 0xE2, CHR 0x81, CHR 0x9F], [CHR 0xE3, CHR 0x80, CHR 0x80]]"

text \<open>The length of the white space code point the string starts with, if it does.\<close>

definition space_at :: "string list \<Rightarrow> string \<Rightarrow> nat option" where
  "space_at seqs s = map_option length (find (\<lambda>w. has_prefix s w) seqs)"

function trim_seqs :: "string list \<Rightarrow> string \<Rightarrow> string" where
  "trim_seqs seqs s =
     (case space_at seqs s of
        None \<Rightarrow> s
      | Some n \<Rightarrow> if n = 0 \<or> s = [] then s else trim_seqs seqs (drop n s))"
  by pat_completeness auto
termination
  by (relation "measure (\<lambda>(seqs, s). length s)") (auto simp: neq_Nil_conv)

declare trim_seqs.simps [simp del]

text \<open>
  \<open>strings.TrimSpace\<close>. A code point at one end never overlaps one at the other, so it does
  not matter which end is trimmed first.
\<close>

definition trim_right_space :: "string \<Rightarrow> string" where
  "trim_right_space s = rev (trim_seqs (map rev space_seqs) (rev s))"

definition trim_space :: "string \<Rightarrow> string" where
  "trim_space s = trim_seqs space_seqs (trim_right_space s)"

lemma space_at_plain:
  "\<forall>w \<in> set seqs. w \<noteq> [] \<and> hd w \<noteq> c \<Longrightarrow> space_at seqs (c # s) = None"
  by (force simp: space_at_def find_None_iff neq_Nil_conv)

lemma trim_seqs_plain:
  "\<forall>w \<in> set seqs. w \<noteq> [] \<and> hd w \<noteq> c \<Longrightarrow> trim_seqs seqs (c # s) = c # s"
  by (subst trim_seqs.simps) (simp add: space_at_plain)

lemma trim_seqs_Nil [simp]: "trim_seqs seqs [] = []"
  by (subst trim_seqs.simps) (simp split: option.split)

lemma set_trim_seqs: "set (trim_seqs seqs s) \<subseteq> set s"
proof (induction seqs s rule: trim_seqs.induct)
  case (1 seqs s)
  then show ?case
    by (subst trim_seqs.simps) (auto split: option.split dest: in_set_dropD)
qed

lemma length_trim_seqs: "length (trim_seqs seqs s) \<le> length s"
proof (induction seqs s rule: trim_seqs.induct)
  case (1 seqs s)
  then show ?case
    by (subst trim_seqs.simps) (auto split: option.split dest: le_trans)
qed

lemma set_trim_right_space: "set (trim_right_space s) \<subseteq> set s"
  using set_trim_seqs [of _ "rev s"] by (simp add: trim_right_space_def)

lemma trim_right_space_quote [simp]: "trim_right_space (s @ [CHR 0x22]) = s @ [CHR 0x22]"
  by (simp add: trim_right_space_def trim_seqs_plain space_seqs_def)

lemma trim_right_space_cr [simp]: "trim_right_space (s @ [CHR 0x0D]) = trim_right_space s"
  by (simp add: trim_right_space_def trim_seqs.simps [of _ "CHR 0x0D # rev s"] space_at_def
      space_seqs_def)

lemma trim_left_blank [simp]:
  "trim_seqs space_seqs (CHR 0x20 # s) = trim_seqs space_seqs s"
  "trim_seqs space_seqs (CHR 0x09 # s) = trim_seqs space_seqs s"
  by (simp_all add: trim_seqs.simps [of _ "_ # _"] space_at_def space_seqs_def)

lemma trim_left_quote [simp]: "trim_seqs space_seqs (CHR 0x22 # s) = CHR 0x22 # s"
  by (simp add: trim_seqs_plain space_seqs_def)

lemma trim_left_blanks:
  "set b \<subseteq> {CHR 0x20, CHR 0x09} \<Longrightarrow> trim_seqs space_seqs (b @ s) = trim_seqs space_seqs s"
  by (induction b) auto

text \<open>\<open>strings.Fields\<close>: the words between runs of white space.\<close>

function fields_from :: "string \<Rightarrow> string \<Rightarrow> string list" where
  "fields_from word s =
     (case s of
        [] \<Rightarrow> if word = [] then [] else [word]
      | c # cs \<Rightarrow>
          (case space_at space_seqs s of
             None \<Rightarrow> fields_from (word @ [c]) cs
           | Some n \<Rightarrow>
               (if word = [] then [] else [word]) @ fields_from [] (drop (max 1 n) s)))"
  by pat_completeness auto
termination
  by (relation "measure (\<lambda>(w, s). length s)") auto

declare fields_from.simps [simp del]

definition str_fields :: "string \<Rightarrow> string list" where
  "str_fields s = fields_from [] s"

subsection \<open>Letter case\<close>

definition lower_char :: "char \<Rightarrow> char" where
  [go_defs]: "lower_char c =
     (if 65 \<le> (of_char c :: nat) \<and> (of_char c :: nat) \<le> 90
      then char_of ((of_char c :: nat) + 32) else c)"

text \<open>
  \<open>strings.ToLower\<close>. Beyond ASCII only U+0130 and U+212A have an ASCII lower case (\<open>i\<close>
  and \<open>k\<close>); every other code point beyond ASCII stays beyond ASCII, and no use of the
  result in the sources tells those apart, so they are left as they are.
\<close>

fun to_lower :: "string \<Rightarrow> string" where
  "to_lower [] = []"
| "to_lower (c # cs) =
     (if c = CHR 0xC4 \<and> has_prefix cs [CHR 0xB0] then CHR ''i'' # to_lower (drop 1 cs)
      else if c = CHR 0xE2 \<and> has_prefix cs [CHR 0x84, CHR 0xAA]
      then CHR ''k'' # to_lower (drop 2 cs)
      else lower_char c # to_lower cs)"

text \<open>\<open>strings.EqualFold\<close> where one side is made of hexadecimal digits.\<close>

definition equal_fold_hex :: "string \<Rightarrow> string \<Rightarrow> bool" where
  [go_defs]: "equal_fold_hex s t = (map lower_char s = map lower_char t)"

section \<open>Go maps as association lists\<close>

text \<open>
  Where the order of a \<open>range\<close> over a map can be seen, the map is an association list
  with distinct keys, updated and deleted from with the library's \<^theory_text>\<open>AList\<close>.
\<close>

definition akeys :: "('k \<times> 'v) list \<Rightarrow> 'k set" where
  "akeys m = fst ` set m"

lemma akeys_simps [simp]:
  "akeys [] = {}"
  "akeys (p # m) = insert (fst p) (akeys m)"
  "akeys (AList.delete k m) = akeys m - {k}"
  "akeys (AList.update k v m) = insert k (akeys m)"
  by (auto simp: akeys_def AList.delete_eq image_iff dom_update)

lemma map_of_akeys: "k \<in> akeys m \<Longrightarrow> \<exists>v. map_of m k = Some v"
  by (metis akeys_def domIff dom_map_of_conv_image_fst option.exhaust)

lemma map_of_None_akeys: "map_of m k = None \<longleftrightarrow> k \<notin> akeys m"
  by (metis akeys_def domIff dom_map_of_conv_image_fst)

lemma set_update_subset: "set (AList.update k v xs) \<subseteq> insert (k, v) (set xs)"
  by (induction xs) auto

lemma length_delete_le: "length (AList.delete k m) \<le> length m"
  by (simp add: AList.delete_eq)

lemma length_delete_less: "k \<in> akeys m \<Longrightarrow> length (AList.delete k m) < length m"
  by (auto simp: AList.delete_eq akeys_def intro!: length_filter_less)

lemma length_update:
  "length (AList.update k v m) = (if k \<in> akeys m then length m else Suc (length m))"
  by (induction m) auto

end
