(* ===== verification/Strconv.thy ===== *)
theory Strconv
  imports Prelude
begin

text \<open>
  Package \<open>strconv\<close> and the two encodings the sources use: decimal numbers, the
  URL-safe base64 of session tokens, the count of the runes of a string. Numbers are
  \<^typ>\<open>int\<close> with the range of \<open>int64\<close> checked where Go checks it.
\<close>

section \<open>Decimal numbers\<close>

definition digit :: "nat \<Rightarrow> char" where
  "digit n = char_of (48 + n)"

definition digit_val :: "char \<Rightarrow> nat option" where
  "digit_val c =
     (if 48 \<le> (of_char c :: nat) \<and> (of_char c :: nat) \<le> 57
      then Some ((of_char c :: nat) - 48) else None)"

definition is_digit :: "char \<Rightarrow> bool" where
  "is_digit c = (digit_val c \<noteq> None)"

fun dec_nat :: "nat \<Rightarrow> string" where
  "dec_nat n = (if n < 10 then [digit n] else dec_nat (n div 10) @ [digit (n mod 10)])"

declare dec_nat.simps [simp del]

text \<open>\<open>strconv.FormatInt(i, 10)\<close> and \<open>strconv.Itoa\<close>.\<close>

definition format_int :: "int \<Rightarrow> string" where
  "format_int i = (if i < 0 then CHR ''-'' # dec_nat (nat (- i)) else dec_nat (nat i))"

fun digits_value :: "nat \<Rightarrow> string \<Rightarrow> nat option" where
  "digits_value acc [] = Some acc"
| "digits_value acc (c # cs) =
     (case digit_val c of None \<Rightarrow> None | Some d \<Rightarrow> digits_value (10 * acc + d) cs)"

datatype num_error = ErrSyntax | ErrRange

text \<open>
  \<open>strconv.ParseInt(s, 10, 64)\<close>, and \<open>strconv.Atoi\<close> on a 64-bit machine. Go returns a
  value beside the error: 0 for a string that is no number, the nearest bound for one
  out of range. Callers that drop the error use it.
\<close>

definition parse_int64 :: "string \<Rightarrow> int \<times> num_error option" where
  "parse_int64 s =
     (let (neg, ds) =
        (case s of
           [] \<Rightarrow> (False, [])
         | c # cs \<Rightarrow>
             if c = CHR ''-'' then (True, cs)
             else if c = CHR ''+'' then (False, cs) else (False, s))
      in case (if ds = [] then None else digits_value 0 ds) of
           None \<Rightarrow> (0, Some ErrSyntax)
         | Some n \<Rightarrow>
             if neg then
               (if n \<le> 2 ^ 63 then (- int n, None) else (- (2 ^ 63), Some ErrRange))
             else
               (if n < 2 ^ 63 then (int n, None) else (2 ^ 63 - 1, Some ErrRange)))"

definition in_int64 :: "int \<Rightarrow> bool" where
  "in_int64 i \<longleftrightarrow> - (2 ^ 63) \<le> i \<and> i < 2 ^ 63"

lemma of_char_digit: "n < 10 \<Longrightarrow> (of_char (digit n) :: nat) = 48 + n"
  by (simp add: digit_def of_char_of)

lemma digit_val_digit [simp]: "n < 10 \<Longrightarrow> digit_val (digit n) = Some n"
  by (simp add: digit_val_def of_char_digit)

lemma digit_val_bound: "digit_val c = Some d \<Longrightarrow> d < 10"
  by (auto simp: digit_val_def split: if_splits)

lemma digits_value_append:
  "digits_value acc (xs @ ys) =
     (case digits_value acc xs of None \<Rightarrow> None | Some n \<Rightarrow> digits_value n ys)"
  by (induction xs arbitrary: acc) (auto split: option.splits)

lemma digits_value_dec_nat: "digits_value 0 (dec_nat n) = Some n"
proof (induction n rule: dec_nat.induct)
  case (1 n)
  then show ?case
    by (cases "n < 10") (simp_all add: dec_nat.simps [of n] digits_value_append)
qed

lemma dec_nat_not_Nil [simp]: "dec_nat n \<noteq> []"
  by (subst dec_nat.simps) simp

lemma is_digit_consts [simp]:
  "\<not> is_digit CHR ''-''" "\<not> is_digit CHR ''+''" "\<not> is_digit CHR ''.''"
  "\<not> is_digit CHR '':''" "\<not> is_digit CHR ''/''"
  by (simp_all add: is_digit_def digit_val_def)

lemma digit_chars:
  "digit 0 = CHR ''0''" "digit (Suc 0) = CHR ''1''" "digit 1 = CHR ''1''" "digit 2 = CHR ''2''" "digit 3 = CHR ''3''"
  "digit 4 = CHR ''4''" "digit 5 = CHR ''5''" "digit 6 = CHR ''6''" "digit 7 = CHR ''7''"
  "digit 8 = CHR ''8''" "digit 9 = CHR ''9''"
  by (simp_all add: digit_def char_of_def bit_0)

lemma dec_nat_digits: "c \<in> set (dec_nat n) \<Longrightarrow> is_digit c"
proof (induction n rule: dec_nat.induct)
  case (1 n)
  then show ?case
    by (cases "n < 10") (auto simp: dec_nat.simps [of n] is_digit_def)
qed

theorem parse_format_int: "in_int64 i \<Longrightarrow> parse_int64 (format_int i) = (i, None)"
proof -
  assume r: "in_int64 i"
  obtain c cs where d: "dec_nat (nat i) = c # cs"
    by (cases "dec_nat (nat i)") auto
  then have "is_digit c" using dec_nat_digits [of c "nat i"] by simp
  with r d show ?thesis
    using digits_value_dec_nat [of "nat i"] digits_value_dec_nat [of "nat (- i)"]
    by (auto simp: parse_int64_def format_int_def in_int64_def)
qed

lemma format_int_chars:
  "c \<in> set (format_int i) \<Longrightarrow> is_digit c \<or> c = CHR ''-''"
  by (auto simp: format_int_def dest: dec_nat_digits split: if_splits)

text \<open>Every character of the string is a decimal digit, and there is one.\<close>

definition numeric :: "string \<Rightarrow> bool" where
  "numeric s = (s \<noteq> [] \<and> list_all is_digit s)"

lemma digits_value_numeric: "list_all is_digit s \<Longrightarrow> \<exists>n. digits_value acc s = Some n"
  by (induction s arbitrary: acc) (auto simp: is_digit_def)

lemma digits_value_digits: "digits_value acc s = Some n \<Longrightarrow> list_all is_digit s"
  by (induction s arbitrary: acc) (auto simp: is_digit_def split: option.splits)

section \<open>Base64\<close>

text \<open>\<open>base64.RawURLEncoding.EncodeToString\<close>: six bits per character, no padding.\<close>

definition b64_char :: "nat \<Rightarrow> char" where
  "b64_char n =
     (if n < 26 then char_of (65 + n)
      else if n < 52 then char_of (97 + (n - 26))
      else if n < 62 then char_of (48 + (n - 52))
      else if n = 62 then CHR ''-'' else CHR ''_'')"

fun b64url :: "nat list \<Rightarrow> string" where
  "b64url [] = []"
| "b64url [a] = [b64_char (a div 4), b64_char (a mod 4 * 16)]"
| "b64url [a, b] =
     [b64_char (a div 4), b64_char (a mod 4 * 16 + b div 16), b64_char (b mod 16 * 4)]"
| "b64url (a # b # c # rest) =
     b64_char (a div 4) # b64_char (a mod 4 * 16 + b div 16) #
     b64_char (b mod 16 * 4 + c div 64) # b64_char (c mod 64) # b64url rest"

lemma b64_char_plain: "b64_char n \<noteq> CHR ''.'' \<and> b64_char n \<noteq> CHR '':''"
proof -
  have "(of_char (b64_char n) :: nat) \<noteq> 46 \<and> (of_char (b64_char n) :: nat) \<noteq> 58"
    by (auto simp: b64_char_def of_char_of)
  then show ?thesis by auto
qed

lemma b64url_plain: "CHR ''.'' \<notin> set (b64url bs)" "CHR '':'' \<notin> set (b64url bs)"
  by (induction bs rule: b64url.induct)
    (use b64_char_plain in \<open>auto simp: eq_commute [of "CHR ''.''"] eq_commute [of "CHR '':''"]\<close>)

section \<open>Runes\<close>

definition cont_byte :: "nat \<Rightarrow> nat \<Rightarrow> char \<Rightarrow> bool" where
  "cont_byte lo hi c = (lo \<le> (of_char c :: nat) \<and> (of_char c :: nat) \<le> hi)"

text \<open>
  How many bytes the first rune of a string takes, as \<open>utf8.DecodeRune\<close> has it: a byte
  that starts no well-formed sequence is one rune of its own.
\<close>

definition rune_len :: "char \<Rightarrow> string \<Rightarrow> nat" where
  "rune_len c cs =
     (let b = (of_char c :: nat);
          two = (\<lambda>lo hi. case cs of d # _ \<Rightarrow> cont_byte lo hi d | [] \<Rightarrow> False);
          three = (\<lambda>lo hi. case cs of d # e # _ \<Rightarrow> cont_byte lo hi d \<and> cont_byte 128 191 e
                                  | _ \<Rightarrow> False);
          four = (\<lambda>lo hi. case cs of d # e # f # _ \<Rightarrow> cont_byte lo hi d \<and> cont_byte 128 191 e
                                       \<and> cont_byte 128 191 f | _ \<Rightarrow> False)
      in if b < 194 then 1
         else if b < 224 then (if two 128 191 then 2 else 1)
         else if b < 240 then
           (if three (if b = 224 then 160 else 128) (if b = 237 then 159 else 191) then 3 else 1)
         else if b < 245 then
           (if four (if b = 240 then 144 else 128) (if b = 244 then 143 else 191) then 4 else 1)
         else 1)"

text \<open>\<open>len([]rune(s))\<close>.\<close>

fun rune_count :: "string \<Rightarrow> nat" where
  "rune_count [] = 0"
| "rune_count (c # cs) = Suc (rune_count (drop (rune_len c cs - 1) cs))"

lemma rune_count_le: "rune_count s \<le> length s"
  by (induction s rule: rune_count.induct) auto

end
