(* ===== verification/Filepath.thy ===== *)
theory Filepath
  imports Prelude
begin

text \<open>
  Package \<open>path/filepath\<close> on Unix: \<open>Clean\<close>, \<open>Join\<close>, \<open>Base\<close>, \<open>Dir\<close>, \<open>IsAbs\<close>. A path is
  a string; \<open>Clean\<close> is computed over its components.
\<close>

definition is_abs :: "string \<Rightarrow> bool" where
  "is_abs p = has_prefix p ''/''"

text \<open>
  One component after the other onto a stack (its top is the last component kept): an
  empty one and \<open>.\<close> go, \<open>..\<close> takes the one before it, stays at the start of a relative
  path and goes at the root.
\<close>

fun clean_parts :: "bool \<Rightarrow> string list \<Rightarrow> string list \<Rightarrow> string list" where
  "clean_parts rooted out [] = rev out"
| "clean_parts rooted out (p # ps) =
     (if p = [] \<or> p = ''.'' then clean_parts rooted out ps
      else if p = ''..'' then
        (case out of
           [] \<Rightarrow> clean_parts rooted (if rooted then [] else [p]) ps
         | q # qs \<Rightarrow> if q = ''..'' then clean_parts rooted (p # out) ps
                   else clean_parts rooted qs ps)
      else clean_parts rooted (p # out) ps)"

definition path_parts :: "string \<Rightarrow> string list" where
  "path_parts p = clean_parts (is_abs p) [] (split_on CHR ''/'' p)"

definition path_clean :: "string \<Rightarrow> string" where
  "path_clean p =
     (let s = (if is_abs p then ''/'' else []) @ join ''/'' (path_parts p)
      in if s = [] then ''.'' else s)"

definition path_join :: "string list \<Rightarrow> string" where
  "path_join ps =
     (let qs = filter (\<lambda>p. p \<noteq> []) ps in if qs = [] then [] else path_clean (join ''/'' qs))"

definition path_base :: "string \<Rightarrow> string" where
  "path_base p =
     (if p = [] then ''.''
      else let q = trim_right_set ''/'' p
           in if q = [] then ''/'' else last (split_on CHR ''/'' q))"

definition path_dir :: "string \<Rightarrow> string" where
  "path_dir p =
     (let d = rev (dropWhile (\<lambda>c. c \<noteq> CHR ''/'') (rev p)) in path_clean d)"

lemma split_on_not_Nil [simp]: "split_on c s \<noteq> []"
  by (induction s) (auto split: list.splits)

lemma split_on_no_sep: "w \<in> set (split_on c s) \<Longrightarrow> c \<notin> set w"
  by (induction s arbitrary: w) (auto split: list.splits if_splits)

lemma split_on_single: "c \<notin> set s \<Longrightarrow> split_on c s = [s]"
  by (induction s) auto

lemma split_on_append: "c \<notin> set w \<Longrightarrow> split_on c (w @ c # s) = w # split_on c s"
  by (induction w) auto

text \<open>Splitting and joining with the separator are inverse to each other.\<close>

lemma join_split_on: "join [c] (split_on c s) = s"
proof (induction s)
  case (Cons d s)
  then show ?case
    by (cases "split_on c s" rule: list.exhaust;
        cases "tl (split_on c s)") (auto simp: neq_Nil_conv)
qed simp

lemma split_on_join:
  "ws \<noteq> [] \<Longrightarrow> \<forall>w \<in> set ws. c \<notin> set w \<Longrightarrow> split_on c (join [c] ws) = ws"
proof (induction "[c]" ws rule: join.induct)
  case (2 w)
  then show ?case by (simp add: split_on_single)
next
  case (3 w v ws)
  then show ?case by (simp add: split_on_append)
qed simp

lemma clean_parts_set:
  "q \<in> set (clean_parts r out ps) \<Longrightarrow>
     q \<in> set out \<or> (q \<in> set ps \<and> q \<noteq> [] \<and> q \<noteq> ''.'')"
  by (induction r out ps rule: clean_parts.induct) (auto split: if_splits list.splits)

text \<open>What \<open>Clean\<close> leaves is made of single components only, and none of them is \<open>.\<close>.\<close>

lemma path_parts_component:
  "q \<in> set (path_parts p) \<Longrightarrow> q \<noteq> [] \<and> q \<noteq> ''.'' \<and> CHR ''/'' \<notin> set q"
  by (auto simp: path_parts_def dest: clean_parts_set split_on_no_sep)

lemma clean_parts_rooted:
  "''..'' \<notin> set out \<Longrightarrow> ''..'' \<notin> set (clean_parts True out ps)"
  by (induction "True" out ps rule: clean_parts.induct) (auto split: if_splits list.splits)

text \<open>A clean absolute path never climbs.\<close>

lemma path_parts_no_dotdot: "is_abs p \<Longrightarrow> ''..'' \<notin> set (path_parts p)"
  by (simp add: path_parts_def clean_parts_rooted)

section \<open>A component below a clean directory\<close>

definition component_name :: "string \<Rightarrow> bool" where
  "component_name c \<longleftrightarrow> c \<noteq> [] \<and> c \<noteq> ''.'' \<and> c \<noteq> ''..'' \<and> CHR ''/'' \<notin> set c"

definition clean_dir :: "string \<Rightarrow> bool" where
  "clean_dir d \<longleftrightarrow> is_abs d \<and> path_clean d = d \<and> d \<noteq> ''/''"

lemma split_on_snoc: "c \<notin> set w \<Longrightarrow> split_on c (s @ c # w) = split_on c s @ [w]"
  by (induction s) (auto simp: split_on_single split: list.splits)

lemma clean_parts_snoc:
  "c \<noteq> [] \<Longrightarrow> c \<noteq> ''.'' \<Longrightarrow> c \<noteq> ''..'' \<Longrightarrow>
     clean_parts r out (ps @ [c]) = clean_parts r out ps @ [c]"
  by (induction r out ps rule: clean_parts.induct) (auto split: list.split)

lemma is_abs_append: "is_abs d \<Longrightarrow> is_abs (d @ s)"
  by (auto simp: is_abs_def has_prefix_iff)

lemma path_parts_below:
  assumes "is_abs d" "component_name c"
  shows "path_parts (d @ ''/'' @ c) = path_parts d @ [c]"
proof -
  have "split_on CHR ''/'' (d @ ''/'' @ c) = split_on CHR ''/'' d @ [c]"
    using assms(2) split_on_snoc [of "CHR ''/''" c d] by (simp add: component_name_def)
  then show ?thesis
    using assms is_abs_append [OF assms(1), of "''/'' @ c"]
    by (simp add: path_parts_def clean_parts_snoc component_name_def)
qed

text \<open>\<open>filepath.Join\<close> of a clean directory and one component is the component below it.\<close>

lemma path_join_below:
  assumes "clean_dir d" "component_name c"
  shows "path_join [d, c] = d @ ''/'' @ c"
proof -
  have d: "is_abs d" "d \<noteq> []" "path_clean d = d" "d \<noteq> ''/''"
    using assms(1) by (auto simp: clean_dir_def is_abs_def)
  then have parts: "d = ''/'' @ join ''/'' (path_parts d)" by (simp add: path_clean_def)
  then have "path_parts d \<noteq> []" using d(4) by force
  then have "''/'' @ join ''/'' (path_parts d @ [c]) = d @ ''/'' @ c"
    using parts by (simp add: join_snoc)
  moreover have "is_abs (d @ ''/'' @ c)" using d(1) by (rule is_abs_append)
  ultimately have "path_clean (d @ ''/'' @ c) = d @ ''/'' @ c"
    using path_parts_below [OF d(1) assms(2)] by (simp add: path_clean_def)
  with d(2) assms(2) show ?thesis by (simp add: path_join_def component_name_def)
qed

section \<open>Absolute paths and their components\<close>

definition plain_parts :: "string list \<Rightarrow> bool" where
  "plain_parts ps \<longleftrightarrow> (\<forall>p \<in> set ps. component_name p)"

definition abs_path :: "string list \<Rightarrow> string" where
  "abs_path ps = concat (map (\<lambda>p. ''/'' @ p) ps)"

lemma plain_parts_simps [simp]:
  "plain_parts []" "plain_parts (p # ps) \<longleftrightarrow> component_name p \<and> plain_parts ps"
  "plain_parts (ps @ qs) \<longleftrightarrow> plain_parts ps \<and> plain_parts qs"
  by (auto simp: plain_parts_def)

lemma plain_parts_take: "plain_parts ps \<Longrightarrow> plain_parts (take k ps)"
  by (auto simp: plain_parts_def dest: in_set_takeD)

lemma abs_path_simps [simp]:
  "abs_path [] = []" "abs_path (p # ps) = CHR ''/'' # p @ abs_path ps"
  "abs_path (ps @ qs) = abs_path ps @ abs_path qs"
  by (simp_all add: abs_path_def)

lemma abs_path_join: "ps \<noteq> [] \<Longrightarrow> abs_path ps = CHR ''/'' # join ''/'' ps"
  by (induction ps rule: induct_list012) auto

lemma component_ends: "component_name q \<Longrightarrow> q \<noteq> [] \<and> hd q \<noteq> CHR ''/'' \<and> last q \<noteq> CHR ''/''"
  unfolding component_name_def by (metis hd_in_set last_in_set)

lemma join_ends:
  assumes "ps \<noteq> []" "plain_parts ps"
  shows "join ''/'' ps \<noteq> []" "hd (join ''/'' ps) \<noteq> CHR ''/''" "last (join ''/'' ps) \<noteq> CHR ''/''"
proof -
  have "join ''/'' ps \<noteq> [] \<and> hd (join ''/'' ps) \<noteq> CHR ''/''"
    using assms by (cases ps rule: remdups_adj.cases) (auto simp: component_ends hd_append component_name_def [of "[]"])
  moreover have "last (join ''/'' ps) \<noteq> CHR ''/''"
    using assms
  proof (cases ps rule: rev_cases)
    case (snoc qs q)
    then have "q \<noteq> []" "last q \<noteq> CHR ''/''"
      using assms(2) component_ends by (auto simp: component_name_def)
    with snoc show ?thesis by (cases "qs = []") (simp_all add: join_snoc)
  qed simp
  ultimately show "join ''/'' ps \<noteq> []" "hd (join ''/'' ps) \<noteq> CHR ''/''"
    "last (join ''/'' ps) \<noteq> CHR ''/''" by simp_all
qed

lemma trim_abs_path:
  assumes "ps \<noteq> []" "plain_parts ps"
  shows "trim_set ''/'' (abs_path ps) = join ''/'' ps"
proof -
  let ?j = "join ''/'' ps"
  obtain c cs where c: "?j = c # cs" "c \<noteq> CHR ''/''" using join_ends [OF assms] by (cases ?j) auto
  obtain ds d where d: "?j = ds @ [d]" "d \<noteq> CHR ''/''"
    using join_ends [OF assms] by (cases ?j rule: rev_cases) auto
  have "trim_left_set ''/'' (abs_path ps) = ?j"
    using c by (simp add: abs_path_join [OF assms(1)] trim_left_set_def)
  then show ?thesis using d by (simp add: trim_set_def trim_right_set_def)
qed

lemma split_join: "ps \<noteq> [] \<Longrightarrow> plain_parts ps \<Longrightarrow> split_on CHR ''/'' (join ''/'' ps) = ps"
  by (intro split_on_join) (auto simp: plain_parts_def component_name_def)

lemma clean_parts_plain: "plain_parts ps \<Longrightarrow> clean_parts r out ps = rev out @ ps"
  by (induction ps arbitrary: out) (auto simp: component_name_def)

lemma clean_parts_end: "plain_parts ps \<Longrightarrow> clean_parts r out (ps @ [[]]) = rev out @ ps"
  by (induction ps arbitrary: out) (auto simp: component_name_def)

lemma drop_last_component:
  "CHR ''/'' \<notin> set x \<Longrightarrow> rev (dropWhile (\<lambda>c. c \<noteq> CHR ''/'') (rev (a @ CHR ''/'' # x))) = a @ ''/''"
proof -
  assume x: "CHR ''/'' \<notin> set x"
  have "dropWhile (\<lambda>c. c \<noteq> CHR ''/'') (rev x @ CHR ''/'' # rev a) = CHR ''/'' # rev a"
    using x by (subst dropWhile_append2) auto
  then show ?thesis by simp
qed

lemma path_dir_abs:
  assumes "ps \<noteq> []" "plain_parts ps" "component_name x"
  shows "path_dir (abs_path (ps @ [x])) = abs_path ps"
proof -
  have d: "rev (dropWhile (\<lambda>c. c \<noteq> CHR ''/'') (rev (abs_path (ps @ [x])))) = abs_path ps @ ''/''"
    using drop_last_component [of x "abs_path ps"] assms(3) by (simp add: component_name_def)
  have j: "abs_path ps @ ''/'' = CHR ''/'' # join ''/'' (ps @ [[]])"
    using assms(1) by (simp add: abs_path_join join_snoc)
  have "split_on CHR ''/'' (join ''/'' (ps @ [[]])) = ps @ [[]]"
    using assms(2) by (intro split_on_join) (auto simp: plain_parts_def component_name_def)
  then have "path_parts (abs_path ps @ ''/'') = ps"
    using assms(2) clean_parts_end [of ps True "[]"]
    unfolding j by (simp add: path_parts_def is_abs_def)
  moreover have "is_abs (abs_path ps @ ''/'')" unfolding j by (simp add: is_abs_def)
  ultimately show ?thesis
    using assms(1) unfolding path_dir_def d Let_def by (simp add: path_clean_def abs_path_join)
qed

end
