(* ===== verification/NetIP.thy ===== *)
theory NetIP
  imports Strconv Filepath
begin

text \<open>
  IP addresses as packages \<open>net\<close> and \<open>net/netip\<close> read and print them: \<open>netip.ParseAddr\<close>,
  \<open>netip.ParsePrefix\<close>, \<open>net.ParseIP\<close> with \<open>To4\<close>, and the text form of an IPv6 address.
  An IPv4 address is its four bytes, an IPv6 address its eight 16-bit groups and its
  zone.
\<close>

datatype addr = V4 "nat list" | V6 "nat list" string

section \<open>Reading\<close>

definition parse_v4_field :: "string \<Rightarrow> nat option" where
  "parse_v4_field f =
     (if f = [] \<or> (1 < length f \<and> hd f = CHR ''0'') then None
      else case digits_value 0 f of
        None \<Rightarrow> None
      | Some n \<Rightarrow> if n \<le> 255 then Some n else None)"

definition parse_v4 :: "string \<Rightarrow> nat list option" where
  "parse_v4 s =
     (let fs = map parse_v4_field (split_on CHR ''.'' s)
      in if length fs = 4 \<and> None \<notin> set fs then Some (map the fs) else None)"

definition hex_val :: "char \<Rightarrow> nat option" where
  "hex_val c =
     (let b = (of_char c :: nat)
      in if 48 \<le> b \<and> b \<le> 57 then Some (b - 48)
         else if 97 \<le> b \<and> b \<le> 102 then Some (b - 97 + 10)
         else if 65 \<le> b \<and> b \<le> 70 then Some (b - 65 + 10)
         else None)"

text \<open>The leading hexadecimal digits: their value, their number, the rest.\<close>

fun hex_run :: "nat \<Rightarrow> nat \<Rightarrow> string \<Rightarrow> nat \<times> nat \<times> string" where
  "hex_run acc n [] = (acc, n, [])"
| "hex_run acc n (c # cs) =
     (case hex_val c of
        None \<Rightarrow> (acc, n, c # cs)
      | Some d \<Rightarrow> hex_run (16 * acc + d) (Suc n) cs)"

lemma hex_run_length: "hex_run acc n s = (a, m, rest) \<Longrightarrow> length rest + m = length s + n"
  by (induction acc n s rule: hex_run.induct) (auto split: option.splits)

text \<open>
  The loop of \<open>parseIPv6\<close>: the groups read so far, the position of the \<open>::\<close> if one was
  seen, what is left to read.
\<close>

function v6_groups :: "nat list \<Rightarrow> nat option \<Rightarrow> string \<Rightarrow> (nat list \<times> nat option) option" where
  "v6_groups gs ell s =
     (if 8 \<le> length gs then (if s = [] then Some (gs, ell) else None)
      else case hex_run 0 0 s of (acc, off, rest) \<Rightarrow>
        if off = 0 \<or> 4 < off then None
        else if rest \<noteq> [] \<and> hd rest = CHR ''.'' then
          (if (ell = None \<and> length gs \<noteq> 6) \<or> 6 < length gs then None
           else case parse_v4 s of
             None \<Rightarrow> None
           | Some b \<Rightarrow>
               Some (gs @ [256 * (b ! 0) + b ! 1, 256 * (b ! 2) + b ! 3], ell))
        else if rest = [] then Some (gs @ [acc], ell)
        else if hd rest \<noteq> CHR '':'' \<or> length rest = 1 then None
        else if hd (tl rest) = CHR '':'' then
          (if ell \<noteq> None then None
           else if tl (tl rest) = [] then Some (gs @ [acc], Some (length gs + 1))
           else v6_groups (gs @ [acc]) (Some (length gs + 1)) (tl (tl rest)))
        else v6_groups (gs @ [acc]) ell (tl rest))"
  by pat_completeness auto
termination
  by (relation "measure (\<lambda>(gs, ell, s). length s)") (auto dest!: hex_run_length [OF sym])

declare v6_groups.simps [simp del]

definition parse_v6 :: "string \<Rightarrow> addr option" where
  "parse_v6 input =
     (let (s, zone) = (case cut input ''%'' of None \<Rightarrow> (input, None) | Some (a, z) \<Rightarrow> (a, Some z));
          z = (case zone of None \<Rightarrow> [] | Some w \<Rightarrow> w)
      in if zone = Some [] then None
         else if s = ''::'' then Some (V6 (replicate 8 0) z)
         else case (if has_prefix s ''::'' then v6_groups [] (Some 0) (drop 2 s)
                    else v6_groups [] None s) of
           None \<Rightarrow> None
         | Some (gs, ell) \<Rightarrow>
             (case ell of
                None \<Rightarrow> if length gs = 8 then Some (V6 gs z) else None
              | Some e \<Rightarrow>
                  if length gs < 8
                  then Some (V6 (take e gs @ replicate (8 - length gs) 0 @ drop e gs) z)
                  else None))"

text \<open>\<open>netip.ParseAddr\<close>: the first of \<open>.\<close>, \<open>:\<close> and \<open>%\<close> in the string decides.\<close>

fun parse_addr_as :: "string \<Rightarrow> string \<Rightarrow> addr option" where
  "parse_addr_as s [] = None"
| "parse_addr_as s (c # cs) =
     (if c = CHR ''.'' then map_option V4 (parse_v4 s)
      else if c = CHR '':'' then parse_v6 s
      else if c = CHR ''%'' then None
      else parse_addr_as s cs)"

definition parse_addr :: "string \<Rightarrow> addr option" where
  "parse_addr s = parse_addr_as s s"

definition is4 :: "addr \<Rightarrow> bool" where
  "is4 a = (case a of V4 _ \<Rightarrow> True | V6 _ _ \<Rightarrow> False)"

definition zone_of :: "addr \<Rightarrow> string" where
  "zone_of a = (case a of V4 _ \<Rightarrow> [] | V6 _ z \<Rightarrow> z)"

text \<open>\<open>ip.To4() != nil\<close>: an IPv4 address, also one mapped into IPv6.\<close>

definition to4 :: "addr \<Rightarrow> bool" where
  "to4 a = (case a of V4 _ \<Rightarrow> True | V6 gs _ \<Rightarrow> take 6 gs = [0, 0, 0, 0, 0, 65535])"

text \<open>\<open>net.ParseIP\<close>: no zones.\<close>

definition parse_ip :: "string \<Rightarrow> addr option" where
  "parse_ip s =
     (case parse_addr s of
        None \<Rightarrow> None
      | Some a \<Rightarrow> if zone_of a = [] then Some a else None)"

text \<open>
  \<open>netip.ParsePrefix\<close>: the address before the last slash, without a zone, and a length
  of plain digits with no leading zero, at most 32 or 128.
\<close>

definition parse_prefix :: "string \<Rightarrow> (addr \<times> nat) option" where
  "parse_prefix s =
     (let ps = split_on CHR ''/'' s; bits = last ps; a = join ''/'' (butlast ps)
      in if length ps < 2 then None
         else case parse_addr a of
           None \<Rightarrow> None
         | Some ip \<Rightarrow>
             if zone_of ip \<noteq> [] \<or> bits = [] \<or> \<not> list_all is_digit bits
                \<or> (1 < length bits \<and> hd bits = CHR ''0'') then None
             else case digits_value 0 bits of
               None \<Rightarrow> None
             | Some n \<Rightarrow> if n \<le> (if is4 ip then 32 else 128) then Some (ip, n) else None)"

section \<open>Printing\<close>

definition hex_digit :: "nat \<Rightarrow> char" where
  "hex_digit n = (if n < 10 then char_of (48 + n) else char_of (87 + n))"

fun hex_nat :: "nat \<Rightarrow> string" where
  "hex_nat n = (if n < 16 then [hex_digit n] else hex_nat (n div 16) @ [hex_digit (n mod 16)])"

declare hex_nat.simps [simp del]

fun zero_run :: "nat list \<Rightarrow> nat" where
  "zero_run (0 # gs) = Suc (zero_run gs)"
| "zero_run _ = 0"

text \<open>The first longest run of zero groups: where it starts and its length.\<close>

fun longest_zeros :: "nat \<Rightarrow> nat list \<Rightarrow> nat \<times> nat \<Rightarrow> nat \<times> nat" where
  "longest_zeros i [] best = best"
| "longest_zeros i (g # gs) best =
     (let l = zero_run (g # gs)
      in longest_zeros (Suc i) gs (if 2 \<le> l \<and> snd best < l then (i, l) else best))"

definition format_v6 :: "nat list \<Rightarrow> string" where
  "format_v6 gs =
     (case longest_zeros 0 gs (0, 0) of (start, l) \<Rightarrow>
        if l = 0 then join '':'' (map hex_nat gs)
        else join '':'' (map hex_nat (take start gs)) @ ''::''
             @ join '':'' (map hex_nat (drop (start + l) gs)))"

section \<open>What an address is written with\<close>

definition addr_char :: "char \<Rightarrow> bool" where
  "addr_char c \<longleftrightarrow> hex_val c \<noteq> None \<or> c = CHR ''.'' \<or> c = CHR '':''"

lemma is_digit_addr: "is_digit c \<Longrightarrow> addr_char c"
  by (auto simp: addr_char_def hex_val_def is_digit_def digit_val_def Let_def split: if_splits)

lemma set_join_subset: "set (join sep ws) \<subseteq> set sep \<union> (\<Union>w \<in> set ws. set w)"
  by (induction sep ws rule: join.induct) auto

lemma set_split_on: "set s \<subseteq> insert c (\<Union>w \<in> set (split_on c s). set w)"
  using set_join_subset [of "[c]" "split_on c s"] by (simp add: join_split_on)

lemma parse_v4_chars:
  assumes "parse_v4 s = Some b"
  shows "list_all addr_char s"
proof -
  have "None \<notin> set (map parse_v4_field (split_on CHR ''.'' s))"
    using assms by (auto simp: parse_v4_def Let_def split: if_splits)
  then have "list_all is_digit f" if "f \<in> set (split_on CHR ''.'' s)" for f
  proof -
    have "parse_v4_field f \<noteq> None" using \<open>None \<notin> _\<close> that by (metis imageI image_set)
    then obtain n where "digits_value 0 f = Some n"
      by (auto simp: parse_v4_field_def split: if_splits option.splits)
    then show ?thesis by (rule digits_value_digits)
  qed
  then have "addr_char c" if "f \<in> set (split_on CHR ''.'' s)" "c \<in> set f" for f c
    using that is_digit_addr by (simp add: list_all_iff)
  moreover have "addr_char CHR ''.''" by (simp add: addr_char_def)
  ultimately show ?thesis
    using set_split_on [of s "CHR ''.''"] by (auto simp: list_all_iff)
qed

lemma hex_run_chars:
  "hex_run acc n s = (a, m, rest) \<Longrightarrow> \<exists>p. s = p @ rest \<and> list_all addr_char p"
proof (induction acc n s rule: hex_run.induct)
  case (2 acc n c cs)
  show ?case
  proof (cases "hex_val c")
    case None
    with 2 show ?thesis by auto
  next
    case (Some d)
    with 2 obtain p where "cs = p @ rest" "list_all addr_char p" by auto
    moreover have "addr_char c" using Some by (simp add: addr_char_def)
    ultimately show ?thesis by (intro exI [of _ "c # p"]) simp
  qed
qed simp

lemma v6_groups_chars: "v6_groups gs ell s = Some r \<Longrightarrow> list_all addr_char s"
proof (induction gs ell s rule: v6_groups.induct)
  case (1 gs ell s)
  obtain acc off rest where h: "hex_run 0 0 s = (acc, off, rest)" by (metis prod.exhaust)
  from hex_run_chars [OF h] obtain p where p: "s = p @ rest" "list_all addr_char p" by blast
  show ?case
  proof (cases "8 \<le> length gs")
    case True
    with "1.prems" show ?thesis by (simp add: v6_groups.simps split: if_splits)
  next
    case False
    note step = "1.prems" [unfolded v6_groups.simps [of gs ell s]] h False
    have off: "\<not> (off = 0 \<or> 4 < off)" using step by (auto split: if_splits)
    show ?thesis
    proof (cases "rest = [] \<or> hd rest = CHR ''.''")
      case True
      then show ?thesis
      proof
        assume "rest = []"
        with p show ?thesis by simp
      next
        assume "hd rest = CHR ''.''"
        with step off p show ?thesis
          by (cases "rest = []") (auto split: if_splits option.splits dest: parse_v4_chars)
      qed
    next
      case rest: False
      then obtain cs where cs: "rest = CHR '':'' # cs" "cs \<noteq> []"
        using step off by (cases rest) (auto split: if_splits)
      have colon: "addr_char CHR '':''" by (simp add: addr_char_def)
      show ?thesis
      proof (cases "hd cs = CHR '':''")
        case True
        then obtain ds where ds: "cs = CHR '':'' # ds" using cs(2) by (cases cs) auto
        have "ds = [] \<or> (\<exists>e. v6_groups (gs @ [acc]) e ds = Some r)"
          using step off cs ds by (auto split: if_splits)
        moreover have "list_all addr_char ds" if "v6_groups (gs @ [acc]) e ds = Some r" for e
          using step off cs ds rest that "1.IH"(1) [OF False h [symmetric]] by (auto split: if_splits)
        ultimately show ?thesis using p cs ds colon by auto
      next
        case False
        then have "v6_groups (gs @ [acc]) ell cs = Some r" using step off cs by (auto split: if_splits)
        then have "list_all addr_char cs"
          using off cs rest False "1.IH"(2) [OF \<open>\<not> 8 \<le> length gs\<close> h [symmetric]] by auto
        with p cs colon show ?thesis by simp
      qed
    qed
  qed
qed

lemma parse_addr_chars:
  assumes "parse_addr s = Some a" "zone_of a = []"
  shows "list_all addr_char s"
proof -
  have v4: "list_all addr_char s" if "map_option V4 (parse_v4 s) = Some a"
    using that parse_v4_chars by auto
  have v6: "list_all addr_char s" if p: "parse_v6 s = Some a"
  proof (cases "cut s ''%''")
    case None
    have colons: "addr_char CHR '':''" by (simp add: addr_char_def)
    from p None consider "s = ''::''" | r where "has_prefix s ''::''" "v6_groups [] (Some 0) (drop 2 s) = Some r"
      | r where "v6_groups [] None s = Some r"
      by (auto simp: parse_v6_def Let_def split: if_splits option.splits)
    then show ?thesis
    proof cases
      case 2
      then obtain t where "s = ''::'' @ t" by (auto simp: has_prefix_iff)
      with v6_groups_chars [OF 2(2)] colons show ?thesis by simp
    qed (use colons v6_groups_chars in auto)
  next
    case (Some w)
    obtain u z where w: "w = (u, z)" by force
    from p Some w have "zone_of a = z" "z \<noteq> []"
      by (auto simp: parse_v6_def Let_def zone_of_def split: if_splits option.splits)
    with assms(2) show ?thesis by simp
  qed
  have "list_all addr_char s" if "parse_addr_as s t = Some a" for t
    using that by (induction t) (auto split: if_splits intro: v4 v6)
  with assms(1) show ?thesis by (simp add: parse_addr_def)
qed

lemma parse_prefix_chars:
  assumes "parse_prefix s = Some r"
  shows "list_all (\<lambda>c. addr_char c \<or> c = CHR ''/'') s"
proof -
  let ?ps = "split_on CHR ''/'' s"
  let ?a = "join ''/'' (butlast ?ps)" and ?b = "last ?ps"
  from assms obtain ip where ip: "parse_addr ?a = Some ip" "zone_of ip = []" "list_all is_digit ?b" "2 \<le> length ?ps"
    by (auto simp: parse_prefix_def Let_def split: if_splits option.splits)
  have "butlast ?ps \<noteq> []" using ip(4) by (cases ?ps rule: rev_cases) auto
  moreover have "?ps = butlast ?ps @ [?b]" using ip(4) by (intro append_butlast_last_id [symmetric]) auto
  ultimately have "s = ?a @ ''/'' @ ?b"
    using join_split_on [of "CHR ''/''" s] join_snoc [of "butlast ?ps" "''/''" ?b] by metis
  with parse_addr_chars [OF ip(1,2)] ip(3) is_digit_addr show ?thesis
    by (auto simp: list_all_iff) (metis UnE list.set_intros(1) set_append set_ConsD)
qed

end
