(* ===== verification/Limiter.thy ===== *)
theory Limiter
  imports NetIP
begin

text \<open>
  The limiter of failed sign-ins in package \<open>auth\<close> (internal/auth/auth.go, from
  \<open>failWindow\<close> on). Times are nanoseconds since the Unix epoch, as \<^typ>\<open>int\<close>; an
  operation reads the clock once, as its argument \<open>now\<close>. Every operation holds the
  limiter's mutex for its whole body, so it is one step. What an address costs the table
  and what a run of guesses costs an address are the theorems at the end.
\<close>

definition second :: int where "second = 10 ^ 9"

section \<open>The limiter\<close>

definition fail_window :: int where "fail_window = 15 * 60 * second"
definition free_attempts :: nat where "free_attempts = 5"
definition max_sources :: nat where "max_sources = 4096"

text \<open>\<open>time.Time{}\<close>, the zero time: the start of the year 1.\<close>

definition zero_time :: int where "zero_time = - 62135596800 * second"

record attempts =
  count :: nat
  last_at :: int
  until :: int

text \<open>
  \<open>map[string]*attempts\<close>, as an association list: its order is the order in which a
  \<open>range\<close> visits the map, which Go leaves open, so every statement holds for any order.
\<close>

type_synonym limiter = "(string \<times> attempts) list"

definition bucket :: "string \<Rightarrow> string" where
  "bucket source =
     (case parse_ip source of
        None \<Rightarrow> source
      | Some ip \<Rightarrow>
          if to4 ip then source
          else case ip of
            V4 _ \<Rightarrow> source
          | V6 gs _ \<Rightarrow> format_v6 (take 4 gs @ [0, 0, 0, 0]) @ ''/64'')"

text \<open>\<open>allow\<close> forgets a record older than the window; the result is the time to wait.\<close>

definition allow_key :: "int \<Rightarrow> string \<Rightarrow> limiter \<Rightarrow> limiter \<times> bool \<times> int" where
  "allow_key now key tab =
     (case map_of tab key of
        None \<Rightarrow> (tab, True, 0)
      | Some a \<Rightarrow>
          if now - last_at a > fail_window then (AList.delete key tab, True, 0)
          else if until a - now > 0 then (tab, False, until a - now)
          else (tab, True, 0))"

text \<open>
  The loop of \<open>makeRoom\<close>. The empty string is its "none yet"; \<open>l.by[oldest]\<close> of a key
  that is not there is a nil dereference, \<open>None\<close>.
\<close>

fun sweep :: "int \<Rightarrow> (string \<times> attempts) list \<Rightarrow> string \<Rightarrow> limiter \<Rightarrow> (string \<times> limiter) option"
where
  "sweep now [] oldest tab = Some (oldest, tab)"
| "sweep now ((key, a) # rest) oldest tab =
     (if now - last_at a > fail_window then sweep now rest oldest (AList.delete key tab)
      else if oldest = [] then sweep now rest key tab
      else case map_of tab oldest of
        None \<Rightarrow> None
      | Some o' \<Rightarrow>
          sweep now rest (if last_at a < last_at o' then key else oldest) tab)"

definition make_room :: "int \<Rightarrow> limiter \<Rightarrow> limiter option" where
  "make_room now tab =
     (if length tab < max_sources then Some tab
      else case sweep now tab [] tab of
        None \<Rightarrow> None
      | Some (oldest, tab') \<Rightarrow>
          Some (if max_sources \<le> length tab' \<and> oldest \<noteq> [] then AList.delete oldest tab' else tab'))"

text \<open>\<open>a.count++\<close>, \<open>a.last\<close>, and the wait that doubles from two seconds to 64.\<close>

definition charge :: "int \<Rightarrow> attempts \<Rightarrow> attempts" where
  "charge now a =
     (let n = Suc (count a)
      in a\<lparr>count := n, last_at := now,
           until := (if free_attempts < n
                     then now + 2 ^ min (n - free_attempts) 6 * second else until a)\<rparr>)"

definition fresh_attempts :: attempts where
  "fresh_attempts = \<lparr>count = 0, last_at = zero_time, until = zero_time\<rparr>"

definition failed_key :: "int \<Rightarrow> string \<Rightarrow> limiter \<Rightarrow> limiter option" where
  "failed_key now key tab =
     (case map_of tab key of
        None \<Rightarrow>
          (case make_room now tab of
             None \<Rightarrow> None
           | Some tab' \<Rightarrow> Some (AList.update key (charge now fresh_attempts) tab'))
      | Some a \<Rightarrow>
          Some (AList.update key
            (charge now (if now - last_at a > fail_window then fresh_attempts else a)) tab))"

definition allow :: "int \<Rightarrow> string \<Rightarrow> limiter \<Rightarrow> limiter \<times> bool \<times> int" where
  "allow now source tab = allow_key now (bucket source) tab"

definition failed :: "int \<Rightarrow> string \<Rightarrow> limiter \<Rightarrow> limiter option" where
  "failed now source tab = failed_key now (bucket source) tab"

definition attempt :: "int \<Rightarrow> string \<Rightarrow> limiter \<Rightarrow> (limiter \<times> bool \<times> int) option" where
  "attempt now source tab =
     (case allow_key now (bucket source) tab of
        (tab', ok, wait) \<Rightarrow>
          if ok then map_option (\<lambda>tab''. (tab'', ok, wait)) (failed_key now (bucket source) tab')
          else Some (tab', ok, wait))"

definition succeeded :: "string \<Rightarrow> limiter \<Rightarrow> limiter" where
  "succeeded source tab = AList.delete (bucket source) tab"

subsection \<open>The table stays small\<close>

definition limiter_ok :: "limiter \<Rightarrow> bool" where
  "limiter_ok tab \<longleftrightarrow> distinct (map fst tab) \<and> [] \<notin> akeys tab \<and> length tab \<le> max_sources"

lemma limiter_ok_empty: "limiter_ok []"
  by (simp add: limiter_ok_def)

lemma limiter_ok_delete: "limiter_ok tab \<Longrightarrow> limiter_ok (AList.delete k tab)"
  using length_delete_le [of k tab] by (auto simp: limiter_ok_def distinct_delete)

text \<open>
  What the sweep keeps: the table only shrinks, its oldest key is in the table whenever
  there is one, and it never runs into the nil dereference.
\<close>

lemma sweep_total:
  assumes "distinct (map fst rest)" "akeys rest \<subseteq> akeys tab"
    and "oldest \<noteq> [] \<longrightarrow> oldest \<in> akeys tab \<and> oldest \<notin> akeys rest"
    and "limiter_ok tab"
  shows "\<exists>o' tab'. sweep now rest oldest tab = Some (o', tab') \<and> limiter_ok tab'
           \<and> length tab' \<le> length tab \<and> (o' \<noteq> [] \<longrightarrow> o' \<in> akeys tab')
           \<and> (rest \<noteq> [] \<and> oldest = [] \<and> length tab' = length tab \<longrightarrow> o' \<noteq> [])
           \<and> (oldest \<noteq> [] \<longrightarrow> o' \<noteq> [])"
  using assms
proof (induction now rest oldest tab rule: sweep.induct)
  case (1 now oldest tab')
  then show ?case by auto
next
  case (2 now key a rest oldest tab)
  have key_in: "key \<in> akeys tab" using 2(5) by simp
  then have key_ne: "key \<noteq> []" using 2(7) by (metis limiter_ok_def)
  have rest: "distinct (map fst rest)" "key \<notin> akeys rest"
    using 2(4) by (auto simp: akeys_def)
  consider (old) "now - last_at a > fail_window"
    | (first) "\<not> now - last_at a > fail_window" "oldest = []"
    | (next') "\<not> now - last_at a > fail_window" "oldest \<noteq> []" by blast
  then show ?case
  proof cases
    case old
    have sub: "akeys rest \<subseteq> akeys (AList.delete key tab)"
      using rest(2) 2(5) by auto
    have "oldest \<noteq> [] \<longrightarrow> oldest \<in> akeys (AList.delete key tab) \<and> oldest \<notin> akeys rest"
      using 2(6) by auto
    from 2(1) [OF old rest(1) sub this limiter_ok_delete [OF 2(7)]]
    show ?thesis
      using old length_delete_less [OF key_in]
      by (elim exE conjE) (intro exI conjI, simp, auto)
  next
    case first
    have cur: "key \<noteq> [] \<longrightarrow> key \<in> akeys tab \<and> key \<notin> akeys rest" using key_in rest(2) by simp
    have sub: "akeys rest \<subseteq> akeys tab" using 2(5) by simp
    from 2(2) [OF first rest(1) sub cur 2(7)] show ?thesis
      using first key_ne by (elim exE conjE) (intro exI conjI, simp, auto)
  next
    case next'
    have "oldest \<in> akeys tab" using 2(6) next'(2) by simp
    then obtain p where p: "map_of tab oldest = Some p"
      by (elim map_of_akeys [THEN exE])
    let ?o = "if last_at a < last_at p then key else oldest"
    have cur: "?o \<noteq> [] \<longrightarrow> ?o \<in> akeys tab \<and> ?o \<notin> akeys rest"
      using key_in rest(2) 2(6) next'(2) by auto
    have sub: "akeys rest \<subseteq> akeys tab" using 2(5) by simp
    have ne: "?o \<noteq> []" using key_ne next' by simp
    from 2(3) [OF next' p rest(1) sub cur 2(7)] show ?thesis
      using next' p ne by (elim exE conjE) (intro exI conjI, simp, auto)
  qed
qed

lemma make_room_ok:
  assumes "limiter_ok tab"
  shows "\<exists>tab'. make_room now tab = Some tab' \<and> limiter_ok tab' \<and> length tab' < max_sources"
proof (cases "length tab < max_sources")
  case True
  then show ?thesis using assms by (simp add: make_room_def)
next
  case False
  with assms have full: "length tab = max_sources" by (simp add: limiter_ok_def)
  then have "tab \<noteq> []" by (auto simp: max_sources_def)
  from sweep_total [of tab tab "[]" now] assms
  obtain o' tab' where s: "sweep now tab [] tab = Some (o', tab')" "limiter_ok tab'"
    "length tab' \<le> length tab" "o' \<noteq> [] \<longrightarrow> o' \<in> akeys tab'"
    "length tab' = length tab \<longrightarrow> o' \<noteq> []"
    using \<open>tab \<noteq> []\<close> by (auto simp: limiter_ok_def)
  then show ?thesis
    using False full length_delete_less [of o' tab'] limiter_ok_delete [OF s(2)]
    by (cases "max_sources \<le> length tab'") (simp_all add: make_room_def)
qed

lemma limiter_ok_update:
  assumes "limiter_ok tab" "k \<noteq> []" "k \<in> akeys tab \<or> length tab < max_sources"
  shows "limiter_ok (AList.update k v tab)"
  using assms by (auto simp: limiter_ok_def distinct_update length_update)

lemma bucket_not_empty: "source \<noteq> [] \<Longrightarrow> bucket source \<noteq> []"
  by (auto simp: bucket_def split: option.splits addr.splits)

lemma allow_key_ok: "limiter_ok tab \<Longrightarrow> limiter_ok (fst (allow_key now key tab))"
  by (auto simp: allow_key_def limiter_ok_delete split: option.splits)

lemma failed_key_ok:
  assumes "limiter_ok tab" "key \<noteq> []"
  shows "\<exists>tab'. failed_key now key tab = Some tab' \<and> limiter_ok tab'"
proof (cases "map_of tab key")
  case None
  obtain t where t: "make_room now tab = Some t" "limiter_ok t" "length t < max_sources"
    using make_room_ok [OF assms(1)] by blast
  then show ?thesis
    using None limiter_ok_update [OF t(2) assms(2)] by (simp add: failed_key_def)
next
  case (Some a)
  then have "key \<in> akeys tab" using map_of_None_akeys [of tab key] by auto
  then show ?thesis
    using Some limiter_ok_update [OF assms] by (simp add: failed_key_def)
qed

text \<open>What a caller does with the limiter, as a sequence of operations.\<close>

datatype limiter_op =
  LAllow int string | LAttempt int string | LFailed int string | LSucceeded string

fun limiter_step :: "limiter_op \<Rightarrow> limiter \<Rightarrow> limiter option" where
  "limiter_step (LAllow now s) tab = Some (fst (allow now s tab))"
| "limiter_step (LAttempt now s) tab = map_option fst (attempt now s tab)"
| "limiter_step (LFailed now s) tab = failed now s tab"
| "limiter_step (LSucceeded s) tab = Some (succeeded s tab)"

fun limiter_run :: "limiter_op list \<Rightarrow> limiter \<Rightarrow> limiter option" where
  "limiter_run [] tab = Some tab"
| "limiter_run (x # xs) tab =
     (case limiter_step x tab of None \<Rightarrow> None | Some tab' \<Rightarrow> limiter_run xs tab')"

fun op_source :: "limiter_op \<Rightarrow> string" where
  "op_source (LAllow _ s) = s"
| "op_source (LAttempt _ s) = s"
| "op_source (LFailed _ s) = s"
| "op_source (LSucceeded s) = s"

lemma limiter_step_ok:
  assumes "limiter_ok tab" "op_source x \<noteq> []"
  shows "\<exists>tab'. limiter_step x tab = Some tab' \<and> limiter_ok tab'"
proof (cases x)
  case (LAllow now s)
  then show ?thesis using allow_key_ok [OF assms(1)] by (simp add: allow_def)
next
  case (LAttempt now s)
  obtain t ok w where a: "allow_key now (bucket s) tab = (t, ok, w)" by (cases "allow_key now (bucket s) tab")
  with allow_key_ok [OF assms(1), of now "bucket s"] have "limiter_ok t" by simp
  with failed_key_ok [of t "bucket s" now] bucket_not_empty [of s] assms(2) LAttempt a
  show ?thesis by (auto simp: attempt_def)
next
  case (LFailed now s)
  then show ?thesis
    using failed_key_ok [OF assms(1), of "bucket s" now] bucket_not_empty [of s] assms(2)
    by (simp add: failed_def)
next
  case (LSucceeded s)
  then show ?thesis using limiter_ok_delete [OF assms(1)] by (simp add: succeeded_def)
qed

lemma limiter_run_ok:
  assumes "limiter_ok tab" "[] \<notin> op_source ` set xs"
  shows "\<exists>tab'. limiter_run xs tab = Some tab' \<and> limiter_ok tab'"
  using assms
proof (induction xs arbitrary: tab)
  case (Cons x xs)
  from limiter_step_ok [OF Cons.prems(1), of x] Cons.prems(2)
  obtain t where "limiter_step x tab = Some t" "limiter_ok t" by auto
  with Cons.IH [of t] Cons.prems(2) show ?case by simp
qed simp

text \<open>
  Whatever addresses come and in whatever order, the limiter remembers at
  most 4096 of them, each once, and never fails on the way.
\<close>

theorem limiter_bounded:
  assumes "[] \<notin> op_source ` set xs"
  shows "\<exists>tab. limiter_run xs [] = Some tab \<and> length tab \<le> 4096 \<and> distinct (map fst tab)"
  using limiter_run_ok [OF limiter_ok_empty assms]
  by (auto simp: limiter_ok_def max_sources_def)

theorem limiter_bounded_witness:
  "\<exists>tab. limiter_run [LAttempt 5 ''a'', LFailed 6 ''b'', LSucceeded ''a''] [] = Some tab
     \<and> length tab \<le> 4096 \<and> distinct (map fst tab)"
  by (rule limiter_bounded) simp

subsection \<open>Guessing costs time\<close>

lemma allow_key_clear:
  "map_of tab key = Some a \<Longrightarrow> now - last_at a \<le> fail_window \<Longrightarrow> until a \<le> now
     \<Longrightarrow> allow_key now key tab = (tab, True, 0)"
  by (simp add: allow_key_def)

lemma failed_key_charges:
  "map_of tab key = Some a \<Longrightarrow> now - last_at a \<le> fail_window
     \<Longrightarrow> failed_key now key tab = Some (AList.update key (charge now a) tab)"
  by (simp add: failed_key_def)

lemma delay_bound: "2 ^ min n 6 * second \<le> 64 * second"
proof -
  have "(2::int) ^ min n 6 \<le> 2 ^ 6" by (rule power_increasing) auto
  then show ?thesis by (simp add: second_def)
qed

lemma delay_in_window: "2 ^ min n 6 * second \<le> fail_window"
  using delay_bound [of n] by (simp add: fail_window_def second_def)

text \<open>
  Once an address has five failures on record, an attempt that is let
  through closes the door behind it: until the doubled delay is over (two seconds after
  the sixth, at most 64), every further attempt is refused, is told exactly how long is
  left, and changes nothing.
\<close>

theorem attempt_backs_off:
  assumes rec: "map_of tab (bucket s) = Some a" "now - last_at a \<le> fail_window"
    and five: "free_attempts \<le> count a" "until a \<le> now"
    and later: "now \<le> now'" "now' < now + 2 ^ min (Suc (count a) - free_attempts) 6 * second"
  shows "\<exists>tab'. attempt now s tab = Some (tab', True, 0)
      \<and> attempt now' s tab' =
          Some (tab', False, now + 2 ^ min (Suc (count a) - free_attempts) 6 * second - now')"
proof -
  let ?tab = "AList.update (bucket s) (charge now a) tab"
  have "attempt now s tab = Some (?tab, True, 0)"
    using allow_key_clear [OF rec five(2)] failed_key_charges [OF rec] by (simp add: attempt_def)
  moreover have "map_of ?tab (bucket s) = Some (charge now a)" by (simp add: update_conv')
  then have "allow_key now' (bucket s) ?tab
      = (?tab, False, now + 2 ^ min (Suc (count a) - free_attempts) 6 * second - now')"
    using later five delay_in_window [of "Suc (count a) - free_attempts"]
    by (simp add: allow_key_def charge_def Let_def)
  ultimately show ?thesis by (simp add: attempt_def)
qed

theorem attempt_backs_off_witness:
  "\<exists>tab'. attempt 0 ''x'' [(''x'', \<lparr>count = 5, last_at = 0, until = zero_time\<rparr>)] = Some (tab', True, 0)
      \<and> attempt 1 ''x'' tab' = Some (tab', False, 2 * second - 1)"
  using attempt_backs_off
    [of "[(''x'', \<lparr>count = 5, last_at = 0, until = zero_time\<rparr>)]" "''x''"
        "\<lparr>count = 5, last_at = 0, until = zero_time\<rparr>" 0 1]
  by (simp add: bucket_def parse_ip_def parse_addr_def free_attempts_def fail_window_def
      second_def zero_time_def)

text \<open>\<open>n\<close> attempts of one address before anything else happens, the clock standing still.\<close>

fun burst :: "nat \<Rightarrow> int \<Rightarrow> string \<Rightarrow> limiter \<Rightarrow> bool list" where
  "burst 0 now s tab = []"
| "burst (Suc n) now s tab =
     (case attempt now s tab of
        None \<Rightarrow> []
      | Some (tab', ok, w) \<Rightarrow> ok # burst n now s tab')"

lemma burst_closed:
  "map_of tab (bucket s) = Some a \<Longrightarrow> last_at a = now \<Longrightarrow> now < until a
     \<Longrightarrow> burst n now s tab = replicate n False"
  by (induction n) (auto simp: attempt_def allow_key_def fail_window_def second_def)

lemma burst_open:
  assumes "map_of tab (bucket s) = Some a" "last_at a = now" "until a \<le> now"
    "count a \<le> free_attempts"
  shows "burst n now s tab =
    replicate (min n (Suc free_attempts - count a)) True
      @ replicate (n - (Suc free_attempts - count a)) False"
  using assms
proof (induction n arbitrary: tab a)
  case (Suc n)
  let ?tab = "AList.update (bucket s) (charge now a) tab"
  have a: "attempt now s tab = Some (?tab, True, 0)"
    using Suc.prems allow_key_clear [of tab "bucket s" a now]
      failed_key_charges [of tab "bucket s" a now]
    by (simp add: attempt_def fail_window_def second_def)
  have m: "map_of ?tab (bucket s) = Some (charge now a)" by (simp add: update_conv')
  show ?case
  proof (cases "count a = free_attempts")
    case True
    have "now < until (charge now a)"
      using True by (simp add: charge_def free_attempts_def second_def)
    with burst_closed [OF m] a True show ?thesis
      by (simp add: charge_def)
  next
    case False
    with Suc.IH [OF m] Suc.prems a show ?thesis
      by (simp add: charge_def Suc_diff_le)
  qed
qed simp

text \<open>
  Attempts are counted before the password is looked at, so a burst of
  simultaneous guesses from an address with no record gets six of them through, however
  many there are.
\<close>

theorem burst_lets_six_through:
  assumes "map_of tab (bucket s) = None" "limiter_ok tab" "s \<noteq> []" "zero_time \<le> now"
  shows "burst n now s tab = replicate (min n 6) True @ replicate (n - 6) False"
proof (cases n)
  case (Suc m)
  obtain t where t: "failed_key now (bucket s) tab = Some t"
    using failed_key_ok [OF assms(2) bucket_not_empty [OF assms(3)]] by blast
  then have mt: "map_of t (bucket s) = Some (charge now fresh_attempts)"
    using assms(1) by (auto simp: failed_key_def update_conv' split: option.splits)
  have a: "attempt now s tab = Some (t, True, 0)"
    using t assms(1) by (simp add: attempt_def allow_key_def)
  show ?thesis
    using burst_open [OF mt] Suc a assms(4)
    by (simp add: charge_def fresh_attempts_def free_attempts_def)
qed simp

theorem burst_lets_six_through_witness:
  "burst 100 0 ''10.0.0.9'' [] = replicate 6 True @ replicate 94 False"
  using burst_lets_six_through [of "[]" "''10.0.0.9''" 0 100] limiter_ok_empty
  by (simp add: zero_time_def second_def)

end
