(* ===== verification/Auth_Store.thy ===== *)
theory Auth_Store
  imports Limiter
begin

text \<open>
  The password store and the session tokens of package \<open>auth\<close> (internal/auth/auth.go).
  Third-party code and cryptography are arguments: \<open>id_key\<close> is \<open>argon2.IDKey\<close>, \<open>mac\<close> is
  HMAC-SHA256, and what \<open>crypto/rand\<close> returns is an input. \<open>Claim\<close> and \<open>SetPassword\<close>
  hold \<open>writeMu\<close> from the look to the write, so each is one step.
\<close>

type_synonym bytes = string

type_synonym id_key = "bytes \<Rightarrow> bytes \<Rightarrow> nat \<Rightarrow> nat \<Rightarrow> nat \<Rightarrow> nat \<Rightarrow> bytes"

definition session_ttl :: int where "session_ttl = 30 * 24 * 3600 * second"
definition min_password_length :: nat where "min_password_length = 8"
definition argon_time :: nat where "argon_time = 3"
definition argon_memory :: nat where "argon_memory = 64 * 1024"
definition argon_threads :: nat where "argon_threads = 4"
definition argon_key_len :: nat where "argon_key_len = 32"

record credentials =
  username :: string
  algorithm :: string
  salt :: bytes
  pw_hash :: bytes
  c_time :: nat
  c_memory :: nat
  c_threads :: nat
  updated :: int
  session_key :: bytes

definition no_credentials :: credentials where
  "no_credentials =
     \<lparr>username = [], algorithm = [], salt = [], pw_hash = [], c_time = 0, c_memory = 0,
      c_threads = 0, updated = zero_time, session_key = []\<rparr>"

text \<open>
  What stands at \<open>credentials.json\<close>: nothing, something that cannot be read, something
  that is no credentials, or credentials (JSON reads back what it wrote). Beside it, how
  many temporary files were left.
\<close>

datatype cred_file = Missing | Unreadable | Garbage | Holds credentials

record disk =
  cred_file :: cred_file
  temp_files :: nat

text \<open>The system calls of \<open>write\<close>, each of which the machine may refuse.\<close>

datatype write_call = MkdirAll | CreateTemp | WriteTemp | CloseTemp | RenameTemp | RemoveTemp

type_synonym faults = "write_call \<Rightarrow> bool"

datatype auth_error =
  PasswordTooShort | EmptyUsername | RandomFailed | AlreadyClaimed | WriteRefused write_call
| CannotRead | CannotParse

record store =
  creds :: credentials
  disk :: disk

text \<open>\<open>Open\<close>: a machine nobody has claimed has no file, and that is no error.\<close>

definition open_store :: "disk \<Rightarrow> auth_error + store" where
  "open_store d =
     (case cred_file d of
        Holds c \<Rightarrow> Inr \<lparr>creds = c, disk = d\<rparr>
      | Missing \<Rightarrow> Inr \<lparr>creds = no_credentials, disk = d\<rparr>
      | Garbage \<Rightarrow> Inl CannotParse
      | Unreadable \<Rightarrow> Inl CannotRead)"

definition needs_setup :: "store \<Rightarrow> bool" where
  "needs_setup s = (length (pw_hash (creds s)) = 0)"

text \<open>
  \<open>write\<close>: a temporary file of its own, renamed onto the real one. Every way out after
  the file was made removes it again, unless removing it is refused as well.
\<close>

definition drop_temp :: "faults \<Rightarrow> disk \<Rightarrow> disk" where
  "drop_temp flt d =
     (if flt RemoveTemp then d else d\<lparr>temp_files := temp_files d - 1\<rparr>)"

definition write_creds :: "faults \<Rightarrow> credentials \<Rightarrow> disk \<Rightarrow> disk \<times> auth_error option" where
  "write_creds flt c d =
     (if flt MkdirAll then (d, Some (WriteRefused MkdirAll))
      else if flt CreateTemp then (d, Some (WriteRefused CreateTemp))
      else
        let d1 = d\<lparr>temp_files := Suc (temp_files d)\<rparr>
        in if flt WriteTemp then (drop_temp flt d1, Some (WriteRefused WriteTemp))
           else if flt CloseTemp then (drop_temp flt d1, Some (WriteRefused CloseTemp))
           else if flt RenameTemp then (drop_temp flt d1, Some (WriteRefused RenameTemp))
           else (d\<lparr>cred_file := Holds c\<rparr>, None))"

text \<open>What \<open>crypto/rand\<close> gave for the salt and for the session key, or that it failed.\<close>

record randomness =
  r_salt :: "bytes option"
  r_key :: "bytes option"

definition set_password_locked ::
  "id_key \<Rightarrow> faults \<Rightarrow> randomness \<Rightarrow> int \<Rightarrow> string \<Rightarrow> string \<Rightarrow> store
     \<Rightarrow> store \<times> auth_error option" where
  "set_password_locked id_key flt r now user password s =
     (if rune_count password < min_password_length then (s, Some PasswordTooShort)
      else if user = [] then (s, Some EmptyUsername)
      else case r_salt r of None \<Rightarrow> (s, Some RandomFailed) | Some sl \<Rightarrow>
        (case r_key r of None \<Rightarrow> (s, Some RandomFailed) | Some key \<Rightarrow>
          (let c = \<lparr>username = user, algorithm = ''argon2id'', salt = sl,
                    pw_hash = id_key password sl argon_time argon_memory argon_threads argon_key_len,
                    c_time = argon_time, c_memory = argon_memory, c_threads = argon_threads,
                    updated = now, session_key = key\<rparr>
           in case write_creds flt c (disk s) of
                (d, Some e) \<Rightarrow> (s\<lparr>disk := d\<rparr>, Some e)
              | (d, None) \<Rightarrow> (s\<lparr>creds := c, disk := d\<rparr>, None))))"

definition set_password ::
  "id_key \<Rightarrow> faults \<Rightarrow> randomness \<Rightarrow> int \<Rightarrow> string \<Rightarrow> string \<Rightarrow> store
     \<Rightarrow> store \<times> auth_error option" where
  "set_password id_key flt r now user password s =
     set_password_locked id_key flt r now user password s"

definition claim ::
  "id_key \<Rightarrow> faults \<Rightarrow> randomness \<Rightarrow> int \<Rightarrow> string \<Rightarrow> string \<Rightarrow> store
     \<Rightarrow> store \<times> auth_error option" where
  "claim id_key flt r now user password s =
     (if \<not> needs_setup s then (s, Some AlreadyClaimed)
      else set_password_locked id_key flt r now user password s)"

text \<open>\<open>Check\<close>: both comparisons are made whatever the first one says.\<close>

definition check :: "id_key \<Rightarrow> string \<Rightarrow> string \<Rightarrow> store \<Rightarrow> bool" where
  "check id_key user password s =
     (let c = creds s
      in if length (pw_hash c) = 0 then False
         else let got = id_key password (salt c) (c_time c) (c_memory c) (c_threads c)
                          (length (pw_hash c));
                  name_ok = (user = username c);
                  hash_ok = (got = pw_hash c)
              in name_ok \<and> hash_ok)"

section \<open>Sessions\<close>

type_synonym mac = "bytes \<Rightarrow> string \<Rightarrow> nat list"

definition sign :: "mac \<Rightarrow> bytes \<Rightarrow> string \<Rightarrow> string" where
  "sign mac key payload = b64url (mac key payload)"

definition unix :: "int \<Rightarrow> int" where
  "unix now = now div second"

definition issue :: "mac \<Rightarrow> int \<Rightarrow> nat list \<Rightarrow> store \<Rightarrow> string" where
  "issue mac now nonce s =
     (let payload = format_int (unix (now + session_ttl)) @ '':'' @ b64url nonce
      in payload @ ''.'' @ sign mac (session_key (creds s)) payload)"

definition valid :: "mac \<Rightarrow> int \<Rightarrow> string \<Rightarrow> store \<Rightarrow> bool" where
  "valid mac now token s =
     (case cut token ''.'' of
        None \<Rightarrow> False
      | Some (payload, m) \<Rightarrow>
          let key = session_key (creds s)
          in if length key = 0 then False
             else if m \<noteq> sign mac key payload then False
             else case cut payload '':'' of
               None \<Rightarrow> False
             | Some (expiry, _) \<Rightarrow>
                 (case parse_int64 expiry of
                    (_, Some _) \<Rightarrow> False
                  | (seconds, None) \<Rightarrow> unix now < seconds))"

lemma cut_char: "c \<notin> set a \<Longrightarrow> cut (a @ c # b) [c] = Some (a, b)"
  by (induction a) (auto simp: cut.simps [of "_ # _"])

lemma format_int_plain [simp]:
  "CHR ''.'' \<notin> set (format_int i)" "CHR '':'' \<notin> set (format_int i)"
  by (auto dest!: format_int_chars simp: is_digit_def digit_val_def)

lemma cut_token:
  "cut (issue mac now nonce s) ''.'' =
     Some (format_int (unix (now + session_ttl)) @ '':'' @ b64url nonce,
           sign mac (session_key (creds s))
             (format_int (unix (now + session_ttl)) @ '':'' @ b64url nonce))"
  using cut_char [of "CHR ''.''" "format_int (unix (now + session_ttl)) @ '':'' @ b64url nonce"]
  by (simp add: issue_def Let_def b64url_plain)

lemma valid_issue:
  assumes "in_int64 (unix (now + session_ttl))"
  shows "valid mac later (issue mac now nonce s) s' \<longleftrightarrow>
    session_key (creds s') \<noteq> []
    \<and> sign mac (session_key (creds s))
        (format_int (unix (now + session_ttl)) @ '':'' @ b64url nonce)
      = sign mac (session_key (creds s'))
        (format_int (unix (now + session_ttl)) @ '':'' @ b64url nonce)
    \<and> unix later < unix (now + session_ttl)"
  using parse_format_int [OF assms]
  by (auto simp: valid_def cut_token Let_def cut_char)


text \<open>
  A session token that was issued is accepted from then on, for thirty days
  to the second and not a second longer, by a daemon that has been restarted as well: all
  it needs is the same session key.
\<close>

theorem issued_token_lasts_thirty_days:
  assumes "in_int64 (unix (now + session_ttl))" "session_key (creds s) \<noteq> []"
    and "session_key (creds s') = session_key (creds s)"
  shows "valid mac later (issue mac now nonce s) s' \<longleftrightarrow> unix later < unix now + 30 * 24 * 3600"
proof -
  have "unix (now + session_ttl) = unix now + 30 * 24 * 3600"
    by (simp add: unix_def session_ttl_def second_def)
  with valid_issue [OF assms(1), of mac later nonce s s'] assms(2,3) show ?thesis by simp
qed

definition example_store :: store where
  "example_store =
     \<lparr>creds = no_credentials\<lparr>username := ''anna'', pw_hash := ''h'', session_key := ''k''\<rparr>,
      disk = \<lparr>cred_file = Missing, temp_files = 0\<rparr>\<rparr>"

theorem issued_token_lasts_thirty_days_witness:
  "valid (\<lambda>k p. map of_char (k @ p)) (2591999 * second)
     (issue (\<lambda>k p. map of_char (k @ p)) 0 [1, 2, 3] example_store) example_store"
  using issued_token_lasts_thirty_days
    [of 0 example_store example_store "\<lambda>k p. map of_char (k @ p)" "2591999 * second" "[1, 2, 3]"]
  by (simp add: in_int64_def unix_def session_ttl_def second_def example_store_def)

text \<open>
  While nobody has claimed the machine no token is a session and no password
  signs in, so everything behind the sign-in stays closed until the first password.
\<close>

theorem unclaimed_machine_is_closed:
  assumes "open_store d = Inr s" "cred_file d = Missing"
  shows "needs_setup s \<and> \<not> valid mac now token s \<and> \<not> check id_key user password s"
  using assms
  by (auto simp: open_store_def needs_setup_def valid_def check_def no_credentials_def Let_def
      split: option.splits)

theorem unclaimed_machine_is_closed_witness:
  "\<not> valid (\<lambda>_ _. []) 0 ''9:x.'' \<lparr>creds = no_credentials, disk = \<lparr>cred_file = Missing, temp_files = 0\<rparr>\<rparr>"
  using unclaimed_machine_is_closed [of "\<lparr>cred_file = Missing, temp_files = 0\<rparr>"
      "\<lparr>creds = no_credentials, disk = \<lparr>cred_file = Missing, temp_files = 0\<rparr>\<rparr>"
      "\<lambda>_ _. []" 0 "''9:x.''"]
  by (simp add: open_store_def)

section \<open>Setting the password\<close>

lemma write_creds_file:
  "write_creds flt c d = (d', None) \<Longrightarrow> cred_file d' = Holds c \<and> temp_files d' = temp_files d"
  by (auto simp: write_creds_def Let_def split: if_splits)

lemma write_creds_refused:
  "write_creds flt c d = (d', Some e) \<Longrightarrow>
     cred_file d' = cred_file d \<and> (\<not> flt RemoveTemp \<longrightarrow> d' = d)"
  by (auto simp: write_creds_def drop_temp_def Let_def split: if_splits)

lemma set_password_locked_cases:
  obtains (refused) e d where
      "set_password_locked id_key flt r now user password s = (s\<lparr>disk := d\<rparr>, Some e)"
      "cred_file d = cred_file (disk s)" "\<not> flt RemoveTemp \<Longrightarrow> d = disk s"
  | (stored) c d where
      "set_password_locked id_key flt r now user password s = (s\<lparr>creds := c, disk := d\<rparr>, None)"
      "write_creds flt c (disk s) = (d, None)" "username c = user"
      "pw_hash c = id_key password (salt c) argon_time argon_memory argon_threads argon_key_len"
      "c_time c = argon_time" "c_memory c = argon_memory" "c_threads c = argon_threads"
      "r_key r = Some (session_key c)" "min_password_length \<le> rune_count password" "user \<noteq> []"
proof -
  have same: "s = s\<lparr>disk := disk s\<rparr>" by simp
  show ?thesis
  proof (cases "rune_count password < min_password_length \<or> user = [] \<or> r_salt r = None
                  \<or> r_key r = None")
    case True
    then have "\<exists>e. set_password_locked id_key flt r now user password s
        = (s\<lparr>disk := disk s\<rparr>, Some e)"
      by (auto simp: set_password_locked_def split: option.split)
    then obtain e where "set_password_locked id_key flt r now user password s
        = (s\<lparr>disk := disk s\<rparr>, Some e)" by (rule exE)
    then show ?thesis by (rule refused) auto
  next
    case False
    then obtain sl key where sk: "r_salt r = Some sl" "r_key r = Some key" by auto
    let ?c = "\<lparr>username = user, algorithm = ''argon2id'', salt = sl,
        pw_hash = id_key password sl argon_time argon_memory argon_threads argon_key_len,
        c_time = argon_time, c_memory = argon_memory, c_threads = argon_threads,
        updated = now, session_key = key\<rparr>"
    obtain d oe where w: "write_creds flt ?c (disk s) = (d, oe)"
      by (cases "write_creds flt ?c (disk s)")
    show ?thesis
    proof (cases oe)
      case None
      then show ?thesis
        using False sk w by (intro stored [of d ?c]) (simp_all add: set_password_locked_def)
    next
      case (Some e)
      with w write_creds_refused [of flt ?c "disk s" d e] show ?thesis
        using False sk by (intro refused [of d e]) (simp_all add: set_password_locked_def)
    qed
  qed
qed

text \<open>
  Setting a password either succeeds as a whole (the new credentials in
  memory and in the file, read back by the next start; the user signs in with the new
  password, and with another one only where its hash is the same) or fails as a whole:
  the credentials in memory and in the file are the old ones, and no temporary file is
  left unless the machine refuses to remove it.
\<close>

theorem set_password_all_or_nothing:
  assumes len: "length (id_key password (salt (creds s')) 3 65536 4 32) = 32"
    and set: "set_password id_key flt r now user password s = (s', err)"
  shows "if err = None
     then cred_file (disk s') = Holds (creds s')
        \<and> open_store (disk s') = Inr s' \<and> \<not> needs_setup s'
        \<and> check id_key user password s'
        \<and> (\<forall>u p. check id_key u p s' \<longleftrightarrow> u = user
              \<and> id_key p (salt (creds s')) 3 65536 4 32
                 = id_key password (salt (creds s')) 3 65536 4 32)
     else creds s' = creds s \<and> cred_file (disk s') = cred_file (disk s)
        \<and> (\<not> flt RemoveTemp \<longrightarrow> s' = s)"
  using set_password_locked_cases [of id_key flt r now user password s]
proof cases
  case (refused e d)
  then show ?thesis using set by (auto simp: set_password_def)
next
  case (stored c d)
  then have s': "s' = s\<lparr>creds := c, disk := d\<rparr>" "err = None"
    using set by (auto simp: set_password_def)
  moreover have "cred_file d = Holds c" using write_creds_file [OF stored(2)] by simp
  ultimately show ?thesis
    using stored len
    by (auto simp: open_store_def needs_setup_def check_def Let_def argon_time_def
        argon_memory_def argon_threads_def argon_key_len_def)
qed

definition toy_key :: id_key where
  "toy_key p sl t m th n = take n (p @ replicate n CHR ''0'')"

definition plain_random :: randomness where
  "plain_random = \<lparr>r_salt = Some ''salt'', r_key = Some ''newkey''\<rparr>"

theorem set_password_all_or_nothing_witness:
  "check toy_key ''anna'' ''longenough''
     (fst (set_password toy_key (\<lambda>_. False) plain_random 0 ''anna'' ''longenough'' example_store))"
proof -
  obtain s' err where e:
    "set_password toy_key (\<lambda>_. False) plain_random 0 ''anna'' ''longenough'' example_store = (s', err)"
    by (cases "set_password toy_key (\<lambda>_. False) plain_random 0 ''anna'' ''longenough'' example_store")
  then have "err = None"
    by (auto simp: set_password_def set_password_locked_def plain_random_def write_creds_def
        min_password_length_def rune_len_def Let_def split: if_splits)
  with e set_password_all_or_nothing [OF _ e] show ?thesis by (simp add: toy_key_def)
qed

text \<open>
  Setting a password ends every session. No token issued before is accepted
  afterwards, as long as HMAC gives its payload another value under the new key, the one
  the random source delivered, than under the old one.
\<close>

theorem set_password_ends_sessions:
  assumes set: "set_password id_key flt r now user password s = (s', None)"
    and new: "r_key r = Some key"
    and sep: "\<And>p. sign mac key p \<noteq> sign mac (session_key (creds s)) p"
    and year: "in_int64 (unix (then' + session_ttl))"
  shows "\<not> valid mac later (issue mac then' nonce s) s'"
  using set_password_locked_cases [of id_key flt r now user password s]
proof cases
  case (stored c d)
  then have "session_key (creds s') = key" using set new by (auto simp: set_password_def)
  with valid_issue [OF year] sep show ?thesis by metis
qed (use set in \<open>simp add: set_password_def\<close>)

theorem set_password_ends_sessions_witness:
  "let s' = fst (set_password toy_key (\<lambda>_. False) plain_random 5 ''anna'' ''longenough'' example_store)
   in \<not> valid (\<lambda>k p. map of_char (take 1 k)) 9 (issue (\<lambda>k p. map of_char (take 1 k)) 0 [7] example_store) s'"
proof -
  obtain s' err where e:
    "set_password toy_key (\<lambda>_. False) plain_random 5 ''anna'' ''longenough'' example_store = (s', err)"
    by (cases "set_password toy_key (\<lambda>_. False) plain_random 5 ''anna'' ''longenough'' example_store")
  then have "err = None"
    by (auto simp: set_password_def set_password_locked_def plain_random_def write_creds_def
        min_password_length_def rune_len_def Let_def split: if_splits)
  with e have ok:
    "set_password toy_key (\<lambda>_. False) plain_random 5 ''anna'' ''longenough'' example_store = (s', None)"
    by simp
  have "\<not> valid (\<lambda>k p. map of_char (take 1 k)) 9
      (issue (\<lambda>k p. map of_char (take 1 k)) 0 [7] example_store) s'"
    by (rule set_password_ends_sessions [OF ok, of "''newkey''"])
      (simp_all add: plain_random_def sign_def b64_char_def example_store_def in_int64_def
        unix_def session_ttl_def second_def)
  with e show ?thesis by simp
qed

text \<open>
  A machine is claimed once. After a claim that succeeded, every later one
  is refused and changes nothing, whoever makes it; only \<open>SetPassword\<close> changes the
  password then.
\<close>

theorem claimed_once:
  assumes len: "\<And>p sl. length (id_key p sl 3 65536 4 32) = 32"
    and won: "claim id_key flt r now user password s = (s', None)"
  shows "needs_setup s
    \<and> claim id_key flt' r' now' user' password' s' = (s', Some AlreadyClaimed)"
  using set_password_locked_cases [of id_key flt r now user password s]
proof cases
  case (refused e d)
  then show ?thesis using won by (auto simp: claim_def split: if_splits)
next
  case (stored c d)
  then show ?thesis
    using won len [of password "salt c"]
    by (auto simp: claim_def needs_setup_def argon_time_def argon_memory_def argon_threads_def
        argon_key_len_def split: if_splits)
qed

definition empty_store :: store where
  "empty_store = \<lparr>creds = no_credentials, disk = \<lparr>cred_file = Missing, temp_files = 0\<rparr>\<rparr>"

theorem claimed_once_witness:
  "let s' = fst (claim toy_key (\<lambda>_. False) plain_random 0 ''anna'' ''longenough'' empty_store)
   in claim toy_key (\<lambda>_. False) plain_random 1 ''mallory'' ''otherwise'' s' = (s', Some AlreadyClaimed)"
proof -
  obtain s' err where e:
    "claim toy_key (\<lambda>_. False) plain_random 0 ''anna'' ''longenough'' empty_store = (s', err)"
    by (cases "claim toy_key (\<lambda>_. False) plain_random 0 ''anna'' ''longenough'' empty_store")
  then have "err = None"
    by (auto simp: claim_def set_password_locked_def plain_random_def write_creds_def empty_store_def
        needs_setup_def no_credentials_def min_password_length_def rune_len_def Let_def
        split: if_splits)
  with e claimed_once [of toy_key "\<lambda>_. False" plain_random 0 "''anna''" "''longenough''"
      empty_store s' "\<lambda>_. False" plain_random 1 "''mallory''" "''otherwise''"]
  show ?thesis by (simp add: toy_key_def)
qed

end
