(* ===== verification/Line_Stream.thy ===== *)
theory Line_Stream
  imports Filepath
begin

text \<open>
  What a child process writes arrives in chunks cut anywhere and has to come out in
  lines. Two packages of the daemon have a \<open>lines\<close> writer of their own; what both promise
  is the interface \<open>line_splitter\<close>: a chunk added to the buffer passes on the lines that
  are complete and keeps the rest. Fed any chunks, such a writer passes on the lines of
  the whole stream, which is proved here once.
\<close>

abbreviation newline :: char where "newline \<equiv> CHR 0x0A"

definition whole_lines :: "string \<Rightarrow> string list" where
  "whole_lines s = butlast (split_on newline s)"

definition partial_line :: "string \<Rightarrow> string" where
  "partial_line s = last (split_on newline s)"

fun feed :: "(string \<Rightarrow> string \<Rightarrow> string \<times> string list) \<Rightarrow> string \<Rightarrow> string list
    \<Rightarrow> string \<times> string list" where
  "feed put buf [] = (buf, [])"
| "feed put buf (c # cs) =
     (case put buf c of (buf1, out1) \<Rightarrow>
        case feed put buf1 cs of (buf2, out2) \<Rightarrow> (buf2, out1 @ out2))"

lemma partial_line_plain: "newline \<notin> set (partial_line s)"
  unfolding partial_line_def by (rule split_on_no_sep [OF last_in_set]) simp

lemma split_on_extend:
  "split_on c (a @ b) = butlast (split_on c a) @ split_on c (last (split_on c a) @ b)"
proof (induction a)
  case (Cons d a)
  obtain w ws where w: "split_on c a = w # ws" by (cases "split_on c a") auto
  then show ?case
    using Cons by (cases ws) (auto split: list.splits)
qed simp

lemma whole_lines_append:
  "whole_lines (a @ b) = whole_lines a @ whole_lines (partial_line a @ b)"
  by (simp add: whole_lines_def partial_line_def split_on_extend [of newline a b] butlast_append)

lemma partial_line_append: "partial_line (a @ b) = partial_line (partial_line a @ b)"
  by (simp add: partial_line_def split_on_extend [of newline a b])

lemma no_newline_simps [simp]:
  "newline \<notin> set s \<Longrightarrow> whole_lines s = []"
  "newline \<notin> set s \<Longrightarrow> partial_line s = s"
  by (simp_all add: whole_lines_def partial_line_def split_on_single)

lemma newline_simps [simp]:
  "newline \<notin> set w \<Longrightarrow> whole_lines (w @ newline # s) = w # whole_lines s"
  "newline \<notin> set w \<Longrightarrow> partial_line (w @ newline # s) = partial_line s"
  by (simp_all add: whole_lines_def partial_line_def split_on_append)

text \<open>The first newline, where there is one, cuts the string in two.\<close>

lemma index_byte_Some:
  "index_byte s c = Some i \<Longrightarrow> i < length s \<and> s = take i s @ c # drop (Suc i) s \<and> c \<notin> set (take i s)"
  by (induction s c arbitrary: i rule: index_byte.induct) (auto split: if_splits)

lemma index_byte_None: "index_byte s c = None \<longleftrightarrow> c \<notin> set s"
  by (induction s c rule: index_byte.induct) auto

locale line_splitter =
  fixes put :: "string \<Rightarrow> string \<Rightarrow> string \<times> string list"
    and post :: "string \<Rightarrow> string"
    and fits :: "string \<Rightarrow> bool"
  assumes put_lines: "newline \<notin> set buf \<Longrightarrow> fits (buf @ b) \<Longrightarrow>
      put buf b = (partial_line (buf @ b), map post (whole_lines (buf @ b)))"
    and fits_prefix: "fits (a @ b) \<Longrightarrow> fits a"
    and fits_rest: "fits (a @ b) \<Longrightarrow> fits (partial_line a @ b)"
begin

lemma feed_lines:
  assumes "newline \<notin> set buf" "fits (buf @ concat cs)"
  shows "feed put buf cs =
    (partial_line (buf @ concat cs), map post (whole_lines (buf @ concat cs)))"
  using assms
proof (induction cs arbitrary: buf)
  case (Cons c cs)
  have "fits (buf @ c)" using Cons.prems(2) fits_prefix [of "buf @ c"] by simp
  moreover have "fits (partial_line (buf @ c) @ concat cs)"
    using Cons.prems(2) fits_rest [of "buf @ c"] by simp
  ultimately show ?case
    using Cons.IH [OF partial_line_plain] put_lines [OF Cons.prems(1)]
      whole_lines_append [of "buf @ c" "concat cs"] partial_line_append [of "buf @ c" "concat cs"]
    by simp
qed simp

text \<open>Where the stream was cut makes no difference.\<close>

lemma feed_chunking:
  assumes "fits (concat cs)" "concat cs = concat ds"
  shows "feed put [] cs = feed put [] ds"
  using assms by (simp add: feed_lines)

end

end
