(* ===== verification/Supervise.thy ===== *)
theory Supervise
  imports Limiter Line_Stream
begin

text \<open>
  Package \<open>supervise\<close> (internal/supervise/supervise.go): one helper process, kept running.
  \<open>Start\<close> and \<open>Stop\<close> may be called from anywhere at any time while the supervising
  goroutine of an earlier \<open>Start\<close> is on its way, so the component is a step relation: one
  rule for each section between two locks or two channel operations. A goroutine is
  known by the number of the context it was given.
\<close>

section \<open>Output, line by line\<close>

definition max_line :: nat where "max_line = 256 * 1024"

definition emit_line :: "string \<Rightarrow> string" where
  "emit_line b = trim_suffix b [CHR 0x0D]"

text \<open>\<open>lines.Write\<close>: the new buffer and what was passed on.\<close>

function lines_write :: "string \<Rightarrow> string \<Rightarrow> string \<times> string list" where
  "lines_write buf b =
     (if b = [] then (buf, [])
      else case index_byte b newline of
        None \<Rightarrow>
          (let buf' = buf @ b
           in if max_line \<le> length buf'
              then (drop max_line buf', [emit_line (take max_line buf')])
              else (buf', []))
      | Some i \<Rightarrow>
          (case lines_write [] (drop (Suc i) b) of
             (buf', out) \<Rightarrow> (buf', emit_line (buf @ take i b) # out)))"
  by pat_completeness auto
termination
  by (relation "measure (\<lambda>(buf, b). length b)") (auto simp: neq_Nil_conv)

declare lines_write.simps [simp del]

definition lines_flush :: "string \<Rightarrow> string \<times> string list" where
  "lines_flush buf = (if 0 < length buf then ([], [emit_line buf]) else (buf, []))"

text \<open>
  As long as every line is shorter than the limit the writer is a line splitter; what it
  passes on loses its carriage return.
\<close>

definition short_lines :: "string \<Rightarrow> bool" where
  "short_lines s = list_all (\<lambda>w. length w < max_line) (split_on newline s)"

lemma short_lines_append: "short_lines (a @ b) \<Longrightarrow> short_lines (partial_line a @ b)"
  by (simp add: short_lines_def partial_line_def split_on_extend [of newline a b])

lemma split_on_prefix_last:
  "\<exists>t ts. split_on c (w @ b) = (w @ t) # ts" if "c \<notin> set w"
  using that by (induction w) (auto split: list.splits intro: list.exhaust [of "split_on c b"])

lemma short_lines_prefix: "short_lines (a @ b) \<Longrightarrow> short_lines a"
proof -
  assume s: "short_lines (a @ b)"
  obtain t ts where "split_on newline (last (split_on newline a) @ b)
      = (last (split_on newline a) @ t) # ts"
    using split_on_prefix_last partial_line_plain [of a] by (metis partial_line_def)
  with s have "list_all (\<lambda>w. length w < max_line) (butlast (split_on newline a))"
    "length (last (split_on newline a)) < max_line"
    by (auto simp: short_lines_def split_on_extend [of newline a b])
  then show ?thesis
    using append_butlast_last_id [OF split_on_not_Nil, of newline a]
    by (metis list_all_append list.pred_inject short_lines_def)
qed

lemma short_lines_newline:
  "newline \<notin> set w \<Longrightarrow> short_lines (w @ newline # s) \<longleftrightarrow> length w < max_line \<and> short_lines s"
  by (simp add: short_lines_def split_on_append)

lemma lines_write_splits:
  assumes "newline \<notin> set buf" "short_lines (buf @ b)"
  shows "lines_write buf b =
    (partial_line (buf @ b), map emit_line (whole_lines (buf @ b)))"
  using assms
proof (induction buf b rule: lines_write.induct)
  case (1 buf b)
  consider (empty) "b = []" | (part) "b \<noteq> []" "index_byte b newline = None"
    | (line) i where "b \<noteq> []" "index_byte b newline = Some i"
    by (cases "index_byte b newline") auto
  then show ?case
  proof cases
    case part
    then have n: "newline \<notin> set (buf @ b)" using 1(2) index_byte_None [of b newline] by auto
    then have "length (buf @ b) < max_line"
      using 1(3) by (simp add: short_lines_def split_on_single)
    with part n show ?thesis by (simp add: lines_write.simps [of buf b])
  next
    case (line i)
    note cut = index_byte_Some [OF line(2)]
    let ?w = "buf @ take i b" and ?r = "drop (Suc i) b"
    have w: "newline \<notin> set ?w" and eq: "buf @ b = ?w @ newline # ?r"
      using cut 1(2) by auto
    have "short_lines ?r" using 1(3) short_lines_newline [OF w] by (simp only: eq)
    with 1(1) [OF line(1,2)]
    have "lines_write [] ?r = (partial_line ?r, map emit_line (whole_lines ?r))" by simp
    then show ?thesis
      using line newline_simps [OF w, of ?r] by (simp only: eq) (simp add: lines_write.simps [of buf b])
  qed (simp_all add: lines_write.simps 1)
qed

interpretation sup: line_splitter lines_write emit_line short_lines
  by unfold_locales (simp_all add: lines_write_splits short_lines_prefix short_lines_append)

text \<open>
  The lines of a helper reach the log whole, whatever pieces the pipe
  delivered them in: the chunks passed on with a final flush are the lines of the stream,
  each without its carriage return, provided none reaches 256 KiB.
\<close>

theorem helper_lines_whole:
  assumes "short_lines (concat chunks)"
  shows "feed lines_write [] chunks =
      (partial_line (concat chunks), map emit_line (whole_lines (concat chunks)))
    \<and> snd (lines_flush (fst (feed lines_write [] chunks))) =
        (if partial_line (concat chunks) = [] then [] else [emit_line (partial_line (concat chunks))])"
  using sup.feed_lines [of "[]" chunks] assms by (simp add: lines_flush_def)

theorem helper_lines_whole_witness:
  "feed lines_write [] [''on'', ''e'' @ [CHR 0x0D, CHR 0x0A] @ ''tw'', ''o''] = (''two'', [''one''])"
  using helper_lines_whole [of "[''on'', ''e'' @ [CHR 0x0D, CHR 0x0A] @ ''tw'', ''o'']"]
  by (simp add: short_lines_def max_line_def partial_line_def whole_lines_def emit_line_def go_defs)

text \<open>A line that never ends does not grow the buffer without bound.\<close>

lemma lines_write_bound:
  "length buf < max_line \<Longrightarrow> length b \<le> max_line \<Longrightarrow> length (fst (lines_write buf b)) < max_line"
proof (induction buf b rule: lines_write.induct)
  case (1 buf b)
  then show ?case
  proof (cases "index_byte b newline")
    case None
    with 1(2,3) show ?thesis by (auto simp: lines_write.simps [of buf b] Let_def)
  next
    case (Some i)
    then have "b \<noteq> []" by auto
    from 1(1) [OF this Some] 1(3) Some \<open>b \<noteq> []\<close> show ?thesis
      by (auto simp: lines_write.simps [of buf b] max_line_def split: prod.splits)
  qed
qed

section \<open>The wait between restarts\<close>

definition max_backoff :: int where "max_backoff = 30 * second"

definition next_backoff :: "int \<Rightarrow> int \<Rightarrow> int" where
  "next_backoff up b =
     (if up > 60 * second then 0
      else if b = 0 then second
      else if b < max_backoff then 2 * b
      else b)"

text \<open>The wait after each of a run of exits, from the one before and the times they were up.\<close>

fun backoffs :: "int \<Rightarrow> int list \<Rightarrow> int list" where
  "backoffs b [] = []"
| "backoffs b (up # ups) = next_backoff up b # backoffs (next_backoff up b) ups"

definition backoff_values :: "int set" where
  "backoff_values = {0, second, 2 * second, 4 * second, 8 * second, 16 * second, 32 * second}"

lemma next_backoff_values: "b \<in> backoff_values \<Longrightarrow> next_backoff up b \<in> backoff_values"
  by (auto simp: backoff_values_def next_backoff_def max_backoff_def second_def)

text \<open>
  However often and however quickly a helper dies, it waits 0, 1, 2, 4, 8, 16
  or 32 seconds before the next start. The bound that holds is 32 seconds: the last
  doubling goes past the 30 seconds of \<open>maxBackoff\<close>.
\<close>

theorem backoff_bounded:
  "set (backoffs 0 ups) \<subseteq> {0, second, 2 * second, 4 * second, 8 * second, 16 * second, 32 * second}
   \<and> last (backoffs 0 (replicate 6 0)) = 32 * second \<and> max_backoff = 30 * second"
proof -
  have "b \<in> backoff_values \<Longrightarrow> set (backoffs b ups) \<subseteq> backoff_values" for b
    by (induction ups arbitrary: b) (auto simp: next_backoff_values)
  from this [of 0] have "set (backoffs 0 ups) \<subseteq> backoff_values" by (simp add: backoff_values_def)
  moreover have "last (backoffs 0 (replicate 6 0)) = 32 * second"
    by (simp add: numeral_eq_Suc next_backoff_def max_backoff_def second_def)
  ultimately show ?thesis by (simp add: backoff_values_def max_backoff_def)
qed

section \<open>Start, stop and the goroutine between them\<close>

datatype pstate = Stopped | Running | Restarting | Failed

text \<open>How \<open>runOnce\<close> came back: no error, an exit code, or an error of another kind.\<close>

datatype exit = CleanExit | ExitCode int | OtherError

text \<open>Where a supervising goroutine is.\<close>

datatype gpc =
    Unborn
  | AtCheck            \<comment> \<open>before \<open>ctx.Err()\<close> at the head of the loop\<close>
  | AtRunning          \<comment> \<open>before \<open>setState(Running)\<close>\<close>
  | AtSpawn            \<comment> \<open>before \<open>cmd.Start\<close>\<close>
  | ChildUp            \<comment> \<open>the child runs\<close>
  | Returned exit int  \<comment> \<open>\<open>runOnce\<close> returned; how long the child was up\<close>
  | AtFailed           \<comment> \<open>before \<open>setState(Failed)\<close>\<close>
  | AtRestarting       \<comment> \<open>before \<open>setState(Restarting)\<close>\<close>
  | Sleeping           \<comment> \<open>between the attempts\<close>
  | Ended              \<comment> \<open>\<open>done\<close> is closed\<close>

text \<open>Where the \<open>Stop\<close> is that holds \<open>p.stopping\<close>.\<close>

datatype spc = StopCancel | StopWait | StopClear

record proc =
  pstate :: pstate
  reports :: "pstate list"              \<comment> \<open>the calls of \<open>OnState\<close>, the last one first\<close>
  cancel :: "nat option"                \<comment> \<open>\<open>p.cancel\<close> and \<open>p.done\<close>: which context\<close>
  stopping :: "(nat \<times> spc) option"      \<comment> \<open>\<open>p.stopping\<close>: which context it ends\<close>
  cancelled :: "nat \<Rightarrow> bool"
  gpc :: "nat \<Rightarrow> gpc"
  born :: nat
  backoff :: int

definition new_proc :: proc where
  "new_proc =
     \<lparr>pstate = Stopped, reports = [], cancel = None, stopping = None, cancelled = (\<lambda>_. False),
      gpc = (\<lambda>_. Unborn), born = 0, backoff = 0\<rparr>"

definition set_state :: "pstate \<Rightarrow> proc \<Rightarrow> proc" where
  "set_state st p =
     (if pstate p = st then p else p\<lparr>pstate := st, reports := st # reports p\<rparr>)"

definition goto :: "nat \<Rightarrow> gpc \<Rightarrow> proc \<Rightarrow> proc" where
  "goto g pc p = p\<lparr>gpc := (gpc p)(g := pc)\<rparr>"

text \<open>
  \<open>Start\<close> under the lock: nothing while a handle is held, a wait while a stop is on its
  way (\<open>None\<close>, the loop comes round again), otherwise a goroutine with a context of its
  own.
\<close>

definition start :: "proc \<Rightarrow> proc option" where
  "start p =
     (case cancel p of
        Some _ \<Rightarrow> Some p
      | None \<Rightarrow>
          (case stopping p of
             Some _ \<Rightarrow> None
           | None \<Rightarrow>
               Some (goto (born p) AtCheck
                 (p\<lparr>cancel := Some (born p), born := Suc (born p), backoff := 0\<rparr>))))"

text \<open>The first section of \<open>Stop\<close>: it takes the handle, if there is one.\<close>

definition stop_take :: "proc \<Rightarrow> proc" where
  "stop_take p =
     (case cancel p of
        None \<Rightarrow> p
      | Some g \<Rightarrow> p\<lparr>cancel := None, stopping := Some (g, StopCancel)\<rparr>)"

text \<open>What the goroutine does after a run: end, give up, or wait for the next attempt.\<close>

definition after_run :: "(int \<Rightarrow> bool) \<Rightarrow> nat \<Rightarrow> exit \<Rightarrow> int \<Rightarrow> proc \<Rightarrow> proc" where
  "after_run fatal g e up p =
     (if cancelled p g then goto g Ended p
      else if (case e of ExitCode c \<Rightarrow> fatal c | _ \<Rightarrow> False) then goto g AtFailed p
      else goto g AtRestarting (p\<lparr>backoff := next_backoff up (backoff p)\<rparr>))"

inductive sup_step :: "(int \<Rightarrow> bool) \<Rightarrow> proc \<Rightarrow> proc \<Rightarrow> bool" for fatal where
  call_start: "start p = Some q \<Longrightarrow> sup_step fatal p q"
| call_stop: "sup_step fatal p (stop_take p)"
| stop_cancels: "stopping p = Some (g, StopCancel) \<Longrightarrow>
    sup_step fatal p (p\<lparr>cancelled := (cancelled p)(g := True), stopping := Some (g, StopWait)\<rparr>)"
| stop_waited: "stopping p = Some (g, StopWait) \<Longrightarrow> gpc p g = Ended \<Longrightarrow>
    sup_step fatal p (set_state Stopped (p\<lparr>stopping := Some (g, StopClear)\<rparr>))"
| stop_clears: "stopping p = Some (g, StopClear) \<Longrightarrow> sup_step fatal p (p\<lparr>stopping := None\<rparr>)"
| checks: "gpc p g = AtCheck \<Longrightarrow>
    sup_step fatal p (goto g (if cancelled p g then Ended else AtRunning) p)"
| says_running: "gpc p g = AtRunning \<Longrightarrow> sup_step fatal p (goto g AtSpawn (set_state Running p))"
| spawns: "gpc p g = AtSpawn \<Longrightarrow> sup_step fatal p (goto g ChildUp p)"
| no_spawn: "gpc p g = AtSpawn \<Longrightarrow> sup_step fatal p (goto g (Returned OtherError up) p)"
| child_exits: "gpc p g = ChildUp \<Longrightarrow> sup_step fatal p (goto g (Returned e up) p)"
| returns: "gpc p g = Returned e up \<Longrightarrow> sup_step fatal p (after_run fatal g e up p)"
| says_failed: "gpc p g = AtFailed \<Longrightarrow> sup_step fatal p (goto g Ended (set_state Failed p))"
| says_restarting: "gpc p g = AtRestarting \<Longrightarrow>
    sup_step fatal p (goto g Sleeping (set_state Restarting p))"
| wakes: "gpc p g = Sleeping \<Longrightarrow> sup_step fatal p (goto g AtCheck p)"
| sleeps_no_more: "gpc p g = Sleeping \<Longrightarrow> cancelled p g \<Longrightarrow> sup_step fatal p (goto g Ended p)"

inductive sup_reach :: "(int \<Rightarrow> bool) \<Rightarrow> proc \<Rightarrow> bool" for fatal where
  begins: "sup_reach fatal new_proc"
| steps: "sup_reach fatal p \<Longrightarrow> sup_step fatal p q \<Longrightarrow> sup_reach fatal q"

subsection \<open>The invariant\<close>

definition live :: "gpc \<Rightarrow> bool" where
  "live pc \<longleftrightarrow> pc \<noteq> Unborn \<and> pc \<noteq> Ended"

text \<open>The goroutine that may be alive: the one a handle is held on, or is being stopped.\<close>

definition owner :: "proc \<Rightarrow> nat option" where
  "owner p = (if cancel p = None then map_option fst (stopping p) else cancel p)"

definition sup_inv :: "proc \<Rightarrow> bool" where
  "sup_inv p \<longleftrightarrow>
     (\<forall>g. live (gpc p g) \<longrightarrow> owner p = Some g)
     \<and> (cancel p \<noteq> None \<longrightarrow> stopping p = None)
     \<and> (\<forall>g. born p \<le> g \<longrightarrow> gpc p g = Unborn \<and> \<not> cancelled p g)
     \<and> (\<forall>g. owner p = Some g \<longrightarrow> gpc p g \<noteq> Unborn)
     \<and> (\<forall>g. stopping p = Some (g, StopWait) \<longrightarrow> cancelled p g)
     \<and> (\<forall>g. stopping p = Some (g, StopClear) \<longrightarrow> gpc p g = Ended \<and> pstate p = Stopped)
     \<and> (\<forall>g. gpc p g = AtSpawn \<or> gpc p g = ChildUp \<or> (\<exists>e up. gpc p g = Returned e up)
           \<longrightarrow> pstate p = Running)
     \<and> (owner p = None \<longrightarrow> pstate p = Stopped)"

lemma live_simps [simp]:
  "\<not> live Unborn" "\<not> live Ended" "live AtCheck" "live AtRunning" "live AtSpawn" "live ChildUp"
  "live (Returned e up)" "live AtFailed" "live AtRestarting" "live Sleeping"
  by (simp_all add: live_def)

lemma set_state_simps [simp]:
  "pstate (set_state st p) = st" "cancel (set_state st p) = cancel p"
  "stopping (set_state st p) = stopping p" "cancelled (set_state st p) = cancelled p"
  "gpc (set_state st p) = gpc p" "born (set_state st p) = born p"
  by (simp_all add: set_state_def)

lemma goto_simps [simp]:
  "pstate (goto g pc p) = pstate p" "cancel (goto g pc p) = cancel p"
  "stopping (goto g pc p) = stopping p" "cancelled (goto g pc p) = cancelled p"
  "gpc (goto g pc p) = (gpc p)(g := pc)" "born (goto g pc p) = born p"
  by (simp_all add: goto_def)

lemma sup_inv_new: "sup_inv new_proc"
  by (simp add: sup_inv_def new_proc_def owner_def)

lemma sup_inv_young: "sup_inv p \<Longrightarrow> gpc p g \<noteq> Unborn \<Longrightarrow> g < born p"
  unfolding sup_inv_def by (meson linorder_not_less)

text \<open>A step of the goroutine \<open>g\<close> that writes the state word only as its place demands.\<close>

lemma sup_inv_goto:
  assumes inv: "sup_inv p" and alive: "live (gpc p g)" and pc: "pc \<noteq> Unborn"
    and q: "cancel q = cancel p" "stopping q = stopping p" "cancelled q = cancelled p"
      "born q = born p" "gpc q = (gpc p)(g := pc)"
    and run: "pc = AtSpawn \<or> pc = ChildUp \<or> (\<exists>e up. pc = Returned e up) \<longrightarrow> pstate q = Running"
  shows "sup_inv q"
proof -
  have own: "owner p = Some g" using inv alive by (auto simp: sup_inv_def)
  have "owner q = owner p" using q(1,2) by (simp add: owner_def)
  with own have ownq: "owner q = Some g" by simp
  have dead: "\<not> live (gpc p h)" if "h \<noteq> g" for h
    using that inv own by (auto simp: sup_inv_def)
  have busy: "gpc p h \<noteq> AtSpawn \<and> gpc p h \<noteq> ChildUp \<and> gpc p h \<noteq> Returned e up" if "h \<noteq> g" for h e up
    using dead [OF that] by (auto simp: live_def)
  have young: "g < born p" using inv alive by (intro sup_inv_young) auto
  have not_clear: "stopping p \<noteq> Some (h, StopClear)" for h
    using inv own alive by (auto simp: sup_inv_def owner_def split: option.splits)
  show ?thesis
    unfolding sup_inv_def
  proof (intro conjI allI impI)
    show "owner q = Some h" if "live (gpc q h)" for h
      using that dead [of h] ownq q(5) by (cases "h = g") auto
    show "gpc q h = Unborn" "\<not> cancelled q h" if "born q \<le> h" for h
      using that young inv q by (auto simp: sup_inv_def)
    show "gpc q h \<noteq> Unborn" if "owner q = Some h" for h
      using that ownq pc q(5) by simp
    show "pstate q = Running"
      if "gpc q h = AtSpawn \<or> gpc q h = ChildUp \<or> (\<exists>e up. gpc q h = Returned e up)" for h
      using that run busy [of h] q(5) by (cases "h = g") auto
    show "gpc q h = Ended" "pstate q = Stopped" if "stopping q = Some (h, StopClear)" for h
      using that not_clear q(2) by auto
  qed (use inv q ownq in \<open>auto simp: sup_inv_def\<close>)
qed

lemma sup_inv_start:
  assumes inv: "sup_inv p" and st: "start p = Some q"
  shows "sup_inv q"
proof (cases "cancel p")
  case None
  with st have idle: "owner p = None" and q: "q = goto (born p) AtCheck
      (p\<lparr>cancel := Some (born p), born := Suc (born p), backoff := 0\<rparr>)"
    by (auto simp: start_def owner_def split: option.splits)
  have dead: "\<not> live (gpc p h)" for h using inv idle by (auto simp: sup_inv_def)
  then have busy: "gpc p h \<noteq> AtSpawn \<and> gpc p h \<noteq> ChildUp \<and> gpc p h \<noteq> Returned e up" for h e up
    by (metis live_simps)
  have "stopping p = None" using idle None by (cases "stopping p") (simp_all add: owner_def)
  with inv dead busy show ?thesis by (auto simp: q sup_inv_def owner_def)
qed (use assms in \<open>simp add: start_def\<close>)

lemma sup_inv_stop_take:
  assumes "sup_inv p"
  shows "sup_inv (stop_take p)"
proof (cases "cancel p")
  case (Some g)
  with assms show ?thesis unfolding sup_inv_def stop_take_def owner_def by simp
qed (simp add: stop_take_def assms)

lemma sup_inv_cancels:
  assumes inv: "sup_inv p" and s: "stopping p = Some (g, StopCancel)"
  shows "sup_inv (p\<lparr>cancelled := (cancelled p)(g := True), stopping := Some (g, StopWait)\<rparr>)"
proof -
  have none: "cancel p = None" using inv s by (auto simp: sup_inv_def)
  then have "gpc p g \<noteq> Unborn" using inv s by (simp add: sup_inv_def owner_def)
  then have "g < born p" using inv by (intro sup_inv_young)
  with inv s none show ?thesis unfolding sup_inv_def owner_def by simp
qed

lemma sup_inv_ended_dead:
  assumes inv: "sup_inv p" and s: "stopping p = Some (g, pc)" "gpc p g = Ended"
  shows "cancel p = None" "\<not> live (gpc p h)"
proof -
  show none: "cancel p = None" using inv s by (auto simp: sup_inv_def)
  show "\<not> live (gpc p h)"
  proof
    assume "live (gpc p h)"
    moreover from this have "h = g" using inv s none by (simp add: sup_inv_def owner_def)
    ultimately show False using s by simp
  qed
qed

lemma sup_inv_waited:
  assumes inv: "sup_inv p" and s: "stopping p = Some (g, StopWait)" "gpc p g = Ended"
  shows "sup_inv (set_state Stopped (p\<lparr>stopping := Some (g, StopClear)\<rparr>))"
proof -
  note dead = sup_inv_ended_dead [OF inv s]
  have busy: "gpc p h \<noteq> AtSpawn" "gpc p h \<noteq> ChildUp" "gpc p h \<noteq> Returned e up" for h e up
    using dead(2) [of h] by (auto simp: live_def)
  show ?thesis
    using inv s dead busy unfolding sup_inv_def owner_def by simp
qed

lemma sup_inv_clears:
  assumes inv: "sup_inv p" and s: "stopping p = Some (g, StopClear)"
  shows "sup_inv (p\<lparr>stopping := None\<rparr>)"
proof -
  have e: "gpc p g = Ended" "pstate p = Stopped" using inv s by (simp_all add: sup_inv_def)
  note dead = sup_inv_ended_dead [OF inv s e(1)]
  show ?thesis using inv e dead unfolding sup_inv_def owner_def by simp
qed

lemma sup_inv_running:
  "sup_inv p \<Longrightarrow> gpc p g = AtSpawn \<or> gpc p g = ChildUp \<or> gpc p g = Returned e up
     \<Longrightarrow> pstate p = Running"
  unfolding sup_inv_def by blast

lemma sup_inv_after_run:
  assumes "sup_inv p" "gpc p g = Returned e up"
  shows "sup_inv (after_run fatal g e up p)"
proof -
  let ?fatal = "case e of ExitCode c \<Rightarrow> fatal c | _ \<Rightarrow> False"
  have alive: "live (gpc p g)" using assms(2) by simp
  consider (ended) "cancelled p g" | (failed) "\<not> cancelled p g" "?fatal"
    | (again) "\<not> cancelled p g" "\<not> ?fatal" by blast
  then show ?thesis
  proof cases
    case ended
    then show ?thesis
      using sup_inv_goto [OF assms(1) alive, of Ended] by (simp add: after_run_def)
  next
    case failed
    then show ?thesis
      using sup_inv_goto [OF assms(1) alive, of AtFailed] by (simp add: after_run_def)
  next
    case again
    have "after_run fatal g e up p
        = goto g AtRestarting (p\<lparr>backoff := next_backoff up (backoff p)\<rparr>)"
      using again by (simp only: after_run_def if_False)
    then show ?thesis
      using sup_inv_goto [OF assms(1) alive, of AtRestarting] by simp
  qed
qed

lemma sup_step_inv: "sup_step fatal p q \<Longrightarrow> sup_inv p \<Longrightarrow> sup_inv q"
proof (induction rule: sup_step.induct)
  case (checks p g)
  then show ?case
    by - (rule sup_inv_goto [of p g "if cancelled p g then Ended else AtRunning"], auto)
next
  case (says_running p g)
  then show ?case by - (rule sup_inv_goto [of p g AtSpawn], auto)
next
  case (spawns p g)
  then show ?case using sup_inv_running [of p g] by - (rule sup_inv_goto [of p g ChildUp], auto)
next
  case (no_spawn p g up)
  then show ?case
    using sup_inv_running [of p g] by - (rule sup_inv_goto [of p g "Returned OtherError up"], auto)
next
  case (child_exits p g e up)
  then show ?case
    using sup_inv_running [of p g] by - (rule sup_inv_goto [of p g "Returned e up"], auto)
next
  case (returns p g e up)
  then show ?case by (intro sup_inv_after_run)
next
  case (says_failed p g)
  then show ?case by - (rule sup_inv_goto [of p g Ended], auto)
next
  case (says_restarting p g)
  then show ?case by - (rule sup_inv_goto [of p g Sleeping], auto)
next
  case (wakes p g)
  then show ?case by - (rule sup_inv_goto [of p g AtCheck], auto)
next
  case (sleeps_no_more p g)
  then show ?case by - (rule sup_inv_goto [of p g Ended], auto)
qed (simp_all add: sup_inv_start sup_inv_stop_take sup_inv_cancels sup_inv_waited sup_inv_clears)

lemma sup_reach_inv: "sup_reach fatal p \<Longrightarrow> sup_inv p"
  by (induction rule: sup_reach.induct) (auto simp: sup_inv_new intro: sup_step_inv)

subsection \<open>What holds however the calls interleave\<close>

text \<open>
  Property C37: however \<open>Start\<close> and \<open>Stop\<close> interleave, there is never more than one
  goroutine, and so never more than one child, and while a child runs the state says
  running.
\<close>

theorem one_child_at_a_time:
  assumes "sup_reach fatal p"
  shows "(live (gpc p g) \<longrightarrow> live (gpc p h) \<longrightarrow> g = h)
    \<and> (gpc p g = ChildUp \<longrightarrow> pstate p = Running)"
proof -
  have inv: "sup_inv p" using assms by (rule sup_reach_inv)
  then have "live (gpc p g) \<Longrightarrow> owner p = Some g" "live (gpc p h) \<Longrightarrow> owner p = Some h"
    by (simp_all add: sup_inv_def)
  with sup_inv_running [OF inv, of g] show ?thesis by auto
qed

lemma sup_reach_child:
  "sup_reach fatal (goto 0 ChildUp (goto 0 AtSpawn (set_state Running
     (goto 0 AtRunning (the (start new_proc))))))"
proof -
  let ?p1 = "the (start new_proc)" and ?p2 = "goto 0 AtRunning (the (start new_proc))"
  have "start new_proc = Some ?p1" by (simp add: start_def new_proc_def)
  then have 1: "sup_reach fatal ?p1" by (rule sup_reach.steps [OF begins call_start])
  have "sup_step fatal ?p1 (goto 0 (if cancelled ?p1 0 then Ended else AtRunning) ?p1)"
    by (rule checks) (simp add: start_def new_proc_def)
  with 1 have 2: "sup_reach fatal ?p2"
    by (simp add: start_def new_proc_def sup_reach.steps)
  have 3: "sup_reach fatal (goto 0 AtSpawn (set_state Running ?p2))"
    by (rule sup_reach.steps [OF 2 says_running]) simp
  show ?thesis by (rule sup_reach.steps [OF 3 spawns]) simp
qed

theorem one_child_at_a_time_witness:
  "pstate (goto 0 ChildUp (goto 0 AtSpawn (set_state Running
     (goto 0 AtRunning (the (start new_proc)))))) = Running"
  using one_child_at_a_time [OF sup_reach_child [of "\<lambda>_. False"], of 0 0] by simp

text \<open>
  When a \<open>Stop\<close> has waited for its goroutine, and again whenever neither a
  handle is held nor a stop is on its way, the helper is gone: no goroutine is alive, no
  child runs and the state says stopped.
\<close>

theorem stopped_means_gone:
  assumes "sup_reach fatal p"
    and "(\<exists>g. stopping p = Some (g, StopClear)) \<or> (cancel p = None \<and> stopping p = None)"
  shows "pstate p = Stopped \<and> (\<forall>g. \<not> live (gpc p g))"
proof -
  have inv: "sup_inv p" using assms(1) by (rule sup_reach_inv)
  from assms(2) show ?thesis
  proof
    assume "\<exists>g. stopping p = Some (g, StopClear)"
    then obtain g where s: "stopping p = Some (g, StopClear)" ..
    with inv have "gpc p g = Ended" "pstate p = Stopped" by (simp_all add: sup_inv_def)
    with sup_inv_ended_dead(2) [OF inv s] show ?thesis by simp
  next
    assume "cancel p = None \<and> stopping p = None"
    then have "owner p = None" by (simp add: owner_def)
    with inv show ?thesis by (simp add: sup_inv_def)
  qed
qed

theorem stopped_means_gone_witness:
  "pstate new_proc = Stopped \<and> (\<forall>g. \<not> live (gpc new_proc g))"
  by (rule stopped_means_gone [OF sup_reach.begins [of "\<lambda>_. False"]]) (simp add: new_proc_def)

text \<open>\<open>Stop\<close> needs nobody's help: the steps from any point of the goroutine to its end.\<close>

abbreviation sup_steps :: "(int \<Rightarrow> bool) \<Rightarrow> proc \<Rightarrow> proc \<Rightarrow> bool" where
  "sup_steps fatal \<equiv> (sup_step fatal)\<^sup>*\<^sup>*"

definition stop_waits :: "nat \<Rightarrow> proc \<Rightarrow> bool" where
  "stop_waits g p \<longleftrightarrow> cancelled p g \<and> stopping p = Some (g, StopWait)"

lemma stop_waits_simps [simp]:
  "stop_waits g (goto g pc p) = stop_waits g p"
  "stop_waits g (set_state st p) = stop_waits g p"
  by (simp_all add: stop_waits_def)

lemma ends_when_cancelled:
  assumes "stop_waits g p" "live (gpc p g)"
  shows "\<exists>q. sup_steps fatal p q \<and> stop_waits g q \<and> gpc q g = Ended"
proof -
  have one: "\<exists>q. sup_steps fatal p q \<and> stop_waits g q \<and> gpc q g = Ended"
    if "sup_step fatal p p'" "\<exists>q. sup_steps fatal p' q \<and> stop_waits g q \<and> gpc q g = Ended"
    for p p' using that by (meson converse_rtranclp_into_rtranclp)
  have check: "\<exists>q. sup_steps fatal p q \<and> stop_waits g q \<and> gpc q g = Ended"
    if "stop_waits g p" "gpc p g = AtCheck" for p
    using that checks [of p g fatal] by (auto simp: stop_waits_def intro!: exI r_into_rtranclp)
  have ret: "\<exists>q. sup_steps fatal p q \<and> stop_waits g q \<and> gpc q g = Ended"
    if "stop_waits g p" "gpc p g = Returned e up" for p e up
  proof -
    have "cancelled p g" using that(1) by (simp add: stop_waits_def)
    with returns [OF that(2), of fatal] have "sup_step fatal p (goto g Ended p)"
      by (simp add: after_run_def)
    with that(1) show ?thesis by (intro exI [of _ "goto g Ended p"]) auto
  qed
  have up: "\<exists>q. sup_steps fatal p q \<and> stop_waits g q \<and> gpc q g = Ended"
    if "stop_waits g p" "gpc p g = ChildUp" for p
    by (rule one [OF child_exits [OF that(2), of fatal CleanExit 0]]) (rule ret, use that in auto)
  have spawn: "\<exists>q. sup_steps fatal p q \<and> stop_waits g q \<and> gpc q g = Ended"
    if "stop_waits g p" "gpc p g = AtSpawn" for p
    by (rule one [OF spawns [OF that(2), of fatal]]) (rule up, use that in auto)
  have sleep: "\<exists>q. sup_steps fatal p q \<and> stop_waits g q \<and> gpc q g = Ended"
    if "stop_waits g p" "gpc p g = Sleeping" for p
    by (rule one [OF wakes [OF that(2), of fatal]]) (rule check, use that in auto)
  show ?thesis
  proof (cases "gpc p g")
    case AtRunning
    show ?thesis
      by (rule one [OF says_running [OF AtRunning, of fatal]]) (rule spawn, use assms in auto)
  next
    case AtFailed
    show ?thesis
      using says_failed [OF AtFailed, of fatal] assms(1)
      by (intro exI [of _ "goto g Ended (set_state Failed p)"]) auto
  next
    case AtRestarting
    show ?thesis
      by (rule one [OF says_restarting [OF AtRestarting, of fatal]]) (rule sleep, use assms in auto)
  qed (use assms check ret up spawn sleep in auto)
qed

text \<open>
  A \<open>Stop\<close> can always finish. From every state in which one has begun to
  wait, the goroutine reaches its end by its own steps, after which the stop clears the
  handle and leaves the state stopped.
\<close>

theorem stop_can_finish:
  assumes "sup_reach fatal p" "stopping p = Some (g, StopWait)"
  shows "\<exists>q. sup_steps fatal p q \<and> cancel q = None \<and> stopping q = None \<and> pstate q = Stopped"
proof -
  have inv: "sup_inv p" using assms(1) by (rule sup_reach_inv)
  have none: "cancel p = None" and w: "stop_waits g p"
    using inv assms(2) by (auto simp: sup_inv_def stop_waits_def)
  have "\<exists>q. sup_steps fatal p q \<and> stop_waits g q \<and> gpc q g = Ended"
  proof (cases "live (gpc p g)")
    case False
    moreover have "gpc p g \<noteq> Unborn"
      using inv assms(2) none by (simp add: sup_inv_def owner_def)
    ultimately show ?thesis using w by (auto simp: live_def)
  qed (rule ends_when_cancelled [OF w])
  then obtain q where q: "sup_steps fatal p q" "stop_waits g q" "gpc q g = Ended" by blast
  let ?r = "set_state Stopped (q\<lparr>stopping := Some (g, StopClear)\<rparr>)"
  have sq: "stopping q = Some (g, StopWait)" using q(2) by (simp add: stop_waits_def)
  have "sup_inv q" using q(1) inv by (induction rule: rtranclp_induct) (auto intro: sup_step_inv)
  then have nq: "cancel q = None" using sq by (auto simp: sup_inv_def)
  have "sup_step fatal q ?r" by (rule stop_waited [OF sq q(3)])
  moreover have "sup_step fatal ?r (?r\<lparr>stopping := None\<rparr>)" by (rule stop_clears) simp
  ultimately have "sup_steps fatal p (?r\<lparr>stopping := None\<rparr>)"
    using q(1) by (meson rtranclp.rtrancl_into_rtrancl)
  with nq show ?thesis by (intro exI [of _ "?r\<lparr>stopping := None\<rparr>"] conjI) simp_all
qed

theorem stop_can_finish_witness:
  "\<exists>p q. stopping p = Some (0, StopWait) \<and> sup_steps (\<lambda>_. False) p q
     \<and> cancel q = None \<and> stopping q = None \<and> pstate q = Stopped"
proof -
  let ?a = "goto 0 AtCheck (new_proc\<lparr>cancel := Some 0, born := 1\<rparr>)"
  let ?b = "?a\<lparr>cancel := None, stopping := Some (0, StopCancel)\<rparr>"
  let ?c = "?b\<lparr>cancelled := (cancelled ?b)(0 := True), stopping := Some (0, StopWait)\<rparr>"
  have "start new_proc = Some ?a" by (simp add: start_def new_proc_def goto_def)
  then have a: "sup_reach (\<lambda>_. False) ?a" by (rule sup_reach.steps [OF begins call_start])
  have "stop_take ?a = ?b" by (simp add: stop_take_def)
  then have b: "sup_reach (\<lambda>_. False) ?b" by (metis sup_reach.steps [OF a call_stop])
  have c: "sup_reach (\<lambda>_. False) ?c" by (rule sup_reach.steps [OF b stop_cancels]) simp
  have w: "stopping ?c = Some (0, StopWait)" by simp
  show ?thesis using stop_can_finish [OF c w] w by blast
qed

end
