(* ===== verification/Update.thy ===== *)
theory Update
  imports Strconv Filepath
begin

text \<open>
  Package \<open>update\<close> (internal/update/update.go and apply.go): which release is newer, what
  the checker remembers of the last answer, and the installation of a release with its
  checks. What GitHub answers, the checksum (SHA-256), \<open>url.Parse\<close> and the package
  manager are inputs of the model.
\<close>

section \<open>Versions\<close>

datatype version = Version (major: int) (minor: int) (patch: int)

instantiation version :: linorder
begin

definition less_eq_version :: "version \<Rightarrow> version \<Rightarrow> bool" where
  "less_eq_version a b \<longleftrightarrow>
     major a < major b \<or> major a = major b \<and>
       (minor a < minor b \<or> minor a = minor b \<and> patch a \<le> patch b)"

definition less_version :: "version \<Rightarrow> version \<Rightarrow> bool" where
  "less_version a b \<longleftrightarrow>
     major a < major b \<or> major a = major b \<and>
       (minor a < minor b \<or> minor a = minor b \<and> patch a < patch b)"

instance
  by standard (auto simp: less_eq_version_def less_version_def intro: version.expand)

end

fun parse_fields :: "string list \<Rightarrow> int list option" where
  "parse_fields [] = Some []"
| "parse_fields (f # fs) =
     (if f = [] \<or> contains_any f ''+-'' then None
      else case parse_int64 f of
        (_, Some _) \<Rightarrow> None
      | (n, None) \<Rightarrow> map_option (\<lambda>ns. n # ns) (parse_fields fs))"

text \<open>\<open>parseTag\<close>: three plain numbers, with or without a leading \<open>v\<close>.\<close>

definition parse_tag :: "string \<Rightarrow> version option" where
  "parse_tag tag =
     (let fs = split_on CHR ''.'' (trim_prefix tag ''v'')
      in if length fs \<noteq> 3 then None
         else map_option (\<lambda>ns. Version (ns ! 0) (ns ! 1) (ns ! 2)) (parse_fields fs))"

text \<open>\<open>newer\<close>, with the three-way switch of the source.\<close>

definition newer :: "string \<Rightarrow> string \<Rightarrow> bool" where
  "newer running published =
     (case parse_tag running of
        None \<Rightarrow> False
      | Some have' \<Rightarrow>
          (case parse_tag published of
             None \<Rightarrow> False
           | Some there \<Rightarrow>
               if major there \<noteq> major have' then major there > major have'
               else if minor there \<noteq> minor have' then minor there > minor have'
               else patch there > patch have'))"

lemma newer_iff:
  "newer a b \<longleftrightarrow> (case (parse_tag a, parse_tag b) of (Some u, Some v) \<Rightarrow> u < v | _ \<Rightarrow> False)"
  by (auto simp: newer_def less_version_def split: option.splits)

text \<open>
  "newer" is the lexicographic order of the three numbers, on released
  versions only. No release is newer than itself, and two are never each newer than the
  other.
\<close>

theorem newer_is_version_order:
  "(newer a b \<longleftrightarrow> (\<exists>u v. parse_tag a = Some u \<and> parse_tag b = Some v \<and> u < v))
   \<and> \<not> newer a a \<and> \<not> (newer a b \<and> newer b a)"
  by (cases "parse_tag a"; cases "parse_tag b") (auto simp: newer_iff dest: less_asym)

definition show_version :: "version \<Rightarrow> string" where
  "show_version v = ''v'' @ join ''.'' [format_int (major v), format_int (minor v), format_int (patch v)]"

definition released :: "version \<Rightarrow> bool" where
  "released v \<longleftrightarrow> (\<forall>n \<in> {major v, minor v, patch v}. 0 \<le> n \<and> n < 2 ^ 63)"

lemma format_nonneg:
  assumes "0 \<le> n" "n < 2 ^ 63"
  shows "format_int n \<noteq> []" "\<not> contains_any (format_int n) ''+-''" "parse_int64 (format_int n) = (n, None)"
    "CHR ''.'' \<notin> set (format_int n)"
proof -
  have d: "is_digit c" if "c \<in> set (format_int n)" for c
    using that assms by (auto simp: format_int_def dest: dec_nat_digits)
  show "format_int n \<noteq> []" by (simp add: format_int_def)
  show "\<not> contains_any (format_int n) ''+-''"
    by (auto simp: contains_any_def list_ex_iff dest: d)
  show "parse_int64 (format_int n) = (n, None)"
    using assms by (intro parse_format_int) (simp add: in_int64_def)
  show "CHR ''.'' \<notin> set (format_int n)" by (auto dest: d)
qed

text \<open>
  The tag of a release, \<open>v\<close> and three numbers with dots between them, is read
  as exactly those numbers.
\<close>

theorem parse_tag_of_release:
  assumes "released v"
  shows "parse_tag (show_version v) = Some v"
proof -
  let ?ns = "[format_int (major v), format_int (minor v), format_int (patch v)]"
  have "split_on CHR ''.'' (join ''.'' ?ns) = ?ns"
    by (rule split_on_join) (use assms format_nonneg(4) in \<open>auto simp: released_def\<close>)
  then show ?thesis
    using assms format_nonneg
    by (simp add: parse_tag_def show_version_def trim_prefix_def released_def)
qed

theorem parse_tag_of_release_witness: "parse_tag ''v1.20.3'' = Some (Version 1 20 3)"
  using parse_tag_of_release [of "Version 1 20 3"]
  by (simp add: released_def show_version_def format_int_def dec_nat.simps digit_chars)

section \<open>The checker\<close>

record asset =
  asset_name :: string
  asset_url :: string
  digest :: string
  asset_size :: int

record release =
  rel_version :: string
  rel_url :: string
  published :: string
  package :: "asset option"

text \<open>One entry of \<open>assets\<close> in the answer, and the answer itself.\<close>

record gh_asset =
  ga_asset :: asset
  ga_state :: string

record gh_release =
  tag_name :: string
  html_url :: string
  published_at :: string
  is_draft :: bool
  is_prerelease :: bool
  gh_assets :: "gh_asset list"

datatype answer = NoAnswer | Answer nat "gh_release option"

datatype update_error =
  RequestFailed | NothingReleased | BadStatus | BadJSON | DraftOrPrerelease | NoTag
| CheckOff | NotARelease

definition fetch :: "string \<Rightarrow> answer \<Rightarrow> update_error + release" where
  "fetch asset a =
     (case a of
        NoAnswer \<Rightarrow> Inl RequestFailed
      | Answer status body \<Rightarrow>
          if status = 404 then Inl NothingReleased
          else if status \<noteq> 200 then Inl BadStatus
          else case body of
            None \<Rightarrow> Inl BadJSON
          | Some b \<Rightarrow>
              if is_draft b \<or> is_prerelease b then Inl DraftOrPrerelease
              else if tag_name b = [] then Inl NoTag
              else Inr \<lparr>rel_version = tag_name b, rel_url = html_url b, published = published_at b,
                        package = map_option ga_asset
                          (find (\<lambda>g. ga_state g = ''uploaded''
                                    \<and> \<not> (asset = [] \<or> asset_name (ga_asset g) \<noteq> asset))
                                (gh_assets b))\<rparr>)"

record checker =
  current :: string
  enabled :: bool
  wanted :: string
  latest :: "release option"
  checked :: "int option"

definition new_checker :: "string \<Rightarrow> bool \<Rightarrow> string \<Rightarrow> checker" where
  "new_checker cur en asset =
     \<lparr>current = cur, enabled = en, wanted = asset, latest = None, checked = None\<rparr>"

text \<open>\<open>check\<close>: a failed question keeps what was known; the flag is whether to say so.\<close>

definition check_release :: "int \<Rightarrow> answer \<Rightarrow> checker \<Rightarrow> checker \<times> update_error option \<times> bool" where
  "check_release now a c =
     (case fetch (wanted c) a of
        Inl e \<Rightarrow> (c, Some e, False)
      | Inr r \<Rightarrow>
          if \<not> newer (current c) (rel_version r)
          then (c\<lparr>latest := None, checked := Some now\<rparr>, None, False)
          else (c\<lparr>latest := Some r, checked := Some now\<rparr>, None,
                (case latest c of None \<Rightarrow> True | Some l \<Rightarrow> rel_version l \<noteq> rel_version r)))"

definition check_now :: "int \<Rightarrow> answer \<Rightarrow> checker \<Rightarrow> checker \<times> (update_error + release option)" where
  "check_now now a c =
     (if \<not> enabled c then (c, Inl CheckOff)
      else if parse_tag (current c) = None then (c, Inl NotARelease)
      else case check_release now a c of
        (c', Some e, _) \<Rightarrow> (c', Inl e)
      | (c', None, _) \<Rightarrow> (c', Inr (latest c')))"

text \<open>\<open>Run\<close>: one check after each tick, as long as checking is on and makes sense.\<close>

fun run_checks :: "(int \<times> answer) list \<Rightarrow> checker \<Rightarrow> checker" where
  "run_checks [] c = c"
| "run_checks ((now, a) # ticks) c = run_checks ticks (fst (check_release now a c))"

definition run_checker :: "(int \<times> answer) list \<Rightarrow> checker \<Rightarrow> checker" where
  "run_checker ticks c =
     (if \<not> enabled c then c else if parse_tag (current c) = None then c else run_checks ticks c)"

definition offers_only_newer :: "checker \<Rightarrow> bool" where
  "offers_only_newer c \<longleftrightarrow>
     (\<forall>r. latest c = Some r \<longrightarrow> newer (current c) (rel_version r)
        \<and> (\<forall>p. package r = Some p \<longrightarrow> asset_name p = wanted c))"

lemma fetch_package:
  "fetch asset a = Inr r \<Longrightarrow> package r = Some p \<Longrightarrow> asset_name p = asset"
  by (auto simp: fetch_def find_Some_iff split: answer.splits option.splits if_splits)

lemma check_release_same:
  "current (fst (check_release now a c)) = current c" "wanted (fst (check_release now a c)) = wanted c"
  by (auto simp: check_release_def split: sum.splits)

lemma check_release_offers:
  assumes "offers_only_newer c"
  shows "offers_only_newer (fst (check_release now a c))"
proof (cases "fetch (wanted c) a")
  case (Inr r)
  then show ?thesis
    using fetch_package [OF Inr] by (auto simp: check_release_def offers_only_newer_def)
qed (simp add: check_release_def assms)

lemma run_checks_same:
  "current (run_checks ticks c) = current c" "wanted (run_checks ticks c) = wanted c"
  by (induction ticks c rule: run_checks.induct) (simp_all add: check_release_same)

lemma run_checks_offers: "offers_only_newer c \<Longrightarrow> offers_only_newer (run_checks ticks c)"
  by (induction ticks c rule: run_checks.induct) (simp_all add: check_release_offers)

text \<open>
  Whatever GitHub answers and however often it is asked, the checker only
  ever offers a release that is newer than the one running, with a package meant for this
  host; and a build that is no release is offered nothing.
\<close>

theorem checker_offers_only_newer:
  "(case latest (run_checker ticks (new_checker v en asset)) of
      None \<Rightarrow> True
    | Some r \<Rightarrow> en \<and> newer v (rel_version r)
        \<and> (case package r of None \<Rightarrow> True | Some p \<Rightarrow> asset_name p = asset))"
proof -
  have "offers_only_newer (new_checker v en asset)"
    by (simp add: offers_only_newer_def new_checker_def)
  from run_checks_offers [OF this, of ticks] run_checks_same [of ticks "new_checker v en asset"]
  show ?thesis
    by (auto simp: run_checker_def new_checker_def offers_only_newer_def split: option.splits)
qed

section \<open>Installing a release\<close>

definition max_asset :: nat where "max_asset = 256 * 2 ^ 20"

record url =
  scheme :: string
  host :: string
  url_path :: string

datatype apply_error =
  UnknownManager | NotFromPackage | NoPackage | UnreadableURL | NotHTTPS | WrongHost | WrongPath
| NoTempDir | DownloadFailed | Stalled | TooLarge | NoChecksum | WrongChecksum | WrongSize
| InstallRefused

text \<open>\<open>allowed\<close>; \<open>u\<close> is what \<open>url.Parse\<close> made of the address.\<close>

definition allowed :: "url option \<Rightarrow> apply_error option" where
  "allowed u =
     (case u of
        None \<Rightarrow> Some UnreadableURL
      | Some u \<Rightarrow>
          if scheme u \<noteq> ''https'' then Some NotHTTPS
          else if host u \<noteq> ''github.com'' then Some WrongHost
          else if \<not> has_prefix (url_path u) ''/superuser404notfound/Polyseat/releases/download/''
          then Some WrongPath
          else None)"

text \<open>
  What the server sends: an HTTP status and a body in pieces, which ends, breaks off or
  stops arriving. \<open>io.LimitReader\<close> lets one byte more than the limit through. The file
  system has its say when the file is created, written and synced.
\<close>

datatype body_end = BodyDone | BodyBroken | BodyStalled

datatype download = NoConnection | Response nat string body_end

record storage =
  can_create :: bool
  can_write :: bool
  can_sync :: bool

definition fetch_asset :: "storage \<Rightarrow> download \<Rightarrow> apply_error + string" where
  "fetch_asset st d =
     (case d of
        NoConnection \<Rightarrow> Inl DownloadFailed
      | Response status body fin \<Rightarrow>
          if status \<noteq> 200 then Inl DownloadFailed
          else if \<not> can_create st \<or> \<not> can_write st then Inl DownloadFailed
          else if length body \<le> max_asset \<and> fin = BodyStalled then Inl Stalled
          else if length body \<le> max_asset \<and> fin = BodyBroken then Inl DownloadFailed
          else let got = take (Suc max_asset) body
               in if max_asset < length got then Inl TooLarge
                  else if can_sync st then Inr got else Inl DownloadFailed)"

definition verify_asset :: "asset \<Rightarrow> string \<Rightarrow> nat \<Rightarrow> apply_error option" where
  "verify_asset a hex n =
     (case cut_prefix (digest a) ''sha256:'' of
        None \<Rightarrow> Some NoChecksum
      | Some want \<Rightarrow>
          if length want \<noteq> 64 then Some NoChecksum
          else if \<not> equal_fold_hex hex want then Some WrongChecksum
          else if asset_size a \<noteq> 0 \<and> int n \<noteq> asset_size a then Some WrongSize
          else None)"

text \<open>
  \<open>Apply\<close>, with the machine it runs on: whether the package manager owns this binary and
  is one that is known, whether a directory can be made, what arrives from which address,
  whether the manager takes the file. The result is the error, if any, and the file handed
  to the package manager, if one was.
\<close>

record machine =
  managed :: bool
  known_manager :: bool
  temp_dir :: bool
  storage :: storage
  parse_url :: "string \<Rightarrow> url option"
  served :: "string \<Rightarrow> download"
  sha256_hex :: "string \<Rightarrow> string"
  takes :: "string \<Rightarrow> bool"

definition apply_release :: "machine \<Rightarrow> release option \<Rightarrow> apply_error option \<times> string option" where
  "apply_release m rel =
     (if \<not> managed m then
        (if \<not> known_manager m then (Some UnknownManager, None) else (Some NotFromPackage, None))
      else case (case rel of None \<Rightarrow> None | Some r \<Rightarrow> package r) of
        None \<Rightarrow> (Some NoPackage, None)
      | Some p \<Rightarrow>
          (case allowed (parse_url m (asset_url p)) of
             Some e \<Rightarrow> (Some e, None)
           | None \<Rightarrow>
               if \<not> temp_dir m then (Some NoTempDir, None)
               else case fetch_asset (storage m) (served m (asset_url p)) of
                 Inl e \<Rightarrow> (Some e, None)
               | Inr file \<Rightarrow>
                   (case verify_asset p (sha256_hex m file) (length file) of
                      Some e \<Rightarrow> (Some e, None)
                    | None \<Rightarrow>
                        if takes m file then (None, Some file)
                        else (Some InstallRefused, Some file))))"

text \<open>
  Property C40: the package manager is only ever handed a file that arrived whole from this
  project's own downloads over https, is at most 256 MiB, and hashes to the checksum the
  release states; in every other case it is handed nothing and the update reports why.
\<close>

theorem only_verified_files_are_installed:
  "case apply_release m rel of
     (err, None) \<Rightarrow> err \<noteq> None
   | (err, Some file) \<Rightarrow>
       managed m \<and> (\<exists>r p u. rel = Some r \<and> package r = Some p
         \<and> parse_url m (asset_url p) = Some u \<and> scheme u = ''https'' \<and> host u = ''github.com''
         \<and> has_prefix (url_path u) ''/superuser404notfound/Polyseat/releases/download/''
         \<and> length file \<le> 256 * 2 ^ 20
         \<and> (\<exists>fin. served m (asset_url p) = Response 200 file fin \<and> fin = BodyDone)
         \<and> (\<exists>want. digest p = ''sha256:'' @ want \<and> length want = 64
               \<and> map lower_char (sha256_hex m file) = map lower_char want)
         \<and> (asset_size p = 0 \<or> int (length file) = asset_size p))"
proof -
  have dl: "fetch_asset st d = Inr f \<Longrightarrow> length f \<le> max_asset \<and> d = Response 200 f BodyDone" for st d f
    by (cases d) (auto simp: fetch_asset_def Let_def split: if_splits body_end.splits,
        (metis body_end.exhaust le_SucI not_less take_all_iff)+)
  have pre: "has_prefix s t \<Longrightarrow> s = t @ drop (length t) s" for s t
    by (induction s t rule: has_prefix.induct) auto
  have ver: "verify_asset p hex n = None \<Longrightarrow>
      (\<exists>want. digest p = ''sha256:'' @ want \<and> length want = 64 \<and> map lower_char hex = map lower_char want)
      \<and> (asset_size p = 0 \<or> int n = asset_size p)" for p hex n
    using pre [of "digest p" "''sha256:''"]
    by (auto simp: verify_asset_def cut_prefix_def equal_fold_hex_def split: if_splits)
  show ?thesis
    using dl ver
    by (auto simp: apply_release_def allowed_def max_asset_def
        split: option.splits sum.splits if_splits)
qed

end
