(* ===== verification/LanBridge.thy ===== *)
theory LanBridge
  imports Line_Stream
begin

text \<open>
  Package \<open>lanbridge\<close> (internal/lanbridge/lanbridge.go): the one run of the bridge script
  the daemon allows at a time, its log, and the writer that turns the script's output
  into lines without terminal sequences.
\<close>

section \<open>Lines\<close>

text \<open>The rest of a sequence, up to and with its final byte.\<close>

fun skip_csi :: "string \<Rightarrow> string" where
  "skip_csi [] = []"
| "skip_csi (d # ds) =
     (if (of_char d :: nat) < 64 \<or> 126 < (of_char d :: nat) then skip_csi ds else ds)"

lemma length_skip_csi [termination_simp]: "length (skip_csi s) \<le> length s"
  by (induction s) auto

lemma set_skip_csi: "set (skip_csi s) \<subseteq> set s"
  by (induction s) auto

function clean_bytes :: "string \<Rightarrow> string" where
  "clean_bytes [] = []"
| "clean_bytes (c # cs) =
     (if c = CHR 0x1B \<and> cs \<noteq> [] \<and> hd cs = CHR ''['' then clean_bytes (skip_csi (tl cs))
      else c # clean_bytes cs)"
  by pat_completeness auto
termination
  by (relation "measure length") (auto simp: neq_Nil_conv le_imp_less_Suc length_skip_csi le_SucI)

text \<open>\<open>clean\<close>: the terminal taken out of a line.\<close>

definition clean_line :: "string \<Rightarrow> string" where
  "clean_line line = trim_right_set [CHR 0x20, CHR 0x09] (clean_bytes line)"

definition lan_line :: "string \<Rightarrow> string" where
  "lan_line buf = clean_line (trim_suffix buf [CHR 0x0D])"

function lan_write :: "string \<Rightarrow> string \<Rightarrow> string \<times> string list" where
  "lan_write buf b =
     (case index_byte b newline of
        None \<Rightarrow> (buf @ b, [])
      | Some i \<Rightarrow>
          (case lan_write [] (drop (Suc i) b) of
             (buf', out) \<Rightarrow> (buf', lan_line (buf @ take i b) # out)))"
  by pat_completeness auto
termination
  by (relation "measure (\<lambda>(buf, b). length b)") (auto dest: index_byte_Some)

declare lan_write.simps [simp del]

definition lan_flush :: "string \<Rightarrow> string \<times> string list" where
  "lan_flush buf = (if 0 < length buf then ([], [lan_line buf]) else (buf, []))"

lemma lan_write_splits:
  assumes "newline \<notin> set buf"
  shows "lan_write buf b = (partial_line (buf @ b), map lan_line (whole_lines (buf @ b)))"
  using assms
proof (induction buf b rule: lan_write.induct)
  case (1 buf b)
  show ?case
  proof (cases "index_byte b newline")
    case None
    then have "newline \<notin> set (buf @ b)" using 1(2) index_byte_None [of b newline] by auto
    with None show ?thesis by (simp add: lan_write.simps [of buf b])
  next
    case (Some i)
    let ?w = "buf @ take i b" and ?r = "drop (Suc i) b"
    have w: "newline \<notin> set ?w" and eq: "buf @ b = ?w @ newline # ?r"
      using index_byte_Some [OF Some] 1(2) by auto
    from 1(1) [OF Some] show ?thesis
      using Some newline_simps [OF w, of ?r]
      by (simp only: eq) (simp add: lan_write.simps [of buf b])
  qed
qed

interpretation lan: line_splitter lan_write lan_line "\<lambda>_. True"
  by unfold_locales (simp_all add: lan_write_splits)

text \<open>
  What the bridge script prints reaches the log as its lines, without the
  terminal's sequences and trailing blanks, whatever pieces it arrived in and however long
  they are.
\<close>

theorem script_lines_whole:
  "feed lan_write [] chunks =
     (partial_line (concat chunks), map lan_line (whole_lines (concat chunks)))"
  using lan.feed_lines [of "[]" chunks] by simp

text \<open>A line without an escape loses its trailing blanks and nothing else.\<close>

lemma clean_bytes_plain: "CHR 0x1B \<notin> set s \<Longrightarrow> clean_bytes s = s"
  by (induction s rule: clean_bytes.induct) auto

lemma set_clean_bytes: "set (clean_bytes s) \<subseteq> set s"
proof (induction s rule: clean_bytes.induct)
  case (2 c cs)
  then show ?case using set_skip_csi [of "tl cs"] by (cases cs) auto
qed simp

text \<open>
  An escape before a sequence protects what follows it: taking the inner sequence out
  leaves a new one, so \<open>clean\<close> is not a fixed point of itself.
\<close>

lemma clean_leaves_sequence:
  "clean_line [CHR 0x1B, CHR 0x1B, CHR ''['', CHR ''m'', CHR ''['', CHR ''3'', CHR ''1'', CHR ''m'']
     = [CHR 0x1B, CHR ''['', CHR ''3'', CHR ''1'', CHR ''m'']"
  by (simp add: clean_line_def trim_right_set_def)

section \<open>The runner\<close>

definition max_log :: nat where "max_log = 200"

record runner =
  running :: bool
  undo :: bool
  run_log :: "string list"
  run_err :: string
  run_done :: bool

definition new_runner :: runner where
  "new_runner = \<lparr>running = False, undo = False, run_log = [], run_err = [], run_done = False\<rparr>"

text \<open>\<open>Start\<close>; \<open>cmd\<close> is what \<open>Command\<close> found. The flag says whether a run was begun.\<close>

datatype start_error = NotInstalled | AlreadyRunning

definition runner_start :: "string option \<Rightarrow> bool \<Rightarrow> runner \<Rightarrow> runner \<times> start_error option" where
  "runner_start cmd u r =
     (case cmd of
        None \<Rightarrow> (r, Some NotInstalled)
      | Some path \<Rightarrow>
          if running r then (r, Some AlreadyRunning)
          else (r\<lparr>running := True, undo := u, run_log := [], run_err := [], run_done := False\<rparr>, None))"

definition runner_write :: "string \<Rightarrow> runner \<Rightarrow> runner" where
  "runner_write line r =
     (let l = run_log r @ [line]
      in r\<lparr>run_log := (if max_log < length l then drop (length l - max_log) l else l)\<rparr>)"

text \<open>The end of \<open>run\<close>; \<open>err\<close> is the text of the error of \<open>Run\<close>.\<close>

definition runner_finish :: "string option \<Rightarrow> runner \<Rightarrow> runner" where
  "runner_finish err r =
     (case err of
        Some e \<Rightarrow> r\<lparr>running := False, run_err := e\<rparr>
      | None \<Rightarrow> r\<lparr>running := False, run_done := True\<rparr>)"

text \<open>
  The runner with its goroutines: the calls of \<open>Start\<close> from outside and what the
  goroutines of the runs begun so far do. \<open>runs\<close> counts the goroutines that have not
  finished.
\<close>

inductive run_step :: "runner \<times> nat \<Rightarrow> runner \<times> nat \<Rightarrow> bool" where
  begun: "runner_start cmd u r = (r', None) \<Longrightarrow> run_step (r, runs) (r', Suc runs)"
| refused: "runner_start cmd u r = (r', Some e) \<Longrightarrow> run_step (r, runs) (r', runs)"
| writes: "run_step (r, Suc runs) (runner_write line r, Suc runs)"
| finishes: "run_step (r, Suc runs) (runner_finish err r, runs)"

inductive run_reach :: "runner \<times> nat \<Rightarrow> bool" where
  fresh: "run_reach (new_runner, 0)"
| step: "run_reach s \<Longrightarrow> run_step s t \<Longrightarrow> run_reach t"

inductive_cases run_stepE: "run_step (r, runs) t"

lemma run_reach_inv:
  "run_reach s \<Longrightarrow>
     snd s = (if running (fst s) then 1 else 0) \<and> length (run_log (fst s)) \<le> max_log
     \<and> (running (fst s) \<or> run_done (fst s) \<longrightarrow> run_err (fst s) = [])
     \<and> \<not> (running (fst s) \<and> run_done (fst s))"
proof (induction rule: run_reach.induct)
  case (step s t)
  obtain r runs where s: "s = (r, runs)" by (cases s)
  from step.hyps(2) [unfolded s] step.IH [unfolded s] show ?case
    by (elim run_stepE)
      (auto simp: runner_start_def runner_write_def runner_finish_def max_log_def Let_def
        split: option.splits if_splits)
qed (simp add: new_runner_def)

text \<open>
  However the calls come, the uplink is changed by one run at a time, the log
  keeps at most the last 200 lines, and "done" is never claimed of a run that failed or is
  still going.
\<close>

theorem one_bridge_run:
  assumes "run_reach (r, runs)"
  shows "runs \<le> 1 \<and> (running r \<longleftrightarrow> runs = 1) \<and> length (run_log r) \<le> 200
    \<and> (run_done r \<longrightarrow> \<not> running r \<and> run_err r = [])"
  using run_reach_inv [OF assms] by (auto simp: max_log_def split: if_splits)

theorem one_bridge_run_witness:
  "run_done (runner_finish None (runner_write ''ok'' (fst (runner_start (Some ''/usr/bin/x'') False new_runner))))
   \<and> run_err (runner_finish None (runner_write ''ok'' (fst (runner_start (Some ''/usr/bin/x'') False new_runner)))) = []"
proof -
  let ?r1 = "fst (runner_start (Some ''/usr/bin/x'') False new_runner)"
  have "runner_start (Some ''/usr/bin/x'') False new_runner = (?r1, None)"
    by (simp add: runner_start_def new_runner_def)
  then have 1: "run_reach (?r1, Suc 0)" by (intro run_reach.step [OF fresh] begun)
  have 2: "run_reach (runner_write ''ok'' ?r1, Suc 0)" by (rule run_reach.step [OF 1 writes])
  have 3: "run_reach (runner_finish None (runner_write ''ok'' ?r1), 0)"
    by (rule run_reach.step [OF 2 finishes])
  have "run_done (runner_finish None (runner_write ''ok'' ?r1))" by (simp add: runner_finish_def)
  with one_bridge_run [OF 3] show ?thesis by simp
qed

end
