(* ===== verification/HostCg.thy ===== *)
theory HostCg
  imports Strconv Filepath
begin

text \<open>
  Package \<open>hostcg\<close> (internal/hostcg/hostcg.go): finding cgroup v1 hierarchies in the mount
  table, deciding whether somebody uses one, and unmounting those nobody uses. The
  hierarchy below a mount point is a tree; the mount table and \<open>umount\<close> are the operations
  of a host state the interface \<open>mount_host\<close> describes.
\<close>

definition cg_root :: string where "cg_root = ''/sys/fs/cgroup''"

record occupant =
  occ_path :: string
  occ_comm :: string
  occ_procs :: nat

record legacy =
  point :: string
  leg_controllers :: string
  occupants_of :: "occupant list"
  users :: nat

definition idle :: "legacy \<Rightarrow> bool" where
  "idle l = (users l = 0)"

section \<open>The mount table\<close>

fun oct_digits :: "nat \<Rightarrow> string \<Rightarrow> nat option" where
  "oct_digits acc [] = Some acc"
| "oct_digits acc (c # cs) =
     (let b = (of_char c :: nat)
      in if 48 \<le> b \<and> b \<le> 55 then oct_digits (8 * acc + (b - 48)) cs else None)"

text \<open>\<open>unescape\<close>: a backslash and three octal digits that make a byte are that byte.\<close>

fun unescape_bytes :: "string \<Rightarrow> string" where
  "unescape_bytes [] = []"
| "unescape_bytes (c # cs) =
     (if c \<noteq> CHR 0x5C \<or> length cs < 3 then c # unescape_bytes cs
      else case oct_digits 0 (take 3 cs) of
        None \<Rightarrow> c # unescape_bytes cs
      | Some n \<Rightarrow> if n < 256 then char_of n # unescape_bytes (drop 3 cs)
                 else c # unescape_bytes cs)"

definition unescape :: "string \<Rightarrow> string" where
  "unescape field = (if CHR 0x5C \<notin> set field then field else unescape_bytes field)"

definition controllers :: "string \<Rightarrow> string" where
  "controllers options =
     join '','' (filter (\<lambda>opt. opt \<notin> set [''rw'', ''ro'', ''relatime'', ''noatime'', ''nosuid'',
                                            ''nodev'', ''noexec'', ''seclabel''])
       (split_on CHR '','' options))"

section \<open>Who is in a hierarchy\<close>

text \<open>
  A cgroup directory: the contents of \<open>cgroup.procs\<close> and \<open>net_cls.classid\<close>, where they can
  be read, and the directories below, in the order \<open>WalkDir\<close> visits them.
\<close>

datatype cgdir = CG (procs_file: "string option") (classid_file: "string option")
  (subdirs: "(string \<times> cgdir) list")

definition cg_procs :: "cgdir \<Rightarrow> int list" where
  "cg_procs d =
     (case procs_file d of
        None \<Rightarrow> []
      | Some data \<Rightarrow>
          concat (map (\<lambda>line. case parse_int64 (trim_space line) of
                                (pid, None) \<Rightarrow> [pid] | (_, Some _) \<Rightarrow> [])
            (split_on CHR 0x0A (trim_space data))))"

text \<open>\<open>strconv.ParseUint(s, 10, 32)\<close>.\<close>

definition parse_uint32 :: "string \<Rightarrow> nat option" where
  "parse_uint32 s =
     (if s = [] then None
      else case digits_value 0 s of
        None \<Rightarrow> None | Some n \<Rightarrow> if n < 2 ^ 32 then Some n else None)"

definition inert :: "cgdir \<Rightarrow> bool" where
  "inert d =
     (case classid_file d of
        None \<Rightarrow> False
      | Some data \<Rightarrow> parse_uint32 (trim_space data) = Some 0)"

definition ours :: "string \<Rightarrow> bool" where
  "ours rel = (rel = ''lxc.pivot'')"

text \<open>
  \<open>occupants\<close>: the walk below the mount point. \<open>comm\<close> is the name of a process in
  \<open>/proc\<close>; \<open>rel\<close> is the path relative to the mount point, empty at the mount point itself.
\<close>

definition occupant_at :: "(int \<Rightarrow> string) \<Rightarrow> string \<Rightarrow> cgdir \<Rightarrow> occupant list" where
  "occupant_at comm rel d =
     (let pids = cg_procs d
      in if pids = [] \<or> inert d then []
         else [\<lparr>occ_path = rel, occ_comm = comm (hd pids), occ_procs = length pids\<rparr>])"

fun walk_subdirs :: "(int \<Rightarrow> string) \<Rightarrow> string \<Rightarrow> (string \<times> cgdir) list \<Rightarrow> occupant list" where
  "walk_subdirs comm rel [] = []"
| "walk_subdirs comm rel ((name, CG pf cf subs) # rest) =
     (let here = (if rel = [] then name else rel @ ''/'' @ name)
      in (if ours here then []
          else occupant_at comm here (CG pf cf subs) @ walk_subdirs comm here subs)
         @ walk_subdirs comm rel rest)"

definition occupants :: "(int \<Rightarrow> string) \<Rightarrow> cgdir \<Rightarrow> occupant list" where
  "occupants comm d = walk_subdirs comm [] (subdirs d)"

fun total :: "occupant list \<Rightarrow> nat" where
  "total [] = 0"
| "total (x # xs) = occ_procs x + total xs"

text \<open>One line of \<open>/proc/self/mountinfo\<close>; \<open>cgroup_at\<close> is what stands at a mount point.\<close>

definition mount_line :: "(int \<Rightarrow> string) \<Rightarrow> (string \<Rightarrow> cgdir) \<Rightarrow> string \<Rightarrow> legacy option" where
  "mount_line comm cgroup_at line =
     (case cut line '' - '' of
        None \<Rightarrow> None
      | Some (left, right) \<Rightarrow>
          let lf = str_fields left; rf = str_fields right
          in if length lf < 5 \<or> length rf < 3 then None
             else if rf ! 0 \<noteq> ''cgroup'' then None
             else let pt = unescape (lf ! 4)
                  in if pt \<noteq> cg_root \<and> \<not> has_prefix pt (cg_root @ ''/'') then None
                     else let occ = occupants comm (cgroup_at pt)
                          in Some \<lparr>point = pt, leg_controllers = controllers (rf ! 2),
                                   occupants_of = occ, users = total occ\<rparr>)"

definition mounts :: "(int \<Rightarrow> string) \<Rightarrow> (string \<Rightarrow> cgdir) \<Rightarrow> string option \<Rightarrow> legacy list" where
  "mounts comm cgroup_at mountinfo =
     (case mountinfo of
        None \<Rightarrow> []
      | Some data \<Rightarrow> List.map_filter (mount_line comm cgroup_at) (split_on CHR 0x0A data))"

section \<open>Clearing and recovering\<close>

text \<open>
  \<open>Clear\<close> and \<open>RecoverFor\<close> over a host state \<open>'w\<close>: \<open>umount lazy point\<close> answers whether it
  worked, \<open>points\<close> lists the hierarchies mounted now. The trace is the calls of umount.
\<close>

type_synonym umount_call = "bool \<times> string"

definition clear_mount ::
  "(bool \<Rightarrow> string \<Rightarrow> 'w \<Rightarrow> 'w \<times> bool) \<Rightarrow> ('w \<Rightarrow> string list) \<Rightarrow> string \<Rightarrow> 'w
     \<Rightarrow> 'w \<times> umount_call list \<times> bool" where
  "clear_mount umount points pt w =
     (case umount False pt w of
        (w1, True) \<Rightarrow> (w1, [(False, pt)], True)
      | (w1, False) \<Rightarrow>
          (case umount True pt w1 of
             (w2, True) \<Rightarrow> (w2, [(False, pt), (True, pt)], True)
           | (w2, False) \<Rightarrow>
               (w2, [(False, pt), (True, pt)], pt \<notin> set (points w2))))"

fun recover_for ::
  "(bool \<Rightarrow> string \<Rightarrow> 'w \<Rightarrow> 'w \<times> bool) \<Rightarrow> ('w \<Rightarrow> string list) \<Rightarrow> legacy list \<Rightarrow> 'w
     \<Rightarrow> 'w \<times> umount_call list \<times> bool" where
  "recover_for umount points [] w = (w, [], False)"
| "recover_for umount points (l # ls) w =
     (if \<not> idle l then recover_for umount points ls w
      else case clear_mount umount points (point l) w of
        (w1, calls1, ok) \<Rightarrow>
          (case recover_for umount points ls w1 of
             (w2, calls2, cleared) \<Rightarrow> (w2, calls1 @ calls2, ok \<or> cleared)))"

text \<open>What \<open>umount\<close> promises: only the named mount goes, and it goes when it says so.\<close>

locale mount_host =
  fixes umount :: "bool \<Rightarrow> string \<Rightarrow> 'w \<Rightarrow> 'w \<times> bool"
    and points :: "'w \<Rightarrow> string list"
  assumes umount_only: "umount lazy pt w = (w', ok) \<Longrightarrow>
      set (points w') \<subseteq> set (points w) \<and> set (points w) - {pt} \<subseteq> set (points w')"
    and umount_ok: "umount lazy pt w = (w', True) \<Longrightarrow> pt \<notin> set (points w')"
begin

lemma clear_mount_points:
  "clear_mount umount points pt w = (w', calls, ok) \<Longrightarrow>
     set (points w') \<subseteq> set (points w) \<and> set (points w) - {pt} \<subseteq> set (points w')
     \<and> (ok \<longrightarrow> pt \<notin> set (points w')) \<and> snd ` set calls = {pt}"
proof -
  assume c: "clear_mount umount points pt w = (w', calls, ok)"
  obtain w1 ok1 where 1: "umount False pt w = (w1, ok1)" by (cases "umount False pt w")
  obtain w2 ok2 where 2: "umount True pt w1 = (w2, ok2)" by (cases "umount True pt w1")
  show ?thesis
  proof (cases ok1)
    case True
    with c 1 umount_only [OF 1] umount_ok [of False pt w w1] show ?thesis
      by (auto simp: clear_mount_def)
  next
    case False
    with c 1 2 have "w' = w2" "calls = [(False, pt), (True, pt)]" "ok = (ok2 \<or> pt \<notin> set (points w2))"
      by (cases ok2; simp add: clear_mount_def)+
    with umount_only [OF 1] umount_only [OF 2] umount_ok [of True pt w1 w2] 2 show ?thesis by auto
  qed
qed

lemma recover_for_points:
  "recover_for umount points ls w = (w', calls, cleared) \<Longrightarrow>
     set (points w') \<subseteq> set (points w)
     \<and> set (points w) - point ` {l \<in> set ls. idle l} \<subseteq> set (points w')
     \<and> snd ` set calls = point ` {l \<in> set ls. idle l}"
proof (induction ls arbitrary: w w' calls cleared)
  case (Cons l ls)
  show ?case
  proof (cases "idle l")
    case True
    obtain w1 c1 ok where c: "clear_mount umount points (point l) w = (w1, c1, ok)"
      by (cases "clear_mount umount points (point l) w")
    obtain w2 c2 cl where r: "recover_for umount points ls w1 = (w2, c2, cl)"
      by (cases "recover_for umount points ls w1")
    have eq: "w' = w2" "calls = c1 @ c2" using Cons.prems True c r by simp_all
    have i: "{x \<in> set (l # ls). idle x} = insert l {x \<in> set ls. idle x}" using True by auto
    note one = clear_mount_points [OF c] and more = Cons.IH [OF r]
    have "set (points w2) \<subseteq> set (points w)" using one more by (meson subset_trans)
    moreover have "set (points w) - insert (point l) (point ` {x \<in> set ls. idle x}) \<subseteq> set (points w2)"
      using one more by (elim conjE) blast
    moreover have "snd ` set (c1 @ c2) = insert (point l) (point ` {x \<in> set ls. idle x})"
      using one more by (simp only: set_append image_Un) simp
    ultimately show ?thesis unfolding eq i by simp
  next
    case False
    then have "{x \<in> set (l # ls). idle x} = {x \<in> set ls. idle x}" by auto
    with Cons False show ?thesis by simp
  qed
qed simp

end

text \<open>
  The host this runs on: a mount table, the mounts a plain unmount finds busy and those
  that cannot be detached at all.
\<close>

record host_mounts =
  table :: "string list"
  busy :: "string list"
  stuck :: "string list"

definition host_umount :: "bool \<Rightarrow> string \<Rightarrow> host_mounts \<Rightarrow> host_mounts \<times> bool" where
  "host_umount lazy pt w =
     (if pt \<notin> set (table w) \<or> (\<not> lazy \<and> pt \<in> set (busy w)) \<or> pt \<in> set (stuck w) then (w, False)
      else (w\<lparr>table := filter (\<lambda>q. q \<noteq> pt) (table w)\<rparr>, True))"

interpretation hostm: mount_host host_umount table
  by unfold_locales (auto simp: host_umount_def split: if_splits)

text \<open>
  Recovering a host only ever unmounts hierarchies nobody uses: every call of
  umount names an idle one, and every mount that is in use, or that was not found to be a
  legacy hierarchy at all, is still there afterwards.
\<close>

theorem recover_spares_what_is_used:
  assumes "recover_for host_umount table ls w = (w', calls, cleared)"
  shows "(\<forall>(lazy, pt) \<in> set calls. \<exists>l \<in> set ls. point l = pt \<and> users l = 0)
    \<and> (\<forall>pt \<in> set (table w). (\<forall>l \<in> set ls. point l = pt \<longrightarrow> 0 < users l) \<longrightarrow> pt \<in> set (table w'))"
proof -
  note r = hostm.recover_for_points [OF assms]
  have "\<exists>l \<in> set ls. point l = pt \<and> users l = 0" if "(lazy, pt) \<in> set calls" for lazy pt
  proof -
    have "pt \<in> snd ` set calls" using that by force
    then show ?thesis using r by (auto simp: idle_def)
  qed
  moreover have "pt \<in> set (table w')"
    if "pt \<in> set (table w)" "\<forall>l \<in> set ls. point l = pt \<longrightarrow> 0 < users l" for pt
    using that r by (auto simp: idle_def) force
  ultimately show ?thesis by blast
qed

theorem recover_spares_what_is_used_witness:
  "let used = \<lparr>point = ''/sys/fs/cgroup/a'', leg_controllers = [], occupants_of = [], users = 2\<rparr>;
       free = \<lparr>point = ''/sys/fs/cgroup/b'', leg_controllers = [], occupants_of = [], users = 0\<rparr>;
       w = \<lparr>table = [''/sys/fs/cgroup/a'', ''/sys/fs/cgroup/b''], busy = [''/sys/fs/cgroup/b''], stuck = []\<rparr>
   in recover_for host_umount table [used, free] w
        = (w\<lparr>table := [''/sys/fs/cgroup/a'']\<rparr>, [(False, ''/sys/fs/cgroup/b''), (True, ''/sys/fs/cgroup/b'')], True)
      \<and> ''/sys/fs/cgroup/a'' \<in> set (table (fst (recover_for host_umount table [used, free] w)))"
proof -
  let ?used = "\<lparr>point = ''/sys/fs/cgroup/a'', leg_controllers = [], occupants_of = [], users = 2\<rparr>"
  let ?free = "\<lparr>point = ''/sys/fs/cgroup/b'', leg_controllers = [], occupants_of = [], users = 0\<rparr>"
  let ?w = "\<lparr>table = [''/sys/fs/cgroup/a'', ''/sys/fs/cgroup/b''], busy = [''/sys/fs/cgroup/b''], stuck = []\<rparr>"
  have run: "recover_for host_umount table [?used, ?free] ?w = (?w\<lparr>table := [''/sys/fs/cgroup/a'']\<rparr>,
      [(False, ''/sys/fs/cgroup/b''), (True, ''/sys/fs/cgroup/b'')], True)"
    by (simp add: idle_def clear_mount_def host_umount_def)
  from recover_spares_what_is_used [OF run] run show ?thesis by (simp add: Let_def)
qed

section \<open>The names of mount points\<close>

text \<open>
  How the kernel writes a path into mountinfo: space, tab, newline and backslash as a
  backslash and three octal digits.
\<close>

definition octal3 :: "nat \<Rightarrow> string" where
  "octal3 n = [char_of (48 + n div 64), char_of (48 + n div 8 mod 8), char_of (48 + n mod 8)]"

definition mangled :: "char \<Rightarrow> bool" where
  "mangled c \<longleftrightarrow> c \<in> {CHR 0x20, CHR 0x09, CHR 0x0A, CHR 0x5C}"

definition mangle :: "string \<Rightarrow> string" where
  "mangle s = concat (map (\<lambda>c. if mangled c then CHR 0x5C # octal3 (of_char c) else [c]) s)"

lemma unescape_bytes_plain: "CHR 0x5C \<notin> set s \<Longrightarrow> unescape_bytes s = s"
  by (induction s rule: unescape_bytes.induct) auto

lemma octal_sum: "64 * (n div 64) + 8 * (n div 8 mod 8) + n mod 8 = (n::nat)"
proof -
  have "n div 8 = 8 * (n div 8 div 8) + n div 8 mod 8" by simp
  moreover have "n div 8 div 8 = n div 64" by (simp add: div_mult2_eq [symmetric])
  moreover have "n = 8 * (n div 8) + n mod 8" by simp
  ultimately show ?thesis by linarith
qed

lemma octal3_read: "n < 256 \<Longrightarrow> oct_digits 0 (octal3 n) = Some n"
proof -
  assume "n < 256"
  then have "n div 64 \<le> 7" by simp
  moreover have "n div 8 mod 8 < 8" "n mod 8 < 8" by simp_all
  then have "n div 8 mod 8 \<le> 7" "n mod 8 \<le> 7" by simp_all
  ultimately show ?thesis
    using octal_sum [of n] by (simp add: octal3_def of_char_of Let_def)
qed

lemma unescape_bytes_mangle: "unescape_bytes (mangle s) = s"
proof (induction s)
  case (Cons c s)
  have "of_char c < (256::nat)" by simp
  then have o: "oct_digits 0 (octal3 (of_char c)) = Some (of_char c)" by (rule octal3_read)
  have l: "length (octal3 (of_char c)) = 3" by (simp add: octal3_def)
  show ?case
  proof (cases "mangled c")
    case True
    have "unescape_bytes (CHR 0x5C # octal3 (of_char c) @ mangle s) = c # unescape_bytes (mangle s)"
      using o l by simp
    with True Cons show ?thesis by (simp add: mangle_def)
  next
    case False
    with Cons show ?thesis by (simp add: mangle_def mangled_def)
  qed
qed (simp add: mangle_def)

text \<open>
  A mount point is read back from mountinfo as the path it is, whatever bytes
  it has: \<open>unescape\<close> undoes what the kernel wrote.
\<close>

theorem unescape_mangle: "unescape (mangle s) = s"
  using unescape_bytes_mangle [of s] unescape_bytes_plain [of "mangle s"]
  by (auto simp: unescape_def)

end
