(* ===== verification/Manifest.thy ===== *)
theory Manifest
  imports Strconv Line_Stream
begin

text \<open>
  Steam's text files as internal/library/steam.go reads and rewrites them: the manifest
  of an app (\<open>appmanifest_<id>.acf\<close>) and \<open>libraryfolders.vdf\<close>; with \<open>safeName\<close> of
  internal/library/clone.go, which guards every name that comes from such a file.
\<close>

section \<open>Lines of a file\<close>

text \<open>The buffer the scanners are given: a line of that many bytes is too long.\<close>

definition max_token :: nat where "max_token = 1024 * 1024"

definition drop_cr :: "string \<Rightarrow> string" where
  "drop_cr l = trim_suffix l [CHR 0x0D]"

text \<open>
  \<open>bufio.Scanner\<close> with \<open>ScanLines\<close>: the lines up to one that is too long, and whether
  there was one. What follows the last newline is a line if it is not empty.
\<close>

definition raw_lines :: "string \<Rightarrow> string list" where
  "raw_lines s = (if partial_line s = [] then whole_lines s else split_on newline s)"

definition scan_lines :: "string \<Rightarrow> string list \<times> bool" where
  "scan_lines s =
     (map drop_cr (takeWhile (\<lambda>l. length l < max_token) (raw_lines s)),
      list_ex (\<lambda>l. max_token \<le> length l) (raw_lines s))"

section \<open>Names\<close>

datatype name_error = Unusable | HasSeparator | StartsWithDot

definition safe_name :: "string \<Rightarrow> name_error option" where
  "safe_name name =
     (if name = [] \<or> name = ''.'' \<or> name = ''..'' then Some Unusable
      else if contains_any name [CHR ''/'', CHR 0x5C] then Some HasSeparator
      else if has_prefix name ''.'' then Some StartsWithDot
      else None)"

lemma safe_name_component:
  "safe_name n = None \<Longrightarrow> n \<noteq> [] \<and> n \<noteq> ''.'' \<and> n \<noteq> ''..'' \<and> CHR ''/'' \<notin> set n"
  by (auto simp: safe_name_def contains_any_def list_ex_iff split: if_splits)

section \<open>The manifest of an app\<close>

record app =
  app_id :: string
  app_name :: string
  install_dir :: string
  build_id :: string
  state_flags :: int
  size_on_disk :: int
  app_data :: string
  mod_time :: int

definition state_installed :: int where "state_installed = 4"

definition installed :: "app \<Rightarrow> bool" where
  "installed a = (state_flags a = state_installed \<and> install_dir a \<noteq> [] \<and> app_id a \<noteq> [])"

definition manifest_name :: "string \<Rightarrow> string" where
  "manifest_name appid = ''appmanifest_'' @ appid @ ''.acf''"

text \<open>\<open>Newer\<close>: builds are numbers, and what is no number is never newer.\<close>

definition newer_build :: "string \<Rightarrow> string \<Rightarrow> bool" where
  "newer_build a b =
     (case parse_int64 a of
        (_, Some _) \<Rightarrow> False
      | (x, None) \<Rightarrow>
          (case parse_int64 b of
             (_, Some _) \<Rightarrow> False
           | (y, None) \<Rightarrow> x > y))"

lemma newer_build_iff:
  "newer_build a b \<longleftrightarrow> snd (parse_int64 a) = None \<and> snd (parse_int64 b) = None
     \<and> fst (parse_int64 a) > fst (parse_int64 b)"
  by (auto simp: newer_build_def split: prod.splits option.splits)

abbreviation quote :: char where "quote \<equiv> CHR 0x22"

text \<open>\<open>parsePair\<close>: two quoted strings on a line.\<close>

definition parse_pair :: "string \<Rightarrow> (string \<times> string) option" where
  "parse_pair line =
     (if \<not> has_prefix line [quote] then None
      else case index_byte (drop 1 line) quote of
        None \<Rightarrow> None
      | Some e \<Rightarrow>
          let key = take e (drop 1 line); rest = trim_space (drop (e + 1) (drop 1 line))
          in if \<not> has_prefix rest [quote] then None
             else case index_byte (drop 1 rest) quote of
               None \<Rightarrow> None
             | Some e2 \<Rightarrow> Some (key, take e2 (drop 1 rest)))"

datatype vdf_line = OpenBrace | CloseBrace | Pair string string | OtherLine

definition vdf_line :: "string \<Rightarrow> vdf_line" where
  "vdf_line trimmed =
     (if trimmed = ''{'' then OpenBrace
      else if trimmed = ''}'' then CloseBrace
      else case parse_pair trimmed of None \<Rightarrow> OtherLine | Some (k, v) \<Rightarrow> Pair k v)"

text \<open>The loop of \<open>parseManifest\<close>: the pairs at depth one, by their key in lower case.\<close>

fun manifest_fields :: "int \<Rightarrow> (string \<times> string) list \<Rightarrow> string list \<Rightarrow> (string \<times> string) list" where
  "manifest_fields depth fs [] = fs"
| "manifest_fields depth fs (l # ls) =
     (case vdf_line (trim_space l) of
        OpenBrace \<Rightarrow> manifest_fields (depth + 1) fs ls
      | CloseBrace \<Rightarrow> manifest_fields (depth - 1) fs ls
      | OtherLine \<Rightarrow> manifest_fields depth fs ls
      | Pair k v \<Rightarrow>
          if depth \<noteq> 1 then manifest_fields depth fs ls
          else manifest_fields depth (AList.update (to_lower k) v fs) ls)"

datatype manifest_error =
  LineTooLong | NoFields | NoAppID | BadInstallDir name_error | AppIDNotNumber

definition field :: "(string \<times> string) list \<Rightarrow> string \<Rightarrow> string" where
  "field fs k = (case map_of fs k of None \<Rightarrow> [] | Some v \<Rightarrow> v)"

definition app_of_fields :: "(string \<times> string) list \<Rightarrow> app" where
  "app_of_fields fs =
     \<lparr>app_id = field fs ''appid'', app_name = field fs ''name'',
      install_dir = field fs ''installdir'', build_id = field fs ''buildid'',
      state_flags = fst (parse_int64 (field fs ''stateflags'')),
      size_on_disk = fst (parse_int64 (field fs ''sizeondisk'')),
      app_data = [], mod_time = 0\<rparr>"

definition parse_manifest :: "string \<Rightarrow> manifest_error + app" where
  "parse_manifest data =
     (case scan_lines data of (ls, too_long) \<Rightarrow>
        let fs = manifest_fields 0 [] ls; a = app_of_fields fs
        in if too_long then Inl LineTooLong
           else if length fs = 0 then Inl NoFields
           else if app_id a = [] then Inl NoAppID
           else case (if install_dir a = [] then None else safe_name (install_dir a)) of
             Some e \<Rightarrow> Inl (BadInstallDir e)
           | None \<Rightarrow> if \<not> numeric (app_id a) then Inl AppIDNotNumber else Inr a)"

lemma parse_manifest_names:
  assumes "parse_manifest data = Inr a"
  shows "app_id a \<noteq> []" "list_all is_digit (app_id a)" "install_dir a \<noteq> [] \<Longrightarrow> safe_name (install_dir a) = None"
    "CHR ''/'' \<notin> set (manifest_name (app_id a))"
proof -
  have d: "app_id a \<noteq> [] \<and> list_all is_digit (app_id a) \<and> (install_dir a \<noteq> [] \<longrightarrow> safe_name (install_dir a) = None)"
    using assms
    by (auto simp: parse_manifest_def Let_def numeric_def split: prod.splits if_splits option.splits)
  then show "app_id a \<noteq> []" "list_all is_digit (app_id a)" "install_dir a \<noteq> [] \<Longrightarrow> safe_name (install_dir a) = None"
    by simp_all
  then show "CHR ''/'' \<notin> set (manifest_name (app_id a))" by (auto simp: list_all_iff manifest_name_def)
qed

text \<open>
  A manifest that is accepted names no path. Its app id is made of digits and
  its install directory is a single component that cannot climb or hide, so neither the
  manifest's name nor the game's directory leaves the directory they are looked up in.
\<close>

theorem accepted_manifest_is_safe:
  assumes "parse_manifest data = Inr a"
  shows "app_id a \<noteq> [] \<and> list_all is_digit (app_id a)
    \<and> (installed a \<longrightarrow> safe_name (install_dir a) = None
          \<and> CHR ''/'' \<notin> set (install_dir a) \<and> install_dir a \<noteq> ''..'')
    \<and> CHR ''/'' \<notin> set (manifest_name (app_id a))"
  using parse_manifest_names [OF assms] safe_name_component by (auto simp: installed_def)

section \<open>Rewriting a manifest for another account\<close>

definition neutralised :: "string \<Rightarrow> string option" where
  "neutralised k = (if k = ''lastowner'' \<or> k = ''lastplayed'' then Some ''0'' else None)"

definition blanks :: string where "blanks = [CHR 0x20, CHR 0x09]"

definition rewrite_line :: "int \<Rightarrow> string \<Rightarrow> string" where
  "rewrite_line depth line =
     (case vdf_line (trim_space line) of
        Pair k v \<Rightarrow>
          if depth = 1 then
            (case neutralised (to_lower k) of
               None \<Rightarrow> line
             | Some r \<Rightarrow>
                 takeWhile (\<lambda>c. c \<in> set blanks) line
                   @ [quote] @ k @ [quote] @ [CHR 0x09, CHR 0x09] @ [quote] @ r @ [quote])
          else line
      | _ \<Rightarrow> line)"

fun rewrite_lines :: "int \<Rightarrow> string list \<Rightarrow> string list" where
  "rewrite_lines depth [] = []"
| "rewrite_lines depth (l # ls) =
     rewrite_line depth l #
     rewrite_lines
       (case vdf_line (trim_space l) of
          OpenBrace \<Rightarrow> depth + 1 | CloseBrace \<Rightarrow> depth - 1 | _ \<Rightarrow> depth) ls"

definition unlines :: "string list \<Rightarrow> string" where
  "unlines ls = concat (map (\<lambda>l. l @ [newline]) ls)"

text \<open>\<open>Rewrite\<close>; the scanner's error is not looked at, so it ends at a line too long.\<close>

definition rewrite :: "string \<Rightarrow> string" where
  "rewrite data = unlines (rewrite_lines 0 (fst (scan_lines data)))"

subsection \<open>What the rewriting keeps\<close>

lemma set_trim_space: "set (trim_space s) \<subseteq> set s"
  using set_trim_seqs set_trim_right_space unfolding trim_space_def by (meson subset_trans)

lemma trim_space_drop_cr [simp]: "trim_space (drop_cr l) = trim_space l"
proof (cases l rule: rev_cases)
  case (snoc s c)
  then show ?thesis
    by (cases "c = CHR 0x0D") (simp_all add: drop_cr_def trim_suffix_def has_suffix_def trim_space_def)
qed (simp add: drop_cr_def trim_suffix_def)

lemma set_drop_cr: "set (drop_cr l) \<subseteq> set l"
  by (auto simp: drop_cr_def trim_suffix_def dest: in_set_takeD)

lemma length_drop_cr: "length (drop_cr l) \<le> length l"
  by (simp add: drop_cr_def trim_suffix_def)

lemma drop_cr_quote [simp]: "drop_cr (s @ [quote]) = s @ [quote]"
  by (simp add: drop_cr_def trim_suffix_def has_suffix_def)

lemma parse_pair_chars:
  assumes "parse_pair t = Some (k, v)"
  shows "quote \<notin> set k" "set k \<subseteq> set t" "length k \<le> length t"
proof -
  from assms obtain e where i: "index_byte (drop 1 t) quote = Some e" and k: "k = take e (drop 1 t)"
    by (auto simp: parse_pair_def Let_def split: if_splits option.splits)
  show "quote \<notin> set k" using index_byte_Some [OF i] k by simp
  show "set k \<subseteq> set t" using k by (meson in_set_dropD in_set_takeD subsetI)
  show "length k \<le> length t" using k by simp
qed

text \<open>The line written in place of a neutralised one is that pair again.\<close>

abbreviation pair_text :: "string \<Rightarrow> string \<Rightarrow> string" where
  "pair_text k v \<equiv> [quote] @ k @ [quote] @ [CHR 0x09, CHR 0x09] @ [quote] @ v @ [quote]"

lemma index_byte_first: "c \<notin> set a \<Longrightarrow> index_byte (a @ c # b) c = Some (length a)"
  by (induction a) auto

lemma trim_pair_text:
  "set b \<subseteq> {CHR 0x20, CHR 0x09} \<Longrightarrow> trim_space (b @ pair_text k v) = pair_text k v"
proof -
  assume b: "set b \<subseteq> {CHR 0x20, CHR 0x09}"
  have "trim_right_space (b @ pair_text k v) = b @ pair_text k v"
    using trim_right_space_quote [of "b @ [quote] @ k @ [quote] @ [CHR 0x09, CHR 0x09] @ [quote] @ v"]
    by simp
  with b show ?thesis by (simp add: trim_space_def trim_left_blanks)
qed

lemma parse_pair_text:
  assumes "quote \<notin> set k" "quote \<notin> set v"
  shows "parse_pair (pair_text k v) = Some (k, v)"
proof -
  have "trim_right_space (CHR 0x09 # CHR 0x09 # quote # v @ [quote])
      = CHR 0x09 # CHR 0x09 # quote # v @ [quote]"
    using trim_right_space_quote [of "CHR 0x09 # CHR 0x09 # quote # v"] by simp
  then have "trim_space (CHR 0x09 # CHR 0x09 # quote # v @ [quote]) = quote # v @ [quote]"
    by (simp add: trim_space_def)
  then show ?thesis
    using assms by (simp add: parse_pair_def Let_def index_byte_first)
qed

lemma vdf_line_Pair: "vdf_line t = Pair k v \<longleftrightarrow> t \<noteq> ''{'' \<and> t \<noteq> ''}'' \<and> parse_pair t = Some (k, v)"
  by (auto simp: vdf_line_def split: option.splits)

definition neut :: "string \<Rightarrow> string \<Rightarrow> string" where
  "neut k v = (case neutralised k of None \<Rightarrow> v | Some r \<Rightarrow> r)"

lemma neutralised_value: "neutralised k = Some r \<Longrightarrow> r = ''0''"
  by (auto simp: neutralised_def split: if_splits)

text \<open>A rewritten line is read as it was, but for the values that are neutralised.\<close>

lemma rewrite_line_read:
  "vdf_line (trim_space (rewrite_line depth l)) =
     (case vdf_line (trim_space l) of
        Pair k v \<Rightarrow> Pair k (if depth = 1 then neut (to_lower k) v else v)
      | x \<Rightarrow> x)"
proof (cases "vdf_line (trim_space l)")
  case (Pair k v)
  show ?thesis
  proof (cases "depth = 1 \<and> neutralised (to_lower k) \<noteq> None")
    case True
    then obtain r where r: "neutralised (to_lower k) = Some r" by auto
    have k: "quote \<notin> set k" using Pair vdf_line_Pair parse_pair_chars(1) by blast
    have "rewrite_line depth l = takeWhile (\<lambda>c. c \<in> set blanks) l @ pair_text k r"
      using Pair True r by (simp add: rewrite_line_def)
    moreover have "set (takeWhile (\<lambda>c. c \<in> set blanks) l) \<subseteq> {CHR 0x20, CHR 0x09}"
      by (auto simp: blanks_def dest: set_takeWhileD)
    ultimately have "trim_space (rewrite_line depth l) = pair_text k r" by (simp only: trim_pair_text)
    moreover have "vdf_line (pair_text k r) = Pair k r"
      using parse_pair_text [OF k, of r] neutralised_value [OF r] by (simp add: vdf_line_Pair)
    ultimately show ?thesis using Pair True r by (simp add: neut_def)
  next
    case False
    then show ?thesis using Pair by (auto simp: rewrite_line_def neut_def)
  qed
qed (simp_all add: rewrite_line_def)

lemma update_map_neut:
  "AList.update k (neut k v) (map (\<lambda>(k, v). (k, neut k v)) fs)
     = map (\<lambda>(k, v). (k, neut k v)) (AList.update k v fs)"
  by (induction fs) auto

lemma manifest_fields_rewrite:
  "manifest_fields depth (map (\<lambda>(k, v). (k, neut k v)) fs) (rewrite_lines depth ls)
     = map (\<lambda>(k, v). (k, neut k v)) (manifest_fields depth fs ls)"
  by (induction ls arbitrary: depth fs)
    (auto simp: rewrite_line_read update_map_neut split: vdf_line.splits)

lemma manifest_fields_drop_cr:
  "manifest_fields depth fs (map drop_cr ls) = manifest_fields depth fs ls"
  by (induction ls arbitrary: depth fs) (auto split: vdf_line.splits)

lemma raw_lines_unlines: "\<forall>l \<in> set ls. newline \<notin> set l \<Longrightarrow> raw_lines (unlines ls) = ls"
proof -
  assume "\<forall>l \<in> set ls. newline \<notin> set l"
  then have "whole_lines (unlines ls) = ls \<and> partial_line (unlines ls) = []"
    by (induction ls) (auto simp: unlines_def)
  then show ?thesis by (simp add: raw_lines_def)
qed

lemma raw_lines_plain: "l \<in> set (raw_lines s) \<Longrightarrow> newline \<notin> set l"
  by (auto simp: raw_lines_def whole_lines_def dest: in_set_butlastD split_on_no_sep split: if_splits)

lemma rewrite_line_plain:
  "newline \<notin> set l \<Longrightarrow> newline \<notin> set (rewrite_line depth l)"
proof (cases "vdf_line (trim_space l)")
  case (Pair k v)
  assume l: "newline \<notin> set l"
  have "set k \<subseteq> set l"
    using Pair vdf_line_Pair parse_pair_chars(2) set_trim_space by (meson subset_trans)
  then show ?thesis
    using l Pair
    by (auto simp: rewrite_line_def split: option.splits dest: set_takeWhileD dest!: neutralised_value)
qed (simp_all add: rewrite_line_def)

lemma length_trim_space: "length (trim_space s) \<le> length s"
  using length_trim_seqs [of space_seqs "trim_right_space s"] length_trim_seqs [of _ "rev s"]
  by (simp add: trim_space_def trim_right_space_def) (meson le_trans length_rev)

lemma rewrite_line_length: "length (rewrite_line depth l) \<le> 2 * length l + 7"
proof (cases "vdf_line (trim_space l)")
  case (Pair k v)
  then have "length k \<le> length l"
    using vdf_line_Pair parse_pair_chars(3) length_trim_space by (meson le_trans)
  moreover have "length (takeWhile (\<lambda>c. c \<in> set blanks) l) \<le> length l" by (rule length_takeWhile_le)
  ultimately show ?thesis
    using Pair by (auto simp: rewrite_line_def split: option.splits dest!: neutralised_value)
qed (simp_all add: rewrite_line_def)

lemma rewrite_lines_all:
  "(\<And>d l. l \<in> set ls \<Longrightarrow> P (rewrite_line d l)) \<Longrightarrow> list_all P (rewrite_lines depth ls)"
  by (induction ls arbitrary: depth) auto

text \<open>No line of the file reaches half a megabyte.\<close>

definition ordinary_lines :: "string \<Rightarrow> bool" where
  "ordinary_lines data = list_all (\<lambda>l. 2 * length l + 7 < max_token) (raw_lines data)"

lemma takeWhile_list_all: "list_all P xs \<Longrightarrow> takeWhile P xs = xs"
  by (simp add: list_all_iff)

lemma scan_ordinary:
  assumes "ordinary_lines data"
  shows "scan_lines data = (map drop_cr (raw_lines data), False)"
proof -
  have "takeWhile (\<lambda>l. length l < max_token) (raw_lines data) = raw_lines data"
    using assms by (intro takeWhile_list_all) (auto simp: ordinary_lines_def list_all_iff)
  moreover have "\<not> list_ex (\<lambda>l. max_token \<le> length l) (raw_lines data)"
    using assms by (auto simp: ordinary_lines_def list_all_iff list_ex_iff)
  ultimately show ?thesis by (simp only: scan_lines_def)
qed

lemma scan_whole:
  assumes "\<not> snd (scan_lines data)"
  shows "scan_lines data = (map drop_cr (raw_lines data), False)"
proof -
  have "list_all (\<lambda>l. length l < max_token) (raw_lines data)"
    using assms by (auto simp: scan_lines_def list_all_iff list_ex_iff not_le)
  note all = takeWhile_list_all [OF this]
  have "snd (scan_lines data) = False" using assms by simp
  then show ?thesis by (simp only: scan_lines_def all snd_conv)
qed

lemma raw_lines_rewrite:
  assumes "\<not> snd (scan_lines data)"
  shows "raw_lines (rewrite data) = rewrite_lines 0 (map drop_cr (raw_lines data))"
proof -
  let ?ls = "rewrite_lines 0 (map drop_cr (raw_lines data))"
  have "list_all (\<lambda>l. newline \<notin> set l) ?ls"
    by (rule rewrite_lines_all)
      (auto intro!: rewrite_line_plain dest: raw_lines_plain set_drop_cr [THEN subsetD])
  then have "raw_lines (unlines ?ls) = ?ls" by (intro raw_lines_unlines) (simp add: list_all_iff)
  then show ?thesis by (simp add: rewrite_def scan_whole [OF assms])
qed

lemma ordinary_flags:
  assumes "ordinary_lines data"
  shows "\<not> snd (scan_lines data)" "\<not> snd (scan_lines (rewrite data))"
proof -
  show d: "\<not> snd (scan_lines data)" by (simp add: scan_ordinary [OF assms])
  have "list_all (\<lambda>l. length l < max_token) (rewrite_lines 0 (map drop_cr (raw_lines data)))"
  proof (rule rewrite_lines_all)
    fix d l assume "l \<in> set (map drop_cr (raw_lines data))"
    then obtain l0 where "l0 \<in> set (raw_lines data)" "l = drop_cr l0" by auto
    then show "length (rewrite_line d l) < max_token"
      using rewrite_line_length [of d l] length_drop_cr [of l0] assms
      by (auto simp: ordinary_lines_def list_all_iff)
  qed
  then show "\<not> snd (scan_lines (rewrite data))"
    by (auto simp: scan_lines_def raw_lines_rewrite [OF d] list_all_iff list_ex_iff)
qed

lemma map_of_neut: "map_of (map (\<lambda>(k, v). (k, neut k v)) fs) k = map_option (neut k) (map_of fs k)"
  by (induction fs) auto

lemma field_neut: "neutralised k = None \<Longrightarrow> field (map (\<lambda>(k, v). (k, neut k v)) fs) k = field fs k"
  by (cases "map_of fs k") (simp_all add: field_def map_of_neut, simp add: neut_def)

lemma fields_rewrite:
  assumes "\<not> snd (scan_lines data)" "\<not> snd (scan_lines (rewrite data))"
  shows "parse_manifest (rewrite data) = parse_manifest data"
    "manifest_fields 0 [] (fst (scan_lines (rewrite data)))
       = map (\<lambda>(k, v). (k, neut k v)) (manifest_fields 0 [] (fst (scan_lines data)))"
proof -
  obtain ls0 where s0: "scan_lines data = (ls0, False)" and ls0: "ls0 = map drop_cr (raw_lines data)"
    using scan_whole [OF assms(1)] by simp
  obtain ls1 where s1: "scan_lines (rewrite data) = (ls1, False)"
    and ls1: "ls1 = map drop_cr (rewrite_lines 0 ls0)"
    using scan_whole [OF assms(2)] raw_lines_rewrite [OF assms(1)] ls0 by simp
  let ?fs = "manifest_fields 0 [] ls0"
  have fs: "manifest_fields 0 [] ls1 = map (\<lambda>(k, v). (k, neut k v)) ?fs"
    using manifest_fields_rewrite [of 0 "[]" ls0] by (simp add: ls1 manifest_fields_drop_cr)
  have "app_of_fields (manifest_fields 0 [] ls1) = app_of_fields ?fs"
    by (simp add: fs app_of_fields_def field_neut neutralised_def)
  moreover have "length (manifest_fields 0 [] ls1) = length ?fs" by (simp add: fs)
  ultimately show "parse_manifest (rewrite data) = parse_manifest data"
    by (simp only: parse_manifest_def s0 s1 prod.case Let_def)
  show "manifest_fields 0 [] (fst (scan_lines (rewrite data)))
      = map (\<lambda>(k, v). (k, neut k v)) (manifest_fields 0 [] (fst (scan_lines data)))"
    using fs by (simp add: s0 s1)
qed

text \<open>A line may grow past the limit in the rewriting; otherwise the app stays what it is.\<close>

lemma parse_rewrite:
  assumes "parse_manifest data = Inr a"
  shows "parse_manifest (rewrite data) = Inr a \<or> parse_manifest (rewrite data) = Inl LineTooLong"
proof (cases "snd (scan_lines (rewrite data))")
  case True
  then obtain ls where "scan_lines (rewrite data) = (ls, True)" by (metis prod.collapse)
  then show ?thesis by (simp add: parse_manifest_def Let_def)
next
  case False
  moreover have "\<not> snd (scan_lines data)"
    using assms by (auto simp: parse_manifest_def Let_def split: prod.splits if_splits)
  ultimately show ?thesis using fields_rewrite assms by simp
qed

text \<open>
  The manifest written for a seat describes the same app. Every field is read
  back as it was, whatever the layout of the file, except that the account that owned the
  game and the time it was played are \<open>0\<close>; so the app read from it is the one that was
  read from the original.
\<close>

theorem rewrite_keeps_the_app:
  assumes "ordinary_lines data"
  shows "parse_manifest (rewrite data) = parse_manifest data
    \<and> (\<forall>k. map_of (manifest_fields 0 [] (fst (scan_lines (rewrite data)))) k =
         (if k = ''lastowner'' \<or> k = ''lastplayed''
          then map_option (\<lambda>_. ''0'') (map_of (manifest_fields 0 [] (fst (scan_lines data))) k)
          else map_of (manifest_fields 0 [] (fst (scan_lines data))) k))"
proof -
  have "map_option (neut k) o' =
      (if k = ''lastowner'' \<or> k = ''lastplayed'' then map_option (\<lambda>_. ''0'') o' else o')" for k o'
    by (cases o') (auto simp: neut_def neutralised_def)
  then show ?thesis by (simp add: fields_rewrite [OF ordinary_flags [OF assms]] map_of_neut)
qed

definition sample_manifest :: string where
  "sample_manifest = unlines
     [''{'', pair_text ''appid'' ''7'',
      pair_text ''LastOwner'' ''9'', ''}'']"

lemma sample_raw: "raw_lines sample_manifest =
     [''{'', pair_text ''appid'' ''7'',
      pair_text ''LastOwner'' ''9'', ''}'']"
  unfolding sample_manifest_def by (rule raw_lines_unlines) simp

lemma sample_ordinary: "ordinary_lines sample_manifest"
  by (simp add: ordinary_lines_def sample_raw max_token_def)

lemma vdf_line_pair_text:
  "quote \<notin> set k \<Longrightarrow> quote \<notin> set v \<Longrightarrow> vdf_line (trim_space (pair_text k v)) = Pair k v"
  using trim_pair_text [of "[]" k v] parse_pair_text [of k v] by (simp add: vdf_line_Pair)

lemma vdf_line_brace: "vdf_line (trim_space ''{'') = OpenBrace" "vdf_line (trim_space ''}'') = CloseBrace"
  by (simp_all add: trim_space_def trim_right_space_def trim_seqs_plain space_seqs_def vdf_line_def)

lemma sample_fields:
  "manifest_fields 0 [] (fst (scan_lines sample_manifest)) = [(''appid'', ''7''), (''lastowner'', ''9'')]"
  unfolding scan_ordinary [OF sample_ordinary] sample_raw fst_conv manifest_fields_drop_cr
    manifest_fields.simps vdf_line_brace
  using vdf_line_pair_text [of "''appid''" "''7''"] vdf_line_pair_text [of "''LastOwner''" "''9''"]
    vdf_line_brace
  by (simp add: lower_char_def char_of_def bit_0)

lemma sample_parse: "parse_manifest sample_manifest = Inr
    \<lparr>app_id = ''7'', app_name = [], install_dir = [], build_id = [], state_flags = 0,
     size_on_disk = 0, app_data = [], mod_time = 0\<rparr>"
proof -
  obtain ls where "scan_lines sample_manifest = (ls, False)"
    using scan_ordinary [OF sample_ordinary] by simp
  with sample_fields show ?thesis
    by (simp add: parse_manifest_def app_of_fields_def field_def parse_int64_def numeric_def
        is_digit_def digit_val_def)
qed

theorem accepted_manifest_is_safe_witness: "CHR ''/'' \<notin> set (manifest_name ''7'')"
  using accepted_manifest_is_safe [OF sample_parse] by simp

theorem rewrite_keeps_the_app_witness:
  "parse_manifest (rewrite sample_manifest) = parse_manifest sample_manifest
   \<and> map_of (manifest_fields 0 [] (fst (scan_lines (rewrite sample_manifest)))) ''lastowner'' = Some ''0''"
  using rewrite_keeps_the_app [OF sample_ordinary] by (simp add: sample_fields)

section \<open>Steam's list of libraries\<close>

text \<open>Where the block of a library begins: a quoted number and an opening brace below it.\<close>

definition block_starts :: "string list \<Rightarrow> bool" where
  "block_starts ls =
     (case ls of
        l # l2 # _ \<Rightarrow>
          (let t = trim_space l
           in snd (parse_int64 (trim_set [quote] t)) = None \<and> has_prefix t [quote]
              \<and> trim_space l2 = ''{'')
      | _ \<Rightarrow> False)"

text \<open>The lines of the block after its number, up to the brace that closes it.\<close>

fun block_rest :: "int \<Rightarrow> string list \<Rightarrow> string list \<times> string list" where
  "block_rest depth [] = ([], [])"
| "block_rest depth (l # ls) =
     (let d = depth + int (count_char CHR ''{'' l) - int (count_char CHR ''}'' l)
      in if d = 0 then ([l], ls)
         else case block_rest d ls of (b, rest) \<Rightarrow> (l # b, rest))"

lemma block_rest_split: "block_rest d ls = (b, rest) \<Longrightarrow> ls = b @ rest"
  by (induction d ls arbitrary: b rest rule: block_rest.induct)
    (auto simp: Let_def split: if_splits prod.splits)

function drop_blocks :: "string \<Rightarrow> int \<Rightarrow> string list \<Rightarrow> string list \<times> bool" where
  "drop_blocks path blocks ls =
     (case ls of
        [] \<Rightarrow> ([], False)
      | l # rest \<Rightarrow>
          if \<not> block_starts ls then
            (case drop_blocks path blocks rest of (out, dropped) \<Rightarrow> (l # out, dropped))
          else case block_rest 0 rest of (b, after) \<Rightarrow>
            if contains (join [newline] (l # b)) ([quote] @ path @ [quote])
            then (fst (drop_blocks path blocks after), True)
            else (case drop_blocks path (blocks + 1) after of (out, dropped) \<Rightarrow>
                    ((takeWhile (\<lambda>c. c \<in> set blanks) l @ [quote] @ format_int blocks @ [quote])
                       # b @ out, dropped)))"
  by pat_completeness auto
termination
  by (relation "measure (\<lambda>(path, blocks, ls). length ls)")
    (auto dest!: block_rest_split [OF sym])

declare drop_blocks.simps [simp del]

definition drop_library_folder :: "string \<Rightarrow> string \<Rightarrow> string \<times> bool" where
  "drop_library_folder existing path =
     (if \<not> contains existing ([quote] @ path @ [quote]) then (existing, False)
      else case drop_blocks path 0 (split_on newline existing) of (out, dropped) \<Rightarrow>
        if \<not> dropped then (existing, False) else (join [newline] out, True))"

text \<open>A file that does not list the path, or lists it in no block of its own, stays as it is.\<close>

lemma drop_library_folder_unchanged:
  "drop_library_folder existing path = (out, False) \<Longrightarrow> out = existing"
  by (auto simp: drop_library_folder_def split: if_splits prod.splits)

end
