(* ===== verification/Tree_FS.thy ===== *)
theory Tree_FS
  imports Filepath "HOL-Library.Word"
begin

unbundle bit_operations_syntax

text \<open>
  The file system as the shared library sees it, and \<open>internal/library/nofollow.go\<close> over it:
  a tree of entries with their owner, mode and modification time, and the calls that reach
  into a directory one component at a time. An open directory is the subtree it holds; a call
  that changes it returns the changed subtree. Every system call may fail: a fault oracle
  says which, by the path and the call.
\<close>

section \<open>Entries\<close>

record meta =
  uid :: int
  gid :: int
  mode :: int
  mtime :: int

datatype node =
    Reg meta string
  | Dir meta "(string \<times> node) list"
  | Lnk meta string
  | Special meta

datatype sysop = SDup | SOpen | SReadNames | SFstat | SLstat | SMkdir | SChown | SChmod | SUtimes
  | SReadlink | SSymlink | SLchown | SCreate | SFileClone | SCopy | SWrite | SUnlink | SRmdir | SRename
  | SGone | SOpenGone

datatype fs_error = NoEntry | NotDir | IsLink | Exists | NotEmpty | IsADir | NotRegular | BadName
  | BadKind | NotAbsolute | TooManyLinks | NoFreeName | Failed sysop

type_synonym calls = "sysop \<Rightarrow> bool"
type_synonym faults = "string list \<Rightarrow> sysop \<Rightarrow> bool"

text \<open>The clock, the daemon's identity and its umask, the same for the whole of a call.\<close>

record kernel =
  now :: int
  euid :: int
  egid :: int
  umask :: int

fun entries :: "node \<Rightarrow> (string \<times> node) list" where
  "entries (Dir m es) = es"
| "entries _ = []"

fun stat_of :: "node \<Rightarrow> meta" where
  "stat_of (Reg m s) = m"
| "stat_of (Dir m es) = m"
| "stat_of (Lnk m t) = m"
| "stat_of (Special m) = m"

fun set_stat :: "meta \<Rightarrow> node \<Rightarrow> node" where
  "set_stat m (Reg _ s) = Reg m s"
| "set_stat m (Dir _ es) = Dir m es"
| "set_stat m (Lnk _ t) = Lnk m t"
| "set_stat m (Special _) = Special m"

definition set_mtime :: "int \<Rightarrow> node \<Rightarrow> node" where
  "set_mtime t x = set_stat (stat_of x\<lparr>mtime := t\<rparr>) x"

fun is_dir :: "node \<Rightarrow> bool" where
  "is_dir (Dir m es) = True"
| "is_dir _ = False"

definition fresh_meta :: "kernel \<Rightarrow> int \<Rightarrow> meta" where
  "fresh_meta k perm =
     \<lparr>uid = euid k, gid = egid k, mode = perm AND 511 AND NOT (umask k), mtime = now k\<rparr>"

text \<open>Adding or replacing an entry, and taking one away, stamp the directory.\<close>

definition put :: "kernel \<Rightarrow> string \<Rightarrow> node \<Rightarrow> node \<Rightarrow> node" where
  "put k name x d = Dir (stat_of d\<lparr>mtime := now k\<rparr>) (AList.update name x (entries d))"

definition del :: "kernel \<Rightarrow> string \<Rightarrow> node \<Rightarrow> node" where
  "del k name d = Dir (stat_of d\<lparr>mtime := now k\<rparr>) (AList.delete name (entries d))"

text \<open>A change inside an entry leaves the directory's own time alone.\<close>

definition change :: "string \<Rightarrow> node \<Rightarrow> node \<Rightarrow> node" where
  "change name x d = Dir (stat_of d) (AList.update name x (entries d))"

text \<open>The entry a path of names leads to, through directories only.\<close>

fun look :: "node \<Rightarrow> string list \<Rightarrow> node option" where
  "look x [] = Some x"
| "look (Dir m es) (c # cs) = (case map_of es c of None \<Rightarrow> None | Some y \<Rightarrow> look y cs)"
| "look _ (c # cs) = None"

lemma look_Cons: "look x (c # cs) = Option.bind (map_of (entries x) c) (\<lambda>y. look y cs)"
  by (cases x) (auto split: option.split)

lemma look_append: "look x (p @ q) = Option.bind (look x p) (\<lambda>y. look y q)"
  by (induction p arbitrary: x) (auto simp: look_Cons split: Option.bind_split)

lemma entries_put [simp]: "entries (put k n x d) = AList.update n x (entries d)"
  and entries_del [simp]: "entries (del k n d) = AList.delete n (entries d)"
  and entries_change [simp]: "entries (change n x d) = AList.update n x (entries d)"
  and is_dir_put [simp]: "is_dir (put k n x d)" "is_dir (del k n d)" "is_dir (change n x d)"
  by (simp_all add: put_def del_def change_def)

lemma entries_set_mtime [simp]: "entries (set_mtime t d) = entries d"
  and is_dir_set_mtime [simp]: "is_dir (set_mtime t d) = is_dir d"
  by (cases d; simp add: set_mtime_def)+

lemma stat_of_set_mtime [simp]: "stat_of (set_mtime t d) = (stat_of d)\<lparr>mtime := t\<rparr>"
  by (cases d) (simp_all add: set_mtime_def)

lemma map_of_update: "map_of (AList.update k v m) = (map_of m)(k \<mapsto> v)"
  by (simp add: AList.update_conv')

lemma map_of_delete: "map_of (AList.delete k m) = (map_of m)(k := None)"
  by (simp add: AList.delete_conv')

lemma is_dir_exhaust: "is_dir d \<Longrightarrow> (\<And>m es. d = Dir m es \<Longrightarrow> P) \<Longrightarrow> P"
  by (cases d) auto

section \<open>Names\<close>

definition component :: "string \<Rightarrow> bool" where
  "component name \<longleftrightarrow> name \<noteq> [] \<and> name \<noteq> ''.'' \<and> name \<noteq> ''..'' \<and> CHR ''/'' \<notin> set name"

text \<open>What a file system never holds: two entries of one name, or a name that is not one.\<close>

fun wf_node :: "node \<Rightarrow> bool" where
  "wf_node (Dir m es) \<longleftrightarrow>
     distinct (map fst es) \<and> (\<forall>e \<in> set es. component (fst e)) \<and> (\<forall>e \<in> set es. wf_node (snd e))"
| "wf_node _ \<longleftrightarrow> True"

lemma wf_node_entries:
  "wf_node d \<Longrightarrow> distinct (map fst (entries d)) \<and> (\<forall>e \<in> set (entries d). component (fst e) \<and> wf_node (snd e))"
  by (cases d) auto

lemma wf_look: "wf_node x \<Longrightarrow> look x p = Some y \<Longrightarrow> wf_node y"
proof (induction p arbitrary: x)
  case (Cons c p)
  then obtain z where z: "map_of (entries x) c = Some z" "look z p = Some y"
    by (auto simp: look_Cons Option.bind_eq_Some_conv)
  with wf_node_entries [OF Cons.prems(1)] have "wf_node z" by (auto dest!: map_of_SomeD)
  with Cons.IH z(2) show ?case by blast
qed simp

section \<open>Opening without following a link\<close>

definition lstat_at :: "calls \<Rightarrow> node \<Rightarrow> string \<Rightarrow> fs_error + node" where
  "lstat_at flt d name =
     (if \<not> component name then Inl BadName
      else if flt SLstat then Inl (Failed SLstat)
      else case map_of (entries d) name of None \<Rightarrow> Inl NoEntry | Some x \<Rightarrow> Inr x)"

definition is_dir_at :: "calls \<Rightarrow> node \<Rightarrow> string \<Rightarrow> bool" where
  "is_dir_at flt d name = (case lstat_at flt d name of Inl _ \<Rightarrow> False | Inr x \<Rightarrow> is_dir x)"

text \<open>The kernel answers \<open>ENOTDIR\<close> for a link; the second look tells it from a file.\<close>

definition open_dir_at :: "calls \<Rightarrow> node \<Rightarrow> string \<Rightarrow> fs_error + node" where
  "open_dir_at flt d name =
     (if \<not> component name then Inl BadName
      else if flt SOpen then Inl (Failed SOpen)
      else case map_of (entries d) name of
        None \<Rightarrow> Inl NoEntry
      | Some (Dir m es) \<Rightarrow> Inr (Dir m es)
      | Some (Lnk m t) \<Rightarrow> Inl (if flt SLstat then NotDir else IsLink)
      | Some _ \<Rightarrow> Inl NotDir)"

fun open_parts :: "faults \<Rightarrow> string list \<Rightarrow> node \<Rightarrow> string list \<Rightarrow> fs_error + node" where
  "open_parts flt pre d [] = Inr d"
| "open_parts flt pre d (c # cs) =
     (if c = ''.'' then open_parts flt pre d cs
      else case open_dir_at (flt (pre @ [c])) d c of
        Inl e \<Rightarrow> Inl e
      | Inr x \<Rightarrow> open_parts flt (pre @ [c]) x cs)"

text \<open>\<open>openRel\<close>, given the components of the cleaned path.\<close>

definition open_rel :: "faults \<Rightarrow> node \<Rightarrow> string list \<Rightarrow> fs_error + node" where
  "open_rel flt d rel = (if flt [] SDup then Inl (Failed SDup) else open_parts flt [] d rel)"

definition open_file_at :: "calls \<Rightarrow> node \<Rightarrow> string \<Rightarrow> fs_error + meta \<times> string" where
  "open_file_at flt d name =
     (if \<not> component name then Inl BadName
      else if flt SOpen then Inl (Failed SOpen)
      else case map_of (entries d) name of
        None \<Rightarrow> Inl NoEntry
      | Some (Lnk m t) \<Rightarrow> Inl IsLink
      | Some (Reg m s) \<Rightarrow> if flt SFstat then Inl (Failed SFstat) else Inr (m, s)
      | Some _ \<Rightarrow> Inl (if flt SFstat then Failed SFstat else NotRegular))"

lemma open_dir_at_Inr:
  "open_dir_at flt d name = Inr x \<Longrightarrow>
     map_of (entries d) name = Some x \<and> is_dir x \<and> component name \<and> \<not> flt SOpen"
  by (auto simp: open_dir_at_def split: if_splits option.splits node.splits)

lemma open_dir_at_iff:
  "open_dir_at flt d name = Inr x \<longleftrightarrow>
     map_of (entries d) name = Some x \<and> is_dir x \<and> component name \<and> \<not> flt SOpen"
  by (auto simp: open_dir_at_def split: if_splits option.splits node.splits)

lemma is_dir_at_iff:
  "is_dir_at flt d name \<longleftrightarrow>
     (\<exists>x. map_of (entries d) name = Some x \<and> is_dir x) \<and> component name \<and> \<not> flt SLstat"
  by (auto simp: is_dir_at_def lstat_at_def split: option.split)

lemma open_parts_look:
  "open_parts flt pre d cs = Inr x \<Longrightarrow> look d (filter (\<lambda>c. c \<noteq> ''.'') cs) = Some x \<and> (x = d \<or> is_dir x)"
proof (induction flt pre d cs rule: open_parts.induct)
  case (2 flt pre d c cs)
  then show ?case
    by (auto simp: look_Cons split: if_splits sum.splits dest!: open_dir_at_Inr)
qed simp

lemma look_dirs:
  "look d cs = Some x \<Longrightarrow> is_dir x \<Longrightarrow> n \<le> length cs \<Longrightarrow> \<exists>y. look d (take n cs) = Some y \<and> is_dir y"
proof (induction cs arbitrary: d n)
  case (Cons c cs)
  from Cons.prems(1) obtain z where z: "map_of (entries d) c = Some z" "look z cs = Some x"
    by (auto simp: look_Cons Option.bind_eq_Some_conv)
  have "is_dir d" using z(1) by (cases d) auto
  with Cons.IH [OF z(2) Cons.prems(2)] z(1) Cons.prems(3) show ?case
    by (cases n) (auto simp: look_Cons)
qed auto

lemma open_parts_complete:
  "look d cs = Some x \<Longrightarrow> is_dir x \<Longrightarrow> \<forall>c \<in> set cs. component c \<Longrightarrow>
     open_parts (\<lambda>_ _. False) pre d cs = Inr x"
proof (induction cs arbitrary: d pre)
  case (Cons c cs)
  from Cons.prems(1) obtain z where z: "map_of (entries d) c = Some z" "look z cs = Some x"
    by (auto simp: look_Cons Option.bind_eq_Some_conv)
  have "is_dir z" using look_dirs [OF z(2) Cons.prems(2), of 0] by simp
  with z(1) Cons.prems(3) have "open_dir_at (\<lambda>_. False) d c = Inr z" by (simp add: open_dir_at_iff)
  with Cons.IH [OF z(2) Cons.prems(2)] Cons.prems(3) show ?case by (auto simp: component_def)
qed simp

text \<open>
  Walking into a member's directory never leaves it by a link. What \<open>openRel\<close>
  opens is the directory the names lead to, every entry on the way is itself a directory,
  and without a fault every such directory is opened.
\<close>

theorem open_rel_follows_no_link:
  assumes "is_dir d" "\<forall>c \<in> set rel. component c"
  shows "(open_rel flt d rel = Inr x \<longrightarrow>
            look d rel = Some x \<and> (\<forall>n \<le> length rel. \<exists>y. look d (take n rel) = Some y \<and> is_dir y))
       \<and> (look d rel = Some x \<and> is_dir x \<longrightarrow> open_rel (\<lambda>_ _. False) d rel = Inr x)"
proof -
  have f: "filter (\<lambda>c. c \<noteq> ''.'') rel = rel"
    using assms(2) by (auto simp: component_def intro!: filter_True)
  have "look d rel = Some x \<and> is_dir x" if "open_rel flt d rel = Inr x"
    using open_parts_look [of flt "[]" d rel x] that assms(1) f by (auto simp: open_rel_def split: if_splits)
  then show ?thesis
    using look_dirs open_parts_complete [of d rel x] assms(2) by (auto simp: open_rel_def)
qed

theorem open_rel_follows_no_link_witness:
  "open_rel (\<lambda>_ _. False)
     (Dir \<lparr>uid = 0, gid = 0, mode = 493, mtime = 0\<rparr>
        [(''a'', Dir \<lparr>uid = 0, gid = 0, mode = 493, mtime = 0\<rparr> [])]) [''a'']
   = Inr (Dir \<lparr>uid = 0, gid = 0, mode = 493, mtime = 0\<rparr> [])"
  using open_rel_follows_no_link
    [of "Dir \<lparr>uid = 0, gid = 0, mode = 493, mtime = 0\<rparr>
           [(''a'', Dir \<lparr>uid = 0, gid = 0, mode = 493, mtime = 0\<rparr> [])]" "[''a'']"
        "\<lambda>_ _. False" "Dir \<lparr>uid = 0, gid = 0, mode = 493, mtime = 0\<rparr> []"]
  by (simp add: component_def)

section \<open>Making entries\<close>

definition ensure_dir_at ::
  "kernel \<Rightarrow> calls \<Rightarrow> node \<Rightarrow> string \<Rightarrow> int \<Rightarrow> node \<times> (fs_error + node \<times> bool)" where
  "ensure_dir_at k flt d name perm =
     (if \<not> component name then (d, Inl BadName)
      else if flt SMkdir then (d, Inl (Failed SMkdir))
      else
        let created = (map_of (entries d) name = None);
            d' = (if created then put k name (Dir (fresh_meta k perm) []) d else d)
        in (d', case open_dir_at flt d' name of Inl e \<Rightarrow> Inl e | Inr x \<Rightarrow> Inr (x, created)))"

definition create_file_at ::
  "kernel \<Rightarrow> calls \<Rightarrow> node \<Rightarrow> string \<Rightarrow> int \<Rightarrow> fs_error + node" where
  "create_file_at k flt d name perm =
     (if \<not> component name then Inl BadName
      else if flt SCreate then Inl (Failed SCreate)
      else case map_of (entries d) name of
        Some x \<Rightarrow> Inl Exists
      | None \<Rightarrow> Inr (put k name (Reg (fresh_meta k perm) []) d))"

text \<open>
  \<open>mkdirTempAt\<close>: the names the random source gives, a hundred at most, until one is free.
\<close>

fun mkdir_temp_at ::
  "kernel \<Rightarrow> faults \<Rightarrow> string \<Rightarrow> string list \<Rightarrow> node \<Rightarrow> node \<times> (fs_error + string \<times> node)" where
  "mkdir_temp_at k flt prefix [] d = (d, Inl NoFreeName)"
| "mkdir_temp_at k flt prefix (suffix # sfxs) d =
     (let name = prefix @ suffix
      in if flt [name] SMkdir then (d, Inl (Failed SMkdir))
         else if map_of (entries d) name \<noteq> None then mkdir_temp_at k flt prefix sfxs d
         else
           let d' = put k name (Dir (fresh_meta k 448) []) d
           in (d', case open_dir_at (flt [name]) d' name of Inl e \<Rightarrow> Inl e | Inr x \<Rightarrow> Inr (name, x)))"

text \<open>\<open>chown\<close> with minus one in either field leaves that field alone.\<close>

record owner =
  owner_uid :: int
  owner_gid :: int

definition keep_owner :: owner where
  "keep_owner = \<lparr>owner_uid = -1, owner_gid = -1\<rparr>"

definition owned :: "owner \<Rightarrow> meta \<Rightarrow> meta" where
  "owned w m = m\<lparr>uid := if owner_uid w = -1 then uid m else owner_uid w,
                 gid := if owner_gid w = -1 then gid m else owner_gid w\<rparr>"

definition chown :: "owner \<Rightarrow> node \<Rightarrow> node" where
  "chown w x = set_stat (owned w (stat_of x)) x"

definition chmod :: "int \<Rightarrow> node \<Rightarrow> node" where
  "chmod perm x = set_stat (stat_of x\<lparr>mode := perm AND 511\<rparr>) x"

text \<open>\<open>readlinkAt\<close>: a buffer twice as long until the target is shorter than it.\<close>

function read_link :: "nat \<Rightarrow> string \<Rightarrow> string" where
  "read_link room target =
     (if room = 0 then [] else
      let n = min room (length target)
      in if n < room then take n target else read_link (2 * room) target)"
  by pat_completeness auto
termination
  by (relation "measure (\<lambda>(room, t). Suc (length t) - room)") auto

declare read_link.simps [simp del]

lemma read_link_all: "0 < room \<Longrightarrow> read_link room target = target"
  by (induction room target rule: read_link.induct) (subst read_link.simps, auto simp: Let_def)

definition readlink_at :: "calls \<Rightarrow> node \<Rightarrow> string \<Rightarrow> fs_error + string" where
  "readlink_at flt d name =
     (if flt SReadlink then Inl (Failed SReadlink)
      else case map_of (entries d) name of
        None \<Rightarrow> Inl NoEntry
      | Some (Lnk m t) \<Rightarrow> Inr (read_link 256 t)
      | Some _ \<Rightarrow> Inl BadKind)"

section \<open>Moving an entry\<close>

text \<open>What \<open>rename\<close> does with an entry already under the new name.\<close>

definition displace :: "node \<Rightarrow> node option \<Rightarrow> fs_error option" where
  "displace x target =
     (case target of
        None \<Rightarrow> None
      | Some y \<Rightarrow>
          if is_dir x \<and> \<not> is_dir y then Some NotDir
          else if \<not> is_dir x \<and> is_dir y then Some IsADir
          else if is_dir y \<and> entries y \<noteq> [] then Some NotEmpty
          else None)"

text \<open>Between two directories, neither inside the other.\<close>

definition rename_at ::
  "kernel \<Rightarrow> calls \<Rightarrow> node \<Rightarrow> string \<Rightarrow> node \<Rightarrow> string \<Rightarrow> fs_error + node \<times> node" where
  "rename_at k flt from a to b =
     (if \<not> component a \<or> \<not> component b then Inl BadName
      else if flt SRename then Inl (Failed SRename)
      else case map_of (entries from) a of
        None \<Rightarrow> Inl NoEntry
      | Some x \<Rightarrow>
          (case displace x (map_of (entries to) b) of
             Some e \<Rightarrow> Inl e
           | None \<Rightarrow> Inr (del k a from, put k b x to)))"

text \<open>Within one directory.\<close>

definition rename_in :: "kernel \<Rightarrow> calls \<Rightarrow> node \<Rightarrow> string \<Rightarrow> string \<Rightarrow> fs_error + node" where
  "rename_in k flt d a b =
     (if \<not> component a \<or> \<not> component b then Inl BadName
      else if flt SRename then Inl (Failed SRename)
      else case map_of (entries d) a of
        None \<Rightarrow> Inl NoEntry
      | Some x \<Rightarrow>
          if a = b then Inr d
          else (case displace x (map_of (entries d) b) of
             Some e \<Rightarrow> Inl e
           | None \<Rightarrow> Inr (put k b x (del k a d))))"

section \<open>Removing\<close>

text \<open>
  What is left of an entry, and the error, if one stopped the removal; then the entries of a
  directory in the order they are read.
\<close>

fun remove_node :: "kernel \<Rightarrow> faults \<Rightarrow> string list \<Rightarrow> node \<Rightarrow> node option \<times> fs_error option"
and empty_list :: "kernel \<Rightarrow> faults \<Rightarrow> string list \<Rightarrow> (string \<times> node) list
      \<Rightarrow> (string \<times> node) list \<times> fs_error option" where
  "remove_node k flt p (Dir m es) =
     (if flt p SUnlink then (Some (Dir m es), Some (Failed SUnlink))
      else if flt p SOpen then (Some (Dir m es), Some (Failed SOpen))
      else if flt p SReadNames then (Some (Dir m es), Some (Failed SReadNames))
      else case empty_list k flt p es of
        (es', err) \<Rightarrow>
          let x = Dir (if length es' = length es then m else m\<lparr>mtime := now k\<rparr>) es'
          in if err \<noteq> None then (Some x, err)
             else if flt p SRmdir then (Some x, Some (Failed SRmdir))
             else (None, None))"
| "remove_node k flt p (Reg m s) =
     (if flt p SUnlink then (Some (Reg m s), Some (Failed SUnlink)) else (None, None))"
| "remove_node k flt p (Lnk m s) =
     (if flt p SUnlink then (Some (Lnk m s), Some (Failed SUnlink)) else (None, None))"
| "remove_node k flt p (Special m) =
     (if flt p SUnlink then (Some (Special m), Some (Failed SUnlink)) else (None, None))"
| "empty_list k flt p [] = ([], None)"
| "empty_list k flt p ((n, x) # es) =
     (if \<not> component n then ((n, x) # es, Some BadName)
      else case remove_node k flt (p @ [n]) x of
        (None, err) \<Rightarrow> empty_list k flt p es
      | (Some x', err) \<Rightarrow> ((n, x') # es, err))"

definition remove_all_at ::
  "kernel \<Rightarrow> faults \<Rightarrow> node \<Rightarrow> string \<Rightarrow> node \<times> fs_error option" where
  "remove_all_at k flt d name =
     (if \<not> component name then (d, Some BadName)
      else case map_of (entries d) name of
        None \<Rightarrow> (d, if flt [] SUnlink then Some (Failed SUnlink) else None)
      | Some x \<Rightarrow>
          (case remove_node k flt [] x of
             (None, err) \<Rightarrow> (del k name d, None)
           | (Some x', err) \<Rightarrow> (change name x' d, err)))"

definition empty_dir :: "kernel \<Rightarrow> faults \<Rightarrow> node \<Rightarrow> node \<times> fs_error option" where
  "empty_dir k flt d =
     (if flt [] SReadNames then (d, Some (Failed SReadNames))
      else case empty_list k flt [] (entries d) of
        (es, err) \<Rightarrow> (Dir (if length es = length (entries d) then stat_of d
                          else stat_of d\<lparr>mtime := now k\<rparr>) es, err))"

text \<open>What is left of a tree: its directories and some of the entries it had, unchanged.\<close>

definition left_of :: "node \<Rightarrow> node \<Rightarrow> bool" where
  "left_of y z \<longleftrightarrow> (\<forall>q v. look y q = Some v \<longrightarrow>
     (if is_dir v then \<exists>w. look z q = Some w \<and> is_dir w else look z q = Some v))"

lemma left_of_refl [simp]: "left_of x x"
  by (auto simp: left_of_def)

lemma left_of_Dir:
  assumes "\<And>n y. map_of es' n = Some y \<Longrightarrow> \<exists>z. map_of es n = Some z \<and> left_of y z"
  shows "left_of (Dir m' es') (Dir m es)"
  unfolding left_of_def
proof (intro allI impI)
  fix q v assume q: "look (Dir m' es') q = Some v"
  show "if is_dir v then \<exists>w. look (Dir m es) q = Some w \<and> is_dir w else look (Dir m es) q = Some v"
  proof (cases q)
    case (Cons n q')
    with q obtain y where y: "map_of es' n = Some y" "look y q' = Some v"
      by (auto split: option.splits)
    from assms [OF y(1)] obtain z where "map_of es n = Some z" "left_of y z" by blast
    with y(2) Cons show ?thesis by (auto simp: left_of_def)
  qed (use q in auto)
qed

lemma left_of_is_dir: "left_of y z \<Longrightarrow> is_dir y = is_dir z"
  unfolding left_of_def by (drule spec [of _ "[]"]) (auto split: if_splits)

lemma remove_left:
  "remove_node k flt p x = (left, err) \<Longrightarrow> wf_node x \<Longrightarrow>
     (case left of None \<Rightarrow> err = None | Some y \<Rightarrow> err \<noteq> None \<and> left_of y x)"
  "empty_list k flt p es = (es', err) \<Longrightarrow> distinct (map fst es) \<Longrightarrow> \<forall>e \<in> set es. wf_node (snd e) \<Longrightarrow>
     (err = None \<longrightarrow> es' = []) \<and> set (map fst es') \<subseteq> set (map fst es)
     \<and> (\<forall>n y. map_of es' n = Some y \<longrightarrow> (\<exists>z. map_of es n = Some z \<and> left_of y z))"
proof (induction k flt p x and k flt p es arbitrary: left err and es' err
    rule: remove_node_empty_list.induct)
  case (1 k flt p m es)
  obtain es2 e2 where e: "empty_list k flt p es = (es2, e2)" by force
  show ?case
  proof (cases "flt p SUnlink \<or> flt p SOpen \<or> flt p SReadNames")
    case False
    with 1(1) [OF _ _ _ e] 1(3) have
      IH: "(e2 = None \<longrightarrow> es2 = [])"
        "\<And>n y. map_of es2 n = Some y \<Longrightarrow> \<exists>z. map_of es n = Some z \<and> left_of y z"
      by auto
    from left_of_Dir [OF IH(2)] show ?thesis
      using 1(2) False e by (auto simp: Let_def split: if_splits)
  qed (use 1(2) in \<open>auto split: if_splits\<close>)
next
  case (6 k flt p n x es)
  show ?case
  proof (cases "component n")
    case True
    obtain l e where r: "remove_node k flt (p @ [n]) x = (l, e)" by force
    note IHx = 6(1) [OF _ r] 
    show ?thesis
    proof (cases l)
      case None
      with 6(2) [of l e] r True 6(3-5) show ?thesis by (auto simp: map_of_None_akeys akeys_def) force+
    next
      case (Some y)
      with IHx True 6(5) have "e \<noteq> None" "left_of y x" by auto
      with Some r True 6(3) show ?thesis by (auto split: if_splits)
    qed
  qed (use 6(3) in auto)
qed (auto split: if_splits)

lemma remove_without_faults:
  "wf_node x \<Longrightarrow> remove_node k (\<lambda>_ _. False) p x = (None, None)"
  "\<forall>e \<in> set es. component (fst e) \<and> wf_node (snd e) \<Longrightarrow> empty_list k (\<lambda>_ _. False) p es = ([], None)"
  by (induction k "\<lambda>_::string list. \<lambda>_::sysop. False" p x
      and k "\<lambda>_::string list. \<lambda>_::sysop. False" p es rule: remove_node_empty_list.induct)
    (auto simp: Let_def)

text \<open>
  Removing an entry removes that entry and nothing else. Every other entry of
  the directory stays as it was, success means the name is free, what an error leaves is
  made of files that were there, unchanged, and without a fault the removal succeeds.
\<close>

theorem remove_all_at_exact:
  assumes "remove_all_at k flt d name = (d', err)" "wf_node d" "component name"
  shows "(\<forall>n p. n \<noteq> name \<longrightarrow> look d' (n # p) = look d (n # p))
    \<and> (err = None \<longrightarrow> look d' [name] = None)
    \<and> (\<forall>p y. look d' p = Some y \<and> \<not> is_dir y \<longrightarrow> look d p = Some y)
    \<and> (flt = (\<lambda>_ _. False) \<longrightarrow> err = None)"
proof (cases "map_of (entries d) name")
  case None
  with assms show ?thesis by (auto simp: remove_all_at_def look_Cons)
next
  case (Some x)
  then have wf: "wf_node x" and d: "is_dir d"
    using wf_look [of d "[name]" x] assms(2) by (cases d; simp add: look_Cons)+
  obtain l e where r: "remove_node k flt [] x = (l, e)" by force
  note left = remove_left(1) [OF r wf]
  have other: "\<forall>n p. n \<noteq> name \<longrightarrow> look d' (n # p) = look d (n # p)"
    using assms(1,3) Some r by (auto simp: remove_all_at_def look_Cons map_of_update map_of_delete
        split: option.splits)
  have "look d p = Some y" if y: "look d' p = Some y" "\<not> is_dir y" for p y
  proof (cases p)
    case Nil
    with that assms(1,3) Some r d show ?thesis
      by (auto simp: remove_all_at_def split: option.splits)
  next
    case (Cons n q)
    show ?thesis
    proof (cases "n = name")
      case True
      with Cons y assms(1,3) Some r left obtain x' where "left_of x' x" "look x' q = Some y"
        by (auto simp: remove_all_at_def look_Cons map_of_update map_of_delete split: option.splits)
      with y(2) Cons True Some show ?thesis by (auto simp: left_of_def look_Cons)
    qed (use other Cons y in auto)
  qed
  moreover have "err = None \<longrightarrow> look d' [name] = None"
    using assms(1,3) Some r left
    by (auto simp: remove_all_at_def look_Cons map_of_update map_of_delete split: option.splits)
  moreover have "flt = (\<lambda>_ _. False) \<longrightarrow> err = None"
    using remove_without_faults(1) [OF wf] assms(1,3) Some r
    by (auto simp: remove_all_at_def split: option.splits)
  ultimately show ?thesis using other by blast
qed

definition root_meta :: meta where
  "root_meta = \<lparr>uid = 0, gid = 0, mode = 493, mtime = 0\<rparr>"

theorem remove_all_at_exact_witness:
  "fst (remove_all_at \<lparr>now = 9, euid = 0, egid = 0, umask = 18\<rparr> (\<lambda>_ _. False)
     (Dir root_meta [(''x'', Dir root_meta [(''out'', Lnk root_meta ''/etc'')]), (''y'', Reg root_meta ''1'')]) ''x'')
   = Dir (root_meta\<lparr>mtime := 9\<rparr>) [(''y'', Reg root_meta ''1'')]
   \<and> look (fst (remove_all_at \<lparr>now = 9, euid = 0, egid = 0, umask = 18\<rparr> (\<lambda>_ _. False)
     (Dir root_meta [(''x'', Dir root_meta [(''out'', Lnk root_meta ''/etc'')]), (''y'', Reg root_meta ''1'')]) ''x''))
       [''y''] = Some (Reg root_meta ''1'')"
proof -
  let ?k = "\<lparr>now = 9, euid = 0, egid = 0, umask = 18\<rparr>"
  let ?d = "Dir root_meta [(''x'', Dir root_meta [(''out'', Lnk root_meta ''/etc'')]), (''y'', Reg root_meta ''1'')]"
  obtain d' err where r: "remove_all_at ?k (\<lambda>_ _. False) ?d ''x'' = (d', err)" by force
  have "look d' [''y''] = look ?d [''y'']"
    using remove_all_at_exact [OF r] by (simp add: component_def)
  with r show ?thesis
    by (auto simp: remove_all_at_def component_def del_def Let_def)
qed

section \<open>Opening a path through somebody else's files\<close>

definition root_only :: "calls \<Rightarrow> node \<Rightarrow> bool" where
  "root_only flt d = (if flt SFstat then False else uid (stat_of d) = 0 \<and> mode (stat_of d) AND 18 = 0)"

datatype walked = Opened node | Again string

text \<open>
  \<open>walkAnchored\<close>: one pass over the components of a clean path. \<open>pre\<close> is what has been
  walked, \<open>resolved\<close> the same as a path.
\<close>

fun walk_parts :: "faults \<Rightarrow> node \<Rightarrow> string list \<Rightarrow> string \<Rightarrow> string list \<Rightarrow> fs_error + walked" where
  "walk_parts flt cur pre resolved [] = Inr (Opened cur)"
| "walk_parts flt cur pre resolved (part # rest) =
     (if part = [] then walk_parts flt cur pre resolved rest
      else case open_dir_at (flt (pre @ [part])) cur part of
        Inr x \<Rightarrow> walk_parts flt x (pre @ [part]) (path_join [resolved, part]) rest
      | Inl e \<Rightarrow>
          if e \<noteq> IsLink \<or> \<not> root_only (flt pre) cur then Inl e
          else case readlink_at (flt (pre @ [part])) cur part of
            Inl e' \<Rightarrow> Inl e'
          | Inr target \<Rightarrow>
              let rest' = path_join rest
              in if is_abs target then Inr (Again (path_join [target, rest']))
                 else Inr (Again (path_join [resolved, target, rest'])))"

definition walk_anchored :: "faults \<Rightarrow> node \<Rightarrow> string \<Rightarrow> fs_error + walked" where
  "walk_anchored flt root path =
     (if flt [] SOpen then Inl (Failed SOpen)
      else walk_parts flt root [] ''/'' (split_on CHR ''/'' (trim_prefix (path_clean path) ''/'')))"

fun anchored_passes :: "nat \<Rightarrow> (nat \<Rightarrow> faults) \<Rightarrow> node \<Rightarrow> string \<Rightarrow> fs_error + node" where
  "anchored_passes 0 flt root path = Inl TooManyLinks"
| "anchored_passes (Suc n) flt root path =
     (case walk_anchored (flt n) root path of
        Inl e \<Rightarrow> Inl e
      | Inr (Opened d) \<Rightarrow> Inr d
      | Inr (Again path') \<Rightarrow> anchored_passes n flt root path')"

definition open_anchored :: "(nat \<Rightarrow> faults) \<Rightarrow> node \<Rightarrow> string \<Rightarrow> fs_error + node" where
  "open_anchored flt root path =
     (if \<not> is_abs path then Inl NotAbsolute else anchored_passes 40 flt root path)"

text \<open>
  The links that may be followed: the path goes through directories only up to a link, and
  the directory that holds the link can be changed by root alone.
\<close>

definition trusted_link :: "node \<Rightarrow> string list \<Rightarrow> string \<Rightarrow> bool" where
  "trusted_link root parts path' \<longleftrightarrow>
     (\<exists>pre name rest d m target.
        parts = pre @ name # rest
        \<and> look root pre = Some d \<and> is_dir d \<and> map_of (entries d) name = Some (Lnk m target)
        \<and> uid (stat_of d) = 0 \<and> mode (stat_of d) AND 18 = 0
        \<and> path' = path_join (if is_abs target then [target, path_join rest]
             else [foldl (\<lambda>r p. path_join [r, p]) ''/'' pre, target, path_join rest]))"

definition names_of :: "string \<Rightarrow> string list" where
  "names_of path = filter (\<lambda>p. p \<noteq> []) (split_on CHR ''/'' (trim_prefix (path_clean path) ''/''))"

inductive trusted_path :: "node \<Rightarrow> string \<Rightarrow> string \<Rightarrow> bool" for root where
  here: "trusted_path root p p"
| follow: "trusted_link root (names_of p) q \<Longrightarrow> trusted_path root q r \<Longrightarrow> trusted_path root p r"

lemma open_dir_at_link:
  "open_dir_at flt d name = Inl IsLink \<Longrightarrow> \<exists>m t. map_of (entries d) name = Some (Lnk m t)"
  by (auto simp: open_dir_at_def split: if_splits option.splits node.splits)

lemma path_join_filter: "path_join (filter (\<lambda>p. p \<noteq> []) ps) = path_join ps"
  by (simp add: path_join_def)

lemma walk_parts_sound:
  "walk_parts flt cur pre resolved parts = Inr w \<Longrightarrow> look root pre = Some cur \<Longrightarrow> is_dir cur \<Longrightarrow>
   resolved = foldl (\<lambda>r p. path_join [r, p]) ''/'' pre \<Longrightarrow>
   (case w of
      Opened d \<Rightarrow> look root (pre @ filter (\<lambda>p. p \<noteq> []) parts) = Some d \<and> is_dir d
    | Again p \<Rightarrow> trusted_link root (pre @ filter (\<lambda>p. p \<noteq> []) parts) p)"
proof (induction flt cur pre resolved parts rule: walk_parts.induct)
  case (2 flt cur pre resolved part rest)
  consider (empty) "part = []"
    | (dir) x where "part \<noteq> []" "open_dir_at (flt (pre @ [part])) cur part = Inr x"
    | (link) m t where "part \<noteq> []" "open_dir_at (flt (pre @ [part])) cur part = Inl IsLink"
        "root_only (flt pre) cur" "map_of (entries cur) part = Some (Lnk m t)"
        "w = Again (path_join (if is_abs t then [t, path_join rest] else [resolved, t, path_join rest]))"
    using 2(3) open_dir_at_link [of "flt (pre @ [part])" cur part]
    by (auto simp: readlink_at_def read_link_all Let_def split: if_splits sum.splits)
  then show ?case
  proof cases
    case empty
    with 2(1) 2(3-) show ?thesis by (cases w) simp_all
  next
    case dir
    have "look root (pre @ [part]) = Some x" "is_dir x"
      using open_dir_at_Inr [OF dir(2)] 2(4) by (auto simp: look_append look_Cons)
    with 2(2) [OF dir] 2(3,6) dir show ?thesis by (cases w) simp_all
  next
    case link
    have eq: "pre @ filter (\<lambda>p. p \<noteq> []) (part # rest) = pre @ part # filter (\<lambda>p. p \<noteq> []) rest"
      using link(1) by simp
    have "trusted_link root (pre @ part # filter (\<lambda>p. p \<noteq> []) rest)
        (path_join (if is_abs t then [t, path_join rest] else [resolved, t, path_join rest]))"
      unfolding trusted_link_def
      using link(3,4) 2(4-6)
      by (intro exI [of _ pre] exI [of _ part] exI [of _ "filter (\<lambda>p. p \<noteq> []) rest"] exI [of _ cur]
          exI [of _ m] exI [of _ t]) (auto simp: root_only_def path_join_filter split: if_splits)
    with link(5) eq show ?thesis by simp
  qed
qed auto

lemma walk_anchored_sound:
  "walk_anchored flt root path = Inr w \<Longrightarrow> is_dir root \<Longrightarrow>
   (case w of Opened d \<Rightarrow> look root (names_of path) = Some d \<and> is_dir d
            | Again p \<Rightarrow> trusted_link root (names_of path) p)"
  using walk_parts_sound [of flt root "[]" "''/''" _ w root]
  by (cases w) (auto simp: walk_anchored_def names_of_def split: if_splits)

text \<open>
  Property C12: a directory in somebody else's files is opened at the place its path names,
  and links are followed only where root alone can have made them: the path the walk ends
  with is reached from the one asked for through links in directories owned by root and
  writable by nobody else, and leads through directories only.
\<close>

theorem open_anchored_trusts_root_only:
  assumes "open_anchored flt root path = Inr d" "is_dir root"
  shows "is_abs path
    \<and> (\<exists>q. trusted_path root path q \<and> look root (names_of q) = Some d \<and> is_dir d)"
proof -
  have "\<exists>q. trusted_path root p q \<and> look root (names_of q) = Some d \<and> is_dir d"
    if "anchored_passes n flt root p = Inr d" for n p
    using that
  proof (induction n arbitrary: p)
    case (Suc n)
    then obtain w where w: "walk_anchored (flt n) root p = Inr w" by (auto split: sum.splits)
    with walk_anchored_sound [OF w assms(2)] Suc show ?case
      by (cases w) (auto intro: trusted_path.intros)
  qed simp
  with assms(1) show ?thesis by (auto simp: open_anchored_def split: if_splits)
qed

definition sample_root :: node where
  "sample_root = Dir root_meta
     [(''home'', Lnk root_meta ''/var/home''),
      (''var'', Dir root_meta [(''home'', Dir root_meta
         [(''ann'', Dir (root_meta\<lparr>uid := 1000\<rparr>)
             [(''games'', Dir root_meta []), (''etc'', Lnk root_meta ''/var'')])])])]"

theorem open_anchored_trusts_root_only_witness:
  "open_anchored (\<lambda>_ _ _. False) sample_root ''/home/ann/games'' = Inr (Dir root_meta [])
   \<and> open_anchored (\<lambda>_ _ _. False) sample_root ''/home/ann/etc'' = Inl IsLink
   \<and> (\<exists>q. trusted_path sample_root ''/home/ann/games'' q
          \<and> look sample_root (names_of q) = Some (Dir root_meta []))"
proof -
  have r: "open_anchored (\<lambda>_ _ _. False) sample_root ''/home/ann/games'' = Inr (Dir root_meta [])"
    "open_anchored (\<lambda>_ _ _. False) sample_root ''/home/ann/etc'' = Inl IsLink"
    by code_simp+
  show ?thesis
    using open_anchored_trusts_root_only [OF r(1)] r by (auto simp: sample_root_def)
qed

end
