(* ===== verification/Private_Folder.thy ===== *)
theory Private_Folder
  imports Tree_FS Manifest "HOL-Library.List_Lexorder" "HOL-Library.Char_ord"
begin

text \<open>
  What belongs to a seat inside a shared folder (\<open>internal/library/private.go\<close>), and the
  folders themselves, whose version is read off the tree (\<open>internal/library/folder.go\<close>).
  The walks go through the entries of a directory in the order they are read; a name is
  looked up again only to find the entry it was read with.
\<close>

abbreviation no_faults :: faults where
  "no_faults \<equiv> \<lambda>_ _. False"

section \<open>Wine prefixes\<close>

definition is_wine_prefix_at :: "faults \<Rightarrow> node \<Rightarrow> bool" where
  "is_wine_prefix_at flt d =
     (if \<not> is_dir_at (flt [''drive_c'']) d ''drive_c'' then False
      else list_ex (\<lambda>name. is_ok (lstat_at (flt [name]) d name)) [''system.reg'', ''user.reg''])"

text \<open>Private is \<open>users\<close> inside \<open>drive_c\<close> inside a prefix.\<close>

definition seat_private_at :: "faults \<Rightarrow> node \<Rightarrow> string \<Rightarrow> string \<Rightarrow> bool" where
  "seat_private_at flt prefix dir_name name =
     (if name \<noteq> ''users'' \<or> dir_name \<noteq> ''drive_c'' then False else is_wine_prefix_at flt prefix)"

definition lstat_entry :: "calls \<Rightarrow> string \<Rightarrow> node \<Rightarrow> fs_error + node" where
  "lstat_entry flt n x =
     (if \<not> component n then Inl BadName
      else if flt SGone then Inl NoEntry
      else if flt SLstat then Inl (Failed SLstat) else Inr x)"

definition open_entry :: "calls \<Rightarrow> string \<Rightarrow> node \<Rightarrow> fs_error + node" where
  "open_entry flt n x =
     (if \<not> component n then Inl BadName
      else if flt SOpenGone then Inl NoEntry
      else if flt SOpen then Inl (Failed SOpen) else Inr x)"

text \<open>
  \<open>walk\<close>: the private directories below \<open>dir\<close>, as paths from where the walk began.
  \<open>wflt h\<close> are the faults of the look at the prefix around \<open>h\<close>.
\<close>

fun walk_private ::
    "faults \<Rightarrow> (string list \<Rightarrow> faults) \<Rightarrow> node \<Rightarrow> string \<Rightarrow> string list \<Rightarrow> node \<Rightarrow> string list list"
and walk_entries ::
    "faults \<Rightarrow> (string list \<Rightarrow> faults) \<Rightarrow> node \<Rightarrow> node \<Rightarrow> string \<Rightarrow> string list
       \<Rightarrow> (string \<times> node) list \<Rightarrow> string list list" where
  "walk_private flt wflt up dn rel (Dir m es) =
     (if flt rel SReadNames then [] else walk_entries flt wflt up (Dir m es) dn rel es)"
| "walk_private flt wflt up dn rel (Reg m s) = []"
| "walk_private flt wflt up dn rel (Lnk m t) = []"
| "walk_private flt wflt up dn rel (Special m) = []"
| "walk_entries flt wflt up d dn rel [] = []"
| "walk_entries flt wflt up d dn rel ((n, x) # es) =
     (let here = rel @ [n]; more = walk_entries flt wflt up d dn rel es
      in case lstat_entry (flt here) n x of
           Inl e \<Rightarrow> more
         | Inr st \<Rightarrow>
             if \<not> is_dir x then more
             else if seat_private_at (wflt here) up dn n then here # more
             else (case open_entry (flt here) n x of
                     Inl e \<Rightarrow> more
                   | Inr sub \<Rightarrow> walk_private flt wflt d n here x @ more))"

definition private_dirs_at ::
  "faults \<Rightarrow> (string list \<Rightarrow> faults) \<Rightarrow> node \<Rightarrow> string \<Rightarrow> string list list" where
  "private_dirs_at flt wflt parent name =
     (case open_dir_at (flt []) parent name of
        Inl e \<Rightarrow> []
      | Inr root \<Rightarrow> walk_private flt wflt parent name [] root)"

section \<open>Folders\<close>

record folder =
  f_name :: string
  f_bytes :: int
  f_newest :: int

text \<open>\<open>Folder.Newer\<close>: time first, then size. \<open>Folder.Settled\<close>.\<close>

definition folder_newer :: "folder \<Rightarrow> folder \<Rightarrow> bool" where
  "folder_newer f other =
     (if f_newest f > f_newest other then True
      else if f_newest f = f_newest other then f_bytes f > f_bytes other
      else False)"

definition folder_settled :: "int \<Rightarrow> int \<Rightarrow> folder \<Rightarrow> bool" where
  "folder_settled t quiet f = (t - f_newest f \<ge> quiet)"

fun size_of :: "node \<Rightarrow> int" where
  "size_of (Reg m s) = int (length s)"
| "size_of _ = 0"

definition counted :: "node \<Rightarrow> folder \<Rightarrow> folder" where
  "counted x f = f\<lparr>f_newest := if mtime (stat_of x) > f_newest f then mtime (stat_of x) else f_newest f,
                    f_bytes := f_bytes f + size_of x\<rparr>"

fun measure_tree ::
    "faults \<Rightarrow> (string list \<Rightarrow> faults) \<Rightarrow> node \<Rightarrow> string \<Rightarrow> string list \<Rightarrow> node \<Rightarrow> folder
       \<Rightarrow> folder \<times> fs_error option"
and measure_entries ::
    "faults \<Rightarrow> (string list \<Rightarrow> faults) \<Rightarrow> node \<Rightarrow> node \<Rightarrow> string \<Rightarrow> string list
       \<Rightarrow> (string \<times> node) list \<Rightarrow> folder \<Rightarrow> folder \<times> fs_error option" where
  "measure_tree flt wflt up dn rel (Dir m es) f =
     (if flt rel SReadNames then (f, Some (Failed SReadNames))
      else measure_entries flt wflt up (Dir m es) dn rel es f)"
| "measure_tree flt wflt up dn rel (Reg m s) f = (f, Some NotDir)"
| "measure_tree flt wflt up dn rel (Lnk m t) f = (f, Some NotDir)"
| "measure_tree flt wflt up dn rel (Special m) f = (f, Some NotDir)"
| "measure_entries flt wflt up d dn rel [] f = (f, None)"
| "measure_entries flt wflt up d dn rel ((n, x) # es) f =
     (let here = rel @ [n]
      in case lstat_entry (flt here) n x of
           Inl e \<Rightarrow> if e = NoEntry then measure_entries flt wflt up d dn rel es f else (f, Some e)
         | Inr st \<Rightarrow>
             if is_dir x \<and> seat_private_at (wflt here) up dn n
             then measure_entries flt wflt up d dn rel es f
             else if \<not> is_dir x then measure_entries flt wflt up d dn rel es (counted x f)
             else (case open_entry (flt here) n x of
                     Inl e \<Rightarrow>
                       if e = NoEntry then measure_entries flt wflt up d dn rel es (counted x f)
                       else (counted x f, Some e)
                   | Inr sub \<Rightarrow>
                       (case measure_tree flt wflt d n here x (counted x f) of
                          (f', Some e) \<Rightarrow> (f', Some e)
                        | (f', None) \<Rightarrow> measure_entries flt wflt up d dn rel es f')))"

definition measure_at ::
  "faults \<Rightarrow> (string list \<Rightarrow> faults) \<Rightarrow> node \<Rightarrow> string \<Rightarrow> fs_error + folder" where
  "measure_at flt wflt parent name =
     (case open_dir_at (flt []) parent name of
        Inl e \<Rightarrow> Inl e
      | Inr root \<Rightarrow>
          if flt [] SFstat then Inl (Failed SFstat)
          else case measure_tree flt wflt parent name [] root
                     \<lparr>f_name = [], f_bytes = 0, f_newest = mtime (stat_of root)\<rparr> of
                 (f, Some e) \<Rightarrow> Inl e
               | (f, None) \<Rightarrow> Inr f)"

datatype folder_error = FolderName name_error | FolderFs fs_error

definition folder_at ::
  "faults \<Rightarrow> (string list \<Rightarrow> faults) \<Rightarrow> node \<Rightarrow> string \<Rightarrow> folder_error + folder" where
  "folder_at flt wflt d name =
     (case safe_name name of
        Some e \<Rightarrow> Inl (FolderName e)
      | None \<Rightarrow>
          (case measure_at flt wflt d name of
             Inl e \<Rightarrow> Inl (FolderFs e)
           | Inr f \<Rightarrow> Inr (f\<lparr>f_name := name\<rparr>)))"

text \<open>\<open>scanFoldersAt\<close>: what cannot be shared is skipped. The faults are those of each folder.\<close>

fun scan_names ::
  "(string \<Rightarrow> faults) \<Rightarrow> (string \<Rightarrow> string list \<Rightarrow> faults) \<Rightarrow> (string \<Rightarrow> calls) \<Rightarrow> node \<Rightarrow> string list \<Rightarrow> folder list" where
  "scan_names flt wflt c d [] = []"
| "scan_names flt wflt c d (name # names) =
     (if \<not> is_dir_at (c name) d name then scan_names flt wflt c d names
      else if safe_name name \<noteq> None then scan_names flt wflt c d names
      else case measure_at (flt name) (wflt name) d name of
             Inl e \<Rightarrow> scan_names flt wflt c d names
           | Inr f \<Rightarrow> f\<lparr>f_name := name\<rparr> # scan_names flt wflt c d names)"

definition scan_folders_at ::
  "(string \<Rightarrow> faults) \<Rightarrow> (string \<Rightarrow> string list \<Rightarrow> faults) \<Rightarrow> (string \<Rightarrow> calls) \<Rightarrow> node \<Rightarrow> fs_error + folder list" where
  "scan_folders_at flt wflt c d =
     (if c [] SReadNames then Inl (Failed SReadNames)
      else Inr (sort_key f_name (scan_names flt wflt c d (map fst (entries d)))))"

declare walk_entries.simps(2) [simp del] measure_entries.simps(2) [simp del]

section \<open>A saved game is not a new version\<close>

text \<open>The tree with another entry at the place a path of names leads to.\<close>

fun graft :: "node \<Rightarrow> string list \<Rightarrow> node \<Rightarrow> node" where
  "graft x [] y = y"
| "graft (Dir m es) (c # cs) y = Dir m (map (\<lambda>(n, x). (n, if n = c then graft x cs y else x)) es)"
| "graft x (c # cs) y = x"

lemma stat_of_graft [simp]: "stat_of (graft x (c # cs) y) = stat_of x"
  and is_dir_graft [simp]: "is_dir (graft x (c # cs) y) = is_dir x"
  and size_of_graft [simp]: "size_of (graft x (c # cs) y) = size_of x"
  by (cases x; simp)+

lemma map_of_graft:
  "map_of (map (\<lambda>(n, x). (n, if n = c then g x else x)) es) =
     (\<lambda>n. map_option (if n = c then g else id) (map_of es n))"
  by (induction es) (auto simp: fun_eq_iff)

lemma map_of_entries_graft:
  "map_of (entries (graft x (c # cs) y)) n =
     map_option (if n = c then \<lambda>z. graft z cs y else id) (map_of (entries x) n)"
  by (cases x) (auto simp: map_of_graft)

lemma walk_entries_cases:
  "q \<in> set (walk_entries flt wflt up d dn rel ((n, x) # es)) \<Longrightarrow>
     q \<in> set (walk_entries flt wflt up d dn rel es)
   \<or> (\<exists>st. lstat_entry (flt (rel @ [n])) n x = Inr st \<and> is_dir x
       \<and> (if seat_private_at (wflt (rel @ [n])) up dn n then q = rel @ [n]
          else (\<exists>sub. open_entry (flt (rel @ [n])) n x = Inr sub)
               \<and> q \<in> set (walk_private flt wflt d n (rel @ [n]) x)))"
  by (auto simp: walk_entries.simps Let_def split: sum.splits if_splits)

lemma walk_private_nonempty:
  "q \<in> set (walk_private flt wflt up dn rel x) \<Longrightarrow> \<exists>n q'. q = rel @ n # q'"
  "q \<in> set (walk_entries flt wflt up d dn rel es) \<Longrightarrow> \<exists>n q'. q = rel @ n # q' \<and> n \<in> fst ` set es"
proof (induction flt wflt up dn rel x and flt wflt up d dn rel es rule: walk_private_walk_entries.induct)
  case (6 flt wflt up d dn rel n x es)
  from walk_entries_cases [OF 6(3)] show ?case
  proof (elim disjE exE conjE)
    assume "q \<in> set (walk_entries flt wflt up d dn rel es)"
    with 6(1) show ?thesis by force
  next
    fix st
    assume h: "lstat_entry (flt (rel @ [n])) n x = Inr st" "is_dir x"
      "if seat_private_at (wflt (rel @ [n])) up dn n then q = rel @ [n]
       else (\<exists>sub. open_entry (flt (rel @ [n])) n x = Inr sub)
            \<and> q \<in> set (walk_private flt wflt d n (rel @ [n]) x)"
    with 6(2) [OF refl refl h(1)] show ?thesis by (force split: if_splits)
  qed
qed (auto split: if_splits)

lemma walk_private_dir: "q \<in> set (walk_private flt wflt up dn rel x) \<Longrightarrow> is_dir x"
  by (cases x) auto

lemma is_wine_prefix_at_keys:
  assumes "\<And>n. map_option is_dir (map_of (entries d) n) = map_option is_dir (map_of (entries d') n)"
  shows "is_wine_prefix_at flt d = is_wine_prefix_at flt d'"
proof -
  have "is_ok (lstat_at c d n) = is_ok (lstat_at c d' n)" for c n
    using assms [of n] by (auto simp: lstat_at_def split: option.split)
  moreover have "is_dir_at c d n = is_dir_at c d' n" for c n
    using assms [of n] by (auto simp: is_dir_at_def lstat_at_def split: option.split)
  ultimately show ?thesis by (simp add: is_wine_prefix_at_def)
qed

abbreviation plain_walks :: "string list \<Rightarrow> faults" where
  "plain_walks \<equiv> \<lambda>_. no_faults"

definition prefix_here :: "node \<Rightarrow> bool" where
  "prefix_here d = is_wine_prefix_at no_faults d"

lemma measure_entries_plain:
  "measure_entries no_faults plain_walks up d dn rel ((n, x) # es) f =
     (if \<not> component n then (f, Some BadName)
      else if is_dir x \<and> n = ''users'' \<and> dn = ''drive_c'' \<and> prefix_here up
      then measure_entries no_faults plain_walks up d dn rel es f
      else if \<not> is_dir x then measure_entries no_faults plain_walks up d dn rel es (counted x f)
      else case measure_tree no_faults plain_walks d n (rel @ [n]) x (counted x f) of
             (f', Some e) \<Rightarrow> (f', Some e)
           | (f', None) \<Rightarrow> measure_entries no_faults plain_walks up d dn rel es f')"
  by (simp add: measure_entries.simps Let_def lstat_entry_def open_entry_def seat_private_at_def prefix_here_def)

lemma walk_entries_plain:
  "walk_entries no_faults plain_walks up d dn rel ((n, x) # es) =
     (if component n \<and> is_dir x
      then if n = ''users'' \<and> dn = ''drive_c'' \<and> prefix_here up then [rel @ [n]]
           else walk_private no_faults plain_walks d n (rel @ [n]) x
      else []) @ walk_entries no_faults plain_walks up d dn rel es"
  by (simp add: walk_entries.simps Let_def lstat_entry_def open_entry_def seat_private_at_def prefix_here_def)

text \<open>A walk asks of the directory above only whether it is a prefix.\<close>

lemma measure_entries_up:
  "prefix_here up' = prefix_here up \<Longrightarrow>
     measure_entries no_faults plain_walks up' d dn rel es f = measure_entries no_faults plain_walks up d dn rel es f"
proof (induction es arbitrary: f)
  case (Cons e es)
  obtain n x where "e = (n, x)" by force
  with Cons show ?case by (simp only: measure_entries_plain)
qed simp

lemma measure_up:
  "prefix_here up' = prefix_here up \<Longrightarrow>
     measure_tree no_faults plain_walks up' dn rel x f = measure_tree no_faults plain_walks up dn rel x f"
  using measure_entries_up [of up' up] by (cases x) simp_all

lemma measure_entries_up_both:
  "prefix_here up' = prefix_here up \<Longrightarrow> prefix_here d' = prefix_here d \<Longrightarrow>
     measure_entries no_faults plain_walks up' d' dn rel es f = measure_entries no_faults plain_walks up d dn rel es f"
proof (induction es arbitrary: f)
  case (Cons e es)
  obtain n x where "e = (n, x)" by force
  with Cons show ?case
    using measure_up [OF Cons.prems(2)] by (simp only: measure_entries_plain)
qed simp

text \<open>
  The measure goes past a private directory: whatever is in it, and whatever stands in its
  place as a directory, does not change the result.
\<close>

lemma measure_entries_graft:
  assumes tree: "\<And>x q up' up dn rel f. x \<in> snd ` set es \<Longrightarrow> rel @ q \<in> set (walk_private no_faults plain_walks up dn rel x)
        \<Longrightarrow> prefix_here up' = prefix_here up
        \<Longrightarrow> measure_tree no_faults plain_walks up' dn rel (graft x q y) f
              = measure_tree no_faults plain_walks up dn rel x f"
    and found: "rel @ c # cs \<in> set (walk_entries no_faults plain_walks up d dn rel es)"
    and y: "is_dir y" and dist: "distinct (map fst es)"
    and up: "prefix_here up' = prefix_here up" and d: "prefix_here d' = prefix_here d"
  shows "measure_entries no_faults plain_walks up' d' dn rel
           (map (\<lambda>(n, x). (n, if n = c then graft x cs y else x)) es) f
       = measure_entries no_faults plain_walks up d dn rel es f"
  using tree found dist
proof (induction es arbitrary: f)
  case (Cons e es)
  obtain n x where e: "e = (n, x)" by force
  show ?case
  proof (cases "n = c")
    case True
    have rest: "map (\<lambda>(n, x). (n, if n = c then graft x cs y else x)) es = es"
      using Cons.prems(3) e True by (intro map_idI) (auto simp: image_iff)
    have "rel @ c # cs \<notin> set (walk_entries no_faults plain_walks up d dn rel es)"
      using walk_private_nonempty(2) [of "rel @ c # cs" no_faults plain_walks up d dn rel es]
        Cons.prems(3) e True by auto
    with Cons.prems(2) e True have here: "component n" "is_dir x"
      "if n = ''users'' \<and> dn = ''drive_c'' \<and> prefix_here up then cs = []
       else (rel @ [n]) @ cs \<in> set (walk_private no_faults plain_walks d n (rel @ [n]) x)"
      by (auto simp: walk_entries_plain split: if_splits)
    show ?thesis
    proof (cases "n = ''users'' \<and> dn = ''drive_c'' \<and> prefix_here up")
      case priv: True
      with here have "is_dir (graft x cs y)" using y by simp
      with here e True rest up priv show ?thesis
        using measure_entries_up_both [OF up d] by (simp add: measure_entries_plain)
    next
      case False
      with here have q: "(rel @ [n]) @ cs \<in> set (walk_private no_faults plain_walks d n (rel @ [n]) x)" by simp
      then obtain a as where cs: "cs = a # as" using walk_private_nonempty(1) [OF q] by auto
      have g: "measure_tree no_faults plain_walks d' n (rel @ [n]) (graft x cs y) g
          = measure_tree no_faults plain_walks d n (rel @ [n]) x g" for g
        by (rule Cons.prems(1) [OF _ q d]) (use e in auto)
      have cnt: "counted (graft x cs y) f = counted x f" and dir: "is_dir (graft x cs y)"
        using here(2) cs by (simp_all add: counted_def)
      show ?thesis
        unfolding e list.map prod.case rest measure_entries_plain
        using True False here(1,2) dir cnt g measure_entries_up_both [OF up d] up by auto
    qed
  next
    case False
    have "rel @ c # cs \<in> set (walk_entries no_faults plain_walks up d dn rel es)"
      using Cons.prems(2) e False walk_private_nonempty(1) [of "rel @ c # cs" no_faults plain_walks d n "rel @ [n]" x]
      by (auto simp: walk_entries_plain split: if_splits)
    with Cons.IH Cons.prems(1,3) have IH: "measure_entries no_faults plain_walks up' d' dn rel
           (map (\<lambda>(n, x). (n, if n = c then graft x cs y else x)) es) g
       = measure_entries no_faults plain_walks up d dn rel es g" for g by simp
    show ?thesis
      unfolding e list.map prod.case measure_entries_plain
      using False by (simp only: if_False IH up measure_up [OF d])
  qed
qed simp

lemma walk_entry_dir:
  "rel @ c # cs \<in> set (walk_entries no_faults plain_walks up d dn rel es) \<Longrightarrow> distinct (map fst es) \<Longrightarrow>
     map_of es c = Some z \<Longrightarrow> is_dir z"
proof (induction es)
  case (Cons e es)
  obtain n x where e: "e = (n, x)" by force
  show ?case
  proof (cases "n = c")
    case True
    have "rel @ c # cs \<notin> set (walk_entries no_faults plain_walks up d dn rel es)"
      using walk_private_nonempty(2) [of "rel @ c # cs" no_faults plain_walks up d dn rel es]
        Cons.prems(2) e True by auto
    with Cons.prems e True show ?thesis by (auto simp: walk_entries_plain split: if_splits)
  next
    case False
    have "rel @ c # cs \<in> set (walk_entries no_faults plain_walks up d dn rel es)"
      using Cons.prems(1) e False walk_private_nonempty(1) [of "rel @ c # cs" no_faults plain_walks d n "rel @ [n]" x]
      by (auto simp: walk_entries_plain split: if_splits)
    with Cons False e show ?thesis by simp
  qed
qed simp

lemma prefix_here_graft: "is_dir (graft x (c # cs) y) \<Longrightarrow> is_dir y \<Longrightarrow>
   (\<And>z. map_of (entries x) c = Some z \<Longrightarrow> is_dir z) \<Longrightarrow> prefix_here (graft x (c # cs) y) = prefix_here x"
  unfolding prefix_here_def
proof (rule is_wine_prefix_at_keys)
  fix n assume y: "is_dir y" and z: "\<And>z. map_of (entries x) c = Some z \<Longrightarrow> is_dir z"
  show "map_option is_dir (map_of (entries (graft x (c # cs) y)) n) = map_option is_dir (map_of (entries x) n)"
    using y z by (cases cs) (auto simp: map_of_entries_graft option.map_comp o_def intro: option.map_cong)
qed

lemma measure_graft:
  "rel @ q \<in> set (walk_private no_faults plain_walks up dn rel x) \<Longrightarrow> wf_node x \<Longrightarrow> is_dir y \<Longrightarrow>
     prefix_here up' = prefix_here up \<Longrightarrow>
     measure_tree no_faults plain_walks up' dn rel (graft x q y) f
       = measure_tree no_faults plain_walks up dn rel x f"
proof (induction x arbitrary: rel q up up' dn f)
  case (Dir m es)
  from walk_private_nonempty(1) [OF Dir.prems(1)] obtain c cs where q: "q = c # cs" by auto
  have found: "rel @ c # cs \<in> set (walk_entries no_faults plain_walks up (Dir m es) dn rel es)"
    using Dir.prems(1) q by simp
  have tree: "measure_tree no_faults plain_walks up1 dn1 rel1 (graft x q1 y) f1
       = measure_tree no_faults plain_walks up2 dn1 rel1 x f1"
    if "x \<in> snd ` set es" "rel1 @ q1 \<in> set (walk_private no_faults plain_walks up2 dn1 rel1 x)"
      "prefix_here up1 = prefix_here up2" for x rel1 q1 up1 up2 dn1 f1
  proof -
    from that(1) obtain e where e: "e \<in> set es" "x = snd e" by auto
    with Dir.prems(2) have "wf_node x" by auto
    with Dir.IH [of e x] e that(2,3) Dir.prems(3) show ?thesis by (auto simp: snds.simps)
  qed
  have cdir: "is_dir z" if "map_of es c = Some z" for z
    using walk_entry_dir [OF found] that Dir.prems(2) by simp
  have p: "prefix_here (Dir m (map (\<lambda>(n, x). (n, if n = c then graft x cs y else x)) es)) = prefix_here (Dir m es)"
    using prefix_here_graft [of "Dir m es" c cs y] Dir.prems(3) cdir by simp
  show ?case
    using measure_entries_graft [OF tree found Dir.prems(3) _ Dir.prems(4) p] Dir.prems(2) q by simp
qed auto

text \<open>
  An evening at a game is not a new version of it. Whatever is written below
  the user directory of a wine prefix inside a shared folder, the folder measures the same,
  in size and in its newest time, so it is not copied again.
\<close>

theorem saves_are_not_versions:
  assumes "p \<in> set (private_dirs_at no_faults plain_walks parent name)"
    and "wf_node parent" "map_of (entries parent) name = Some root" "is_dir y"
  shows "measure_at no_faults plain_walks (change name (graft root p y) parent) name
       = measure_at no_faults plain_walks parent name"
proof -
  have o: "open_dir_at (\<lambda>_. False) parent name = Inr root" and c: "component name"
    using assms(1,3) by (auto simp: private_dirs_at_def open_dir_at_def split: if_splits sum.splits node.splits)
  have found: "[] @ p \<in> set (walk_private no_faults plain_walks parent name [] root)"
    using assms(1) o by (simp add: private_dirs_at_def)
  from walk_private_nonempty(1) [OF found] obtain a as where p: "p = a # as" by auto
  have dir: "is_dir root" using o by (simp add: open_dir_at_iff)
  have wf: "wf_node root" using wf_look [of parent "[name]" root] assms(2,3) by (simp add: look_Cons)
  let ?q = "change name (graft root p y) parent"
  have up: "prefix_here ?q = prefix_here parent"
    unfolding prefix_here_def
    by (rule is_wine_prefix_at_keys) (use assms(3) p dir in \<open>simp add: map_of_update\<close>)
  have o': "open_dir_at (\<lambda>_. False) ?q name = Inr (graft root p y)"
    using dir p c by (simp add: open_dir_at_iff map_of_update)
  show ?thesis
    using o o' measure_graft [OF found wf assms(4) up] p
    by (simp add: measure_at_def)
qed

definition sample_shared :: node where
  "sample_shared = Dir root_meta
     [(''game'', Dir root_meta
        [(''system.reg'', Reg root_meta ''r''),
         (''drive_c'', Dir root_meta [(''users'', Dir root_meta []), (''a.exe'', Reg root_meta ''123'')])])]"

theorem saves_are_not_versions_witness:
  "measure_at no_faults plain_walks
     (change ''game'' (graft (the (look sample_shared [''game''])) [''drive_c'', ''users'']
         (Dir (root_meta\<lparr>mtime := 99\<rparr>) [(''save'', Reg (root_meta\<lparr>mtime := 99\<rparr>) ''level 7'')])) sample_shared) ''game''
   = Inr \<lparr>f_name = [], f_bytes = 4, f_newest = 0\<rparr>"
proof -
  have "[''drive_c'', ''users''] \<in> set (private_dirs_at no_faults plain_walks sample_shared ''game'')"
    "measure_at no_faults plain_walks sample_shared ''game'' = Inr \<lparr>f_name = [], f_bytes = 4, f_newest = 0\<rparr>"
    "wf_node sample_shared"
    by code_simp+
  with saves_are_not_versions [of "[''drive_c'', ''users'']" sample_shared "''game''" "the (look sample_shared [''game''])"]
  show ?thesis by (simp add: sample_shared_def)
qed

end
