(* ===== verification/Clone.thy ===== *)
theory Clone
  imports Private_Folder "HOL-Library.Sublist"
begin

text \<open>
  Copying a game (\<open>internal/library/clone.go\<close>): the copy of a tree, the swap that puts it in
  the place of what was there, and the saves that are carried across the swap and back when
  it fails. A relative path is the list of its components. The faults of a call are given
  by the phase it belongs to, so that every system call of a run can fail on its own.
\<close>

section \<open>Copying a tree\<close>

record result =
  files :: nat
  dirs :: nat
  symlinks :: nat
  bytes :: int
  copied :: nat

definition nothing_done :: result where
  "nothing_done = \<lparr>files = 0, dirs = 0, symlinks = 0, bytes = 0, copied = 0\<rparr>"

text \<open>A new link is \<open>0777\<close> whatever the umask.\<close>

definition link_meta :: "kernel \<Rightarrow> meta" where
  "link_meta k = fresh_meta k 511\<lparr>mode := 511\<rparr>"

definition clone_link ::
  "kernel \<Rightarrow> faults \<Rightarrow> faults \<Rightarrow> owner \<Rightarrow> string list \<Rightarrow> string \<Rightarrow> meta \<Rightarrow> string \<Rightarrow> node \<Rightarrow> result
     \<Rightarrow> node \<times> result \<times> fs_error option" where
  "clone_link k sf df w here n m t d r =
     (if sf here SReadlink then (d, r, Some (Failed SReadlink))
      else if df here SSymlink then (d, r, Some (Failed SSymlink))
      else if map_of (entries d) n \<noteq> None then (d, r, Some Exists)
      else
        let d1 = put k n (Lnk (link_meta k) (read_link 256 t)) d
        in if df here SLchown then (d1, r, Some (Failed SLchown))
           else
             let x = chown w (Lnk (link_meta k) (read_link 256 t))
             in if df here SUtimes then (change n x d1, r, Some (Failed SUtimes))
                else (change n (set_mtime (mtime m) x) d1, r\<lparr>symlinks := Suc (symlinks r)\<rparr>, None))"

text \<open>
  A file shares its blocks with the original where the file system can (\<open>shares\<close>), and is
  copied in full where it cannot.
\<close>

definition clone_file ::
  "kernel \<Rightarrow> faults \<Rightarrow> faults \<Rightarrow> (string list \<Rightarrow> bool) \<Rightarrow> owner \<Rightarrow> string list \<Rightarrow> string \<Rightarrow> meta \<Rightarrow> string
     \<Rightarrow> node \<Rightarrow> result \<Rightarrow> node \<times> result \<times> fs_error option" where
  "clone_file k sf df shares w here n m s d r =
     (if sf here SOpen then (d, r, Some (Failed SOpen))
      else if sf here SFstat then (d, r, Some (Failed SFstat))
      else case create_file_at k (df here) d n (mode m) of
        Inl e \<Rightarrow> (d, r, Some e)
      | Inr d1 \<Rightarrow>
          if df here SFileClone then (d1, r, Some (Failed SFileClone))
          else if \<not> shares here \<and> df here SCopy then (d1, r, Some (Failed SCopy))
          else
            let r1 = (if shares here then r else r\<lparr>copied := Suc (copied r)\<rparr>);
                x = Reg (fresh_meta k (mode m)) s
            in if df here SChown then (change n x d1, r1, Some (Failed SChown))
               else if df here SUtimes then (change n (chown w x) d1, r1, Some (Failed SUtimes))
               else (change n (set_mtime (mtime m) (chown w x)) d1,
                     r1\<lparr>files := Suc (files r1), bytes := bytes r1 + int (length s)\<rparr>, None))"

text \<open>The owner, the mode and the time a directory gets on the way out.\<close>

definition finish_dir ::
  "calls \<Rightarrow> owner \<Rightarrow> meta \<Rightarrow> node \<Rightarrow> node \<times> fs_error option" where
  "finish_dir flt w m x =
     (if flt SChown then (x, Some (Failed SChown))
      else if flt SChmod then (chown w x, Some (Failed SChmod))
      else if flt SUtimes then (chmod (mode m) (chown w x), Some (Failed SUtimes))
      else (set_mtime (mtime m) (chmod (mode m) (chown w x)), None))"

fun clone_node ::
    "kernel \<Rightarrow> faults \<Rightarrow> faults \<Rightarrow> (string list \<Rightarrow> bool) \<Rightarrow> owner \<Rightarrow> string list list \<Rightarrow> string list
      \<Rightarrow> string \<Rightarrow> node \<Rightarrow> node \<Rightarrow> result \<Rightarrow> node \<times> result \<times> fs_error option"
and clone_entries ::
    "kernel \<Rightarrow> faults \<Rightarrow> faults \<Rightarrow> (string list \<Rightarrow> bool) \<Rightarrow> owner \<Rightarrow> string list list \<Rightarrow> string list
      \<Rightarrow> (string \<times> node) list \<Rightarrow> node \<Rightarrow> result \<Rightarrow> node \<times> result \<times> fs_error option" where
  "clone_node k sf df shares w carry here n (Dir m es) d r =
     (if sf here SOpen then (d, r, Some (Failed SOpen))
      else if sf here SFstat then (d, r, Some (Failed SFstat))
      else if df here SMkdir then (d, r, Some (Failed SMkdir))
      else if map_of (entries d) n \<noteq> None then (d, r, Some Exists)
      else
        let d1 = put k n (Dir (fresh_meta k 448) []) d
        in if df here SOpen then (d1, r, Some (Failed SOpen))
           else if sf here SReadNames then (d1, r, Some (Failed SReadNames))
           else case clone_entries k sf df shares w carry here es (Dir (fresh_meta k 448) []) r of
             (sub, r1, Some e) \<Rightarrow> (change n sub d1, r1, Some e)
           | (sub, r1, None) \<Rightarrow>
               (case finish_dir (df here) w m sub of
                  (sub', Some e) \<Rightarrow> (change n sub' d1, r1, Some e)
                | (sub', None) \<Rightarrow> (change n sub' d1, r1\<lparr>dirs := Suc (dirs r1)\<rparr>, None)))"
| "clone_node k sf df shares w carry here n (Lnk m t) d r = clone_link k sf df w here n m t d r"
| "clone_node k sf df shares w carry here n (Reg m s) d r = clone_file k sf df shares w here n m s d r"
| "clone_node k sf df shares w carry here n (Special m) d r = (d, r, Some BadKind)"
| "clone_entries k sf df shares w carry rel [] d r = (d, r, None)"
| "clone_entries k sf df shares w carry rel ((n, x) # es) d r =
     (if rel @ [n] \<in> set carry then clone_entries k sf df shares w carry rel es d r
      else case lstat_entry (sf (rel @ [n])) n x of
        Inl e \<Rightarrow> (d, r, Some e)
      | Inr st \<Rightarrow>
          (case clone_node k sf df shares w carry (rel @ [n]) n x d r of
             (d', r', Some e) \<Rightarrow> (d', r', Some e)
           | (d', r', None) \<Rightarrow> clone_entries k sf df shares w carry rel es d' r'))"

definition clone_tree ::
  "kernel \<Rightarrow> faults \<Rightarrow> faults \<Rightarrow> (string list \<Rightarrow> bool) \<Rightarrow> owner \<Rightarrow> string list list
     \<Rightarrow> node \<Rightarrow> node \<Rightarrow> result \<Rightarrow> node \<times> result \<times> fs_error option" where
  "clone_tree k sf df shares w carry src d r =
     (if sf [] SReadNames then (d, r, Some (Failed SReadNames))
      else clone_entries k sf df shares w carry [] (entries src) d r)"

section \<open>Carrying the saves across\<close>

text \<open>
  The directories whose times are put back after a move: on which side, where, and the time.
\<close>

datatype side = From | To

type_synonym stamps = "(side \<times> string list \<times> int) list"

definition set_time_at :: "node \<Rightarrow> string list \<Rightarrow> int \<Rightarrow> node" where
  "set_time_at x p t = (case look x p of None \<Rightarrow> x | Some y \<Rightarrow> graft x p (set_mtime t y))"

text \<open>\<open>stamps.restore\<close>, from the last kept to the first, going on after a failure.\<close>

fun restore ::
  "(side \<Rightarrow> faults) \<Rightarrow> stamps \<Rightarrow> node \<Rightarrow> node \<Rightarrow> fs_error option \<Rightarrow> node \<times> node \<times> fs_error option" where
  "restore flt [] from to first = (from, to, first)"
| "restore flt ((s, p, t) # ts) from to first =
     (if flt s p SUtimes
      then restore flt ts from to (if first = None then Some (Failed SUtimes) else first)
      else case s of
        From \<Rightarrow> restore flt ts (set_time_at from p t) to first
      | To \<Rightarrow> restore flt ts from (set_time_at to p t) first)"

text \<open>\<open>mtimeIn\<close>\<close>

definition mtime_in :: "faults \<Rightarrow> node \<Rightarrow> string list \<Rightarrow> int option" where
  "mtime_in flt like rel =
     (case open_rel flt like rel of
        Inl e \<Rightarrow> None
      | Inr y \<Rightarrow> if flt rel SFstat then None else Some (mtime (stat_of y)))"

text \<open>\<open>stamps.keep\<close>\<close>

definition keep_time ::
  "calls \<Rightarrow> side \<Rightarrow> string list \<Rightarrow> node \<Rightarrow> int option \<Rightarrow> stamps \<Rightarrow> fs_error + stamps" where
  "keep_time flt s p d when' ts =
     (case when' of
        None \<Rightarrow> if flt SFstat then Inl (Failed SFstat)
                else if flt SDup then Inl (Failed SDup)
                else Inr ((s, p, mtime (stat_of d)) # ts)
      | Some t \<Rightarrow> if flt SDup then Inl (Failed SDup) else Inr ((s, p, t) # ts))"

text \<open>
  \<open>ensureRel\<close>: the tree with the missing directories made, the times to put back, newest
  first, and the error. \<open>pre\<close> is where the walk is.
\<close>

fun ensure_parts ::
  "kernel \<Rightarrow> faults \<Rightarrow> (string list \<Rightarrow> faults) \<Rightarrow> owner \<Rightarrow> node \<Rightarrow> string list \<Rightarrow> node \<Rightarrow> string list \<Rightarrow> stamps
     \<Rightarrow> node \<times> stamps \<times> fs_error option" where
  "ensure_parts k flt lf w like pre cur [] ts = (cur, ts, None)"
| "ensure_parts k flt lf w like pre cur (c # cs) ts =
     (let here = pre @ [c]
      in case ensure_dir_at k (flt here) cur c 493 of
        (cur', Inl e) \<Rightarrow> (cur', ts, Some e)
      | (cur', Inr (sub, created)) \<Rightarrow>
          if created \<and> flt here SChown then (cur', ts, Some (Failed SChown))
          else
            let sub' = (if created then chown w sub else sub)
            in case keep_time (flt here) To here sub'
                      (if created then mtime_in (lf here) like here else None) ts of
              Inl e \<Rightarrow> (change c sub' cur', ts, Some e)
            | Inr ts' \<Rightarrow>
                (case ensure_parts k flt lf w like here sub' cs ts' of
                   (sub'', ts'', err) \<Rightarrow> (change c sub'' cur', ts'', err)))"

definition ensure_rel ::
  "kernel \<Rightarrow> faults \<Rightarrow> (string list \<Rightarrow> faults) \<Rightarrow> owner \<Rightarrow> node \<Rightarrow> node \<Rightarrow> string list \<Rightarrow> stamps
     \<Rightarrow> node \<times> stamps \<times> fs_error option" where
  "ensure_rel k flt lf w like dir rel ts =
     (if flt [] SDup then (dir, ts, Some (Failed SDup))
      else case keep_time (flt []) To [] dir None ts of
        Inl e \<Rightarrow> (dir, ts, Some e)
      | Inr ts' \<Rightarrow> ensure_parts k flt lf w like [] dir rel ts')"

text \<open>Whose call a fault in a carry belongs to.\<close>

datatype carry_role = Source | Target | Like "string list" | Restoring side

type_synonym carry_faults = "carry_role \<Rightarrow> faults"

text \<open>
  One directory of \<open>carryPrivate\<close>: both trees, whether it was moved, and the error. The
  times kept before the move are put back after it, whether it succeeded or not.
\<close>

definition carry_one ::
  "kernel \<Rightarrow> carry_faults \<Rightarrow> owner \<Rightarrow> string list \<Rightarrow> node \<Rightarrow> node \<Rightarrow> node \<times> node \<times> bool \<times> fs_error option" where
  "carry_one k flt w name from to =
     (let parent = butlast name; base = last name
      in case open_rel (flt Source) from parent of
        Inl e \<Rightarrow> (from, to, False, if e = NoEntry then None else Some e)
      | Inr src \<Rightarrow>
          (case lstat_at (flt Source name) src base of
             Inl e \<Rightarrow> (from, to, False, None)
           | Inr st \<Rightarrow>
               (case keep_time (flt Source parent) From parent src None [] of
                  Inl e \<Rightarrow> (from, to, False, Some e)
                | Inr ts \<Rightarrow>
                    (case ensure_rel k (flt Target) (\<lambda>h. flt (Like h)) w from to parent ts of
                       (to1, ts1, Some e) \<Rightarrow>
                         (case restore (\<lambda>s. flt (Restoring s)) ts1 from to1 (Some e) of
                            (from2, to2, err) \<Rightarrow> (from2, to2, False, err))
                     | (to1, ts1, None) \<Rightarrow>
                         (case rename_at k (flt Target name) src base (the (look to1 parent)) base of
                            Inl e \<Rightarrow>
                              (case restore (\<lambda>s. flt (Restoring s)) ts1 from to1 (Some e) of
                                 (from2, to2, err) \<Rightarrow> (from2, to2, False, err))
                          | Inr (src', target') \<Rightarrow>
                              (case restore (\<lambda>s. flt (Restoring s)) ts1
                                      (graft from parent src') (graft to1 parent target') None of
                                 (from2, to2, err) \<Rightarrow> (from2, to2, True, err)))))))"

fun carry_each ::
  "kernel \<Rightarrow> (string list \<Rightarrow> carry_faults) \<Rightarrow> owner \<Rightarrow> string list list \<Rightarrow> node \<Rightarrow> node \<Rightarrow> string list list
     \<Rightarrow> node \<times> node \<times> string list list \<times> fs_error option" where
  "carry_each k flt w [] from to moved = (from, to, moved, None)"
| "carry_each k flt w (name # names) from to moved =
     (case carry_one k (flt name) w name from to of
        (from', to', did, err) \<Rightarrow>
          let moved' = (if did then moved @ [name] else moved)
          in if err \<noteq> None then (from', to', moved', err)
             else carry_each k flt w names from' to' moved')"

text \<open>\<open>carryPrivate\<close>, which takes the names in the order of their paths.\<close>

definition carry_private ::
  "kernel \<Rightarrow> (string list \<Rightarrow> carry_faults) \<Rightarrow> owner \<Rightarrow> string list list \<Rightarrow> node \<Rightarrow> node
     \<Rightarrow> node \<times> node \<times> string list list \<times> fs_error option" where
  "carry_private k flt w names from to =
     carry_each k flt w (sort_key (join ''/'') names) from to []"

section \<open>The swap\<close>

datatype phase = OpenSrc | WalkDst | WalkPrefix "string list" | Temp | TreeSrc | TreeDst | Swap
  | RemoveOld | OpenOld | CarryOut "string list" carry_role | CarryBack "string list" carry_role
  | Finish | Discard | RenameBack | RemoveLast

type_synonym clone_faults = "phase \<Rightarrow> faults"

text \<open>An error, and whether it says that saves are left in the staging directory.\<close>

datatype clone_error = CloneFs fs_error | SavesIn string fs_error

definition clone_prefix :: string where
  "clone_prefix = ''.polyseat-clone-''"

definition old_name :: "string \<Rightarrow> string" where
  "old_name name = name @ ''.polyseat-old''"

definition entry :: "node \<Rightarrow> string \<Rightarrow> node" where
  "entry d name = the (map_of (entries d) name)"

text \<open>The deferred removal of the staging directory: emptied, then removed if it is empty.\<close>

definition discard :: "kernel \<Rightarrow> faults \<Rightarrow> string \<Rightarrow> node \<Rightarrow> node" where
  "discard k flt sname d =
     (case empty_dir k flt (entry d sname) of
        (st, err) \<Rightarrow>
          if entries st = [] \<and> \<not> flt [] SRmdir then del k sname d else change sname st d)"

text \<open>\<open>rollback\<close>, and the removal of the staging directory that follows it.\<close>

definition roll_back ::
  "kernel \<Rightarrow> clone_faults \<Rightarrow> owner \<Rightarrow> string \<Rightarrow> string \<Rightarrow> bool \<Rightarrow> string list list \<Rightarrow> fs_error \<Rightarrow> node
     \<Rightarrow> node \<times> clone_error" where
  "roll_back k flt w sname dname previous moved e d =
     (let back = (if moved = [] then (d, None)
                  else case carry_private k (\<lambda>n r. flt (CarryBack n r)) w moved
                              (entry d sname) (entry d (old_name dname)) of
                    (st, old, m, err) \<Rightarrow> (change (old_name dname) old (change sname st d), err))
      in case back of
        (d1, Some b) \<Rightarrow> (d1, SavesIn sname e)
      | (d1, None) \<Rightarrow>
          let d2 = (if previous
                    then case rename_in k (flt RenameBack []) d1 (old_name dname) dname of
                           Inl e' \<Rightarrow> d1 | Inr d' \<Rightarrow> d'
                    else d1)
          in (discard k (flt Discard) sname d2, CloneFs e))"

text \<open>What follows the carry: the root's owner, mode and time, and the rename into place.\<close>

definition settle_in ::
  "kernel \<Rightarrow> clone_faults \<Rightarrow> owner \<Rightarrow> meta \<Rightarrow> string \<Rightarrow> string \<Rightarrow> bool \<Rightarrow> string list list \<Rightarrow> node
     \<Rightarrow> node \<times> clone_error option" where
  "settle_in k flt w m sname dname previous moved d =
     (case finish_dir (flt Finish []) w m (entry d sname) of
        (st, Some e) \<Rightarrow>
          map_prod id Some (roll_back k flt w sname dname previous moved e (change sname st d))
      | (st, None) \<Rightarrow>
          (case rename_in k (flt Finish [dname]) (change sname st d) sname dname of
             Inl e \<Rightarrow>
               map_prod id Some (roll_back k flt w sname dname previous moved e (change sname st d))
           | Inr d' \<Rightarrow>
               (if previous then fst (remove_all_at k (flt RemoveLast) d' (old_name dname)) else d', None)))"

text \<open>The carry out of the copy that was set aside.\<close>

definition carry_over ::
  "kernel \<Rightarrow> clone_faults \<Rightarrow> owner \<Rightarrow> meta \<Rightarrow> string \<Rightarrow> string \<Rightarrow> bool \<Rightarrow> string list list \<Rightarrow> node
     \<Rightarrow> node \<times> clone_error option" where
  "carry_over k flt w m sname dname previous carry d =
     (if \<not> previous \<or> carry = [] then settle_in k flt w m sname dname previous [] d
      else case open_dir_at (flt OpenOld []) d (old_name dname) of
        Inl e \<Rightarrow> map_prod id Some (roll_back k flt w sname dname previous [] e d)
      | Inr old \<Rightarrow>
          (case carry_private k (\<lambda>n r. flt (CarryOut n r)) w carry old (entry d sname) of
             (old', st, moved, err) \<Rightarrow>
               let d' = change (old_name dname) old' (change sname st d)
               in case err of
                    Some e \<Rightarrow> map_prod id Some (roll_back k flt w sname dname previous moved e d')
                  | None \<Rightarrow> settle_in k flt w m sname dname previous moved d'))"

text \<open>What was there is moved aside first.\<close>

definition swap_in ::
  "kernel \<Rightarrow> clone_faults \<Rightarrow> owner \<Rightarrow> meta \<Rightarrow> string \<Rightarrow> string \<Rightarrow> string list list \<Rightarrow> node
     \<Rightarrow> node \<times> clone_error option" where
  "swap_in k flt w m sname dname carry d =
     (case lstat_at (flt Swap [dname]) d dname of
        Inl e \<Rightarrow> carry_over k flt w m sname dname False carry d
      | Inr st \<Rightarrow>
          (case remove_all_at k (flt RemoveOld) d (old_name dname) of
             (d1, Some e) \<Rightarrow> (discard k (flt Discard) sname d1, Some (CloneFs e))
           | (d1, None) \<Rightarrow>
               (case rename_in k (flt Swap [old_name dname]) d1 dname (old_name dname) of
                  Inl e \<Rightarrow> (discard k (flt Discard) sname d1, Some (CloneFs e))
                | Inr d2 \<Rightarrow> carry_over k flt w m sname dname True carry d2)))"

definition clone_at ::
  "kernel \<Rightarrow> clone_faults \<Rightarrow> (string list \<Rightarrow> bool) \<Rightarrow> string list \<Rightarrow> node \<Rightarrow> string \<Rightarrow> node \<Rightarrow> string
     \<Rightarrow> owner \<Rightarrow> bool \<Rightarrow> node \<times> result \<times> clone_error option" where
  "clone_at k flt shares sfxs src_dir src_name dst_dir dst_name w private =
     (case open_dir_at (flt OpenSrc []) src_dir src_name of
        Inl e \<Rightarrow> (dst_dir, nothing_done, Some (CloneFs e))
      | Inr src \<Rightarrow>
          if flt OpenSrc [] SFstat then (dst_dir, nothing_done, Some (CloneFs (Failed SFstat)))
          else
            let carry = (if private
                         then private_dirs_at (flt WalkDst) (\<lambda>h. flt (WalkPrefix h)) dst_dir dst_name
                         else [])
            in case mkdir_temp_at k (flt Temp) clone_prefix sfxs dst_dir of
              (d1, Inl e) \<Rightarrow> (d1, nothing_done, Some (CloneFs e))
            | (d1, Inr (sname, st0)) \<Rightarrow>
                (case clone_tree k (flt TreeSrc) (flt TreeDst) shares w carry src st0 nothing_done of
                   (st, r, Some e) \<Rightarrow>
                     (discard k (flt Discard) sname (change sname st d1), r, Some (CloneFs e))
                 | (st, r, None) \<Rightarrow>
                     (case swap_in k flt w (stat_of src) sname dst_name carry (change sname st d1) of
                        (d', err) \<Rightarrow> (d', r, err))))"

end
