(* ===== verification/Clone_Copy.thy ===== *)
theory Clone_Copy
  imports Clone
begin

text \<open>
  What a successful copy is: the image of the source, entry by entry, with the new owner and
  the old times, less what is carried; and that the image measures the same.
\<close>

section \<open>The image of a tree\<close>

fun image_node :: "kernel \<Rightarrow> owner \<Rightarrow> string list list \<Rightarrow> string list \<Rightarrow> node \<Rightarrow> node"
and image_entries :: "kernel \<Rightarrow> owner \<Rightarrow> string list list \<Rightarrow> string list \<Rightarrow> (string \<times> node) list \<Rightarrow> (string \<times> node) list"
where
  "image_node k w carry rel (Dir m es) =
     Dir (owned w \<lparr>uid = euid k, gid = egid k, mode = mode m AND 511, mtime = mtime m\<rparr>)
       (image_entries k w carry rel es)"
| "image_node k w carry rel (Reg m s) = Reg (owned w (fresh_meta k (mode m))\<lparr>mtime := mtime m\<rparr>) s"
| "image_node k w carry rel (Lnk m t) = Lnk (owned w (link_meta k)\<lparr>mtime := mtime m\<rparr>) t"
| "image_node k w carry rel (Special m) = Special m"
| "image_entries k w carry rel [] = []"
| "image_entries k w carry rel ((n, x) # es) =
     (if rel @ [n] \<in> set carry then image_entries k w carry rel es
      else (n, image_node k w carry (rel @ [n]) x) # image_entries k w carry rel es)"

lemma update_new: "k \<notin> fst ` set m \<Longrightarrow> AList.update k v m = m @ [(k, v)]"
  by (induction m) auto

lemma update_last: "k \<notin> fst ` set m \<Longrightarrow> AList.update k v (m @ [(k, u)]) = m @ [(k, v)]"
  by (induction m) auto

lemma map_of_None_fst: "map_of m k = None \<longleftrightarrow> k \<notin> fst ` set m"
  by (simp add: map_of_None_akeys akeys_def)

lemma entries_chown [simp]: "entries (chown w x) = entries x"
  and entries_chmod [simp]: "entries (chmod p x) = entries x"
  by (cases x; simp add: chown_def chmod_def)+

lemma stat_of_put [simp]: "stat_of (put k n x d) = (stat_of d)\<lparr>mtime := now k\<rparr>"
  and stat_of_change [simp]: "stat_of (change n x d) = stat_of d"
  by (simp_all add: put_def change_def)

definition same_dir :: "node \<Rightarrow> node \<Rightarrow> bool" where
  "same_dir d' d \<longleftrightarrow> (is_dir d \<longrightarrow> is_dir d') \<and> (stat_of d')\<lparr>mtime := 0\<rparr> = (stat_of d)\<lparr>mtime := 0\<rparr>"

lemma same_dir_simps [simp]:
  "same_dir d d" "same_dir (put k n x d) d" "same_dir (change n x d) e = ((is_dir e \<longrightarrow> True) \<and> (stat_of d)\<lparr>mtime := 0\<rparr> = (stat_of e)\<lparr>mtime := 0\<rparr>)"
  by (simp_all add: same_dir_def)

lemma same_dir_trans: "same_dir a b \<Longrightarrow> same_dir b c \<Longrightarrow> same_dir a c"
  by (simp add: same_dir_def)

lemma clone_link_ok:
  "clone_link k sf df w here n m t d r = (d', r', None) \<Longrightarrow>
     n \<notin> fst ` set (entries d) \<and> same_dir d' d
     \<and> entries d' = entries d @ [(n, image_node k w carry here (Lnk m t))]"
  by (auto simp: clone_link_def Let_def update_new update_last map_of_None_fst read_link_all
      chown_def set_mtime_def split: if_splits)

lemma clone_file_ok:
  "clone_file k sf df shares w here n m s d r = (d', r', None) \<Longrightarrow>
     n \<notin> fst ` set (entries d) \<and> same_dir d' d
     \<and> entries d' = entries d @ [(n, image_node k w carry here (Reg m s))]"
  by (auto simp: clone_file_def create_file_at_def Let_def update_new update_last map_of_None_fst
      chown_def set_mtime_def split: if_splits option.splits)

lemma finish_dir_ok:
  "finish_dir c w m x = (x', None) \<Longrightarrow> is_dir x \<Longrightarrow>
     x' = Dir (owned w (stat_of x)\<lparr>mode := mode m AND 511, mtime := mtime m\<rparr>) (entries x)"
  by (cases x) (auto simp: finish_dir_def chown_def chmod_def set_mtime_def owned_def split: if_splits)

lemma clone_ok:
  "clone_node k sf df shares w carry here n x d r = (d', r', None) \<Longrightarrow>
     n \<notin> fst ` set (entries d) \<and> same_dir d' d
     \<and> entries d' = entries d @ [(n, image_node k w carry here x)]"
  "clone_entries k sf df shares w carry rel es d r = (d', r', None) \<Longrightarrow>
     entries d' = entries d @ image_entries k w carry rel es \<and> same_dir d' d"
proof (induction k sf df shares w carry here n x d r and k sf df shares w carry rel es d r
    arbitrary: d' r' and d' r' rule: clone_node_clone_entries.induct)
  case (1 k sf df shares w carry here n m es d r)
  let ?t = "Dir (fresh_meta k 448) []"
  from 1(2) obtain sub r1 sub' where
    g: "\<not> sf here SOpen" "\<not> sf here SFstat" "\<not> df here SMkdir" "n \<notin> fst ` set (entries d)"
      "\<not> df here SOpen" "\<not> sf here SReadNames"
    and c: "clone_entries k sf df shares w carry here es ?t r = (sub, r1, None)"
    and f: "finish_dir (df here) w m sub = (sub', None)"
    and d': "d' = change n sub' (put k n ?t d)"
    by (auto simp: Let_def map_of_None_fst split: if_splits prod.splits option.splits)
  have sub: "entries sub = image_entries k w carry here es \<and> same_dir sub ?t"
    using 1(1) [OF _ _ _ _ refl _ _ c] g by (simp add: map_of_None_fst)
  have "sub' = image_node k w carry here (Dir m es)"
    using finish_dir_ok [OF f] sub
    by (cases "stat_of sub") (auto simp: same_dir_def fresh_meta_def owned_def)
  with g(4) d' show ?case by (simp add: update_new update_last)
next
  case (6 k sf df shares w carry rel n x es d r)
  show ?case
  proof (cases "rel @ [n] \<in> set carry")
    case False
    then obtain st d1 r1 where l: "lstat_entry (sf (rel @ [n])) n x = Inr st"
      and c: "clone_node k sf df shares w carry (rel @ [n]) n x d r = (d1, r1, None)"
      and rest: "clone_entries k sf df shares w carry rel es d1 r1 = (d', r', None)"
      using 6(4) by (auto split: sum.splits prod.splits option.splits)
    from 6(2) [OF False l c] 6(3) [OF False l c [symmetric] refl refl rest] False
    show ?thesis by (auto intro: same_dir_trans)
  qed (use 6 in simp)
qed (auto dest: clone_link_ok clone_file_ok)

lemma clone_tree_ok:
  assumes "clone_tree k sf df shares w carry src (Dir m []) r = (st, r', None)" "is_dir src"
  shows "entries st = entries (image_node k w carry [] src) \<and> same_dir st (Dir m [])"
  using assms clone_ok(2) [of k sf df shares w carry "[]" "entries src" "Dir m []" r st r']
  by (cases src) (auto simp: clone_tree_def split: if_splits)

section \<open>The image measures the same\<close>

lemma image_node_facts [simp]:
  "is_dir (image_node k w carry rel x) = is_dir x"
  "mtime (stat_of (image_node k w carry rel x)) = mtime (stat_of x)"
  "size_of (image_node k w carry rel x) = size_of x"
  by (cases x; simp add: owned_def)+

lemma map_of_image_entries:
  "map_of (image_entries k w [] rel es) n = map_option (image_node k w [] (rel @ [n])) (map_of es n)"
  by (induction es) auto

lemma prefix_here_image:
  "prefix_here (Dir m' (image_entries k w [] rel es)) = prefix_here (Dir m es)"
  unfolding prefix_here_def
  by (rule is_wine_prefix_at_keys) (simp add: map_of_image_entries option.map_comp o_def)

lemma counted_image [simp]: "counted (image_node k w carry rel x) f = counted x f"
  by (simp add: counted_def)

lemma measure_image:
  "prefix_here up' = prefix_here up \<Longrightarrow>
     measure_tree no_faults plain_walks up' dn rel (image_node k w [] loc x) f
       = measure_tree no_faults plain_walks up dn rel x f"
proof (induction x arbitrary: rel loc up up' dn f)
  case (Dir m es)
  let ?d = "Dir m es" and ?d' = "image_node k w [] loc (Dir m es)"
  have d: "prefix_here ?d' = prefix_here ?d" by (simp add: prefix_here_image)
  have sub: "measure_tree no_faults plain_walks ?d' n rel1 (image_node k w [] l x) g
      = measure_tree no_faults plain_walks ?d n rel1 x g" if "x \<in> snd ` set es" for x n rel1 l g
  proof -
    from that obtain e where e: "e \<in> set es" "x \<in> Basic_BNFs.snds e" by (force simp: snds.simps)
    show ?thesis by (rule Dir.IH [OF e d])
  qed
  have "measure_entries no_faults plain_walks up' ?d' dn rel (image_entries k w [] loc es1) g
      = measure_entries no_faults plain_walks up ?d dn rel es1 g" if "set es1 \<subseteq> set es" for es1 g
    using that
  proof (induction es1 arbitrary: g)
    case (Cons e es1)
    obtain n x where e: "e = (n, x)" by force
    with Cons.prems have x: "x \<in> snd ` set es" by force
    have t: "image_entries k w [] loc (e # es1)
        = (n, image_node k w [] (loc @ [n]) x) # image_entries k w [] loc es1"
      using e by simp
    have IH: "measure_entries no_faults plain_walks up' ?d' dn rel (image_entries k w [] loc es1) g
      = measure_entries no_faults plain_walks up ?d dn rel es1 g" for g
      using Cons by auto
    show ?case
      unfolding t unfolding e measure_entries_plain
      by (simp only: IH sub [OF x] Dir.prems image_node_facts counted_image)
  qed simp
  then show ?case by simp
qed auto

end
