(* ===== verification/Clone_Carry.thy ===== *)
theory Clone_Carry
  imports Clone
begin

text \<open>
  What the carry does to the two trees: every directory it moves arrives whole, and what it
  does not move stays. Statements here are about contents: everything at a path except the
  children and, of a directory, its time.
\<close>

section \<open>Contents\<close>

fun face :: "node \<Rightarrow> node" where
  "face (Dir m es) = Dir (m\<lparr>mtime := 0\<rparr>) []"
| "face x = x"

definition cont :: "node \<Rightarrow> string list \<Rightarrow> node option" where
  "cont x p = map_option face (look x p)"

definition dir_at :: "node \<Rightarrow> string list \<Rightarrow> bool" where
  "dir_at x p \<longleftrightarrow> (\<exists>y. cont x p = Some y \<and> is_dir y)"

lemma is_dir_face [simp]: "is_dir (face x) = is_dir x"
  by (cases x) auto

lemma cont_Nil [simp]: "cont x [] = Some (face x)"
  by (simp add: cont_def)

lemma cont_Cons: "cont x (c # p) = Option.bind (map_of (entries x) c) (\<lambda>y. cont y p)"
  by (cases "map_of (entries x) c") (simp_all add: cont_def look_Cons)

lemma cont_None_look: "cont x p = None \<longleftrightarrow> look x p = None"
  by (simp add: cont_def)

lemma dir_at_look: "dir_at x p \<longleftrightarrow> (\<exists>y. look x p = Some y \<and> is_dir y)"
  by (auto simp: dir_at_def cont_def)

lemma dir_at_cong: "cont x p = cont y q \<Longrightarrow> dir_at x p = dir_at y q"
  by (simp add: dir_at_def)

lemma cont_append: "look x p = Some y \<Longrightarrow> cont x (p @ q) = cont y q"
  by (simp add: cont_def look_append)

lemma face_Dir: "face (Dir (m\<lparr>mtime := t\<rparr>) es) = face (Dir m es')"
  by simp

lemma face_dir_ops [simp]:
  "is_dir d \<Longrightarrow> face (put k n x d) = face d"
  "is_dir d \<Longrightarrow> face (change n x d) = face d"
  "is_dir d \<Longrightarrow> face (del k n d) = face d"
  by (cases d; simp add: put_def change_def del_def)+

lemma cont_put: "is_dir d \<Longrightarrow>
   cont (put k n x d) p = (case p of [] \<Rightarrow> cont d [] | a # q \<Rightarrow> if a = n then cont x q else cont d p)"
  by (cases d) (auto simp: cont_Cons map_of_update put_def split: list.split)

lemma cont_change: "is_dir d \<Longrightarrow>
   cont (change n x d) p = (case p of [] \<Rightarrow> cont d [] | a # q \<Rightarrow> if a = n then cont x q else cont d p)"
  by (cases d) (auto simp: cont_Cons map_of_update change_def split: list.split)

lemma cont_del: "is_dir d \<Longrightarrow>
   cont (del k n d) p = (case p of [] \<Rightarrow> cont d [] | a # q \<Rightarrow> if a = n then None else cont d p)"
  by (cases d) (auto simp: cont_Cons map_of_delete del_def split: list.split)

lemma face_graft [simp]: "face (graft x (c # cs) y) = face x"
  by (cases x) simp_all

lemma cont_graft:
  "look x p = Some z \<Longrightarrow>
     cont (graft x p y) q = (if prefix p q then cont y (drop (length p) q) else cont x q)"
proof (induction p arbitrary: x q)
  case (Cons c p)
  then obtain u where u: "map_of (entries x) c = Some u" "look u p = Some z"
    by (auto simp: look_Cons Option.bind_eq_Some_conv)
  show ?case
    using Cons.IH [OF u(2)] u(1)
    by (cases q) (auto simp: cont_Cons map_of_entries_graft option.map_id)
qed simp

lemma face_set_mtime: "is_dir z \<Longrightarrow> face (set_mtime t z) = face z"
  by (cases z) (simp_all add: set_mtime_def)

lemma cont_set_mtime: "is_dir z \<Longrightarrow> cont (set_mtime t z) q = cont z q"
  by (cases q) (simp_all add: face_set_mtime cont_Cons)

lemma cont_set_time_at: "dir_at x p \<Longrightarrow> cont (set_time_at x p t) = cont x"
proof
  fix q
  assume "dir_at x p"
  then obtain y where y: "look x p = Some y" "is_dir y" by (auto simp: dir_at_look)
  show "cont (set_time_at x p t) q = cont x q"
    using cont_graft [OF y(1)] cont_append [OF y(1), of "drop (length p) q"] y
    by (auto simp: set_time_at_def cont_set_mtime prefix_def)
qed

definition on_side :: "side \<Rightarrow> 'a \<Rightarrow> 'a \<Rightarrow> 'a" where
  "on_side s a b = (case s of From \<Rightarrow> a | To \<Rightarrow> b)"

lemma on_side_simps [simp]: "on_side From a b = a" "on_side To a b = b"
  by (simp_all add: on_side_def)

lemma on_side_dir:
  "cont a' = cont a \<Longrightarrow> cont b' = cont b \<Longrightarrow> dir_at (on_side s a' b') q = dir_at (on_side s a b) q"
  by (cases s) (simp_all add: dir_at_def)

lemma restore_cont:
  "restore flt ts from to e = (from', to', e') \<Longrightarrow>
     \<forall>(s, p, t) \<in> set ts. dir_at (on_side s from to) p \<Longrightarrow>
     cont from' = cont from \<and> cont to' = cont to \<and> (e \<noteq> None \<longrightarrow> e' \<noteq> None)"
proof (induction flt ts "from" to e rule: restore.induct)
  case (2 flt s p t ts src to e)
  show ?case
  proof (cases "flt s p SUtimes")
    case True
    with 2 show ?thesis by auto
  next
    case False
    have dir: "dir_at (on_side s src to) p" using 2(5) by auto
    show ?thesis
    proof (cases s)
      case From
      have c: "cont (set_time_at src p t) = cont src" using dir From cont_set_time_at by simp
      have "\<forall>(s, q, u) \<in> set ts. dir_at (on_side s (set_time_at src p t) to) q"
        using 2(5) by (auto simp: on_side_dir [OF c refl])
      with 2(2) [OF False From] 2(4) False From c show ?thesis by simp
    next
      case To
      have c: "cont (set_time_at to p t) = cont to" using dir To cont_set_time_at by simp
      have "\<forall>(s, q, u) \<in> set ts. dir_at (on_side s src (set_time_at to p t)) q"
        using 2(5) by (auto simp: on_side_dir [OF refl c])
      with 2(3) [OF False To] 2(4) False To c show ?thesis by simp
    qed
  qed
qed simp

section \<open>Making room for a save\<close>

lemma dir_at_Nil [simp]: "dir_at x [] = is_dir x"
  by (simp add: dir_at_def)

lemma dir_at_Cons: "dir_at x (c # p) \<longleftrightarrow> (\<exists>y. map_of (entries x) c = Some y \<and> dir_at y p)"
  by (auto simp: dir_at_def cont_Cons Option.bind_eq_Some_conv)

lemma entries_chown' [simp]: "entries (chown w x) = entries x"
  by (cases x) (simp_all add: chown_def)

lemma is_dir_chown [simp]: "is_dir (chown w x) = is_dir x"
  by (cases x) (simp_all add: chown_def)

text \<open>
  A directory grows towards a path when all it had is still there and what is new are
  directories on the way.
\<close>

definition grows :: "node \<Rightarrow> node \<Rightarrow> string list \<Rightarrow> bool" where
  "grows x' x cs \<longleftrightarrow> (\<forall>p. cont x p \<noteq> None \<longrightarrow> cont x' p = cont x p)
     \<and> (\<forall>p. cont x p = None \<longrightarrow> cont x' p \<noteq> None \<longrightarrow> prefix p cs \<and> dir_at x' p)
     \<and> (dir_at x cs \<longrightarrow> cont x' = cont x)"

lemma grows_refl [simp]: "grows x x cs"
  by (simp add: grows_def)

lemma grows_change:
  assumes d: "is_dir d" "map_of (entries d) c = Some y" and g: "grows y' y cs"
  shows "grows (change c y' d) d (c # cs)"
proof -
  have c: "cont (change c y' d) p = (case p of [] \<Rightarrow> cont d [] | a # q \<Rightarrow> if a = c then cont y' q else cont d p)" for p
    by (rule cont_change [OF d(1)])
  have cc: "cont d (c # q) = cont y q" for q using d(2) by (simp add: cont_Cons)
  show ?thesis
    unfolding grows_def
  proof (intro conjI allI impI)
    fix p assume "cont d p \<noteq> None"
    then show "cont (change c y' d) p = cont d p"
      using g cc by (auto simp: c grows_def split: list.split)
  next
    fix p assume n: "cont d p = None" "cont (change c y' d) p \<noteq> None"
    then show "prefix p (c # cs)"
      using g cc by (cases p) (auto simp: c grows_def split: if_splits)
    show "dir_at (change c y' d) p"
      using n g cc by (cases p) (auto simp: c grows_def dir_at_def split: if_splits)
  next
    assume "dir_at d (c # cs)"
    then have "cont y' = cont y" using g d(2) by (simp add: dir_at_Cons grows_def)
    then show "cont (change c y' d) = cont d"
      using cc by (intro ext) (auto simp: c split: list.split)
  qed
qed

lemma grows_new:
  assumes d: "is_dir d" "map_of (entries d) c = None"
    and y: "is_dir y" "grows y' y cs" "entries y = []"
  shows "grows (change c y' (put k c y0 d)) d (c # cs)"
proof -
  have c: "cont (change c y' (put k c y0 d)) p
      = (case p of [] \<Rightarrow> cont d [] | a # q \<Rightarrow> if a = c then cont y' q else cont d p)" for p
    by (auto simp: cont_change cont_put d(1) split: list.split)
  have cc: "cont d (c # q) = None" for q using d(2) by (simp add: cont_Cons)
  have yq: "cont y' (a # q) \<noteq> None \<longrightarrow> prefix (a # q) cs \<and> dir_at y' (a # q)" for a q
    using y(2,3) by (auto simp: grows_def cont_Cons)
  have "cont y' [] = cont y []" using y(2) unfolding grows_def by (metis cont_Nil option.distinct(1))
  then have y0: "is_dir y'" using y(1) by (metis cont_Nil is_dir_face option.inject)
  show ?thesis
    unfolding grows_def
  proof (intro conjI allI impI)
    fix p assume "cont d p \<noteq> None"
    then show "cont (change c y' (put k c y0 d)) p = cont d p"
      using cc by (auto simp: c split: list.split)
  next
    fix p assume n: "cont d p = None" "cont (change c y' (put k c y0 d)) p \<noteq> None"
    then obtain q where p: "p = c # q" by (cases p) (auto simp: c split: if_splits)
    have "prefix q cs \<and> dir_at y' q"
      using n yq y0 p by (cases q) (auto simp: c)
    then show "prefix p (c # cs)" "dir_at (change c y' (put k c y0 d)) p"
      using p by (simp_all add: dir_at_Cons map_of_update)
  next
    assume "dir_at d (c # cs)"
    with d(2) show "cont (change c y' (put k c y0 d)) = cont d" by (simp add: dir_at_Cons)
  qed
qed

definition stamped :: "stamps \<Rightarrow> stamps \<Rightarrow> node \<Rightarrow> string list \<Rightarrow> string list \<Rightarrow> bool" where
  "stamped ts' ts x' pre cs \<longleftrightarrow>
     (\<forall>(s, p, t) \<in> set ts'. (s, p, t) \<in> set ts
        \<or> (s = To \<and> (\<exists>q. p = pre @ q \<and> prefix q cs \<and> dir_at x' q)))"

lemma keep_time_stamped:
  "keep_time c s p d w ts = Inr ts' \<Longrightarrow> \<exists>t. ts' = (s, p, t) # ts"
  by (auto simp: keep_time_def split: option.splits if_splits)

lemma grows_put:
  assumes "is_dir d" "map_of (entries d) c = None" "is_dir x" "entries x = []"
  shows "grows (put k c x d) d (c # cs)"
proof -
  have "cont (change c x (put k c x d)) = cont (put k c x d)"
    by (rule ext) (auto simp: cont_change cont_put assms(1) split: list.split)
  with grows_new [OF assms(1,2,3) _ assms(4), of x cs k x] show ?thesis
    by (simp add: grows_def dir_at_def)
qed

lemma ensure_dir_at_cases:
  assumes "ensure_dir_at k c d n perm = (d', r)"
  obtains (failed) e where "r = Inl e" "d' = d"
    | (made) "map_of (entries d) n = None" "d' = put k n (Dir (fresh_meta k perm) []) d"
        "r = Inr (Dir (fresh_meta k perm) [], True) \<or> (\<exists>e. r = Inl e)"
    | (there) y where "map_of (entries d) n = Some y" "is_dir y" "d' = d" "r = Inr (y, False)"
proof (cases "\<not> component n \<or> c SMkdir")
  case True
  with assms failed show ?thesis by (auto simp: ensure_dir_at_def split: if_splits)
next
  case ok: False
  show ?thesis
  proof (cases "map_of (entries d) n")
    case None
    with assms ok have d': "d' = put k n (Dir (fresh_meta k perm) []) d"
      and r: "r = (case open_dir_at c d' n of Inl e \<Rightarrow> Inl e | Inr x \<Rightarrow> Inr (x, True))"
      by (auto simp: ensure_dir_at_def Let_def)
    have "map_of (entries d') n = Some (Dir (fresh_meta k perm) [])" by (simp add: d' map_of_update)
    with r have "r = Inr (Dir (fresh_meta k perm) [], True) \<or> (\<exists>e. r = Inl e)"
      by (auto simp: open_dir_at_iff split: sum.split)
    with made None d' show ?thesis by blast
  next
    case (Some y)
    with assms ok have d': "d' = d"
      and r: "r = (case open_dir_at c d n of Inl e \<Rightarrow> Inl e | Inr x \<Rightarrow> Inr (x, False))"
      by (auto simp: ensure_dir_at_def Let_def)
    show ?thesis
    proof (cases "open_dir_at c d n")
      case (Inl e)
      with r have "r = Inl e" by simp
      then show ?thesis using d' by (rule failed)
    next
      case (Inr z)
      then have z: "z = y" "is_dir y" using Some by (auto simp: open_dir_at_iff)
      from Inr r z have "r = Inr (y, False)" by simp
      then show ?thesis by (rule there [OF Some z(2) d'])
    qed
  qed
qed

lemma stamped_step:
  assumes "stamped ts2 ((To, pre @ [c], t) # ts) y' (pre @ [c]) cs" "is_dir y'"
    and "\<And>q. dir_at x' (c # q) = dir_at y' q"
  shows "stamped ts2 ts x' pre (c # cs)"
  unfolding stamped_def
proof clarify
  fix s p u assume "(s, p, u) \<in> set ts2" "\<not> (s = To \<and> (\<exists>q. p = pre @ q \<and> prefix q (c # cs) \<and> dir_at x' q))"
  with assms(1) consider "(s, p, u) \<in> set ts" | "s = To" "p = pre @ [c]" | q where "s = To" "p = (pre @ [c]) @ q" "prefix q cs" "dir_at y' q"
    by (auto simp: stamped_def)
  then show "(s, p, u) \<in> set ts"
    using assms(2,3) \<open>\<not> _\<close> by cases (auto intro: exI [of _ "[c]"] exI [of _ "c # _"])
qed

lemma grows_is_dir: "grows x' x cs \<Longrightarrow> is_dir x \<Longrightarrow> is_dir x'"
  unfolding grows_def by (metis cont_Nil is_dir_face option.distinct(1) option.inject)

lemma ensure_parts_grows:
  "ensure_parts k flt lf w like pre cur cs ts = (cur', ts', err) \<Longrightarrow> is_dir cur \<Longrightarrow>
     grows cur' cur cs \<and> (err = None \<longrightarrow> dir_at cur' cs) \<and> stamped ts' ts cur' pre cs"
proof (induction cs arbitrary: pre cur ts cur' ts' err)
  case Nil
  then show ?case by (auto simp: stamped_def)
next
  case (Cons c cs)
  let ?f = "flt (pre @ [c])"
  let ?fresh = "Dir (fresh_meta k 493) []"
  obtain d r where e: "ensure_dir_at k ?f cur c 493 = (d, r)" by force
  have same: "stamped ts ts x pre us" for x us by (auto simp: stamped_def)
  show ?case
    using e
  proof (cases rule: ensure_dir_at_cases)
    case failed
    with Cons.prems e same show ?thesis by auto
  next
    case (there y)
    show ?thesis
    proof (cases "keep_time ?f To (pre @ [c]) y None ts")
      case (Inl e2)
      with there e Cons.prems same grows_change [OF Cons.prems(2) there(1) grows_refl] show ?thesis by auto
    next
      case (Inr ts1)
      obtain y' ts2 err2 where p: "ensure_parts k flt lf w like (pre @ [c]) y cs ts1 = (y', ts2, err2)"
        by (metis prod.exhaust)
      from keep_time_stamped [OF Inr] obtain t where t: "ts1 = (To, pre @ [c], t) # ts" ..
      from Cons.IH [OF p there(2)] have IH: "grows y' y cs" "err2 = None \<longrightarrow> dir_at y' cs"
        "stamped ts2 ts1 y' (pre @ [c]) cs" by auto
      have r: "cur' = change c y' cur" "ts' = ts2" "err = err2"
        using Cons.prems(1) e there Inr p by simp_all
      have d: "dir_at cur' (c # q) = dir_at y' q" for q by (simp add: r dir_at_Cons map_of_update)
      from stamped_step [OF IH(3) [unfolded t] grows_is_dir [OF IH(1) there(2)] d]
      show ?thesis using grows_change [OF Cons.prems(2) there(1) IH(1)] IH(2) r d by simp
    qed
  next
    case made
    let ?p = "put k c ?fresh cur"
    show ?thesis
    proof (cases "r = Inr (?fresh, True) \<and> \<not> ?f SChown")
      case False
      with made e Cons.prems same grows_put [OF Cons.prems(2) made(1)] show ?thesis by auto
    next
      case True
      let ?sub = "chown w ?fresh"
      let ?kt = "keep_time ?f To (pre @ [c]) ?sub (mtime_in (lf (pre @ [c])) like (pre @ [c])) ts"
      have sub: "is_dir ?sub" "entries ?sub = []" by simp_all
      show ?thesis
      proof (cases ?kt)
        case (Inl e2)
        with True made e Cons.prems same grows_new [OF Cons.prems(2) made(1) sub(1) grows_refl sub(2)]
        show ?thesis by auto
      next
        case (Inr ts1)
        obtain y' ts2 err2 where p: "ensure_parts k flt lf w like (pre @ [c]) ?sub cs ts1 = (y', ts2, err2)"
          by (metis prod.exhaust)
        from keep_time_stamped [OF Inr] obtain t where t: "ts1 = (To, pre @ [c], t) # ts" ..
        from Cons.IH [OF p sub(1)] have IH: "grows y' ?sub cs" "err2 = None \<longrightarrow> dir_at y' cs"
          "stamped ts2 ts1 y' (pre @ [c]) cs" by auto
        have r: "cur' = change c y' ?p" "ts' = ts2" "err = err2"
          using Cons.prems(1) e made(2) True Inr p by simp_all
        have d: "dir_at cur' (c # q) = dir_at y' q" for q by (simp add: r dir_at_Cons map_of_update)
        from stamped_step [OF IH(3) [unfolded t] grows_is_dir [OF IH(1) sub(1)] d]
        show ?thesis using grows_new [OF Cons.prems(2) made(1) sub(1) IH(1) sub(2)] IH(2) r d by simp
      qed
    qed
  qed
qed

lemma ensure_rel_grows:
  assumes "ensure_rel k flt lf w like to rel ts = (to', ts', err)" "is_dir to"
  shows "grows to' to rel \<and> (err = None \<longrightarrow> dir_at to' rel) \<and> stamped ts' ts to' [] rel"
proof -
  have same: "stamped ts ts x [] us" for x us by (auto simp: stamped_def)
  show ?thesis
  proof (cases "flt [] SDup \<or> (\<exists>e. keep_time (flt []) To [] to None ts = Inl e)")
    case True
    with assms same show ?thesis by (auto simp: ensure_rel_def split: if_splits)
  next
    case False
    then obtain ts1 where k: "keep_time (flt []) To [] to None ts = Inr ts1"
      by (cases "keep_time (flt []) To [] to None ts") auto
    with False assms(1) have e: "ensure_parts k flt lf w like [] to rel ts1 = (to', ts', err)"
      by (simp add: ensure_rel_def)
    from keep_time_stamped [OF k] obtain t where t: "ts1 = (To, [], t) # ts" ..
    note g = ensure_parts_grows [OF e assms(2)]
    then have "is_dir to'" using grows_is_dir assms(2) by blast
    with g t show ?thesis by (auto simp: stamped_def)
  qed
qed

section \<open>One save across\<close>

lemma open_rel_look:
  assumes "open_rel flt d cs = Inr x" "is_dir d" "\<forall>c \<in> set cs. component c"
  shows "look d cs = Some x \<and> is_dir x"
proof -
  have "filter (\<lambda>c. c \<noteq> ''.'') cs = cs"
    using assms(3) by (auto simp: component_def intro!: filter_True)
  with assms open_parts_look [of flt "[]" d cs x] show ?thesis
    by (auto simp: open_rel_def split: if_splits)
qed

lemma cont_moved_out:
  assumes "look d p = Some x" "is_dir x"
  shows "cont (graft d p (del k b x)) q = (if prefix (p @ [b]) q then None else cont d q)"
  using cont_graft [OF assms(1)] cont_append [OF assms(1)] cont_append [OF assms(1), of "[]"] assms(2)
  by (auto simp: cont_del prefix_def split: list.splits)

lemma cont_moved_in:
  assumes "look d p = Some x" "is_dir x"
  shows "cont (graft d p (put k b y x)) q
       = (if prefix (p @ [b]) q then cont y (drop (Suc (length p)) q) else cont d q)"
  using cont_graft [OF assms(1)] cont_append [OF assms(1)] cont_append [OF assms(1), of "[]"] assms(2)
  by (auto simp: cont_put prefix_def split: list.splits)

definition moves :: "node \<Rightarrow> node \<Rightarrow> node \<Rightarrow> node \<Rightarrow> string list \<Rightarrow> bool \<Rightarrow> bool" where
  "moves a b a' b' name did \<longleftrightarrow>
     (\<forall>p. cont a' p = (if did \<and> prefix name p then None else cont a p))
   \<and> (\<forall>p. if did \<and> prefix name p then cont b' p = cont a p
          else cont b' p = cont b p
               \<or> (cont b p = None \<and> prefix p (butlast name) \<and> \<not> dir_at b (butlast name)))
   \<and> is_dir a' \<and> is_dir b' \<and> (did \<longrightarrow> cont a name \<noteq> None)"

lemma cont_is_dir: "cont a = cont b \<Longrightarrow> is_dir a = is_dir b"
  by (metis cont_Nil is_dir_face option.inject)

lemma moves_cong:
  "moves a b a1 b1 name did \<Longrightarrow> cont a2 = cont a1 \<Longrightarrow> cont b2 = cont b1 \<Longrightarrow> moves a b a2 b2 name did"
  using cont_is_dir [of a2 a1] cont_is_dir [of b2 b1] by (simp add: moves_def)

lemma grows_cases:
  "grows b' b cs \<Longrightarrow> cont b' p = cont b p \<or> (cont b p = None \<and> prefix p cs \<and> \<not> dir_at b cs)"
  unfolding grows_def by metis

lemma moves_nothing: "is_dir a \<Longrightarrow> grows b' b (butlast name) \<Longrightarrow> is_dir b' \<Longrightarrow> moves a b a b' name False"
  using grows_cases [of b' b "butlast name"] by (simp add: moves_def)

lemma moves_one:
  assumes name: "name = parent @ [base]"
    and a: "look a parent = Some x" "is_dir x" "map_of (entries x) base = Some y" "is_dir a"
    and b: "grows b1 b parent" "look b1 parent = Some t" "is_dir t" "is_dir b1"
  shows "moves a b (graft a parent (del k base x)) (graft b1 parent (put k base y t)) name True"
proof -
  have ly: "look a name = Some y" using a(1,3) by (simp add: name look_append look_Cons)
  have y: "cont a p = cont y (drop (Suc (length parent)) p)" if "prefix name p" for p
  proof -
    from ly that cont_append [of a name y] show ?thesis by (auto simp: prefix_def name)
  qed
  have "is_dir (graft a parent (del k base x))" "is_dir (graft b1 parent (put k base y t))"
    using a(4) b(4) by (cases parent; simp)+
  moreover have "cont b1 p = cont b p \<or> cont b p = None \<and> prefix p parent \<and> \<not> dir_at b parent" for p
    by (rule grows_cases [OF b(1)])
  ultimately show ?thesis
    unfolding moves_def using cont_moved_out [OF a(1,2)] cont_moved_in [OF b(2,3)] y ly
    by (auto simp: name cont_def [of a "parent @ [base]"])
qed

lemma stamps_dirs:
  assumes "stamped ts' [(From, parent, t)] b [] parent" "dir_at a parent"
  shows "\<forall>(s, p, u) \<in> set ts'. prefix p parent \<and> dir_at (on_side s a b) p"
  using assms by (force simp: stamped_def)

lemma carry_one_moves:
  assumes "carry_one k flt w name from to = (from', to', did, err)"
    and "name \<noteq> []" "\<forall>c \<in> set name. component c" "is_dir from" "is_dir to"
  shows "moves from to from' to' name did"
proof -
  let ?parent = "butlast name" and ?base = "last name"
  have nm: "name = ?parent @ [?base]" using assms(2) by simp
  have comp: "\<forall>c \<in> set ?parent. component c" "component ?base"
    using assms(2,3) by (auto dest: in_set_butlastD)
  have id: "moves from to from to name False" using assms(4,5) by (intro moves_nothing) auto
  show ?thesis
  proof (cases "\<exists>e. open_rel (flt Source) from ?parent = Inl e
      \<or> (\<exists>src. open_rel (flt Source) from ?parent = Inr src \<and>
           (lstat_at (flt Source name) src ?base = Inl e
            \<or> keep_time (flt Source ?parent) From ?parent src None [] = Inl e))")
    case True
    with assms(1) id show ?thesis by (auto simp: carry_one_def Let_def split: sum.splits)
  next
    case False
    then obtain src st ts where o: "open_rel (flt Source) from ?parent = Inr src"
      and l: "lstat_at (flt Source name) src ?base = Inr st"
      and kt: "keep_time (flt Source ?parent) From ?parent src None [] = Inr ts"
      by (metis sum.exhaust)
    from open_rel_look [OF o assms(4) comp(1)] have look: "look from ?parent = Some src" "is_dir src" by auto
    then have dfrom: "dir_at from ?parent" by (auto simp: dir_at_look)
    from keep_time_stamped [OF kt] obtain t where ts: "ts = [(From, ?parent, t)]" by blast
    obtain to1 ts1 e where er: "ensure_rel k (flt Target) (\<lambda>h. flt (Like h)) w from to ?parent ts = (to1, ts1, e)"
      by (metis prod.exhaust)
    note g = ensure_rel_grows [OF er assms(5)]
    then have to1: "is_dir to1" using grows_is_dir assms(5) by blast
    have dirs: "\<forall>(s, p, u) \<in> set ts1. prefix p ?parent \<and> dir_at (on_side s from to1) p"
      by (rule stamps_dirs [of ts1 ?parent t]) (use g ts dfrom in auto)
    then have dirs': "\<forall>(s, p, u) \<in> set ts1. dir_at (on_side s from to1) p" by fast
    have undo: "moves from to f2 t2 name False"
      if "restore (\<lambda>s. flt (Restoring s)) ts1 from to1 e2 = (f2, t2, e3)" for f2 t2 e2 e3
    proof (rule moves_cong)
      show "moves from to from to1 name False" using g assms(4) to1 by (intro moves_nothing) auto
    qed (use restore_cont [OF that dirs'] in auto)
    show ?thesis
    proof (cases "e = None \<and> (\<exists>r. rename_at k (flt Target name) src ?base (the (look to1 ?parent)) ?base = Inr r)")
      case False
      with assms(1) o l kt er undo show ?thesis
        by (auto simp: carry_one_def Let_def split: sum.splits option.splits prod.splits)
    next
      case True
      then obtain tgt where t: "look to1 ?parent = Some tgt" "is_dir tgt" using g by (auto simp: dir_at_look)
      with True obtain y where y: "map_of (entries src) ?base = Some y"
        and rn: "rename_at k (flt Target name) src ?base (the (look to1 ?parent)) ?base
                 = Inr (del k ?base src, put k ?base y tgt)"
        by (auto simp: rename_at_def split: if_splits option.splits)
      let ?f = "graft from ?parent (del k ?base src)" and ?t = "graft to1 ?parent (put k ?base y tgt)"
      have m: "moves from to ?f ?t name True"
        by (rule moves_one [OF nm look y assms(4) _ t to1]) (use g in auto)
      have "\<not> prefix (?parent @ [?base]) p" if "prefix p ?parent" for p
        using prefix_length_le [OF that] by (auto dest: prefix_length_le)
      then have d2: "\<forall>(s, p, u) \<in> set ts1. dir_at (on_side s ?f ?t) p"
        using dirs cont_moved_out [OF look] cont_moved_in [OF t]
        by (fastforce simp: on_side_def dir_at_def split: side.splits)
      obtain f2 t2 e3 where r: "restore (\<lambda>s. flt (Restoring s)) ts1 ?f ?t None = (f2, t2, e3)"
        by (metis prod.exhaust)
      with assms(1) o l kt er True rn have "from' = f2" "to' = t2" "did"
        by (simp_all add: carry_one_def Let_def)
      with restore_cont [OF r d2] show ?thesis using moves_cong [OF m] by simp
    qed
  qed
qed

lemma open_parts_entry:
  "open_parts flt pre d cs = Inl e \<Longrightarrow> dir_at d cs \<Longrightarrow> \<forall>c \<in> set cs. component c \<Longrightarrow> e \<noteq> NoEntry"
proof (induction flt pre d cs rule: open_parts.induct)
  case (2 flt pre d c cs)
  then obtain y where y: "map_of (entries d) c = Some y" "dir_at y cs" by (auto simp: dir_at_Cons)
  then obtain z where z: "look y cs = Some z" "is_dir z" by (auto simp: dir_at_look)
  have c: "component c" "c \<noteq> ''.''" using 2(5) by (auto simp: component_def)
  have "is_dir y" using look_dirs [OF z, of 0] by simp
  with y(1) c(1) have o: "open_dir_at (flt (pre @ [c])) d c
      = (if flt (pre @ [c]) SOpen then Inl (Failed SOpen) else Inr y)"
    by (auto simp: open_dir_at_iff) (simp add: open_dir_at_def)
  show ?case
    using 2(2) [OF c(2), of y] 2(3,5) c o y(2) by (auto split: if_splits)
qed simp

text \<open>A save that is there is moved, or the carry says why not.\<close>

lemma carry_one_complete:
  assumes "carry_one k flt w name from to = (from', to', did, err)"
    and "name \<noteq> []" "\<forall>c \<in> set name. component c" "is_dir from" "is_dir to"
    and there: "cont from name \<noteq> None" and stat: "\<not> flt Source name SLstat"
  shows "did \<or> err \<noteq> None"
proof -
  let ?parent = "butlast name" and ?base = "last name"
  have nm: "name = ?parent @ [?base]" using assms(2) by simp
  have comp: "\<forall>c \<in> set ?parent. component c" "component ?base"
    using assms(2,3) by (auto dest: in_set_butlastD)
  obtain y where y: "look from (?parent @ [?base]) = Some y" using there nm by (auto simp: cont_def)
  then obtain src where s: "look from ?parent = Some src" "map_of (entries src) ?base = Some y"
    by (auto simp: look_append look_Cons Option.bind_eq_Some_conv)
  then have "is_dir src" by (cases src) auto
  with s(1) have d: "dir_at from ?parent" by (auto simp: dir_at_look)
  show ?thesis
  proof (cases "open_rel (flt Source) from ?parent")
    case (Inl e)
    then have "e \<noteq> NoEntry"
      using open_parts_entry [OF _ d comp(1)] by (auto simp: open_rel_def split: if_splits)
    with Inl assms(1) show ?thesis by (auto simp: carry_one_def Let_def)
  next
    case (Inr src')
    then have "src' = src" using open_rel_look [OF _ assms(4) comp(1)] s(1) by force
    with s(2) comp(2) stat have l: "lstat_at (flt Source name) src' ?base = Inr y"
      by (simp add: lstat_at_def)
    show ?thesis
    proof (cases "keep_time (flt Source ?parent) From ?parent src' None []")
      case (Inl e)
      with Inr l assms(1) show ?thesis by (auto simp: carry_one_def Let_def)
    next
      case kt: (Inr ts)
      have r: "e3 \<noteq> None" if "restore f ts1 a b (Some e) = (f2, t2, e3)" for f ts1 a b e f2 t2 e3
        using that by (induction f ts1 a b "Some e" rule: restore.induct) (auto split: if_splits side.splits)
      from kt Inr l assms(1) show ?thesis
        by (auto simp: carry_one_def Let_def dest: r split: prod.splits option.splits sum.splits)
    qed
  qed
qed

section \<open>All saves across, and back\<close>

text \<open>Names none of which lies below another, each made of components.\<close>

definition apart :: "string list list \<Rightarrow> bool" where
  "apart names \<longleftrightarrow> distinct names
     \<and> (\<forall>n \<in> set names. n \<noteq> [] \<and> (\<forall>c \<in> set n. component c)
          \<and> (\<forall>m \<in> set names. prefix n m \<longrightarrow> n = m))"

definition below :: "string list list \<Rightarrow> string list \<Rightarrow> bool" where
  "below ms p \<longleftrightarrow> (\<exists>n \<in> set ms. prefix n p)"

definition carried :: "node \<Rightarrow> node \<Rightarrow> node \<Rightarrow> node \<Rightarrow> string list list \<Rightarrow> string list list \<Rightarrow> bool" where
  "carried a b a' b' ms names \<longleftrightarrow>
     (\<forall>p. cont a' p = (if below ms p then None else cont a p))
   \<and> (\<forall>p. if below ms p then cont b' p = cont a p
          else cont b' p = cont b p
               \<or> (cont b p = None \<and> (\<exists>n \<in> set names. prefix p (butlast n) \<and> \<not> dir_at b (butlast n))))
   \<and> is_dir a' \<and> is_dir b' \<and> distinct ms \<and> (\<forall>n \<in> set ms. cont a n \<noteq> None)"

lemma apart_Cons:
  "apart (n # names) \<Longrightarrow> apart names \<and> n \<notin> set names \<and> n \<noteq> [] \<and> (\<forall>c \<in> set n. component c)"
  by (auto simp: apart_def)

lemma apart_below:
  assumes "apart (n # names)" "prefix n p" "m \<in> set names"
  shows "\<not> prefix m p" "\<not> prefix p (butlast m)"
proof -
  show "\<not> prefix m p"
  proof
    assume "prefix m p"
    with assms(2) have "prefix n m \<or> prefix m n" by (auto dest: prefix_same_cases)
    with assms(1,3) show False by (auto simp: apart_def)
  qed
  show "\<not> prefix p (butlast m)"
  proof
    assume "prefix p (butlast m)"
    with assms(2) have "prefix n m" by (meson prefix_order.trans prefixeq_butlast)
    with assms(1,3) show False by (auto simp: apart_def)
  qed
qed

lemma carried_step:
  assumes ap: "apart (n # names)" and m: "moves a b a1 b1 n did" and sub: "set ms \<subseteq> set names"
    and c: "carried a1 b1 a2 b2 ms names"
  shows "carried a b a2 b2 ((if did then [n] else []) @ ms) (n # names)"
proof -
  let ?ms = "(if did then [n] else []) @ ms"
  have bl: "below ?ms p \<longleftrightarrow> (did \<and> prefix n p) \<or> below ms p" for p by (auto simp: below_def)
  have ex: "\<not> below ms p" if "prefix n p" for p
    using apart_below(1) [OF ap that] sub by (auto simp: below_def)
  have a1: "cont a1 p = (if did \<and> prefix n p then None else cont a p)" for p
    using m by (simp add: moves_def)
  have b1: "if did \<and> prefix n p then cont b1 p = cont a p
      else cont b1 p = cont b p \<or> (cont b p = None \<and> prefix p (butlast n) \<and> \<not> dir_at b (butlast n))" for p
    using m by (simp add: moves_def)
  have a2: "cont a2 p = (if below ms p then None else cont a1 p)" for p
    using c by (simp add: carried_def)
  have b2: "if below ms p then cont b2 p = cont a1 p
      else cont b2 p = cont b1 p
        \<or> (cont b1 p = None \<and> (\<exists>m \<in> set names. prefix p (butlast m) \<and> \<not> dir_at b1 (butlast m)))" for p
    using c by (simp add: carried_def)
  have dirs: "\<not> dir_at b (butlast m)" if "m \<in> set names" "\<not> dir_at b1 (butlast m)" for m
  proof
    assume d: "dir_at b (butlast m)"
    have "\<not> prefix n (butlast m)" using apart_below(2) [OF ap _ that(1)] by auto
    with b1 [of "butlast m"] d that(2) show False by (auto simp: dir_at_def)
  qed
  have "cont a2 p = (if below ?ms p then None else cont a p)" for p
    by (simp add: a1 a2 bl)
  moreover have "if below ?ms p then cont b2 p = cont a p
      else cont b2 p = cont b p
        \<or> (cont b p = None \<and> (\<exists>m \<in> set (n # names). prefix p (butlast m) \<and> \<not> dir_at b (butlast m)))" for p
  proof -
    consider (new) "did" "prefix n p" | (old) "below ms p" "\<not> (did \<and> prefix n p)"
      | (other) "\<not> below ms p" "\<not> (did \<and> prefix n p)" by blast
    then show ?thesis
    proof cases
      case new
      then have "\<not> below ms p" "\<forall>m \<in> set names. \<not> prefix p (butlast m)"
        using ex apart_below(2) [OF ap] by auto
      with new b1 [of p] b2 [of p] bl show ?thesis by auto
    next
      case old
      then show ?thesis using b2 [of p] a1 [of p] bl by auto
    next
      case other
      with b2 [of p] b1 [of p] dirs bl show ?thesis by auto
    qed
  qed
  moreover have "is_dir a2" "is_dir b2" "distinct ?ms"
    using c sub apart_Cons [OF ap] by (auto simp: carried_def)
  moreover have "\<forall>m \<in> set ?ms. cont a m \<noteq> None"
  proof
    fix m assume "m \<in> set ?ms"
    then consider "did" "m = n" | "m \<in> set ms" by (auto split: if_splits)
    then show "cont a m \<noteq> None"
    proof cases
      case 2
      then have "cont a1 m \<noteq> None" using c by (simp add: carried_def)
      with a1 [of m] show ?thesis by (auto split: if_splits)
    qed (use m in \<open>simp add: moves_def\<close>)
  qed
  ultimately show ?thesis unfolding carried_def by blast
qed

lemma carry_each_carried:
  "carry_each k flt w names from to moved = (from', to', moved', err) \<Longrightarrow> apart names \<Longrightarrow>
   is_dir from \<Longrightarrow> is_dir to \<Longrightarrow>
   \<exists>ms. moved' = moved @ ms \<and> set ms \<subseteq> set names \<and> carried from to from' to' ms names
     \<and> (err = None \<longrightarrow> (\<forall>n \<in> set names. cont from n \<noteq> None \<and> \<not> flt n Source n SLstat) \<longrightarrow> set ms = set names)"
proof (induction names arbitrary: "from" to moved)
  case Nil
  then show ?case by (auto simp: carried_def below_def)
next
  case (Cons n names)
  obtain a1 b1 did e where one: "carry_one k (flt n) w n from to = (a1, b1, did, e)"
    by (metis prod.exhaust)
  note ap = apart_Cons [OF Cons.prems(2)]
  have mv: "moves from to a1 b1 n did"
    using carry_one_moves [OF one] ap Cons.prems(3,4) by blast
  have d1: "is_dir a1" "is_dir b1" using mv by (auto simp: moves_def)
  let ?new = "if did then [n] else []"
  show ?case
  proof (cases e)
    case (Some e1)
    have "carried a1 b1 a1 b1 [] names" using d1 by (auto simp: carried_def below_def)
    from carried_step [OF Cons.prems(2) mv _ this] have c: "carried from to a1 b1 ?new (n # names)" by simp
    have "from' = a1" "to' = b1" "moved' = moved @ ?new" "err = Some e1"
      using Cons.prems(1) one Some by (auto simp: Let_def)
    with c show ?thesis by (intro exI [of _ ?new]) auto
  next
    case None
    with Cons.prems(1) one have rest: "carry_each k flt w names a1 b1 (moved @ ?new) = (from', to', moved', err)"
      by (simp add: Let_def split: if_splits)
    from Cons.IH [OF rest conjunct1 [OF ap] d1] obtain ms where ms: "moved' = (moved @ ?new) @ ms"
      "set ms \<subseteq> set names" "carried a1 b1 from' to' ms names"
      "err = None \<longrightarrow> (\<forall>n \<in> set names. cont a1 n \<noteq> None \<and> \<not> flt n Source n SLstat) \<longrightarrow> set ms = set names"
      by blast
    note c = carried_step [OF Cons.prems(2) mv ms(2,3)]
    have "set (?new @ ms) = set (n # names)"
      if "err = None" "\<forall>n \<in> set (n # names). cont from n \<noteq> None \<and> \<not> flt n Source n SLstat"
    proof -
      have did using carry_one_complete [OF one _ _ Cons.prems(3,4)] ap that(2) None by auto
      moreover have "\<forall>m \<in> set names. cont a1 m \<noteq> None"
        using that(2) mv Cons.prems(2) by (auto simp: moves_def apart_def)
      ultimately show ?thesis using ms(4) that by auto
    qed
    with c ms(1,2) show ?thesis by (intro exI [of _ "?new @ ms"]) auto
  qed
qed

lemma apart_sort: "apart names \<Longrightarrow> apart (sort_key f names)"
  by (simp add: apart_def)

lemma apart_subset: "apart names \<Longrightarrow> set ms \<subseteq> set names \<Longrightarrow> distinct ms \<Longrightarrow> apart ms"
  by (auto simp: apart_def)

lemma carried_sort: "carried a b a' b' ms (sort_key f names) = carried a b a' b' ms names"
  by (simp only: carried_def set_sort)

lemma carry_private_carried:
  assumes "carry_private k flt w names from to = (from', to', ms, err)" "apart names" "is_dir from" "is_dir to"
  shows "set ms \<subseteq> set names \<and> carried from to from' to' ms names
     \<and> (err = None \<longrightarrow> (\<forall>n \<in> set names. cont from n \<noteq> None \<and> \<not> flt n Source n SLstat) \<longrightarrow> set ms = set names)"
  using carry_each_carried [OF assms(1) [unfolded carry_private_def] apart_sort [OF assms(2)] assms(3,4)]
  by (simp add: carried_sort)

lemma dir_above: "cont x n \<noteq> None \<Longrightarrow> n \<noteq> [] \<Longrightarrow> dir_at x (butlast n)"
proof -
  assume n: "cont x n \<noteq> None" "n \<noteq> []"
  then obtain y where "look x (butlast n @ [last n]) = Some y" by (auto simp: cont_def)
  then obtain d where "look x (butlast n) = Some d" "map_of (entries d) (last n) \<noteq> None"
    by (auto simp: look_append look_Cons Option.bind_eq_Some_conv)
  then show ?thesis by (cases d) (auto simp: dir_at_look)
qed

text \<open>
  The saves \<open>ms\<close> are out of \<open>old\<close>: what is left is \<open>old'\<close>, and the other tree has them.
\<close>

definition out_of :: "node \<Rightarrow> node \<Rightarrow> node \<Rightarrow> string list list \<Rightarrow> bool" where
  "out_of old old' st' ms \<longleftrightarrow>
     (\<forall>p. cont old' p = (if below ms p then None else cont old p))
   \<and> (\<forall>p. below ms p \<longrightarrow> cont st' p = cont old p)
   \<and> is_dir st' \<and> is_dir old' \<and> distinct ms \<and> (\<forall>n \<in> set ms. cont old n \<noteq> None)"

lemma carried_out_of: "carried old st old' st' ms names \<Longrightarrow> out_of old old' st' ms"
  by (auto simp: carried_def out_of_def)

lemma out_of_nothing: "is_dir old \<Longrightarrow> is_dir st \<Longrightarrow> out_of old old st []"
  by (simp add: out_of_def below_def)

lemma out_of_root:
  "out_of old old' st' ms \<Longrightarrow> apart names \<Longrightarrow> set ms \<subseteq> set names \<Longrightarrow> is_dir st2 \<Longrightarrow>
     (\<And>p. p \<noteq> [] \<Longrightarrow> cont st2 p = cont st' p) \<Longrightarrow> out_of old old' st2 ms"
proof -
  assume o: "out_of old old' st' ms" and ap: "apart names" "set ms \<subseteq> set names"
    and st2: "is_dir st2" "\<And>p. p \<noteq> [] \<Longrightarrow> cont st2 p = cont st' p"
  have "p \<noteq> []" if "below ms p" for p
    using that ap by (auto simp: below_def apart_def)
  with o st2 show ?thesis by (simp add: out_of_def)
qed

text \<open>What was moved out can be moved back, and then nothing has changed.\<close>

lemma carried_back:
  assumes moved: "out_of old old' st' ms" and ap: "apart names" "set ms \<subseteq> set names"
    and ret: "carry_private k flt w ms st' old' = (st2, old2, ms2, None)"
    and stat: "\<And>n. n \<in> set ms \<Longrightarrow> \<not> flt n Source n SLstat"
  shows "cont old2 = cont old"
proof
  fix p
  have d: "is_dir st'" "is_dir old'" "distinct ms" and there: "\<And>n. n \<in> set ms \<Longrightarrow> cont old n \<noteq> None"
    using moved by (auto simp: out_of_def)
  have apm: "apart ms" by (rule apart_subset [OF ap d(3)])
  have st': "cont st' q = cont old q" if "below ms q" for q
    using moved that by (simp add: out_of_def)
  have old': "cont old' q = (if below ms q then None else cont old q)" for q
    using moved by (simp add: out_of_def)
  have "cont st' n \<noteq> None" if "n \<in> set ms" for n
  proof -
    have "below ms n" using that by (auto simp: below_def)
    with st' there [OF that] show ?thesis by simp
  qed
  with carry_private_carried [OF ret apm d(1,2)] stat
  have c: "carried st' old' st2 old2 ms2 ms" "set ms2 = set ms" by auto
  have top: "dir_at old' (butlast n)" if "n \<in> set ms" for n
  proof -
    have n: "n \<noteq> []" "dir_at old (butlast n)"
      using apm that there [OF that] dir_above by (auto simp: apart_def)
    have "\<not> below ms (butlast n)"
    proof
      assume "below ms (butlast n)"
      then obtain m where m: "m \<in> set ms" "prefix m (butlast n)" by (auto simp: below_def)
      then have "prefix m n" by (meson prefix_order.trans prefixeq_butlast)
      with apm that m(1) have "m = n" by (auto simp: apart_def)
      with m(2) n(1) show False using prefix_length_le [OF m(2)] by (cases n rule: rev_cases) auto
    qed
    then have "cont old' (butlast n) = cont old (butlast n)" by (simp add: old')
    with n(2) show ?thesis by (simp add: dir_at_def)
  qed
  have bl: "below ms2 p = below ms p" by (simp add: below_def c(2))
  show "cont old2 p = cont old p"
  proof (cases "below ms p")
    case True
    with c(1) bl st' show ?thesis unfolding carried_def by metis
  next
    case False
    with c(1) bl top old' show ?thesis unfolding carried_def by metis
  qed
qed

text \<open>However far the way back got, every save is on one of the two sides.\<close>

lemma carried_somewhere:
  assumes moved: "out_of old old' st' ms" and ap: "apart names" "set ms \<subseteq> set names"
    and ret: "carry_private k flt w ms st' old' = (st2, old2, ms2, err)"
    and p: "cont old p \<noteq> None"
  shows "cont old2 p = cont old p \<or> cont st2 p = cont old p"
proof -
  have d: "is_dir st'" "is_dir old'" "distinct ms"
    using moved by (auto simp: out_of_def)
  have apm: "apart ms" by (rule apart_subset [OF ap d(3)])
  from carry_private_carried [OF ret apm d(1,2)] have c: "carried st' old' st2 old2 ms2 ms" "set ms2 \<subseteq> set ms" by blast+
  show ?thesis
  proof (cases "below ms p")
    case True
    then have "cont st' p = cont old p" using moved by (simp add: out_of_def)
    with c(1) show ?thesis unfolding carried_def by metis
  next
    case False
    then have "cont old' p = cont old p" using moved by (simp add: out_of_def)
    moreover have "\<not> below ms2 p" using False c(2) by (auto simp: below_def)
    ultimately show ?thesis using c(1) p unfolding carried_def by metis
  qed
qed

end
