(* ===== verification/Clone_Swap.thy ===== *)
theory Clone_Swap
  imports Clone_Copy Clone_Carry
begin

text \<open>
  The whole of a clone: what is found to be carried, the swap in the directory, and what is
  left there whichever call fails.
\<close>

section \<open>What is found to be carried\<close>

lemma walk_entries_form:
  "\<exists>first. walk_entries flt wflt up d dn rel ((n, x) # es) = first @ walk_entries flt wflt up d dn rel es
     \<and> (first = [] \<or> (component n \<and> is_dir x
          \<and> (first = [rel @ [n]] \<or> first = walk_private flt wflt d n (rel @ [n]) x)))"
  by (auto simp: walk_entries.simps Let_def lstat_entry_def split: sum.split)

definition found_in :: "node \<Rightarrow> string list \<Rightarrow> string list list \<Rightarrow> bool" where
  "found_in x rel qs \<longleftrightarrow> distinct qs
     \<and> (\<forall>q \<in> set qs. (\<exists>q'. q = rel @ q' \<and> q' \<noteq> [] \<and> (\<forall>c \<in> set q'. component c) \<and> dir_at x q')
          \<and> (\<forall>r \<in> set qs. prefix q r \<longrightarrow> q = r))"

lemma found_in_Nil [simp]: "found_in x rel []"
  by (simp add: found_in_def)

lemma found_in_entry:
  assumes "found_in x (rel @ [n]) first \<or> first = [rel @ [n]]" "component n" "is_dir x"
    and "distinct (map fst es)" "(n, x) \<in> set es"
  shows "found_in (Dir m es) rel first \<and> (\<forall>q \<in> set first. prefix (rel @ [n]) q)"
proof -
  have n: "map_of es n = Some x" using assms(4,5) by simp
  show ?thesis
    using assms(1)
  proof
    assume "first = [rel @ [n]]"
    with n assms(2,3) show ?thesis by (auto simp: found_in_def dir_at_Cons)
  next
    assume f: "found_in x (rel @ [n]) first"
    have "\<exists>q'. q = rel @ q' \<and> q' \<noteq> [] \<and> (\<forall>c \<in> set q'. component c) \<and> dir_at (Dir m es) q'"
      if q: "q \<in> set first" for q
    proof -
      from f q obtain q' where "q = (rel @ [n]) @ q'" "\<forall>c \<in> set q'. component c" "dir_at x q'"
        by (auto simp: found_in_def)
      with n assms(2) show ?thesis by (intro exI [of _ "n # q'"]) (auto simp: dir_at_Cons)
    qed
    moreover have "prefix (rel @ [n]) q" if "q \<in> set first" for q
      using f that by (force simp: found_in_def)
    ultimately show ?thesis using f by (simp add: found_in_def)
  qed
qed

lemma found_in_append:
  assumes "found_in x rel a" "found_in x rel b"
    and "\<forall>q \<in> set a. prefix (rel @ [n]) q" "\<forall>q \<in> set b. \<not> prefix (rel @ [n]) q"
    and "\<forall>q \<in> set b. \<exists>m q'. q = rel @ m # q'"
  shows "found_in x rel (a @ b)"
proof -
  have ab: "\<not> prefix q r" "\<not> prefix r q" if qr: "q \<in> set a" "r \<in> set b" for q r
  proof -
    show "\<not> prefix q r" using qr assms(3,4) by (meson prefix_order.trans)
    obtain m q' where r: "r = rel @ m # q'" using assms(5) qr(2) by blast
    obtain q2 where q: "q = rel @ n # q2" using assms(3) qr(1) by (auto simp: prefix_def)
    have "m \<noteq> n" using assms(4) qr(2) r by (auto simp: prefix_def)
    then show "\<not> prefix r q" by (simp add: r q)
  qed
  then have "set a \<inter> set b = {}" using prefix_order.refl by blast
  moreover have "\<forall>q \<in> set (a @ b). \<exists>q'. q = rel @ q' \<and> q' \<noteq> [] \<and> (\<forall>c \<in> set q'. component c) \<and> dir_at x q'"
    using assms(1,2) by (auto simp: found_in_def)
  moreover have "\<forall>q \<in> set (a @ b). \<forall>r \<in> set (a @ b). prefix q r \<longrightarrow> q = r"
    using assms(1,2) ab by (auto simp: found_in_def)
  ultimately show ?thesis using assms(1,2) by (simp add: found_in_def)
qed

lemma walk_found: "wf_node x \<Longrightarrow> found_in x rel (walk_private flt wflt up dn rel x)"
proof (induction x arbitrary: rel up dn)
  case (Dir m es)
  have "found_in (Dir m es) rel (walk_entries flt wflt up (Dir m es) dn rel es1)"
    if "set es1 \<subseteq> set es" "distinct (map fst es1)" for es1
    using that
  proof (induction es1)
    case (Cons e es1)
    obtain n x where e: "e = (n, x)" by force
    let ?more = "walk_entries flt wflt up (Dir m es) dn rel es1"
    from walk_entries_form [of flt wflt up "Dir m es" dn rel n x es1] obtain first where
      f: "walk_entries flt wflt up (Dir m es) dn rel (e # es1) = first @ ?more"
        "first = [] \<or> (component n \<and> is_dir x
          \<and> (first = [rel @ [n]] \<or> first = walk_private flt wflt (Dir m es) n (rel @ [n]) x))"
      unfolding e by blast
    have IH: "found_in (Dir m es) rel ?more" using Cons by simp
    have inn: "(n, x) \<in> set es" "distinct (map fst es)" "wf_node x"
      using Cons.prems(1) Dir.prems e by auto
    have starts: "\<exists>a q'. q = rel @ a # q' \<and> a \<in> fst ` set es1" if "q \<in> set ?more" for q
      using walk_private_nonempty(2) [OF that] .
    then have no: "\<forall>q \<in> set ?more. \<not> prefix (rel @ [n]) q"
      using Cons.prems(2) e by (fastforce simp: prefix_def)
    show ?case
    proof (cases "first = []")
      case False
      have "found_in x (rel @ [n]) first \<or> first = [rel @ [n]]"
        using f(2) False Dir.IH [of "(n, x)" x "rel @ [n]" "Dir m es" n] inn by (auto simp: snds.simps)
      from found_in_entry [OF this _ _ inn(2,1)] f(2) False
      have "found_in (Dir m es) rel first" "\<forall>q \<in> set first. prefix (rel @ [n]) q" by auto
      from found_in_append [OF this(1) IH this(2) no] starts f(1) show ?thesis by fastforce
    qed (use IH f(1) in simp)
  qed simp
  then show ?case using Dir.prems by simp
qed simp_all

lemma private_dirs_apart:
  assumes "wf_node d" "map_of (entries d) n = Some root"
  shows "apart (private_dirs_at flt wflt d n)
    \<and> (\<forall>q \<in> set (private_dirs_at flt wflt d n). dir_at root q)"
proof (cases "open_dir_at (flt []) d n")
  case (Inr r)
  with assms(2) have r: "r = root" by (simp add: open_dir_at_iff)
  have "wf_node root" using wf_look [of d "[n]" root] assms by (simp add: look_Cons)
  from walk_found [OF this, of "[]" flt wflt d n] Inr r show ?thesis
    by (auto simp: private_dirs_at_def found_in_def apart_def)
qed (simp add: private_dirs_at_def apart_def)

section \<open>One directory, by the names in it\<close>

lemma remove_all_at_names:
  assumes "remove_all_at k flt d n = (d', err)" "component n"
  shows "(\<forall>m. m \<noteq> n \<longrightarrow> map_of (entries d') m = map_of (entries d) m)
    \<and> (err = None \<longrightarrow> map_of (entries d') n = None)"
proof (cases "map_of (entries d) n")
  case None
  with assms show ?thesis by (auto simp: remove_all_at_def)
next
  case (Some x)
  show ?thesis
  proof (cases "fst (remove_node k flt [] x)")
    case None
    with Some assms show ?thesis
      by (cases "remove_node k flt [] x") (auto simp: remove_all_at_def map_of_delete)
  next
    case left: (Some y)
    have "snd (remove_node k flt [] x) \<noteq> None"
      using left by (cases x) (auto simp: Let_def split: if_splits prod.splits)
    with left Some assms show ?thesis
      by (cases "remove_node k flt [] x") (auto simp: remove_all_at_def map_of_update)
  qed
qed

lemma rename_in_names:
  assumes "rename_in k c d a b = Inr d'" "a \<noteq> b"
  shows "\<exists>x. map_of (entries d) a = Some x \<and> displace x (map_of (entries d) b) = None
    \<and> map_of (entries d') = (map_of (entries d))(a := None, b \<mapsto> x)"
  using assms by (auto simp: rename_in_def map_of_update map_of_delete split: if_splits option.splits)

lemma discard_names:
  assumes "m \<noteq> s"
  shows "map_of (entries (discard k flt s d)) m = map_of (entries d) m"
  using assms by (auto simp: discard_def map_of_update map_of_delete split: prod.split)

section \<open>Rolling back\<close>

definition three_names :: "string \<Rightarrow> string \<Rightarrow> bool" where
  "three_names s n \<longleftrightarrow> component s \<and> component n \<and> component (old_name n)
     \<and> s \<noteq> n \<and> s \<noteq> old_name n \<and> n \<noteq> old_name n"

lemma three_names_made:
  assumes "component s" "s = clone_prefix @ sfx" "component n" "\<not> has_prefix n ''.''"
  shows "three_names s n"
proof -
  obtain c cs where n: "n = c # cs" using assms(3) by (cases n) (auto simp: component_def)
  then have "c \<noteq> CHR ''.''" using assms(4) by auto
  with n assms show ?thesis
    by (auto simp: three_names_def component_def old_name_def clone_prefix_def)
qed

lemma cont_name: "map_of (entries d) n = Some y \<Longrightarrow> cont d (n # p) = cont y p"
  by (simp add: cont_Cons)

definition elsewhere :: "string \<Rightarrow> string \<Rightarrow> node \<Rightarrow> node \<Rightarrow> bool" where
  "elsewhere s n d' d \<longleftrightarrow>
     (\<forall>m. m \<notin> {s, n, old_name n} \<longrightarrow> map_of (entries d') m = map_of (entries d) m)"

lemma elsewhere_simps [simp]:
  "elsewhere s n d d"
  "elsewhere s n (change s x d) e = elsewhere s n d e"
  "elsewhere s n (change (old_name n) x d) e = elsewhere s n d e"
  "elsewhere s n (change n x d) e = elsewhere s n d e"
  "elsewhere s n (discard k flt s d) e = elsewhere s n d e"
  by (auto simp: elsewhere_def map_of_update discard_names)

lemma elsewhere_trans: "elsewhere s n a b \<Longrightarrow> elsewhere s n b c \<Longrightarrow> elsewhere s n a c"
  by (simp add: elsewhere_def)

lemma elsewhere_rename:
  assumes "rename_in k c d a b = Inr d'" "{a, b} \<subseteq> {s, n, old_name n}"
  shows "elsewhere s n d' d"
proof (cases "a = b")
  case True
  with assms show ?thesis by (auto simp: rename_in_def elsewhere_def split: if_splits option.splits)
next
  case False
  with rename_in_names [OF assms(1)] assms(2) show ?thesis by (auto simp: elsewhere_def)
qed

text \<open>
  The state \<open>roll_back\<close> starts from: the old copy stands aside as \<open>old'\<close>, and the staging
  directory has the saves \<open>ms\<close> that were taken out of it.
\<close>

definition set_aside :: "string \<Rightarrow> string \<Rightarrow> node \<Rightarrow> node \<Rightarrow> string list list \<Rightarrow> string list list \<Rightarrow> bool" where
  "set_aside s n d old ms names \<longleftrightarrow> map_of (entries d) n = None
     \<and> (\<exists>old' st'. map_of (entries d) (old_name n) = Some old' \<and> map_of (entries d) s = Some st'
          \<and> (if ms = [] then cont old' = cont old else out_of old old' st' ms))
     \<and> apart names \<and> set ms \<subseteq> set names"

lemma roll_back_first:
  assumes names: "three_names s n" and sa: "set_aside s n d old ms names"
    and "(if ms = [] then (d, None)
          else case carry_private k F w ms (entry d s) (entry d (old_name n)) of
            (st, o', m, err) \<Rightarrow> (change (old_name n) o' (change s st d), err)) = (d1, err)"
    and stat: "\<And>m. \<not> F m Source m SLstat"
  obtains old1 st1 where "map_of (entries d1) n = None" "map_of (entries d1) (old_name n) = Some old1"
    "map_of (entries d1) s = Some st1" "elsewhere s n d1 d"
    "err = None \<longrightarrow> cont old1 = cont old"
    "\<And>p. cont old p \<noteq> None \<Longrightarrow> cont old1 p = cont old p \<or> cont st1 p = cont old p"
proof -
  from sa obtain old' st' where d: "map_of (entries d) n = None" "map_of (entries d) (old_name n) = Some old'"
    "map_of (entries d) s = Some st'" "if ms = [] then cont old' = cont old else out_of old old' st' ms"
    "apart names" "set ms \<subseteq> set names"
    by (auto simp: set_aside_def)
  show thesis
  proof (cases "ms = []")
    case True
    with d assms(3) show thesis by (intro that [of old' st']) auto
  next
    case False
    then have d4: "out_of old old' st' ms" using d(4) by simp
    obtain st1 old1 m e where c: "carry_private k F w ms st' old' = (st1, old1, m, e)"
      by (metis prod.exhaust)
    then have d1: "d1 = change (old_name n) old1 (change s st1 d)" "err = e"
      using False assms(3) d(2,3) by (auto simp: entry_def)
    show thesis
    proof (rule that [of old1 st1])
      show "err = None \<longrightarrow> cont old1 = cont old"
        using carried_back [OF d4 d(5,6)] c d1(2) stat by blast
      show "cont old1 p = cont old p \<or> cont st1 p = cont old p" if "cont old p \<noteq> None" for p
        by (rule carried_somewhere [OF d4 d(5,6) c that])
    qed (use d names d1 in \<open>auto simp: map_of_update three_names_def\<close>)
  qed
qed

lemma roll_back_keeps:
  assumes names: "three_names s n" and sa: "set_aside s n d old ms names"
    and r: "roll_back k flt w s n True ms e d = (d', err)"
    and stat: "\<And>m. \<not> flt (CarryBack m Source) m SLstat"
  shows "elsewhere s n d' d"
    "cont old p \<noteq> None \<Longrightarrow> \<exists>loc \<in> {n, old_name n, s}. cont d' (loc # p) = cont old p"
    "err = CloneFs e1 \<Longrightarrow> \<not> flt RenameBack [] SRename \<Longrightarrow> cont d' (n # q) = cont old q"
proof -
  obtain d1 e2 where b: "(if ms = [] then (d, None)
          else case carry_private k (\<lambda>m r. flt (CarryBack m r)) w ms (entry d s) (entry d (old_name n)) of
            (st, o', m, err) \<Rightarrow> (change (old_name n) o' (change s st d), err)) = (d1, e2)"
    by (metis prod.exhaust)
  from roll_back_first [OF names sa b stat] obtain old1 st1 where
    d1: "map_of (entries d1) n = None" "map_of (entries d1) (old_name n) = Some old1"
      "map_of (entries d1) s = Some st1" "elsewhere s n d1 d"
    and ret: "e2 = None \<longrightarrow> cont old1 = cont old"
    and some: "\<And>p. cont old p \<noteq> None \<Longrightarrow> cont old1 p = cont old p \<or> cont st1 p = cont old p" by blast
  show "elsewhere s n d' d"
    and "cont old p \<noteq> None \<Longrightarrow> \<exists>loc \<in> {n, old_name n, s}. cont d' (loc # p) = cont old p"
    and "err = CloneFs e1 \<Longrightarrow> \<not> flt RenameBack [] SRename \<Longrightarrow> cont d' (n # q) = cont old q"
  proof -
    consider (kept) x where "e2 = Some x" "d' = d1" "err = SavesIn s e"
      | (renamed) d2 where "e2 = None" "rename_in k (flt RenameBack []) d1 (old_name n) n = Inr d2"
          "d' = discard k (flt Discard) s d2"
      | (failed) x where "e2 = None" "rename_in k (flt RenameBack []) d1 (old_name n) n = Inl x"
          "d' = discard k (flt Discard) s d1"
      using r b by (cases "rename_in k (flt RenameBack []) d1 (old_name n) n"; cases e2)
        (auto simp: roll_back_def Let_def)
    note cases = this
    show "elsewhere s n d' d"
      using d1(4) elsewhere_rename [of k "flt RenameBack []" d1 "old_name n" n _ s n] elsewhere_trans
      by (cases rule: cases) auto
    have ren: "map_of (entries d2) n = Some old1"
      if "rename_in k (flt RenameBack []) d1 (old_name n) n = Inr d2" for d2
      using rename_in_names [OF that] d1(1,2) names by (auto simp: three_names_def)
    show "\<exists>loc \<in> {n, old_name n, s}. cont d' (loc # p) = cont old p" if p: "cont old p \<noteq> None"
    proof (cases rule: cases)
      case kept
      with some [OF p] d1(2,3) show ?thesis by (auto simp: cont_name)
    next
      case renamed
      with ren ret names show ?thesis by (auto simp: cont_Cons discard_names three_names_def)
    next
      case failed
      with d1(2) ret names show ?thesis by (auto simp: cont_Cons discard_names three_names_def)
    qed
    show "cont d' (n # q) = cont old q" if "err = CloneFs e1" "\<not> flt RenameBack [] SRename"
    proof (cases rule: cases)
      case renamed
      with ren ret names show ?thesis by (auto simp: cont_Cons discard_names three_names_def)
    next
      case failed
      with that(2) d1(1,2) names show ?thesis by (auto simp: rename_in_def three_names_def displace_def)
    qed (use that in simp)
  qed
qed

lemma roll_back_plain:
  "roll_back k flt w s n False [] e d = (d', err) \<Longrightarrow>
     elsewhere s n d' d \<and> (\<forall>m. m \<noteq> s \<longrightarrow> map_of (entries d') m = map_of (entries d) m) \<and> err = CloneFs e"
  by (auto simp: roll_back_def discard_names)

section \<open>Putting the copy in place\<close>

lemma finish_dir_entries:
  "finish_dir c w m x = (x', e) \<Longrightarrow> entries x' = entries x \<and> is_dir x' = is_dir x"
  by (auto simp: finish_dir_def chmod_def set_mtime_def split: if_splits)
     (cases x; simp add: chown_def)+

lemma cont_entries: "p \<noteq> [] \<Longrightarrow> entries x' = entries x \<Longrightarrow> cont x' p = cont x p"
  by (cases p) (simp_all add: cont_Cons)

lemma set_aside_settled:
  assumes sa: "set_aside s n d old ms names" and st: "map_of (entries d) s = Some st"
    and st2: "entries st2 = entries st" "is_dir st2 = is_dir st" and names: "three_names s n"
  shows "set_aside s n (change s st2 d) old ms names"
proof -
  from sa st obtain old' where o: "map_of (entries d) (old_name n) = Some old'" "apart names" "set ms \<subseteq> set names"
    "if ms = [] then cont old' = cont old else out_of old old' st ms" "map_of (entries d) n = None"
    by (auto simp: set_aside_def)
  have "out_of old old' st2 ms" if "ms \<noteq> []"
    by (rule out_of_root [of old old' st ms names])
      (use o that st2 cont_entries [OF _ st2(1)] in \<open>auto simp: out_of_def\<close>)
  with o names show ?thesis
    by (auto simp: set_aside_def map_of_update three_names_def)
qed

text \<open>What a failed swap leaves of an old copy, wherever the failure was.\<close>

definition kept :: "string \<Rightarrow> string \<Rightarrow> clone_faults \<Rightarrow> node \<Rightarrow> clone_error \<Rightarrow> node \<Rightarrow> bool" where
  "kept s n flt old err d' \<longleftrightarrow>
     (\<forall>p. cont old p \<noteq> None \<longrightarrow> (\<exists>loc \<in> {n, old_name n, s}. cont d' (loc # p) = cont old p))
   \<and> (\<forall>e p. err = CloneFs e \<longrightarrow> \<not> flt RenameBack [] SRename \<longrightarrow> cont d' (n # p) = cont old p)"

lemma roll_back_kept:
  assumes "three_names s n" "set_aside s n d old ms names"
    and "roll_back k flt w s n True ms e d = (d', err)" "\<And>m. \<not> flt (CarryBack m Source) m SLstat"
  shows "kept s n flt old err d' \<and> elsewhere s n d' d"
  using roll_back_keeps [OF assms] by (auto simp: kept_def)

lemma settle_in_swapped:
  assumes names: "three_names s n" and sa: "set_aside s n d old ms names"
    and st: "map_of (entries d) s = Some st"
    and r: "settle_in k flt w m s n True ms d = (d', err)"
    and stat: "\<And>m. \<not> flt (CarryBack m Source) m SLstat"
  shows "elsewhere s n d' d
    \<and> (case err of
         None \<Rightarrow> \<exists>st2. finish_dir (flt Finish []) w m st = (st2, None) \<and> map_of (entries d') n = Some st2
                  \<and> map_of (entries d') s = None
       | Some e \<Rightarrow> kept s n flt old e d')"
proof -
  obtain st2 e2 where f: "finish_dir (flt Finish []) w m st = (st2, e2)" by force
  note fe = finish_dir_entries [OF f]
  let ?d = "change s st2 d"
  have sa2: "set_aside s n ?d old ms names"
    using fe by (intro set_aside_settled [OF sa st _ _ names]) auto
  have n: "map_of (entries ?d) n = None" "map_of (entries ?d) s = Some st2"
    using sa2 by (auto simp: set_aside_def map_of_update)
  have ent: "entry d s = st" using st by (simp add: entry_def)
  show ?thesis
  proof (cases "\<exists>e. e2 = Some e \<or> (e2 = None \<and> rename_in k (flt Finish [n]) ?d s n = Inl e)")
    case True
    then have "\<exists>e. map_prod id Some (roll_back k flt w s n True ms e ?d) = (d', err)"
      using r f ent by (auto simp: settle_in_def)
    then obtain e where "map_prod id Some (roll_back k flt w s n True ms e ?d) = (d', err)" by blast
    moreover obtain d2 e3 where rb: "roll_back k flt w s n True ms e ?d = (d2, e3)" by force
    ultimately have "d' = d2" "err = Some e3" by simp_all
    with roll_back_kept [OF names sa2 rb stat] elsewhere_trans [of s n d2 ?d d] show ?thesis by simp
  next
    case False
    then obtain d2 where d2: "e2 = None" "rename_in k (flt Finish [n]) ?d s n = Inr d2"
      by (cases e2; cases "rename_in k (flt Finish [n]) ?d s n") auto
    with r f ent have d': "d' = fst (remove_all_at k (flt RemoveLast) d2 (old_name n))" "err = None"
      by (simp_all add: settle_in_def)
    from rename_in_names [OF d2(2)] n names
    have "map_of (entries d2) n = Some st2" "map_of (entries d2) s = None"
      by (auto simp: three_names_def)
    moreover have "elsewhere s n d2 d" using elsewhere_rename [OF d2(2), of s n] elsewhere_trans by fastforce
    ultimately show ?thesis
      using remove_all_at_names [of k "flt RemoveLast" d2 "old_name n" d'] d' names f d2(1)
      by (cases "remove_all_at k (flt RemoveLast) d2 (old_name n)")
        (auto simp: elsewhere_def three_names_def)
  qed
qed

lemma settle_in_plain:
  assumes names: "three_names s n" and st: "map_of (entries d) s = Some st"
    and r: "settle_in k flt w m s n False [] d = (d', err)"
  shows "elsewhere s n d' d
    \<and> (case err of
         None \<Rightarrow> \<exists>st2. finish_dir (flt Finish []) w m st = (st2, None) \<and> map_of (entries d') n = Some st2
                  \<and> map_of (entries d') s = None \<and> displace st2 (map_of (entries d) n) = None
       | Some e \<Rightarrow> map_of (entries d') n = map_of (entries d) n \<and> (\<exists>x. e = CloneFs x))"
proof -
  obtain st2 e2 where f: "finish_dir (flt Finish []) w m st = (st2, e2)" by force
  let ?d = "change s st2 d"
  have ent: "entry d s = st" using st by (simp add: entry_def)
  have nn: "s \<noteq> n" using names by (simp add: three_names_def)
  show ?thesis
  proof (cases "\<exists>e. e2 = Some e \<or> (e2 = None \<and> rename_in k (flt Finish [n]) ?d s n = Inl e)")
    case True
    then have "\<exists>e. map_prod id Some (roll_back k flt w s n False [] e ?d) = (d', err)"
      using r f ent by (auto simp: settle_in_def)
    then obtain e where "map_prod id Some (roll_back k flt w s n False [] e ?d) = (d', err)" by blast
    moreover obtain d2 e3 where rb: "roll_back k flt w s n False [] e ?d = (d2, e3)" by force
    ultimately have "d' = d2" "err = Some e3" by simp_all
    moreover have "map_of (entries d2) n = map_of (entries d) n"
      using roll_back_plain [OF rb] nn by (simp add: map_of_update)
    moreover have "elsewhere s n d2 d"
      using roll_back_plain [OF rb] elsewhere_trans [of s n d2 ?d d] by simp
    ultimately show ?thesis using roll_back_plain [OF rb] by simp
  next
    case False
    then obtain d2 where d2: "e2 = None" "rename_in k (flt Finish [n]) ?d s n = Inr d2"
      by (cases e2; cases "rename_in k (flt Finish [n]) ?d s n") auto
    with r f ent have "d' = d2" "err = None" by (simp_all add: settle_in_def)
    moreover have "elsewhere s n d2 d" using elsewhere_rename [OF d2(2), of s n] elsewhere_trans by fastforce
    ultimately show ?thesis
      using rename_in_names [OF d2(2) nn] f d2(1) nn by (auto simp: map_of_update)
  qed
qed

lemma set_asideI:
  assumes "map_of (entries d) n = None" "map_of (entries d) (old_name n) = Some old'"
    "map_of (entries d) s = Some st" "cont old' = cont old" "apart names"
  shows "set_aside s n d old [] names"
  using assms by (simp add: set_aside_def)

lemma carry_over_swapped:
  assumes names: "three_names s n" and n: "map_of (entries d) n = None"
    and old: "map_of (entries d) (old_name n) = Some old"
    and st: "map_of (entries d) s = Some st" "is_dir st"
    and carry: "apart carry" "\<forall>q \<in> set carry. cont old q \<noteq> None"
    and r: "carry_over k flt w m s n True carry d = (d', err)"
    and stat: "\<And>m. \<not> flt (CarryBack m Source) m SLstat"
  shows "elsewhere s n d' d
    \<and> (case err of
         None \<Rightarrow> \<exists>st1 st2. finish_dir (flt Finish []) w m st1 = (st2, None) \<and> map_of (entries d') n = Some st2
            \<and> map_of (entries d') s = None
            \<and> (if carry = [] then st1 = st
               else \<exists>old' ms. carried old st old' st1 ms carry
                    \<and> ((\<forall>q. \<not> flt (CarryOut q Source) q SLstat) \<longrightarrow> set ms = set carry))
       | Some e \<Rightarrow> kept s n flt old e d')"
proof -
  have sa: "set_aside s n d old [] carry" by (rule set_asideI [OF n old st(1) refl carry(1)])
  show ?thesis
  proof (cases "carry = []")
    case True
    with r have "settle_in k flt w m s n True [] d = (d', err)" by (simp add: carry_over_def)
    from settle_in_swapped [OF names sa st(1) this stat] True show ?thesis by (auto split: option.splits)
  next
    case ne: False
    show ?thesis
    proof (cases "open_dir_at (flt OpenOld []) d (old_name n)")
      case (Inl e)
      obtain d2 e2 where rb: "roll_back k flt w s n True [] e d = (d2, e2)" by force
      with r ne Inl have "d' = d2" "err = Some e2" by (simp_all add: carry_over_def)
      with roll_back_kept [OF names sa rb stat] show ?thesis by simp
    next
      case (Inr o2)
      with old have o: "o2 = old" "is_dir old" by (auto simp: open_dir_at_iff)
      have ent: "entry d s = st" using st by (simp add: entry_def)
      obtain old' st1 ms e where c: "carry_private k (\<lambda>n r. flt (CarryOut n r)) w carry old st = (old', st1, ms, e)"
        by (metis prod.exhaust)
      let ?d = "change (old_name n) old' (change s st1 d)"
      from carry_private_carried [OF c carry(1) o(2) st(2)] carry(2)
      have cr: "set ms \<subseteq> set carry" "carried old st old' st1 ms carry"
        "e = None \<Longrightarrow> (\<forall>q. \<not> flt (CarryOut q Source) q SLstat) \<longrightarrow> set ms = set carry" by auto
      have em: "\<not> below ms p" if "ms = []" for p using that by (simp add: below_def)
      have "ms = [] \<longrightarrow> cont old' = cont old"
        using cr(2) em by (auto simp: carried_def)
      with cr carried_out_of [OF cr(2)] n carry(1) names
      have sa2: "set_aside s n ?d old ms carry"
        by (auto simp: set_aside_def map_of_update three_names_def)
      have st1: "map_of (entries ?d) s = Some st1"
        using names by (auto simp: map_of_update three_names_def)
      show ?thesis
      proof (cases e)
        case (Some e1)
        obtain d2 e2 where rb: "roll_back k flt w s n True ms e1 ?d = (d2, e2)" by force
        with r ne Inr o c ent Some have "d' = d2" "err = Some e2" by (simp_all add: carry_over_def Let_def)
        moreover have "elsewhere s n d2 d"
          using roll_back_kept [OF names sa2 rb stat] elsewhere_trans [of s n d2 ?d d] by simp
        ultimately show ?thesis using roll_back_kept [OF names sa2 rb stat] by simp
      next
        case None
        with r ne Inr o c ent have s2: "settle_in k flt w m s n True ms ?d = (d', err)"
          by (simp add: carry_over_def Let_def)
        note fin = settle_in_swapped [OF names sa2 st1 s2 stat]
        then have "elsewhere s n d' d" using elsewhere_trans [of s n d' ?d d] by simp
        with fin ne cr(2,3) None show ?thesis by (cases err) auto
      qed
    qed
  qed
qed

text \<open>What a swap that succeeded put in the place, from the copy \<open>st\<close>.\<close>

definition placed ::
  "string \<Rightarrow> string \<Rightarrow> clone_faults \<Rightarrow> owner \<Rightarrow> meta \<Rightarrow> string list list \<Rightarrow> node option \<Rightarrow> node \<Rightarrow> node \<Rightarrow> bool" where
  "placed s n flt w m carry before st d' \<longleftrightarrow>
     (\<exists>st1 st2. finish_dir (flt Finish []) w m st1 = (st2, None) \<and> map_of (entries d') n = Some st2
        \<and> map_of (entries d') s = None
        \<and> (st1 = st \<and> (carry = [] \<or> (\<forall>old. before = Some old \<longrightarrow> entries old = []))
           \<or> (carry \<noteq> [] \<and> (\<exists>old old' ms. before = Some old \<and> carried old st old' st1 ms carry
                \<and> ((\<forall>q. \<not> flt (CarryOut q Source) q SLstat) \<longrightarrow> set ms = set carry)))))"

lemma swap_in_result:
  assumes names: "three_names s n" and st: "map_of (entries d) s = Some st" "is_dir st"
    and carry: "apart carry" "\<forall>old. map_of (entries d) n = Some old \<longrightarrow> (\<forall>q \<in> set carry. cont old q \<noteq> None)"
    and r: "swap_in k flt w m s n carry d = (d', err)"
    and stat: "\<And>m. \<not> flt (CarryBack m Source) m SLstat"
  shows "elsewhere s n d' d
    \<and> (case err of
         None \<Rightarrow> placed s n flt w m carry (map_of (entries d) n) st d'
       | Some e \<Rightarrow> (\<forall>old. map_of (entries d) n = Some old \<longrightarrow> kept s n flt old e d')
                   \<and> (map_of (entries d) n = None \<longrightarrow> map_of (entries d') n = None))"
proof -
  have nn: "s \<noteq> n" "n \<noteq> old_name n" "s \<noteq> old_name n" "component n" "component (old_name n)"
    using names by (auto simp: three_names_def)
  have same: ?thesis if "elsewhere s n d' d" "err = Some (CloneFs e)"
    "map_of (entries d') n = map_of (entries d) n" for e
    using that by (auto simp: kept_def cont_Cons)
  show ?thesis
  proof (cases "lstat_at (flt Swap [n]) d n")
    case (Inl e)
    with r have s: "settle_in k flt w m s n False [] d = (d', err)"
      by (simp add: swap_in_def carry_over_def)
    note fin = settle_in_plain [OF names st(1) s]
    show ?thesis
    proof (cases err)
      case None
      with fin obtain st2 where st2: "finish_dir (flt Finish []) w m st = (st2, None)"
        "map_of (entries d') n = Some st2" "map_of (entries d') s = None"
        "displace st2 (map_of (entries d) n) = None" by auto
      have "is_dir st2" using finish_dir_entries [OF st2(1)] st(2) by simp
      with st2(4) have "\<forall>old. map_of (entries d) n = Some old \<longrightarrow> entries old = []"
        by (auto simp: displace_def split: if_splits)
      with st2(1,2,3) have "placed s n flt w m carry (map_of (entries d) n) st d'"
        unfolding placed_def by blast
      with None fin show ?thesis by simp
    next
      case (Some e2)
      with fin same show ?thesis by auto
    qed
  next
    case (Inr old)
    then have old: "map_of (entries d) n = Some old" by (auto simp: lstat_at_def split: if_splits option.splits)
    obtain d1 e1 where rm: "remove_all_at k (flt RemoveOld) d (old_name n) = (d1, e1)" by force
    note rmn = remove_all_at_names [OF rm nn(5)]
    have d1: "map_of (entries d1) n = Some old" "map_of (entries d1) s = Some st" "elsewhere s n d1 d"
      using rmn old st nn by (auto simp: elsewhere_def)
    show ?thesis
    proof (cases "e1 = None \<and> (\<exists>d2. rename_in k (flt Swap [old_name n]) d1 n (old_name n) = Inr d2)")
      case False
      then have "d' = discard k (flt Discard) s d1 \<and> (\<exists>e. err = Some (CloneFs e))"
        using r Inr rm by (auto simp: swap_in_def split: option.splits sum.splits)
      then show ?thesis using same d1 old nn by (auto simp: discard_names)
    next
      case True
      then obtain d2 where d2: "rename_in k (flt Swap [old_name n]) d1 n (old_name n) = Inr d2" by blast
      with True r Inr rm have co: "carry_over k flt w m s n True carry d2 = (d', err)"
        by (simp add: swap_in_def)
      have e2: "map_of (entries d2) n = None" "map_of (entries d2) (old_name n) = Some old"
        "map_of (entries d2) s = Some st"
        using rename_in_names [OF d2 nn(2)] d1 nn by auto
      have el: "elsewhere s n d2 d"
        using elsewhere_rename [OF d2, of s n] d1(3) elsewhere_trans by fastforce
      have cq: "\<forall>q \<in> set carry. cont old q \<noteq> None" using carry(2) old by blast
      note res = carry_over_swapped [OF names e2 st(2) carry(1) cq co stat]
      then have el': "elsewhere s n d' d" using el elsewhere_trans by blast
      show ?thesis
      proof (cases err)
        case None
        with res obtain st1 st2 where p: "finish_dir (flt Finish []) w m st1 = (st2, None)"
          "map_of (entries d') n = Some st2" "map_of (entries d') s = None"
          "if carry = [] then st1 = st else \<exists>old' ms. carried old st old' st1 ms carry
             \<and> ((\<forall>q. \<not> flt (CarryOut q Source) q SLstat) \<longrightarrow> set ms = set carry)" by auto
        have "placed s n flt w m carry (Some old) st d'"
        proof (cases "carry = []")
          case True
          with p show ?thesis unfolding placed_def by auto
        next
          case False
          with p show ?thesis unfolding placed_def by (simp only: if_False) metis
        qed
        with None el' old show ?thesis by simp
      qed (use res el' old in auto)
    qed
  qed
qed

section \<open>The whole clone\<close>

lemma mkdir_temp_result:
  "mkdir_temp_at k flt pre sfxs d = (d1, r) \<Longrightarrow> is_dir d \<Longrightarrow>
     (\<forall>m. \<not> has_prefix m pre \<longrightarrow> map_of (entries d1) m = map_of (entries d) m)
   \<and> (\<forall>s x. r = Inr (s, x) \<longrightarrow> (\<exists>sfx. s = pre @ sfx) \<and> component s \<and> map_of (entries d) s = None
        \<and> x = Dir (fresh_meta k 448) [] \<and> d1 = put k s x d)"
proof (induction sfxs)
  case (Cons sfx sfxs)
  let ?n = "pre @ sfx"
  show ?case
  proof (cases "flt [?n] SMkdir \<or> map_of (entries d) ?n \<noteq> None")
    case True
    with Cons show ?thesis by (auto simp: Let_def split: if_splits)
  next
    case False
    let ?x = "Dir (fresh_meta k 448) []"
    have d1: "d1 = put k ?n ?x d" and r: "r = (case open_dir_at (flt [?n]) (put k ?n ?x d) ?n of
        Inl e \<Rightarrow> Inl e | Inr x \<Rightarrow> Inr (?n, x))"
      using False Cons.prems(1) by (auto simp: Let_def)
    have "\<forall>s x. r = Inr (s, x) \<longrightarrow> s = ?n \<and> x = ?x \<and> component ?n"
      using r by (auto simp: open_dir_at_iff map_of_update split: sum.splits)
    with d1 False show ?thesis by (auto simp: map_of_update has_prefix_iff)
  qed
qed auto

lemma not_temp: "component n \<Longrightarrow> \<not> has_prefix n ''.'' \<Longrightarrow> \<not> has_prefix n clone_prefix"
  by (auto simp: has_prefix_iff clone_prefix_def)

lemma old_name_not_temp: "component n \<Longrightarrow> \<not> has_prefix n ''.'' \<Longrightarrow> \<not> has_prefix (old_name n) clone_prefix"
  by (cases n) (auto simp: has_prefix_iff clone_prefix_def old_name_def component_def)

definition untouched :: "string \<Rightarrow> node \<Rightarrow> node \<Rightarrow> bool" where
  "untouched n d' d \<longleftrightarrow> (\<forall>m. m \<noteq> n \<longrightarrow> m \<noteq> old_name n \<longrightarrow> \<not> has_prefix m clone_prefix \<longrightarrow>
     map_of (entries d') m = map_of (entries d) m)"

definition carried_of :: "clone_faults \<Rightarrow> node \<Rightarrow> string \<Rightarrow> bool \<Rightarrow> string list list" where
  "carried_of flt d n priv =
     (if priv then private_dirs_at (flt WalkDst) (\<lambda>h. flt (WalkPrefix h)) d n else [])"

lemma carried_of_apart:
  assumes "priv \<longrightarrow> wf_node d"
  shows "apart (carried_of flt d n priv)
    \<and> (\<forall>old. map_of (entries d) n = Some old \<longrightarrow> (\<forall>q \<in> set (carried_of flt d n priv). cont old q \<noteq> None))"
proof (cases "map_of (entries d) n")
  case None
  then have "private_dirs_at f g d n = []" for f g
    by (auto simp: private_dirs_at_def open_dir_at_def)
  with None show ?thesis by (auto simp: carried_of_def apart_def)
next
  case (Some old)
  have "cont old q \<noteq> None" if "dir_at old q" for q using that by (auto simp: dir_at_def)
  with Some private_dirs_apart [OF _ Some, of "flt WalkDst" "\<lambda>h. flt (WalkPrefix h)"] assms show ?thesis
    by (cases priv) (simp_all add: carried_of_def apart_def)
qed

lemma clone_at_result:
  assumes c: "clone_at k flt shares sfxs src_dir src_name d n w priv = (d', r, err)"
    and d: "priv \<longrightarrow> wf_node d" "is_dir d" and n: "component n" "\<not> has_prefix n ''.''"
    and stat: "\<And>m. \<not> flt (CarryBack m Source) m SLstat"
  shows "untouched n d' d
    \<and> (case err of
         None \<Rightarrow> \<exists>src s st r0. open_dir_at (flt OpenSrc []) src_dir src_name = Inr src
            \<and> has_prefix s clone_prefix \<and> map_of (entries d) s = None
            \<and> (\<forall>m. has_prefix m clone_prefix \<longrightarrow> m \<noteq> s \<longrightarrow> map_of (entries d') m = map_of (entries d) m)
            \<and> clone_tree k (flt TreeSrc) (flt TreeDst) shares w (carried_of flt d n priv) src
                 (Dir (fresh_meta k 448) []) nothing_done = (st, r0, None)
            \<and> placed s n flt w (stat_of src) (carried_of flt d n priv) (map_of (entries d) n) st d'
       | Some e \<Rightarrow> (\<forall>old. map_of (entries d) n = Some old \<longrightarrow> (\<exists>s. kept s n flt old e d'))
                   \<and> (map_of (entries d) n = None \<longrightarrow> map_of (entries d') n = None))"
proof -
  let ?carry = "carried_of flt d n priv"
  have same: ?thesis if "untouched n d' d" "err = Some (CloneFs e)"
    "map_of (entries d') n = map_of (entries d) n" for e
    using that by (auto simp: kept_def cont_Cons)
  show ?thesis
  proof (cases "\<exists>e. open_dir_at (flt OpenSrc []) src_dir src_name = Inl e \<or> flt OpenSrc [] SFstat")
    case True
    then have "d' = d \<and> (\<exists>e. err = Some (CloneFs e))"
      using c by (auto simp: clone_at_def split: sum.splits)
    with same show ?thesis by (auto simp: untouched_def)
  next
    case False
    then obtain src where o: "open_dir_at (flt OpenSrc []) src_dir src_name = Inr src" "\<not> flt OpenSrc [] SFstat"
      by (cases "open_dir_at (flt OpenSrc []) src_dir src_name") auto
    obtain d1 t where mk: "mkdir_temp_at k (flt Temp) clone_prefix sfxs d = (d1, t)" by force
    note mkr = mkdir_temp_result [OF mk d(2)]
    note nt = not_temp [OF n] old_name_not_temp [OF n]
    show ?thesis
    proof (cases t)
      case (Inl e)
      with c o mk have "d' = d1" "err = Some (CloneFs e)"
        by (auto simp: clone_at_def carried_of_def Let_def)
      with mkr nt same show ?thesis by (auto simp: untouched_def)
    next
      case (Inr sx)
      obtain s x where sx: "sx = (s, x)" by force
      have "t = Inr (s, x)" using Inr sx by simp
      with mkr have "(\<exists>sfx. s = clone_prefix @ sfx) \<and> component s \<and> map_of (entries d) s = None
          \<and> x = Dir (fresh_meta k 448) [] \<and> d1 = put k s x d" by blast
      then obtain sfx where s: "s = clone_prefix @ sfx" "component s" "map_of (entries d) s = None"
        and x: "x = Dir (fresh_meta k 448) []" and d1: "d1 = put k s x d" by blast
      note names = three_names_made [OF s(2,1) n]
      have sp: "has_prefix s clone_prefix" using s(1) by (auto simp: has_prefix_iff)
      obtain st r0 e0 where ct: "clone_tree k (flt TreeSrc) (flt TreeDst) shares w ?carry src x nothing_done = (st, r0, e0)"
        by (metis prod.exhaust)
      let ?d = "change s st d1"
      have un: "untouched n b d" if "elsewhere s n b ?d" for b
        using that sp d1 by (auto simp: untouched_def elsewhere_def map_of_update)
      have dn: "map_of (entries ?d) n = map_of (entries d) n"
        using names d1 by (auto simp: map_of_update three_names_def)
      show ?thesis
      proof (cases e0)
        case (Some e)
        with c o mk Inr sx ct have "d' = discard k (flt Discard) s ?d" "err = Some (CloneFs e)"
          by (auto simp: clone_at_def carried_of_def Let_def)
        with un [of d'] dn names same show ?thesis by (auto simp: discard_names three_names_def)
      next
        case None
        have sd: "is_dir src" using o(1) by (simp add: open_dir_at_iff)
        have std: "is_dir st"
          using clone_tree_ok [OF ct [unfolded None x] sd] by (simp add: same_dir_def)
        obtain b e where sw: "swap_in k flt w (stat_of src) s n ?carry ?d = (b, e)" by force
        with c o mk Inr sx ct None have be: "d' = b" "err = e"
          by (auto simp: clone_at_def carried_of_def Let_def)
        have st: "map_of (entries ?d) s = Some st" by (simp add: map_of_update)
        note ap = carried_of_apart [OF d(1), of flt n]
        note res = swap_in_result [OF names st std conjunct1 [OF ap] _ sw stat, unfolded dn, OF conjunct2 [OF ap]]
        have other: "map_of (entries b) m = map_of (entries d) m" if "has_prefix m clone_prefix" "m \<noteq> s" for m
          using res that nt d1 by (auto simp: elsewhere_def map_of_update)
        show ?thesis
        proof (cases err)
          case None
          with res be have "placed s n flt w (stat_of src) ?carry (map_of (entries d) n) st d'" by simp
          with ct \<open>e0 = None\<close> x o(1) sp s(3) other be have
            "\<exists>src s st r0. open_dir_at (flt OpenSrc []) src_dir src_name = Inr src
            \<and> has_prefix s clone_prefix \<and> map_of (entries d) s = None
            \<and> (\<forall>m. has_prefix m clone_prefix \<longrightarrow> m \<noteq> s \<longrightarrow> map_of (entries d') m = map_of (entries d) m)
            \<and> clone_tree k (flt TreeSrc) (flt TreeDst) shares w ?carry src
                 (Dir (fresh_meta k 448) []) nothing_done = (st, r0, None)
            \<and> placed s n flt w (stat_of src) ?carry (map_of (entries d) n) st d'" by blast
          with None un res be show ?thesis by simp
        next
          case (Some e2)
          then have "e = Some e2" using be by simp
          with res be(1) have "(\<forall>old. map_of (entries d) n = Some old \<longrightarrow> kept s n flt old e2 d')
              \<and> (map_of (entries d) n = None \<longrightarrow> map_of (entries d') n = None)" by simp
          with Some res be un [of d'] show ?thesis by (simp only: option.case) blast
        qed
      qed
    qed
  qed
qed

end
