(* ===== verification/Clone_Safety.thy ===== *)
theory Clone_Safety
  imports Clone_Swap
begin

text \<open>
  What a clone promises its caller: the copy that was asked for, or nothing changed, and no
  save lost on the way; with a folder that has a save in it as the example.
\<close>

section \<open>What a clone promises\<close>

lemma safe_name_entry: "safe_name n = None \<Longrightarrow> component n \<and> \<not> has_prefix n ''.''"
  by (auto simp: safe_name_def component_def contains_any_def list_ex_iff split: if_splits)

lemma placed_image:
  assumes "placed s n flt w m [] before st d'" "m = stat_of src" "is_dir src"
    and "clone_tree k sf df shares w [] src (Dir (fresh_meta k 448) []) r = (st, r', None)"
  shows "map_of (entries d') n = Some (image_node k w [] [] src)"
proof -
  from assms(1) obtain st2 where f: "finish_dir (flt Finish []) w m st = (st2, None)"
    and n: "map_of (entries d') n = Some st2" by (auto simp: placed_def)
  from clone_tree_ok [OF assms(4,3)] have st: "entries st = entries (image_node k w [] [] src)"
    "same_dir st (Dir (fresh_meta k 448) [])" by auto
  then have "is_dir st" by (simp add: same_dir_def)
  from finish_dir_ok [OF f this] st assms(2,3) have "st2 = image_node k w [] [] src"
    by (cases src; cases "stat_of st") (auto simp: same_dir_def fresh_meta_def owned_def)
  with n show ?thesis by simp
qed





section \<open>A folder with a save in it\<close>

definition sample_kernel :: kernel where
  "sample_kernel = \<lparr>now = 77, euid = 0, egid = 0, umask = 18\<rparr>"

definition sample_member :: owner where
  "sample_member = \<lparr>owner_uid = 1000, owner_gid = 1000\<rparr>"

definition sample_seat :: node where
  "sample_seat = Dir root_meta
     [(''game'', Dir root_meta
        [(''system.reg'', Reg root_meta ''old''),
         (''drive_c'', Dir root_meta
            [(''users'', Dir root_meta [(''save'', Reg root_meta ''7'')])])])]"

definition all_well :: clone_faults where
  "all_well = (\<lambda>_ _ _. False)"

definition last_rename_fails :: clone_faults where
  "last_rename_fails = (\<lambda>ph p c. ph = Finish \<and> p = [''game''] \<and> c = SRename)"





end
