(* ===== verification/Pool.thy ===== *)
theory Pool
  imports Clone_Swap
begin

text \<open>
  The shared library (\<open>internal/library/pool.go\<close>): the canonical copies, the members that
  keep them, what is taken from whom and handed to whom, and what is remembered about it.
  Every directory the daemon opens is a tree of its own: the directory of the seats, the
  pool's two, and the ones outside, which are opened by their path. The faults of a pass are
  given by its stage, the member it is at and the directory.
\<close>

section \<open>Reading a library\<close>

datatype pool_error = FsErr fs_error | TooLarge | BadManifest manifest_error
  | CloneErr string clone_error | NameErr name_error | AlsoIn string string
  | Busy string "string list" | NotSaved | NotHeld string | InsideLibrary string | NoPath string

definition max_manifest :: nat where
  "max_manifest = 16 * 2 ^ 20"

definition read_app_at :: "calls \<Rightarrow> node \<Rightarrow> string \<Rightarrow> pool_error + app" where
  "read_app_at c d name =
     (case open_file_at c d name of
        Inl e \<Rightarrow> Inl (FsErr e)
      | Inr (m, data) \<Rightarrow>
          if c SCopy then Inl (FsErr (Failed SCopy))
          else if length data > max_manifest then Inl TooLarge
          else case parse_manifest data of
            Inl e \<Rightarrow> Inl (BadManifest e)
          | Inr a \<Rightarrow> Inr (a\<lparr>app_data := data, mod_time := mtime m\<rparr>))"

fun apps_named :: "(string \<Rightarrow> calls) \<Rightarrow> node \<Rightarrow> string list \<Rightarrow> app list" where
  "apps_named c d [] = []"
| "apps_named c d (name # names) =
     (if \<not> has_prefix name ''appmanifest_'' \<or> \<not> has_suffix name ''.acf'' then apps_named c d names
      else case read_app_at (c name) d name of
        Inl e \<Rightarrow> apps_named c d names
      | Inr a \<Rightarrow> a # apps_named c d names)"

definition read_apps_at :: "faults \<Rightarrow> node \<Rightarrow> fs_error + app list" where
  "read_apps_at flt d =
     (if flt [] SReadNames then Inl (Failed SReadNames)
      else Inr (sort_key app_name (apps_named (\<lambda>n. flt [n]) d (map fst (entries d)))))"

text \<open>\<open>settled\<close>\<close>

definition app_settled :: "int \<Rightarrow> int \<Rightarrow> app \<Rightarrow> bool" where
  "app_settled t wait a = (t - mod_time a \<ge> wait)"

text \<open>\<open>copyManifest\<close>: written under a temporary name that is cleared first, then renamed.\<close>

definition copy_manifest ::
  "kernel \<Rightarrow> faults \<Rightarrow> string \<Rightarrow> node \<Rightarrow> string \<Rightarrow> owner \<Rightarrow> node \<times> fs_error option" where
  "copy_manifest k flt data d name w =
     (let tmp = name @ ''.polyseat-tmp''
      in case remove_all_at k (\<lambda>p. flt (tmp # p)) d tmp of
        (d1, Some e) \<Rightarrow> (d1, Some e)
      | (d1, None) \<Rightarrow>
          (case create_file_at k (flt [tmp]) d1 tmp 420 of
             Inl e \<Rightarrow> (d1, Some e)
           | Inr d2 \<Rightarrow>
               (let undo = (if flt [tmp] SRmdir then d2 else del k tmp d2);
                    x = Reg (fresh_meta k 420) (rewrite data)
                in if flt [tmp] SWrite then (undo, Some (Failed SWrite))
                   else if flt [tmp] SChown then (undo, Some (Failed SChown))
                   else case rename_in k (flt [name]) (change tmp (chown w x) d2) tmp name of
                     Inl e \<Rightarrow> (change tmp (chown w x) d2, Some e)
                   | Inr d3 \<Rightarrow> (d3, None))))"

section \<open>State\<close>

definition folder_prefix :: string where "folder_prefix = ''folder:''"

definition folder_key :: "string \<Rightarrow> string" where "folder_key name = folder_prefix @ name"

text \<open>\<open>FolderName\<close>\<close>

definition folder_name_of :: "string \<Rightarrow> string option" where
  "folder_name_of appid = cut_prefix appid folder_prefix"

definition status_delivered :: string where "status_delivered = ''delivered''"
definition status_declined :: string where "status_declined = ''declined''"

text \<open>
  \<open>state\<close>: a mark that is not there reads as the empty string. The folders and the withheld
  titles are association lists, with a key at most once.
\<close>

record pool_state =
  delivered :: "string \<Rightarrow> string \<Rightarrow> string"
  folders :: "(string \<times> folder) list"
  sources :: "string list"
  unwatched :: "string list"
  withheld :: "(string \<times> string) list"

definition no_state :: pool_state where
  "no_state = \<lparr>delivered = (\<lambda>_ _. []), folders = [], sources = [], unwatched = [], withheld = []\<rparr>"

definition status :: "pool_state \<Rightarrow> string \<Rightarrow> string \<Rightarrow> string" where
  "status st seat appid = delivered st seat appid"

definition mark :: "string \<Rightarrow> string \<Rightarrow> string \<Rightarrow> pool_state \<Rightarrow> pool_state" where
  "mark seat appid s st =
     (if delivered st seat appid = status_declined \<and> s = status_delivered then st
      else st\<lparr>delivered := (delivered st)(seat := (delivered st seat)(appid := s))\<rparr>)"

record member =
  mem_name :: string
  mem_owner :: owner
  updatable :: bool
  mem_apps :: string
  mem_folders :: string

definition external :: "member \<Rightarrow> bool" where
  "external m = (mem_apps m \<noteq> [])"

section \<open>Directories\<close>

datatype place = SeatDir string string | Outside string | PoolApps | PoolFolders

text \<open>The trees: \<open>outside p\<close> is what the path \<open>p\<close> opens to.\<close>

record world =
  seats :: node
  outside :: "string \<Rightarrow> node option"
  pool_apps :: node
  pool_folders :: node

text \<open>\<open>seatDir\<close>, \<open>openAnchored\<close> of a path outside, \<open>openOwn\<close> of the pool's directories.\<close>

definition seat_dir :: "faults \<Rightarrow> world \<Rightarrow> string \<Rightarrow> string \<Rightarrow> fs_error + node" where
  "seat_dir flt w seat sub =
     (if flt [] SOpen then Inl (Failed SOpen)
      else case open_dir_at (flt [seat]) (seats w) seat of
        Inl e \<Rightarrow> Inl e
      | Inr root \<Rightarrow> open_dir_at (flt [seat, sub]) root sub)"

fun open_place :: "faults \<Rightarrow> world \<Rightarrow> place \<Rightarrow> fs_error + node" where
  "open_place flt w (SeatDir seat sub) = seat_dir flt w seat sub"
| "open_place flt w (Outside p) =
     (if flt [] SOpen then Inl (Failed SOpen)
      else case outside w p of None \<Rightarrow> Inl NoEntry | Some d \<Rightarrow> if is_dir d then Inr d else Inl NotDir)"
| "open_place flt w PoolApps = (if flt [] SOpen then Inl (Failed SOpen) else Inr (pool_apps w))"
| "open_place flt w PoolFolders = (if flt [] SOpen then Inl (Failed SOpen) else Inr (pool_folders w))"

text \<open>The world with a changed tree at a place that was opened.\<close>

fun store_place :: "place \<Rightarrow> node \<Rightarrow> world \<Rightarrow> world" where
  "store_place (SeatDir seat sub) d w =
     w\<lparr>seats := change seat (change sub d (entry (seats w) seat)) (seats w)\<rparr>"
| "store_place (Outside p) d w = w\<lparr>outside := (outside w)(p := Some d)\<rparr>"
| "store_place PoolApps d w = w\<lparr>pool_apps := d\<rparr>"
| "store_place PoolFolders d w = w\<lparr>pool_folders := d\<rparr>"

definition steam_apps :: string where "steam_apps = ''steamapps''"
definition common_dir :: string where "common_dir = ''common''"
definition shared_dir :: string where "shared_dir = ''shared''"

definition apps_place :: "member \<Rightarrow> place" where
  "apps_place m = (if external m then Outside (mem_apps m) else SeatDir (mem_name m) steam_apps)"

text \<open>\<open>foldersDir\<close>: none for an outside member that named no directory or has not made it.\<close>

definition folders_place :: "member \<Rightarrow> place option" where
  "folders_place m =
     (if \<not> external m then Some (SeatDir (mem_name m) shared_dir)
      else if mem_folders m \<noteq> [] then Some (Outside (mem_folders m)) else None)"

definition folders_dir :: "faults \<Rightarrow> world \<Rightarrow> member \<Rightarrow> fs_error + (place \<times> node) option" where
  "folders_dir flt w m =
     (case folders_place m of
        None \<Rightarrow> Inr None
      | Some pl \<Rightarrow>
          (case open_place flt w pl of
             Inl e \<Rightarrow> if e = NoEntry then Inr None else Inl e
           | Inr d \<Rightarrow> Inr (Some (pl, d))))"

text \<open>
  \<open>Ensure\<close>: the seat's directory, its library, \<open>common\<close> and \<open>shared\<close>, made where they are
  missing and given to the seat; each step with the tree as far as it got.
\<close>

definition make_owned ::
  "kernel \<Rightarrow> calls \<Rightarrow> owner \<Rightarrow> node \<Rightarrow> string \<Rightarrow> node \<times> fs_error option" where
  "make_owned k c w d name =
     (case ensure_dir_at k c d name 493 of
        (d', Inl e) \<Rightarrow> (d', Some e)
      | (d', Inr (sub, created)) \<Rightarrow>
          if c SChown then (d', Some (Failed SChown)) else (change name (chown w sub) d', None))"

definition ensure_member :: "kernel \<Rightarrow> faults \<Rightarrow> member \<Rightarrow> world \<Rightarrow> world \<times> fs_error option" where
  "ensure_member k flt m w =
     (if external m then (w, None)
      else if flt [] SOpen then (w, Some (Failed SOpen))
      else case make_owned k (flt [mem_name m]) (mem_owner m) (seats w) (mem_name m) of
        (s1, Some e) \<Rightarrow> (w\<lparr>seats := s1\<rparr>, Some e)
      | (s1, None) \<Rightarrow>
          (let root = entry s1 (mem_name m); seat_at = (\<lambda>r. w\<lparr>seats := change (mem_name m) r s1\<rparr>)
           in case ensure_dir_at k (flt [mem_name m, []]) root steam_apps 493 of
             (r1, Inl e) \<Rightarrow> (seat_at r1, Some e)
           | (r1, Inr x) \<Rightarrow>
               (case make_owned k (flt [mem_name m, steam_apps]) (mem_owner m) r1 steam_apps of
                  (r2, Some e) \<Rightarrow> (seat_at r2, Some e)
                | (r2, None) \<Rightarrow>
                    (case make_owned k (flt [mem_name m, common_dir]) (mem_owner m) (entry r2 steam_apps) common_dir of
                       (a, Some e) \<Rightarrow> (seat_at (change steam_apps a r2), Some e)
                     | (a, None) \<Rightarrow>
                         (case make_owned k (flt [mem_name m, shared_dir]) (mem_owner m)
                                 (change steam_apps a r2) shared_dir of
                            (r3, err) \<Rightarrow> (seat_at r3, err))))))"

end
