(* ===== verification/Pool_Sync.thy ===== *)
theory Pool_Sync
  imports Pool
begin

text \<open>
  One pass of the pool (\<open>Sync\<close> in \<open>internal/library/pool.go\<close>): what is finished and newer
  is taken into the pool, what the pool has is offered to every member, and what a member
  removed is not offered again. The operations on titles that people ask for follow.
\<close>

section \<open>A pass and its report\<close>

datatype stage = Ensuring | Harvesting | FolderIn | Giving | FolderOut | Asking | Dropping

text \<open>
  What a pass depends on besides the state: the clock and the identity of the daemon, how
  long a library has to be quiet, the faults of each stage at each member, and of each clone
  its faults, which files can share their blocks and the temporary names that are tried.
\<close>

record env =
  kern :: kernel
  own :: owner
  settle :: int
  flts :: "stage \<Rightarrow> string \<Rightarrow> place \<Rightarrow> faults"
  wflts :: "stage \<Rightarrow> string \<Rightarrow> place \<Rightarrow> string \<Rightarrow> string list \<Rightarrow> faults"
  clones :: "stage \<Rightarrow> string \<Rightarrow> string \<Rightarrow> clone_faults"
  sharing :: "stage \<Rightarrow> string \<Rightarrow> string \<Rightarrow> string list \<Rightarrow> bool"
  temps :: "stage \<Rightarrow> string \<Rightarrow> string \<Rightarrow> string list"
  save_fails :: bool

record move =
  mv_app :: string
  mv_name :: string
  mv_seat :: string
  mv_bytes :: int

datatype problem = Trouble string pool_error | InFull string nat

record report =
  harvested :: "move list"
  handed :: "move list"
  declined :: "move list"
  problems :: "problem list"
  pending :: "move list"

definition no_report :: report where
  "no_report = \<lparr>harvested = [], handed = [], declined = [], problems = [], pending = []\<rparr>"

definition report_empty :: "report \<Rightarrow> bool" where
  "report_empty r = (harvested r = [] \<and> handed r = [] \<and> declined r = [])"

definition report_quiet :: "report \<Rightarrow> bool" where
  "report_quiet r = (report_empty r \<and> pending r = [])"

definition clone_to ::
  "env \<Rightarrow> stage \<Rightarrow> string \<Rightarrow> node \<Rightarrow> string \<Rightarrow> node \<Rightarrow> owner \<Rightarrow> bool \<Rightarrow> node \<times> result \<times> clone_error option" where
  "clone_to E stg who src name dst w priv =
     clone_at (kern E) (clones E stg who name) (sharing E stg who name) (temps E stg who name)
       src name dst name w priv"

text \<open>The report of a clone that had to copy files in full.\<close>

definition note_copied :: "string \<Rightarrow> result \<Rightarrow> report \<Rightarrow> report" where
  "note_copied name r rep =
     (if copied r > 0 then rep\<lparr>problems := problems rep @ [InFull name (copied r)]\<rparr> else rep)"

section \<open>Taking titles in\<close>

text \<open>
  Whether \<open>harvestFrom\<close> takes an app: finished, quiet, not withheld, newer than what the pool
  has in full, and there with its files.
\<close>

definition takes :: "env \<Rightarrow> string \<Rightarrow> pool_state \<Rightarrow> node \<Rightarrow> node \<Rightarrow> app \<Rightarrow> bool" where
  "takes E who st common pool a =
     (if \<not> installed a then False
      else if \<not> app_settled (now (kern E)) (settle E) a then False
      else if map_of (withheld st) (app_id a) \<noteq> None then False
      else
        let f = flts E Harvesting who PoolApps; name = manifest_name (app_id a)
        in if (case read_app_at (f [name]) pool name of
                 Inl e \<Rightarrow> False
               | Inr have' \<Rightarrow>
                   is_dir_at (f [common_dir, install_dir have']) (entry pool common_dir) (install_dir have')
                   \<and> \<not> newer_build (build_id a) (build_id have'))
           then False
           else is_dir_at (flts E Harvesting who (Outside common_dir) [install_dir a]) common (install_dir a))"

fun harvest_apps ::
  "env \<Rightarrow> string \<Rightarrow> pool_state \<Rightarrow> node \<Rightarrow> app list \<Rightarrow> node \<Rightarrow> report \<Rightarrow> node \<times> report \<times> pool_error option" where
  "harvest_apps E who st common [] pool rep = (pool, rep, None)"
| "harvest_apps E who st common (a # apps) pool rep =
     (if \<not> takes E who st common pool a then harvest_apps E who st common apps pool rep
      else case clone_to E Harvesting who common (install_dir a) (entry pool common_dir) (own E) False of
        (c', r, Some e) \<Rightarrow> (change common_dir c' pool, rep, Some (CloneErr (app_name a) e))
      | (c', r, None) \<Rightarrow>
          (case copy_manifest (kern E) (flts E Harvesting who PoolApps) (app_data a)
                  (change common_dir c' pool) (manifest_name (app_id a)) (own E) of
             (pool', Some e) \<Rightarrow> (pool', note_copied (app_name a) r rep, Some (FsErr e))
           | (pool', None) \<Rightarrow>
               (let rep' = note_copied (app_name a) r rep
                in harvest_apps E who st common apps pool'
                     (rep'\<lparr>harvested := harvested rep' @
                        [\<lparr>mv_app = app_id a, mv_name = app_name a, mv_seat = who, mv_bytes = bytes r\<rparr>]\<rparr>))))"

definition harvest_from ::
  "env \<Rightarrow> string \<Rightarrow> pool_state \<Rightarrow> node \<Rightarrow> app list \<Rightarrow> world \<Rightarrow> report \<Rightarrow> world \<times> report \<times> pool_error option" where
  "harvest_from E who st lib apps w rep =
     (case open_dir_at (flts E Harvesting who (Outside common_dir) []) lib common_dir of
        Inl e \<Rightarrow> if e = NoEntry then (w, rep, None) else (w, rep, Some (FsErr e))
      | Inr common \<Rightarrow>
          (case open_place (flts E Harvesting who PoolApps) w PoolApps of
             Inl e \<Rightarrow> (w, rep, Some (FsErr e))
           | Inr pool \<Rightarrow>
               (case open_dir_at (flts E Harvesting who PoolApps [common_dir]) pool common_dir of
                  Inl e \<Rightarrow> (w, rep, Some (FsErr e))
                | Inr pc \<Rightarrow>
                    (case harvest_apps E who st common apps pool rep of
                       (pool', rep', err) \<Rightarrow> (w\<lparr>pool_apps := pool'\<rparr>, rep', err)))))"

fun mark_apps :: "string \<Rightarrow> app list \<Rightarrow> pool_state \<Rightarrow> pool_state" where
  "mark_apps seat [] st = st"
| "mark_apps seat (a # apps) st = mark_apps seat apps (mark seat (app_id a) status_delivered st)"

definition harvest ::
  "env \<Rightarrow> member \<Rightarrow> pool_state \<Rightarrow> world \<Rightarrow> report \<Rightarrow> pool_state \<times> world \<times> report \<times> pool_error option" where
  "harvest E m st w rep =
     (case open_place (flts E Harvesting (mem_name m) (apps_place m)) w (apps_place m) of
        Inl e \<Rightarrow> (st, w, rep, Some (FsErr e))
      | Inr lib \<Rightarrow>
          (case read_apps_at (flts E Harvesting (mem_name m) (apps_place m)) lib of
             Inl e \<Rightarrow> (st, w, rep, Some (FsErr e))
           | Inr apps \<Rightarrow>
               (let st' = mark_apps (mem_name m) apps st
                in case harvest_from E (mem_name m) st' lib apps w rep of
                     (w', rep', err) \<Rightarrow> (st', w', rep', err))))"

definition host_label :: string where "host_label = ''host''"

definition harvest_source ::
  "env \<Rightarrow> string \<Rightarrow> pool_state \<Rightarrow> world \<Rightarrow> report \<Rightarrow> world \<times> report \<times> pool_error option" where
  "harvest_source E src st w rep =
     (case open_place (flts E Harvesting src (Outside src)) w (Outside src) of
        Inl e \<Rightarrow> (w, rep, Some (FsErr e))
      | Inr lib \<Rightarrow>
          (case read_apps_at (flts E Harvesting src (Outside src)) lib of
             Inl e \<Rightarrow> (w, rep, Some (FsErr e))
           | Inr apps \<Rightarrow> harvest_from E host_label st lib apps w rep))"

section \<open>Taking folders in\<close>

fun harvest_each_folder ::
  "env \<Rightarrow> string \<Rightarrow> node \<Rightarrow> folder list \<Rightarrow> pool_state \<Rightarrow> node \<Rightarrow> report
     \<Rightarrow> pool_state \<times> node \<times> report \<times> pool_error option" where
  "harvest_each_folder E who dir [] st pool rep = (st, pool, rep, None)"
| "harvest_each_folder E who dir (f # fs) st pool rep =
     (let st1 = mark who (folder_key (f_name f)) status_delivered st;
          have' = map_of (folders st1) (f_name f)
      in if \<not> folder_settled (now (kern E)) (settle E) f
         then harvest_each_folder E who dir fs st1 pool rep
         else if (case have' of
                    None \<Rightarrow> False
                  | Some h \<Rightarrow> is_dir_at (flts E FolderIn who PoolFolders [f_name f]) pool (f_name f)
                              \<and> \<not> folder_newer f h)
         then harvest_each_folder E who dir fs st1 pool rep
         else case clone_to E FolderIn who dir (f_name f) pool (own E) True of
           (pool', r, Some e) \<Rightarrow> (st1, pool', rep, Some (CloneErr (f_name f) e))
         | (pool', r, None) \<Rightarrow>
             (let rep1 = note_copied (f_name f) r rep
              in case folder_at (\<lambda>p. flts E FolderIn who PoolFolders (f_name f # p))
                        (wflts E FolderIn who PoolFolders (f_name f)) pool' (f_name f) of
                   Inl (FolderName e) \<Rightarrow> (st1, pool', rep1, Some (NameErr e))
                 | Inl (FolderFs e) \<Rightarrow> (st1, pool', rep1, Some (FsErr e))
                 | Inr stored \<Rightarrow>
                     harvest_each_folder E who dir fs
                       (st1\<lparr>folders := AList.update (f_name f) stored (folders st1)\<rparr>) pool'
                       (rep1\<lparr>harvested := harvested rep1 @
                          [\<lparr>mv_app = folder_key (f_name f), mv_name = f_name f, mv_seat = who,
                            mv_bytes = bytes r\<rparr>]\<rparr>)))"

text \<open>\<open>harvestFolders\<close>, with what it found, if it got as far as reading it.\<close>

definition harvest_folders ::
  "env \<Rightarrow> member \<Rightarrow> pool_state \<Rightarrow> world \<Rightarrow> report
     \<Rightarrow> pool_state \<times> world \<times> report \<times> folder list option \<times> pool_error option" where
  "harvest_folders E m st w rep =
     (let who = mem_name m
      in case folders_dir (\<lambda>p. flts E FolderIn who (the (folders_place m)) p) w m of
        Inl e \<Rightarrow> (st, w, rep, None, Some (FsErr e))
      | Inr None \<Rightarrow> (st, w, rep, None, None)
      | Inr (Some (pl, dir)) \<Rightarrow>
          (case scan_folders_at (\<lambda>n p. flts E FolderIn who pl (n # p)) (wflts E FolderIn who pl)
                  (\<lambda>n. flts E FolderIn who pl [n]) dir of
             Inl e \<Rightarrow> (st, w, rep, None, Some (FsErr e))
           | Inr fs \<Rightarrow>
               (case open_place (flts E FolderIn who PoolFolders) w PoolFolders of
                  Inl e \<Rightarrow> (st, w, rep, Some fs, Some (FsErr e))
                | Inr pool \<Rightarrow>
                    (case harvest_each_folder E who dir fs st pool rep of
                       (st', pool', rep', err) \<Rightarrow>
                         (st', w\<lparr>pool_folders := pool'\<rparr>, rep', Some fs, err)))))"

section \<open>Handing out\<close>

text \<open>
  The switch \<open>distribute\<close> and \<open>distributeFolders\<close> share. \<open>have'\<close> says whether the member has
  a copy and whether the pool's is newer than it.
\<close>

datatype choice = Leave | Wait | Decline | Give

definition decide :: "bool option \<Rightarrow> bool \<Rightarrow> string \<Rightarrow> choice" where
  "decide have' upd s =
     (case have' of
        Some newer' \<Rightarrow> if \<not> newer' then Leave else if \<not> upd then Wait else Give
      | None \<Rightarrow> if s = status_declined then Leave else if s = status_delivered then Decline else Give)"

definition present_apps :: "app list \<Rightarrow> string \<Rightarrow> app option" where
  "present_apps apps = map_of (rev (map (\<lambda>a. (app_id a, a)) apps))"

definition app_move :: "app \<Rightarrow> string \<Rightarrow> int \<Rightarrow> move" where
  "app_move a seat n = \<lparr>mv_app = app_id a, mv_name = app_name a, mv_seat = seat, mv_bytes = n\<rparr>"

text \<open>The member's \<open>common\<close>, made for the first title that is given.\<close>

definition open_common ::
  "env \<Rightarrow> member \<Rightarrow> bool \<Rightarrow> node \<Rightarrow> node \<times> fs_error option" where
  "open_common E m opened lib =
     (if opened then (lib, None)
      else let c = flts E Giving (mem_name m) (apps_place m) [common_dir]
           in case ensure_dir_at (kern E) c lib common_dir 493 of
             (lib', Inl e) \<Rightarrow> (lib', Some e)
           | (lib', Inr (sub, created)) \<Rightarrow>
               if created \<and> c SChown then (lib', Some (Failed SChown))
               else (if created then change common_dir (chown (mem_owner m) sub) lib' else lib', None))"

text \<open>One title that is to be given: the library, whether its \<open>common\<close> is open now, and what came of it.\<close>

datatype given = NotInPool | Refused pool_error | Handed result

definition give_app ::
  "env \<Rightarrow> member \<Rightarrow> node \<Rightarrow> app \<Rightarrow> bool \<Rightarrow> node \<Rightarrow> node \<times> bool \<times> given" where
  "give_app E m pc a opened lib =
     (let who = mem_name m; pl = apps_place m
      in if \<not> is_dir_at (flts E Giving who PoolApps [install_dir a]) pc (install_dir a) then (lib, opened, NotInPool)
         else case open_common E m opened lib of
           (lib1, Some e) \<Rightarrow> (lib1, opened, Refused (FsErr e))
         | (lib1, None) \<Rightarrow>
             (case clone_to E Giving who pc (install_dir a) (entry lib1 common_dir) (mem_owner m) False of
                (c', r, Some e) \<Rightarrow> (change common_dir c' lib1, True, Refused (CloneErr (app_name a) e))
              | (c', r, None) \<Rightarrow>
                  (case copy_manifest (kern E) (flts E Giving who pl) (app_data a) (change common_dir c' lib1)
                          (manifest_name (app_id a)) (mem_owner m) of
                     (lib2, Some e) \<Rightarrow> (lib2, True, Refused (FsErr e))
                   | (lib2, None) \<Rightarrow> (lib2, True, Handed r))))"

fun give_apps ::
  "env \<Rightarrow> member \<Rightarrow> (string \<Rightarrow> app option) \<Rightarrow> node \<Rightarrow> app list \<Rightarrow> bool \<Rightarrow> pool_state \<Rightarrow> node \<Rightarrow> report
     \<Rightarrow> pool_state \<times> node \<times> report \<times> pool_error option" where
  "give_apps E m present pc [] opened st lib rep = (st, lib, rep, None)"
| "give_apps E m present pc (a # apps) opened st lib rep =
     (if \<not> installed a then give_apps E m present pc apps opened st lib rep
      else case decide (map_option (\<lambda>here. newer_build (build_id a) (build_id here)) (present (app_id a)))
                  (updatable m) (status st (mem_name m) (app_id a)) of
        Leave \<Rightarrow> give_apps E m present pc apps opened st lib rep
      | Wait \<Rightarrow> give_apps E m present pc apps opened st lib
                  (rep\<lparr>pending := pending rep @ [app_move a (mem_name m) 0]\<rparr>)
      | Decline \<Rightarrow>
          give_apps E m present pc apps opened (mark (mem_name m) (app_id a) status_declined st) lib
            (rep\<lparr>declined := declined rep @ [app_move a (mem_name m) 0]\<rparr>)
      | Give \<Rightarrow>
          (case give_app E m pc a opened lib of
             (lib', opened', NotInPool) \<Rightarrow> give_apps E m present pc apps opened' st lib' rep
           | (lib', opened', Refused e) \<Rightarrow> (st, lib', rep, Some e)
           | (lib', opened', Handed r) \<Rightarrow>
               give_apps E m present pc apps opened' (mark (mem_name m) (app_id a) status_delivered st) lib'
                 (rep\<lparr>handed := handed rep @ [app_move a (mem_name m) (bytes r)]\<rparr>)))"

definition distribute ::
  "env \<Rightarrow> member \<Rightarrow> app list \<Rightarrow> pool_state \<Rightarrow> world \<Rightarrow> report
     \<Rightarrow> pool_state \<times> world \<times> report \<times> pool_error option" where
  "distribute E m pool st w rep =
     (let who = mem_name m; pl = apps_place m
      in case open_place (flts E Giving who pl) w pl of
        Inl e \<Rightarrow> (st, w, rep, Some (FsErr e))
      | Inr lib \<Rightarrow>
          (case read_apps_at (flts E Giving who pl) lib of
             Inl e \<Rightarrow> (st, w, rep, Some (FsErr e))
           | Inr apps \<Rightarrow>
               (case open_dir_at (flts E Giving who PoolApps [common_dir]) (pool_apps w) common_dir of
                  Inl e \<Rightarrow> (st, w, rep, Some (FsErr e))
                | Inr pc \<Rightarrow>
                    (case give_apps E m (present_apps apps) pc pool False st lib rep of
                       (st', lib', rep', err) \<Rightarrow> (st', store_place pl lib' w, rep', err)))))"

definition folder_move :: "string \<Rightarrow> string \<Rightarrow> int \<Rightarrow> move" where
  "folder_move name seat n = \<lparr>mv_app = folder_key name, mv_name = name, mv_seat = seat, mv_bytes = n\<rparr>"

fun give_folders ::
  "env \<Rightarrow> member \<Rightarrow> (string \<Rightarrow> folder option) \<Rightarrow> node \<Rightarrow> string list \<Rightarrow> pool_state \<Rightarrow> node \<Rightarrow> report
     \<Rightarrow> pool_state \<times> node \<times> report \<times> pool_error option" where
  "give_folders E m here pool [] st dir rep = (st, dir, rep, None)"
| "give_folders E m here pool (name # names) st dir rep =
     (let who = mem_name m; pooled = the (map_of (folders st) name)
      in if \<not> is_dir_at (flts E FolderOut who PoolFolders [name]) pool name
         then give_folders E m here pool names st dir rep
         else case decide (map_option (\<lambda>mine. folder_newer pooled mine) (here name))
                     (updatable m) (status st who (folder_key name)) of
           Leave \<Rightarrow> give_folders E m here pool names st dir rep
         | Wait \<Rightarrow> give_folders E m here pool names st dir
                     (rep\<lparr>pending := pending rep @ [folder_move name who 0]\<rparr>)
         | Decline \<Rightarrow>
             give_folders E m here pool names (mark who (folder_key name) status_declined st) dir
               (rep\<lparr>declined := declined rep @ [folder_move name who 0]\<rparr>)
         | Give \<Rightarrow>
             (case clone_to E FolderOut who pool name dir (mem_owner m) True of
                (dir', r, Some e) \<Rightarrow> (st, dir', rep, Some (CloneErr name e))
              | (dir', r, None) \<Rightarrow>
                  give_folders E m here pool names (mark who (folder_key name) status_delivered st) dir'
                    (rep\<lparr>handed := handed rep @ [folder_move name who (bytes r)]\<rparr>)))"

text \<open>The folder the member has under a name: of two, the last one read.\<close>

definition here_folders :: "folder list \<Rightarrow> string \<Rightarrow> folder option" where
  "here_folders fs = map_of (rev (map (\<lambda>f. (f_name f, f)) fs))"

definition distribute_folders ::
  "env \<Rightarrow> member \<Rightarrow> folder list \<Rightarrow> pool_state \<Rightarrow> world \<Rightarrow> report
     \<Rightarrow> pool_state \<times> world \<times> report \<times> pool_error option" where
  "distribute_folders E m fs st w rep =
     (let who = mem_name m
      in case folders_dir (\<lambda>p. flts E FolderOut who (the (folders_place m)) p) w m of
        Inl e \<Rightarrow> (st, w, rep, Some (FsErr e))
      | Inr None \<Rightarrow> (st, w, rep, None)
      | Inr (Some (pl, dir)) \<Rightarrow>
          (case open_place (flts E FolderOut who PoolFolders) w PoolFolders of
             Inl e \<Rightarrow> (st, w, rep, Some (FsErr e))
           | Inr pool \<Rightarrow>
               (case give_folders E m (here_folders fs) pool (sort (map fst (folders st))) st dir rep of
                  (st', dir', rep', err) \<Rightarrow> (st', store_place pl dir' w, rep', err))))"

section \<open>Sync\<close>

record pool =
  st :: pool_state
  saved :: "pool_state option"
  wd :: world

text \<open>\<open>load\<close> and \<open>save\<close>: the state file has the state as a whole.\<close>

definition load_state :: "pool \<Rightarrow> pool" where
  "load_state p = p\<lparr>st := case saved p of None \<Rightarrow> no_state | Some s \<Rightarrow> s\<rparr>"

definition save_state :: "env \<Rightarrow> pool \<Rightarrow> pool \<times> pool_error option" where
  "save_state E p = (if save_fails E then (p, Some NotSaved) else (p\<lparr>saved := Some (st p)\<rparr>, None))"

definition trouble :: "string \<Rightarrow> pool_error option \<Rightarrow> report \<Rightarrow> report" where
  "trouble who err rep =
     (case err of None \<Rightarrow> rep | Some e \<Rightarrow> rep\<lparr>problems := problems rep @ [Trouble who e]\<rparr>)"

definition joined :: "member list \<Rightarrow> string \<Rightarrow> bool" where
  "joined ms src = list_ex (\<lambda>m. external m \<and> mem_apps m = src) ms"

fun sync_sources :: "env \<Rightarrow> member list \<Rightarrow> string list \<Rightarrow> pool_state \<Rightarrow> world \<Rightarrow> report \<Rightarrow> world \<times> report" where
  "sync_sources E ms [] s w rep = (w, rep)"
| "sync_sources E ms (src # srcs) s w rep =
     (if joined ms src then sync_sources E ms srcs s w rep
      else case harvest_source E src s w rep of
        (w', rep', err) \<Rightarrow> sync_sources E ms srcs s w' (trouble src err rep'))"

fun sync_ensure :: "env \<Rightarrow> member list \<Rightarrow> world \<Rightarrow> report \<Rightarrow> member list \<times> world \<times> report" where
  "sync_ensure E [] w rep = ([], w, rep)"
| "sync_ensure E (m # ms) w rep =
     (case ensure_member (kern E) (flts E Ensuring (mem_name m) (SeatDir (mem_name m) [])) m w of
        (w', Some e) \<Rightarrow> sync_ensure E ms w' (trouble (mem_name m) (Some (FsErr e)) rep)
      | (w', None) \<Rightarrow>
          (case sync_ensure E ms w' rep of (ready, w'', rep') \<Rightarrow> (m # ready, w'', rep')))"

fun sync_harvest :: "env \<Rightarrow> member list \<Rightarrow> pool_state \<Rightarrow> world \<Rightarrow> report \<Rightarrow> pool_state \<times> world \<times> report" where
  "sync_harvest E [] s w rep = (s, w, rep)"
| "sync_harvest E (m # ms) s w rep =
     (case harvest E m s w rep of
        (s', w', rep', err) \<Rightarrow> sync_harvest E ms s' w' (trouble (mem_name m) err rep'))"

fun sync_folders ::
  "env \<Rightarrow> member list \<Rightarrow> pool_state \<Rightarrow> world \<Rightarrow> report
     \<Rightarrow> pool_state \<times> world \<times> report \<times> (string \<times> folder list) list" where
  "sync_folders E [] s w rep = (s, w, rep, [])"
| "sync_folders E (m # ms) s w rep =
     (case harvest_folders E m s w rep of
        (s', w', rep', fs, err) \<Rightarrow>
          (case sync_folders E ms s' w' (trouble (mem_name m) err rep') of
             (s2, w2, rep2, scans) \<Rightarrow>
               (s2, w2, rep2, (case fs of None \<Rightarrow> scans | Some l \<Rightarrow> (mem_name m, l) # scans))))"

text \<open>A later scan of the same name is the one that counts, as in the map the code keeps.\<close>

definition scan_of :: "(string \<times> folder list) list \<Rightarrow> string \<Rightarrow> folder list option" where
  "scan_of scans who = map_of (rev scans) who"

fun sync_give ::
  "env \<Rightarrow> app list \<Rightarrow> (string \<times> folder list) list \<Rightarrow> member list \<Rightarrow> pool_state \<Rightarrow> world \<Rightarrow> report
     \<Rightarrow> pool_state \<times> world \<times> report" where
  "sync_give E apps scans [] s w rep = (s, w, rep)"
| "sync_give E apps scans (m # ms) s w rep =
     (case distribute E m apps s w rep of
        (s1, w1, rep1, err1) \<Rightarrow>
          (case scan_of scans (mem_name m) of
             None \<Rightarrow> sync_give E apps scans ms s1 w1 (trouble (mem_name m) err1 rep1)
           | Some fs \<Rightarrow>
               (case distribute_folders E m fs s1 w1 (trouble (mem_name m) err1 rep1) of
                  (s2, w2, rep2, err2) \<Rightarrow>
                    sync_give E apps scans ms s2 w2 (trouble (mem_name m) err2 rep2))))"

definition sync :: "env \<Rightarrow> member list \<Rightarrow> pool \<Rightarrow> pool \<times> report \<times> pool_error option" where
  "sync E ms p =
     (case sync_sources E ms (sources (st p)) (st p) (wd p) no_report of
        (w1, rep1) \<Rightarrow>
      (case sync_ensure E ms w1 rep1 of
        (ready, w2, rep2) \<Rightarrow>
      (case sync_harvest E ready (st p) w2 rep2 of
        (s3, w3, rep3) \<Rightarrow>
      (case read_apps_at (flts E Giving [] PoolApps) (pool_apps w3) of
        Inl e \<Rightarrow> (p\<lparr>st := s3, wd := w3\<rparr>, rep3, Some (FsErr e))
      | Inr apps \<Rightarrow>
      (case sync_folders E ready s3 w3 rep3 of
        (s4, w4, rep4, scans) \<Rightarrow>
      (case sync_give E apps scans ready s4 w4 rep4 of
        (s5, w5, rep5) \<Rightarrow>
      (case save_state E (p\<lparr>st := s5, wd := w5\<rparr>) of (p', err) \<Rightarrow> (p', rep5, err))))))))"

end
