(* ===== verification/Pool_Ask.thy ===== *)
theory Pool_Ask
  imports Pool_Sync
begin

text \<open>
  What people ask of the pool (\<open>internal/library/pool.go\<close>): libraries to track, titles to
  take away, marks to clear, and what there is.
\<close>

section \<open>Tracked libraries\<close>

text \<open>
  \<open>AddSource\<close> and \<open>RemoveSource\<close>. \<open>resolved\<close> is what \<open>filepath.EvalSymlinks\<close> answers.
\<close>

definition inside_root :: "string \<Rightarrow> string \<Rightarrow> bool" where
  "inside_root root p = has_prefix (p @ ''/'') (root @ ''/'')"

definition add_source ::
  "env \<Rightarrow> string \<Rightarrow> string option \<Rightarrow> string \<Rightarrow> pool \<Rightarrow> pool \<times> report \<times> pool_error option" where
  "add_source E root resolved path p =
     (case resolved of
        None \<Rightarrow> (p, no_report, Some (NoPath path))
      | Some src \<Rightarrow>
          if inside_root root src then (p, no_report, Some (InsideLibrary src))
          else
            let s = st p;
                s1 = (if src \<in> set (sources s) then s else s\<lparr>sources := sort (sources s @ [src])\<rparr>);
                s2 = s1\<lparr>unwatched := filter (\<lambda>u. u \<noteq> src) (unwatched s1)\<rparr>
            in case harvest_source E src s2 (wd p) no_report of
                 (w', rep, Some e) \<Rightarrow> (p\<lparr>st := s2, wd := w'\<rparr>, rep, Some e)
               | (w', rep, None) \<Rightarrow>
                   (case save_state E (p\<lparr>st := s2, wd := w'\<rparr>) of (p', err) \<Rightarrow> (p', rep, err)))"

definition remove_source :: "env \<Rightarrow> string \<Rightarrow> pool \<Rightarrow> pool \<times> pool_error option" where
  "remove_source E src p =
     (let s = st p; s1 = s\<lparr>sources := filter (\<lambda>u. u \<noteq> src) (sources s)\<rparr>;
          s2 = (if src \<in> set (unwatched s1) then s1
                else s1\<lparr>unwatched := sort (unwatched s1 @ [src])\<rparr>)
      in save_state E (p\<lparr>st := s2\<rparr>))"

section \<open>Taking a title away\<close>

text \<open>
  \<open>removeLocked\<close>. The pool's own directories are the daemon's, so \<open>os.RemoveAll\<close> is the same
  removal; the manifest is removed last.
\<close>

definition remove_locked :: "env \<Rightarrow> string \<Rightarrow> pool \<Rightarrow> pool \<times> pool_error option" where
  "remove_locked E appid p =
     (case folder_name_of appid of
        Some name \<Rightarrow>
          (case safe_name name of
             Some e \<Rightarrow> (p, Some (NameErr e))
           | None \<Rightarrow>
               (case remove_all_at (kern E) (\<lambda>q. flts E Dropping [] PoolFolders (name # q))
                       (pool_folders (wd p)) name of
                  (d, Some e) \<Rightarrow> (p\<lparr>wd := (wd p)\<lparr>pool_folders := d\<rparr>\<rparr>, Some (FsErr e))
                | (d, None) \<Rightarrow>
                    save_state E (p\<lparr>wd := (wd p)\<lparr>pool_folders := d\<rparr>,
                                    st := (st p)\<lparr>folders := AList.delete name (folders (st p))\<rparr>\<rparr>)))
      | None \<Rightarrow>
          (case safe_name (manifest_name appid) of
             Some e \<Rightarrow> (p, Some (NameErr e))
           | None \<Rightarrow>
               (let file = manifest_name appid; f = flts E Dropping [] PoolApps; d = pool_apps (wd p)
                in case read_app_at (f [file]) d file of
                  Inl e \<Rightarrow> (p, Some e)
                | Inr a \<Rightarrow>
                    (case safe_name (install_dir a) of
                       Some e \<Rightarrow> (p, Some (NameErr e))
                     | None \<Rightarrow>
                         (case remove_all_at (kern E) (\<lambda>q. f (common_dir # install_dir a # q))
                                 (entry d common_dir) (install_dir a) of
                            (c, Some e) \<Rightarrow>
                              (p\<lparr>wd := (wd p)\<lparr>pool_apps := change common_dir c d\<rparr>\<rparr>, Some (FsErr e))
                          | (c, None) \<Rightarrow>
                              (let d' = change common_dir c d
                               in if f [file] SUnlink
                                  then (p\<lparr>wd := (wd p)\<lparr>pool_apps := d'\<rparr>\<rparr>, Some (FsErr (Failed SUnlink)))
                                  else (p\<lparr>wd := (wd p)\<lparr>pool_apps := del (kern E) file d'\<rparr>\<rparr>, None)))))))"

text \<open>\<open>dropApp\<close>: the manifest first, then the game and what Steam keeps beside it.\<close>

fun drop_subs ::
  "env \<Rightarrow> string \<Rightarrow> place \<Rightarrow> (string \<times> string) list \<Rightarrow> node \<Rightarrow> node \<times> fs_error option" where
  "drop_subs E who pl [] lib = (lib, None)"
| "drop_subs E who pl ((sub, name) # rest) lib =
     (case open_dir_at (flts E Dropping who pl [sub]) lib sub of
        Inl e \<Rightarrow> if e = NoEntry then drop_subs E who pl rest lib else (lib, Some e)
      | Inr parent \<Rightarrow>
          (case remove_all_at (kern E) (\<lambda>q. flts E Dropping who pl (sub # name # q)) parent name of
             (parent', Some e) \<Rightarrow> (change sub parent' lib, Some e)
           | (parent', None) \<Rightarrow> drop_subs E who pl rest (change sub parent' lib)))"

definition drop_app :: "env \<Rightarrow> member \<Rightarrow> app \<Rightarrow> world \<Rightarrow> world \<times> pool_error option" where
  "drop_app E m a w =
     (let who = mem_name m; pl = apps_place m
      in case open_place (flts E Dropping who pl) w pl of
        Inl e \<Rightarrow> (w, Some (FsErr e))
      | Inr lib \<Rightarrow>
          (case remove_all_at (kern E) (\<lambda>q. flts E Dropping who pl (manifest_name (app_id a) # q))
                  lib (manifest_name (app_id a)) of
             (lib1, Some e) \<Rightarrow> (store_place pl lib1 w, Some (FsErr e))
           | (lib1, None) \<Rightarrow>
               (case drop_subs E who pl [(common_dir, install_dir a), (''shadercache'', app_id a),
                                         (''downloading'', app_id a)] lib1 of
                  (lib2, err) \<Rightarrow> (store_place pl lib2 w, map_option FsErr err))))"

definition drop_folder :: "env \<Rightarrow> member \<Rightarrow> string \<Rightarrow> world \<Rightarrow> world \<times> pool_error option" where
  "drop_folder E m name w =
     (case folders_dir (flts E Dropping (mem_name m) (the (folders_place m))) w m of
        Inl e \<Rightarrow> (w, Some (FsErr e))
      | Inr None \<Rightarrow> (w, None)
      | Inr (Some (pl, dir)) \<Rightarrow>
          (case remove_all_at (kern E) (\<lambda>q. flts E Dropping (mem_name m) pl (name # q)) dir name of
             (dir', err) \<Rightarrow> (store_place pl dir' w, map_option FsErr err)))"

text \<open>
  The first half of \<open>Uninstall\<close>, which only looks: a tracked library that has the title and
  may not be written; then who has it, and who of them is using it.
\<close>

fun kept_by_source :: "env \<Rightarrow> member list \<Rightarrow> string \<Rightarrow> world \<Rightarrow> string list \<Rightarrow> string option" where
  "kept_by_source E ms appid w [] = None"
| "kept_by_source E ms appid w (src # srcs) =
     (if joined ms src then kept_by_source E ms appid w srcs
      else case open_place (flts E Asking src (Outside src)) w (Outside src) of
        Inl e \<Rightarrow> kept_by_source E ms appid w srcs
      | Inr dir \<Rightarrow>
          (case read_app_at (flts E Asking src (Outside src) [manifest_name appid]) dir (manifest_name appid) of
             Inr a \<Rightarrow> Some src
           | Inl e \<Rightarrow> kept_by_source E ms appid w srcs))"

text \<open>What one member has of it: an app, a folder (with no app), or nothing.\<close>

datatype holding = Lacks | HasFolder | HasApp app

definition holding_of ::
  "env \<Rightarrow> string option \<Rightarrow> string \<Rightarrow> member \<Rightarrow> world \<Rightarrow> pool_error + holding" where
  "holding_of E folder' appid m w =
     (let who = mem_name m
      in case folder' of
        Some name \<Rightarrow>
          (case folders_dir (flts E Asking who (the (folders_place m))) w m of
             Inl e \<Rightarrow> Inl (FsErr e)
           | Inr None \<Rightarrow> Inr Lacks
           | Inr (Some (pl, dir)) \<Rightarrow>
               Inr (if is_dir_at (flts E Asking who pl [name]) dir name then HasFolder else Lacks))
      | None \<Rightarrow>
          (case open_place (flts E Asking who (apps_place m)) w (apps_place m) of
             Inl e \<Rightarrow> Inl (FsErr e)
           | Inr dir \<Rightarrow>
               (case read_app_at (flts E Asking who (apps_place m) [manifest_name appid]) dir (manifest_name appid) of
                  Inl e \<Rightarrow> Inr Lacks
                | Inr a \<Rightarrow> (case safe_name (install_dir a) of
                              Some e \<Rightarrow> Inl (NameErr e)
                            | None \<Rightarrow> Inr (HasApp a)))))"

fun holdings ::
  "env \<Rightarrow> string option \<Rightarrow> string \<Rightarrow> world \<Rightarrow> member list \<Rightarrow> pool_error + (member \<times> holding) list" where
  "holdings E folder' appid w [] = Inr []"
| "holdings E folder' appid w (m # ms) =
     (case holding_of E folder' appid m w of
        Inl e \<Rightarrow> Inl e
      | Inr h \<Rightarrow>
          (case holdings E folder' appid w ms of
             Inl e \<Rightarrow> Inl e
           | Inr hs \<Rightarrow> Inr (if h = Lacks then hs else (m, h) # hs)))"

fun title_of :: "string \<Rightarrow> (member \<times> holding) list \<Rightarrow> string" where
  "title_of t [] = t"
| "title_of t ((m, HasApp a) # hs) = title_of (app_name a) hs"
| "title_of t ((m, h) # hs) = title_of t hs"

fun drop_each ::
  "env \<Rightarrow> string option \<Rightarrow> string \<Rightarrow> string \<Rightarrow> (member \<times> holding) list \<Rightarrow> world \<Rightarrow> move list
     \<Rightarrow> world \<times> move list \<times> pool_error option" where
  "drop_each E folder' appid title [] w gone = (w, gone, None)"
| "drop_each E folder' appid title ((m, h) # hs) w gone =
     (case (case h of HasApp a \<Rightarrow> drop_app E m a w | _ \<Rightarrow> drop_folder E m (the folder') w) of
        (w', Some e) \<Rightarrow> (w', gone, Some e)
      | (w', None) \<Rightarrow>
          drop_each E folder' appid title hs w'
            (gone @ [\<lparr>mv_app = appid, mv_name = title, mv_seat = mem_name m, mv_bytes = 0\<rparr>]))"

text \<open>
  \<open>FolderName\<close> answers the id itself as the name of what is no folder, which is what a title
  found nowhere is still called at the end.
\<close>

definition forget_marks :: "string \<Rightarrow> pool_state \<Rightarrow> pool_state" where
  "forget_marks appid s = s\<lparr>delivered := (\<lambda>seat. (delivered s seat)(appid := []))\<rparr>"

definition withhold :: "string \<Rightarrow> string \<Rightarrow> pool_state \<Rightarrow> pool_state" where
  "withhold appid title s =
     (if title \<noteq> appid \<and> map_of (withheld s) appid = None
      then s\<lparr>withheld := AList.update appid title (withheld s)\<rparr> else s)"

definition uninstall ::
  "env \<Rightarrow> string \<Rightarrow> member list \<Rightarrow> pool \<Rightarrow> pool \<times> move list \<times> pool_error option" where
  "uninstall E appid ms p =
     (let folder' = folder_name_of appid; name = (case folder' of None \<Rightarrow> appid | Some n \<Rightarrow> n)
      in case safe_name (case folder' of None \<Rightarrow> manifest_name appid | Some n \<Rightarrow> n) of
        Some e \<Rightarrow> (p, [], Some (NameErr e))
      | None \<Rightarrow>
      (case (if folder' = None then kept_by_source E ms appid (wd p) (sources (st p)) else None) of
        Some src \<Rightarrow> (p, [], Some (AlsoIn appid src))
      | None \<Rightarrow>
      (case holdings E folder' appid (wd p) ms of
        Inl e \<Rightarrow> (p, [], Some e)
      | Inr hs \<Rightarrow>
          let title0 = title_of name hs;
              title = (case (if folder' = None
                             then read_app_at (flts E Asking [] PoolApps [manifest_name appid])
                                    (pool_apps (wd p)) (manifest_name appid)
                             else Inl TooLarge) of
                         Inr a \<Rightarrow> if app_name a \<noteq> [] then app_name a else title0
                       | Inl e \<Rightarrow> title0);
              busy = map (\<lambda>(m, h). mem_name m) (filter (\<lambda>(m, h). \<not> updatable m) hs)
          in if busy \<noteq> [] then (p, [], Some (Busy title busy))
             else case drop_each E folder' appid title hs (wd p) [] of
               (w', gone, Some e) \<Rightarrow>
                 (case save_state E (p\<lparr>wd := w'\<rparr>) of
                    (p', Some e') \<Rightarrow> (p', gone, Some e')
                  | (p', None) \<Rightarrow> (p', gone, Some e))
             | (w', gone, None) \<Rightarrow>
                 (case remove_locked E appid (p\<lparr>wd := w'\<rparr>) of
                    (p1, err) \<Rightarrow>
                      if err \<noteq> None \<and> err \<noteq> Some (FsErr NoEntry) then (p1, gone, err)
                      else
                        let s1 = forget_marks appid (st p1);
                            s2 = (if folder' = None then withhold appid title s1 else s1)
                        in (case save_state E (p1\<lparr>st := s2\<rparr>) of (p2, e2) \<Rightarrow> (p2, gone, e2))))))"

section \<open>Marks and questions\<close>

fun holders_of :: "env \<Rightarrow> string \<Rightarrow> world \<Rightarrow> member list \<Rightarrow> string list \<Rightarrow> string \<Rightarrow> string list \<times> string" where
  "holders_of E appid w [] found title = (found, title)"
| "holders_of E appid w (m # ms) found title =
     (case open_place (flts E Asking (mem_name m) (apps_place m)) w (apps_place m) of
        Inl e \<Rightarrow> holders_of E appid w ms found title
      | Inr dir \<Rightarrow>
          (case read_app_at (flts E Asking (mem_name m) (apps_place m) [manifest_name appid]) dir (manifest_name appid) of
             Inl e \<Rightarrow> holders_of E appid w ms found title
           | Inr a \<Rightarrow>
               holders_of E appid w ms (found @ [mem_name m])
                 (if found = [] \<and> app_name a \<noteq> [] then app_name a else title)))"

definition holders :: "env \<Rightarrow> string \<Rightarrow> member list \<Rightarrow> pool \<Rightarrow> string list \<times> string" where
  "holders E appid ms p =
     (if folder_name_of appid \<noteq> None \<or> safe_name (manifest_name appid) \<noteq> None then ([], appid)
      else holders_of E appid (wd p) ms [] appid)"

definition readmit :: "env \<Rightarrow> string \<Rightarrow> pool \<Rightarrow> pool \<times> pool_error option" where
  "readmit E appid p =
     (if map_of (withheld (st p)) appid = None then (p, Some (NotHeld appid))
      else save_state E (p\<lparr>st := (st p)\<lparr>withheld := AList.delete appid (withheld (st p))\<rparr>\<rparr>))"

definition offer :: "env \<Rightarrow> string \<Rightarrow> string \<Rightarrow> pool \<Rightarrow> pool \<times> pool_error option" where
  "offer E seat appid p =
     save_state E (p\<lparr>st := (st p)\<lparr>delivered :=
       (delivered (st p))(seat := (delivered (st p) seat)(appid := []))\<rparr>\<rparr>)"

definition forget :: "env \<Rightarrow> string \<Rightarrow> pool \<Rightarrow> pool \<times> pool_error option" where
  "forget E seat p =
     save_state E (p\<lparr>st := (st p)\<lparr>delivered := (delivered (st p))(seat := (\<lambda>_. []))\<rparr>\<rparr>)"

section \<open>What there is\<close>

record title =
  t_steam :: bool
  t_app :: string
  t_name :: string
  t_dir :: string
  t_build :: string
  t_bytes :: int
  t_in :: "string list"
  t_declined :: "string list"
  t_stale :: "string list"

record inventory =
  i_titles :: "title list"
  i_bytes :: int
  i_saved :: int
  i_withheld :: "title list"

text \<open>The builds each member has, of the members whose library can be read.\<close>

fun member_builds :: "env \<Rightarrow> world \<Rightarrow> member list \<Rightarrow> (string \<times> (string \<times> string) list) list" where
  "member_builds E w [] = []"
| "member_builds E w (m # ms) =
     (case open_place (flts E Asking (mem_name m) (apps_place m)) w (apps_place m) of
        Inl e \<Rightarrow> member_builds E w ms
      | Inr dir \<Rightarrow>
          (case read_apps_at (flts E Asking (mem_name m) (apps_place m)) dir of
             Inl e \<Rightarrow> member_builds E w ms
           | Inr apps \<Rightarrow> (mem_name m, map (\<lambda>a. (app_id a, build_id a)) apps) # member_builds E w ms))"

text \<open>The maps of the code: of two entries with one key, the last one counts.\<close>

definition build_in :: "(string \<times> (string \<times> string) list) list \<Rightarrow> string \<Rightarrow> string \<Rightarrow> string option" where
  "build_in bs seat appid =
     (case map_of (rev bs) seat of None \<Rightarrow> None | Some l \<Rightarrow> map_of (rev l) appid)"

definition app_title :: "pool_state \<Rightarrow> (string \<Rightarrow> string \<Rightarrow> string option) \<Rightarrow> string list \<Rightarrow> app \<Rightarrow> title" where
  "app_title s build ns a =
     \<lparr>t_steam = True, t_app = app_id a, t_name = app_name a, t_dir = install_dir a,
      t_build = build_id a, t_bytes = size_on_disk a,
      t_in = sort (filter (\<lambda>n. build n (app_id a) \<noteq> None) ns),
      t_declined = sort (filter (\<lambda>n. build n (app_id a) = None
                                     \<and> status s n (app_id a) = status_declined) ns),
      t_stale = sort (filter (\<lambda>n. case build n (app_id a) of
                                    None \<Rightarrow> False | Some b \<Rightarrow> newer_build (build_id a) b) ns)\<rparr>"

text \<open>A member is asked about a folder: nothing of its own, or what it has there.\<close>

definition folder_of ::
  "env \<Rightarrow> world \<Rightarrow> member \<Rightarrow> string \<Rightarrow> (folder_error + folder) option" where
  "folder_of E w m name =
     (case folders_dir (flts E Asking (mem_name m) (the (folders_place m))) w m of
        Inl e \<Rightarrow> None
      | Inr None \<Rightarrow> None
      | Inr (Some (pl, dir)) \<Rightarrow>
          Some (folder_at (\<lambda>p. flts E Asking (mem_name m) pl (name # p)) (wflts E Asking (mem_name m) pl name)
                  dir name))"

definition has_folder :: "(folder_error + folder) option \<Rightarrow> bool" where
  "has_folder x = (case x of Some (Inr f) \<Rightarrow> True | _ \<Rightarrow> False)"

definition stale_folder :: "folder \<Rightarrow> (folder_error + folder) option \<Rightarrow> bool" where
  "stale_folder pooled x = (case x of Some (Inr f) \<Rightarrow> folder_newer pooled f | _ \<Rightarrow> False)"

definition missing_folder :: "(folder_error + folder) option \<Rightarrow> bool" where
  "missing_folder x = (case x of Some (Inl e) \<Rightarrow> True | _ \<Rightarrow> False)"

definition folder_title :: "env \<Rightarrow> pool_state \<Rightarrow> world \<Rightarrow> member list \<Rightarrow> string \<Rightarrow> folder \<Rightarrow> title" where
  "folder_title E s w ms name pooled =
     \<lparr>t_steam = False, t_app = folder_key name, t_name = name, t_dir = name,
      t_build = [], t_bytes = f_bytes pooled,
      t_in = sort (map mem_name (filter (\<lambda>m. has_folder (folder_of E w m name)) ms)),
      t_declined = sort (map mem_name (filter (\<lambda>m. missing_folder (folder_of E w m name)
                           \<and> status s (mem_name m) (folder_key name) = status_declined) ms)),
      t_stale = sort (map mem_name (filter (\<lambda>m. stale_folder pooled (folder_of E w m name)) ms))\<rparr>"

text \<open>\<open>os.Stat\<close> follows a link; the pool's folders are the daemon's and have none.\<close>

definition pool_has_folder :: "env \<Rightarrow> world \<Rightarrow> string \<Rightarrow> bool" where
  "pool_has_folder E w name =
     (\<not> flts E Asking [] PoolFolders [name] SLstat \<and> map_of (entries (pool_folders w)) name \<noteq> None)"

definition folder_names :: "pool_state \<Rightarrow> string list" where
  "folder_names s = sort (map fst (folders s))"

text \<open>What the pool holds and what the copies would cost are sums of 64-bit integers, which wrap.\<close>

definition title_cost :: "title \<Rightarrow> int" where
  "title_cost t = t_bytes t * int (length (t_in t))"

definition take_inventory :: "env \<Rightarrow> member list \<Rightarrow> pool \<Rightarrow> inventory \<times> pool_error option" where
  "take_inventory E ms p =
     (let s = st p; w = wd p
      in case read_apps_at (flts E Asking [] PoolApps) (pool_apps w) of
        Inl e \<Rightarrow> (\<lparr>i_titles = [], i_bytes = 0, i_saved = 0, i_withheld = []\<rparr>, Some (FsErr e))
      | Inr apps \<Rightarrow>
          (let bs = member_builds E w ms;
               ts = map (app_title s (build_in bs) (map mem_name ms)) apps
                  @ map (\<lambda>n. folder_title E s w ms n (the (map_of (folders s) n)))
                      (filter (pool_has_folder E w) (folder_names s));
               held = filter (\<lambda>t. t_in t \<noteq> [])
                 (map (\<lambda>(appid, name).
                    \<lparr>t_steam = True, t_app = appid, t_name = name, t_dir = [], t_build = [], t_bytes = 0,
                     t_in = sort (filter (\<lambda>n. build_in bs n appid \<noteq> None) (map mem_name ms)),
                     t_declined = [], t_stale = []\<rparr>) (withheld s))
           in (\<lparr>i_titles = sort_key t_name ts, i_bytes = signed_take_bit 63 (sum_list (map t_bytes ts)),
                i_saved = signed_take_bit 63 (sum_list (map title_cost ts)), i_withheld = sort_key t_name held\<rparr>, None)))"

end
