(* ===== verification/Pool_Facts.thy ===== *)
theory Pool_Facts
  imports Pool_Ask
begin

text \<open>
  What the steps of the pool do to a library: manifests are read under names that do not
  collide, a manifest is written whole or not at all, and nothing else is touched.
\<close>

section \<open>Names of manifests\<close>

lemma manifest_name_inj [simp]: "manifest_name x = manifest_name y \<longleftrightarrow> x = y"
  by (simp add: manifest_name_def)

lemma manifest_name_other [simp]:
  "manifest_name x \<noteq> common_dir" "common_dir \<noteq> manifest_name x"
  "manifest_name x \<noteq> ''shadercache''" "manifest_name x \<noteq> ''downloading''"
  by (simp_all add: manifest_name_def common_dir_def)

lemma manifest_name_not_temp [simp]:
  "manifest_name x \<noteq> s @ ''.polyseat-tmp''" "s @ ''.polyseat-tmp'' \<noteq> manifest_name x"
  "common_dir \<noteq> s @ ''.polyseat-tmp''" "s @ ''.polyseat-tmp'' \<noteq> common_dir"
proof -
  have "last (manifest_name x) \<noteq> last (s @ ''.polyseat-tmp'')" by (simp add: manifest_name_def)
  then show "manifest_name x \<noteq> s @ ''.polyseat-tmp''" "s @ ''.polyseat-tmp'' \<noteq> manifest_name x" by metis+
  have "last common_dir \<noteq> last (s @ ''.polyseat-tmp'')" by (simp add: common_dir_def)
  then show "common_dir \<noteq> s @ ''.polyseat-tmp''" "s @ ''.polyseat-tmp'' \<noteq> common_dir" by metis+
qed

lemma has_suffix_iff: "has_suffix s p \<longleftrightarrow> (\<exists>t. s = t @ p)"
  by (auto simp: has_suffix_def has_prefix_iff rev_swap) (metis rev_rev_ident)

lemma component_manifest_name: "CHR ''/'' \<notin> set (manifest_name x) \<Longrightarrow> component (manifest_name x)"
  by (simp add: component_def manifest_name_def)

lemma component_temp: "component name \<Longrightarrow> component (name @ ''.polyseat-tmp'')"
  by (auto simp: component_def)

section \<open>Reading manifests\<close>

text \<open>An app as it is read: what its own manifest says.\<close>

definition read_from :: "string \<Rightarrow> app \<Rightarrow> bool" where
  "read_from data a \<longleftrightarrow>
     app_data a = data \<and> length data \<le> max_manifest
     \<and> (\<exists>a0. parse_manifest data = Inr a0 \<and> a = a0\<lparr>app_data := data, mod_time := mod_time a\<rparr>)"

definition well_read :: "app \<Rightarrow> bool" where
  "well_read a \<longleftrightarrow> read_from (app_data a) a"

lemma well_read_names:
  assumes "well_read a"
  shows "component (manifest_name (app_id a))" "folder_name_of (app_id a) = None"
    "installed a \<Longrightarrow> safe_name (install_dir a) = None"
proof -
  obtain a0 where p: "parse_manifest (app_data a) = Inr a0"
    and a: "a = a0\<lparr>app_data := app_data a, mod_time := mod_time a\<rparr>"
    using assms by (auto simp: well_read_def read_from_def)
  have f: "app_id a = app_id a0" "install_dir a = install_dir a0" by (subst a, simp)+
  note n = parse_manifest_names [OF p, folded f]
  show "component (manifest_name (app_id a))" using n(4) by (rule component_manifest_name)
  show "installed a \<Longrightarrow> safe_name (install_dir a) = None" using n(3) by (simp add: installed_def)
  show "folder_name_of (app_id a) = None"
    using n(2) by (auto simp: folder_name_of_def folder_prefix_def cut_prefix_def has_prefix_iff is_digit_def digit_val_def)
qed

lemma read_app_at_Inr:
  "read_app_at c d name = Inr a \<Longrightarrow> well_read a \<and> component name
     \<and> (\<exists>m. map_of (entries d) name = Some (Reg m (app_data a)) \<and> mod_time a = mtime m)"
  by (auto simp: read_app_at_def open_file_at_def well_read_def read_from_def
      split: sum.splits if_splits option.splits node.splits)

lemma read_app_at_cong:
  "map_of (entries d) name = map_of (entries e) name \<Longrightarrow> read_app_at c d name = read_app_at c e name"
  by (simp add: read_app_at_def open_file_at_def)

definition manifest_shape :: "string \<Rightarrow> bool" where
  "manifest_shape n \<longleftrightarrow> has_prefix n ''appmanifest_'' \<and> has_suffix n ''.acf''"

lemma manifest_shape_name [simp]: "manifest_shape (manifest_name x)"
  by (auto simp: manifest_shape_def manifest_name_def has_prefix_iff has_suffix_iff)

lemma manifest_shape_temp [simp]: "\<not> manifest_shape (s @ ''.polyseat-tmp'')"
proof
  assume "manifest_shape (s @ ''.polyseat-tmp'')"
  then obtain t where "s @ ''.polyseat-tmp'' = t @ ''.acf''" by (auto simp: manifest_shape_def has_suffix_iff)
  then have "last (s @ ''.polyseat-tmp'') = last (t @ ''.acf'')" by simp
  then show False by simp
qed

lemma apps_named_read:
  "a \<in> set (apps_named c d names) \<Longrightarrow>
     \<exists>n \<in> set names. manifest_shape n \<and> read_app_at (c n) d n = Inr a"
  by (induction names) (auto simp: manifest_shape_def split: if_splits sum.splits)

lemma read_apps_at_read:
  "read_apps_at flt d = Inr apps \<Longrightarrow> a \<in> set apps \<Longrightarrow>
     well_read a \<and> (\<exists>n. manifest_shape n \<and> read_app_at (flt [n]) d n = Inr a)"
  using apps_named_read [of a "\<lambda>n. flt [n]" d "map fst (entries d)"] read_app_at_Inr
  by (fastforce simp: read_apps_at_def split: if_splits)

section \<open>Writing a manifest\<close>

lemma copy_manifest_names:
  assumes "copy_manifest k flt data d name w = (d', err)" "component name"
  shows "(\<forall>m. m \<noteq> name \<longrightarrow> m \<noteq> name @ ''.polyseat-tmp'' \<longrightarrow> map_of (entries d') m = map_of (entries d) m)
    \<and> (case err of
         None \<Rightarrow> \<exists>m. map_of (entries d') name = Some (Reg m (rewrite data))
       | Some e \<Rightarrow> map_of (entries d') name = map_of (entries d) name)"
proof -
  let ?t = "name @ ''.polyseat-tmp''"
  obtain d1 e1 where r: "remove_all_at k (\<lambda>p. flt (?t # p)) d ?t = (d1, e1)" by force
  note r1 = remove_all_at_names [OF r component_temp [OF assms(2)]]
  have t: "name \<noteq> ?t" "?t \<noteq> name" by simp_all
  show ?thesis
  proof (cases "e1 \<noteq> None \<or> (\<exists>e. create_file_at k (flt [?t]) d1 ?t 420 = Inl e)")
    case True
    then have "d' = d1 \<and> err \<noteq> None"
      using assms(1) r by (auto simp: copy_manifest_def Let_def split: option.splits sum.splits)
    with r1 t show ?thesis by auto
  next
    case False
    then obtain d2 where e1: "e1 = None" and d2: "create_file_at k (flt [?t]) d1 ?t 420 = Inr d2"
      by (cases "create_file_at k (flt [?t]) d1 ?t 420") auto
    have n2: "map_of (entries d2) m = map_of (entries d1) m" if "m \<noteq> ?t" for m
      using d2 that by (auto simp: create_file_at_def map_of_update split: if_splits option.splits)
    let ?x = "chown w (Reg (fresh_meta k 420) (rewrite data))"
    let ?d3 = "change ?t ?x d2"
    obtain m where x: "?x = Reg m (rewrite data)" by (simp add: chown_def)
    have undo: ?thesis if "d' = (if flt [?t] SRmdir then d2 else del k ?t d2)" "err \<noteq> None"
      using that r1 n2 t by (auto simp: map_of_delete)
    show ?thesis
    proof (cases "flt [?t] SWrite \<or> flt [?t] SChown")
      case True
      with assms(1) r e1 d2 have "d' = (if flt [?t] SRmdir then d2 else del k ?t d2) \<and> err \<noteq> None"
        by (auto simp: copy_manifest_def Let_def split: if_splits)
      with undo show ?thesis by blast
    next
      case ok: False
      show ?thesis
      proof (cases "rename_in k (flt [name]) ?d3 ?t name")
        case (Inl e)
        with ok assms(1) r e1 d2 have "d' = ?d3 \<and> err \<noteq> None"
          by (auto simp: copy_manifest_def Let_def)
        with r1 n2 t show ?thesis by (auto simp: map_of_update)
      next
        case (Inr d4)
        with ok assms(1) r e1 d2 have d': "d' = d4" "err = None" by (auto simp: copy_manifest_def Let_def)
        from rename_in_names [OF Inr t(2)]
        have "map_of (entries d4) = (map_of (entries ?d3))(?t := None, name \<mapsto> ?x)"
          by (auto simp: map_of_update)
        with d' r1 n2 t x show ?thesis by (auto simp: map_of_update)
      qed
    qed
  qed
qed

lemma remove_all_at_dir: "remove_all_at k flt d n = (d', err) \<Longrightarrow> is_dir d \<Longrightarrow> is_dir d'"
  by (auto simp: remove_all_at_def split: if_splits option.splits prod.splits)

lemma copy_manifest_dir:
  assumes "copy_manifest k flt data d name w = (d', err)" "is_dir d"
  shows "is_dir d'"
proof -
  obtain d1 e where r: "remove_all_at k (\<lambda>p. flt ((name @ ''.polyseat-tmp'') # p)) d (name @ ''.polyseat-tmp'') = (d1, e)"
    by force
  have "is_dir d1" by (rule remove_all_at_dir [OF r assms(2)])
  moreover have "is_dir y" if "create_file_at k c x n pm = Inr y" for k c x n pm y
    using that by (auto simp: create_file_at_def split: if_splits option.splits)
  moreover have "is_dir y" if "rename_in k c x n b = Inr y" "is_dir x" for k c x n b y
    using that by (auto simp: rename_in_def split: if_splits option.splits)
  ultimately show ?thesis
    using assms(1) r
    by (auto simp: copy_manifest_def Let_def split: option.splits sum.splits if_splits)
qed

end
