(* ===== verification/Pool_World.thy ===== *)
theory Pool_World
  imports Pool_Facts
begin

text \<open>
  The directories the pool works in: which of them a step reaches, and that preparing a
  member's library makes directories and touches no file.
\<close>

section \<open>Places\<close>

named_theorems kept_simps \<open>what the steps of a pass leave as it was\<close>

lemma pool_apps_store [kept_simps]:
  "pl \<noteq> PoolApps \<Longrightarrow> pool_apps (store_place pl d w) = pool_apps w"
  by (cases pl) auto

lemma apps_place_outside [simp]: "apps_place m \<noteq> PoolApps" "apps_place m \<noteq> PoolFolders"
  "folders_place m \<noteq> Some PoolApps" "folders_place m \<noteq> Some PoolFolders"
  by (simp_all add: apps_place_def folders_place_def)

section \<open>The libraries of a world\<close>

text \<open>
  The file under a name in the directory at a place, if there is one. What every manifest
  outside the pool satisfies, a condition on its data, is a condition on the world.
\<close>

definition file_of :: "node option \<Rightarrow> (meta \<times> string) option" where
  "file_of x = (case x of Some (Reg m s) \<Rightarrow> Some (m, s) | _ \<Rightarrow> None)"

definition file_at :: "world \<Rightarrow> place \<Rightarrow> string \<Rightarrow> (meta \<times> string) option" where
  "file_at w pl name =
     (case open_place (\<lambda>_ _. False) w pl of Inl _ \<Rightarrow> None | Inr d \<Rightarrow> file_of (map_of (entries d) name))"

definition libraries :: "(string \<Rightarrow> bool) \<Rightarrow> world \<Rightarrow> bool" where
  "libraries okd w \<longleftrightarrow>
     (\<forall>pl name m s. pl \<noteq> PoolApps \<longrightarrow> file_at w pl name = Some (m, s) \<longrightarrow> okd s)"

lemma open_place_faults:
  "open_place flt w pl = Inr d \<Longrightarrow> open_place (\<lambda>_ _. False) w pl = Inr d"
proof (cases pl)
  case (SeatDir seat sub)
  assume "open_place flt w pl = Inr d"
  with SeatDir obtain root where "open_dir_at (flt [seat]) (seats w) seat = Inr root"
    "open_dir_at (flt [seat, sub]) root sub = Inr d"
    by (auto simp: seat_dir_def split: if_splits sum.splits)
  then have "open_dir_at (\<lambda>_. False) (seats w) seat = Inr root" "open_dir_at (\<lambda>_. False) root sub = Inr d"
    by (simp_all add: open_dir_at_iff)
  with SeatDir show ?thesis by (simp add: seat_dir_def)
qed (auto split: if_splits option.splits)

lemma open_place_dir:
  "open_place flt w pl = Inr d \<Longrightarrow> pl \<noteq> PoolApps \<Longrightarrow> pl \<noteq> PoolFolders \<Longrightarrow> is_dir d"
  by (cases pl) (auto simp: seat_dir_def open_dir_at_iff split: if_splits sum.splits option.splits)

lemma open_store:
  assumes "open_place flt w pl = Inr lib" "is_dir lib'"
  shows "open_place (\<lambda>_ _. False) (store_place pl lib' w) pl'
    = (if pl' = pl then Inr lib' else open_place (\<lambda>_ _. False) w pl')"
proof (cases pl)
  case (SeatDir seat sub)
  with assms(1) obtain root where r: "open_dir_at (flt [seat]) (seats w) seat = Inr root"
    "open_dir_at (flt [seat, sub]) root sub = Inr lib"
    by (auto simp: seat_dir_def split: if_splits sum.splits)
  then have e: "map_of (entries (seats w)) seat = Some root" "is_dir root" "component seat"
    "map_of (entries root) sub = Some lib" "component sub"
    by (simp_all add: open_dir_at_iff)
  have en: "entry (seats w) seat = root" using e by (simp add: entry_def)
  have other: "open_dir_at (\<lambda>_. False) (change n x d) n' = open_dir_at (\<lambda>_. False) d n'" if "n' \<noteq> n" for n n' x d
    using that by (simp add: open_dir_at_def map_of_update)
  have this': "open_dir_at (\<lambda>_. False) (change n x d) n = Inr x" if "is_dir x" "component n" for n x d
    using that by (simp add: open_dir_at_iff map_of_update)
  have root: "open_dir_at (\<lambda>_. False) (seats w) seat = Inr root" using e by (simp add: open_dir_at_iff)
  show ?thesis
  proof (cases pl')
    case (SeatDir seat' sub')
    with \<open>pl = SeatDir seat sub\<close> root e en assms(2) show ?thesis
      by (cases "seat' = seat"; cases "sub' = sub") (simp_all add: seat_dir_def other this')
  qed (use SeatDir in simp_all)
next
  case (Outside p)
  with assms show ?thesis by (cases pl') (auto simp: seat_dir_def)
qed (use assms in \<open>cases pl'; auto simp: seat_dir_def\<close>)+

lemma open_store_other:
  assumes "open_place flt w pl = Inr lib" "pl' \<noteq> pl"
  shows "open_place (\<lambda>_ _. False) (store_place pl x w) pl' = open_place (\<lambda>_ _. False) w pl'"
proof (cases "is_dir x")
  case True
  with open_store [OF assms(1)] assms(2) show ?thesis by simp
next
  case False
  have other: "open_dir_at f (change n y d) n' = open_dir_at f d n'" if "n' \<noteq> n" for f n n' y d
    using that by (simp add: open_dir_at_def map_of_update)
  show ?thesis
  proof (cases pl)
    case (SeatDir seat sub)
    with assms(1) obtain root where r: "open_dir_at (flt [seat]) (seats w) seat = Inr root"
      by (auto simp: seat_dir_def split: if_splits sum.splits)
    then have e: "map_of (entries (seats w)) seat = Some root" "is_dir root" "component seat"
      by (simp_all add: open_dir_at_iff)
    have en: "entry (seats w) seat = root" using e by (simp add: entry_def)
    have root: "open_dir_at (\<lambda>_. False) (seats w) seat = Inr root"
      "open_dir_at (\<lambda>_. False) (change seat (change sub x root) (seats w)) seat = Inr (change sub x root)"
      using e by (simp_all add: open_dir_at_iff map_of_update)
    show ?thesis
    proof (cases pl')
      case (SeatDir seat' sub')
      with \<open>pl = SeatDir seat sub\<close> root en assms(2) show ?thesis
        by (cases "seat' = seat") (simp_all add: seat_dir_def other)
    qed (use SeatDir in simp_all)
  next
    case (Outside p)
    with assms show ?thesis by (cases pl') (auto simp: seat_dir_def)
  qed (use assms in \<open>cases pl'; auto simp: seat_dir_def\<close>)+
qed

lemma libraries_apps:
  assumes "libraries okd w" "open_place flt w pl = Inr lib" "pl \<noteq> PoolApps"
    and "read_apps_at g lib = Inr apps" "a \<in> set apps"
  shows "okd (app_data a)"
proof -
  from read_apps_at_read [OF assms(4,5)] obtain n m where
    "map_of (entries lib) n = Some (Reg m (app_data a))" by (blast dest: read_app_at_Inr)
  then have "file_at w pl n = Some (m, app_data a)"
    by (simp add: file_at_def file_of_def open_place_faults [OF assms(2)])
  with assms(1,3) show ?thesis by (auto simp: libraries_def)
qed

lemma file_at_pool_apps [kept_simps]:
  "pl \<noteq> PoolApps \<Longrightarrow> file_at (w\<lparr>pool_apps := d\<rparr>) pl name = file_at w pl name"
  by (cases pl) (auto simp: file_at_def seat_dir_def)

lemma file_at_pool_folders [kept_simps]:
  "pl \<noteq> PoolFolders \<Longrightarrow> file_at (w\<lparr>pool_folders := d\<rparr>) pl name = file_at w pl name"
  by (cases pl) (auto simp: file_at_def seat_dir_def)

lemma libraries_cong:
  "\<forall>pl name. pl \<noteq> PoolApps \<longrightarrow> file_at w' pl name = file_at w pl name \<Longrightarrow> libraries okd w' = libraries okd w"
  by (simp add: libraries_def)

section \<open>The same files\<close>

text \<open>Two trees that differ in their directories only: every path below leads to the same file.\<close>

definition same_files :: "node \<Rightarrow> node \<Rightarrow> bool" where
  "same_files d' d \<longleftrightarrow> (\<forall>p. p \<noteq> [] \<longrightarrow> file_of (look d' p) = file_of (look d p))"

lemma same_files_refl [simp]: "same_files d d"
  by (simp add: same_files_def)

lemma same_files_trans: "same_files c b \<Longrightarrow> same_files b a \<Longrightarrow> same_files c a"
  by (simp add: same_files_def)

lemma file_of_dir: "is_dir x \<Longrightarrow> file_of (Some x) = None"
  by (cases x) (simp_all add: file_of_def)

lemma same_files_entries: "entries d' = entries d \<Longrightarrow> same_files d' d"
  by (auto simp: same_files_def look_Cons neq_Nil_conv)

lemma same_files_chown [simp]: "same_files (chown w d) d"
  by (rule same_files_entries) (cases d, simp_all add: chown_def)

lemma same_files_change:
  assumes "map_of (entries d) n = Some x \<or> (map_of (entries d) n = None \<and> x = Dir m [])"
    and "is_dir x" "is_dir x'" "same_files x' x"
  shows "same_files (change n x' d) d" "same_files (put k n x' d) d"
proof -
  have one: "file_of (look x' cs) = file_of (Option.bind (map_of (entries d) n) (\<lambda>y. look y cs))" for cs
  proof (cases "cs = []")
    case True
    with assms(1-3) show ?thesis by (auto simp: file_of_dir) (simp add: file_of_def)
  next
    case False
    with assms(1,4) show ?thesis
      by (auto simp: same_files_def look_Cons neq_Nil_conv file_of_def)
  qed
  have "file_of (look e p) = file_of (look d p)"
    if e: "map_of (entries e) = (map_of (entries d))(n \<mapsto> x')" and ne: "p \<noteq> []" for e p
  proof -
    obtain c cs where p: "p = c # cs" using ne by (cases p) auto
    show ?thesis
      using one [of cs] e by (cases "c = n") (simp_all add: p look_Cons)
  qed
  then show "same_files (change n x' d) d" "same_files (put k n x' d) d"
    by (simp_all add: same_files_def map_of_update)
qed

lemma ensure_dir_same_files:
  assumes "ensure_dir_at k c d n perm = (d', r)"
  shows "same_files d' d \<and> (\<forall>x b. r = Inr (x, b) \<longrightarrow> map_of (entries d') n = Some x \<and> is_dir x)"
proof -
  have "same_files (put k n (Dir (fresh_meta k perm) []) d) d" if "map_of (entries d) n = None"
    using that same_files_change(2) [of d n "Dir (fresh_meta k perm) []"] by simp
  with assms show ?thesis
    by (auto simp: ensure_dir_at_def Let_def open_dir_at_iff split: if_splits sum.splits)
qed

lemma make_owned_same_files:
  assumes "make_owned k c w d n = (d', err)"
  shows "same_files d' d \<and> (err = None \<longrightarrow> (\<exists>x. map_of (entries d') n = Some x \<and> is_dir x))"
proof -
  obtain d1 r where e: "ensure_dir_at k c d n 493 = (d1, r)" by force
  note f = ensure_dir_same_files [OF e]
  show ?thesis
  proof (cases r)
    case (Inl x)
    with assms e f show ?thesis by (auto simp: make_owned_def)
  next
    case (Inr y)
    obtain x b where y: "y = (x, b)" by force
    have x: "map_of (entries d1) n = Some x" "is_dir x" using f Inr y by auto
    have "same_files (change n (chown w x) d1) d1"
      by (rule same_files_change) (use x in auto)
    with assms e f Inr y x show ?thesis
      by (auto simp: make_owned_def map_of_update split: if_splits intro: same_files_trans)
  qed
qed

section \<open>Preparing a library\<close>

lemma file_at_SeatDir:
  "file_at w (SeatDir seat sub) name =
     (if component seat \<and> component sub then file_of (look (seats w) [seat, sub, name]) else None)"
proof -
  have n: "map_of (entries x) c = None" if "\<not> is_dir x" for x c using that by (cases x) auto
  show ?thesis
    by (cases "map_of (entries (seats w)) seat"; cases "map_of (entries (entry (seats w) seat)) sub")
      (auto simp: file_at_def seat_dir_def open_dir_at_def look_Cons file_of_def entry_def
        split: option.splits node.splits)
qed

lemma same_files_inside:
  assumes "map_of (entries d) n = Some x" "is_dir x" "is_dir x'" "same_files x' x" "same_files d e"
  shows "same_files (change n x' d) e"
  using same_files_change(1) [of d n x "stat_of x" x'] assms same_files_trans by blast

lemma ensure_member_same_files:
  assumes "ensure_member k flt m w = (w', err)"
  shows "same_files (seats w') (seats w) \<and> outside w' = outside w \<and> pool_folders w' = pool_folders w"
proof (cases "external m \<or> flt [] SOpen")
  case True
  with assms show ?thesis by (auto simp: ensure_member_def split: if_splits)
next
  case False
  let ?n = "mem_name m"
  obtain s1 e1 where o1: "make_owned k (flt [?n]) (mem_owner m) (seats w) ?n = (s1, e1)" by force
  note f1 = make_owned_same_files [OF o1]
  show ?thesis
  proof (cases e1)
    case (Some e)
    with assms False o1 f1 show ?thesis by (auto simp: ensure_member_def)
  next
    case e1: None
    with f1 obtain root where root: "map_of (entries s1) ?n = Some root" "is_dir root" by auto
    have en: "entry s1 ?n = root" using root by (simp add: entry_def)
    have done_root: ?thesis
      if "w' = w\<lparr>seats := change ?n r s1\<rparr>" "is_dir r" "same_files r root" for r
      using that same_files_inside [OF root that(2,3) conjunct1 [OF f1]] by simp
    have dirs: "is_dir d'" if "ensure_dir_at k c d nm pm = (d', x)" "is_dir d" for c d nm pm d' x
      using that by (auto simp: ensure_dir_at_def Let_def split: if_splits)
    have owned_dir: "is_dir d'" if "make_owned k c ow d nm = (d', x)" "is_dir d" for c ow d nm d' x
      using that dirs by (auto simp: make_owned_def split: prod.splits sum.splits if_splits)
    obtain r1 y where o2: "ensure_dir_at k (flt [?n, []]) root steam_apps 493 = (r1, y)" by force
    note f2 = ensure_dir_same_files [OF o2] and d2 = dirs [OF o2 root(2)]
    obtain r2 e2 where o3: "make_owned k (flt [?n, steam_apps]) (mem_owner m) r1 steam_apps = (r2, e2)" by force
    note f3 = make_owned_same_files [OF o3] and d3 = owned_dir [OF o3 d2]
    obtain a e3 where o4: "make_owned k (flt [?n, common_dir]) (mem_owner m) (entry r2 steam_apps) common_dir = (a, e3)" by force
    note f4 = make_owned_same_files [OF o4]
    obtain r3 e4 where o5: "make_owned k (flt [?n, shared_dir]) (mem_owner m) (change steam_apps a r2) shared_dir = (r3, e4)" by force
    note f5 = make_owned_same_files [OF o5] and d5 = owned_dir [OF o5 is_dir_put(3)]
    note r12 = same_files_trans [OF conjunct1 [OF f3] conjunct1 [OF f2]]
    have r3: "same_files (change steam_apps a r2) root" if "e2 = None"
    proof -
      from that f3 obtain sub where sub: "map_of (entries r2) steam_apps = Some sub" "is_dir sub" by auto
      then have "entry r2 steam_apps = sub" by (simp add: entry_def)
      with sub f4 o4 owned_dir show ?thesis by (metis same_files_inside r12)
    qed
    consider e where "y = Inl e" | e where "\<exists>z. y = Inr z" "e2 = Some e" | "\<exists>z. y = Inr z" "e2 = None"
      by (cases y; cases e2) auto
    then show ?thesis
    proof cases
      case 1
      with assms False o1 e1 en o2 have "w' = w\<lparr>seats := change ?n r1 s1\<rparr>"
        by (simp add: ensure_member_def Let_def)
      with done_root d2 f2 show ?thesis by blast
    next
      case 2
      with assms False o1 e1 en o2 o3 have "w' = w\<lparr>seats := change ?n r2 s1\<rparr>"
        by (auto simp: ensure_member_def Let_def)
      with done_root d3 r12 show ?thesis by blast
    next
      case 3
      with assms False o1 e1 en o2 o3 o4 o5 have
        "w' = w\<lparr>seats := change ?n (if e3 = None then r3 else change steam_apps a r2) s1\<rparr>"
        by (cases e3) (auto simp: ensure_member_def Let_def)
      moreover have "same_files r3 root" using r3 [OF 3(2)] f5 same_files_trans by blast
      ultimately show ?thesis using done_root [of "if e3 = None then r3 else change steam_apps a r2"] d5 r3 [OF 3(2)]
        by (simp split: if_splits)
    qed
  qed
qed

lemma ensure_member_files:
  assumes "ensure_member k flt m w = (w', err)"
  shows "file_at w' pl name = file_at w pl name \<and> pool_apps w' = pool_apps w"
proof -
  note s = ensure_member_same_files [OF assms]
  have p: "pool_apps w' = pool_apps w"
    using assms by (auto simp: ensure_member_def Let_def split: if_splits prod.splits option.splits sum.splits)
  show ?thesis
  proof (cases pl)
    case (SeatDir seat sub)
    with s p show ?thesis by (simp add: file_at_SeatDir same_files_def)
  qed (use s p in \<open>simp_all add: file_at_def\<close>)
qed

end
