(* ===== verification/Pool_Pass.thy ===== *)
theory Pool_Pass
  imports Pool_World
begin

text \<open>
  What a pass does to the pool itself. The pool's tree is changed by taking a title in and by
  nothing else, so a relation that every taking keeps is kept by the whole pass: the locale
  states what a relation has to satisfy, and the relations follow as its interpretations.
\<close>

section \<open>What a pass leaves alone\<close>

lemma withheld_mark [kept_simps]: "withheld (mark seat a x s) = withheld s"
  by (simp add: mark_def)

lemma withheld_mark_apps [kept_simps]: "withheld (mark_apps seat apps s) = withheld s"
  by (induction apps arbitrary: s) (simp_all add: kept_simps)

lemma folders_dir_place:
  "folders_dir flt w m = Inr (Some (pl, d)) \<Longrightarrow> folders_place m = Some pl \<and> open_place flt w pl = Inr d"
  by (auto simp: folders_dir_def split: option.splits sum.splits if_splits)

lemma sync_ensure_files:
  "sync_ensure E ms w rep = (ready, w', rep') \<Longrightarrow>
     (\<forall>pl name. file_at w' pl name = file_at w pl name) \<and> pool_apps w' = pool_apps w \<and> set ready \<subseteq> set ms
     \<and> handed rep' = handed rep"
proof (induction ms arbitrary: w rep ready w' rep')
  case (Cons m ms)
  obtain w1 e where e: "ensure_member (kern E) (flts E Ensuring (mem_name m) (SeatDir (mem_name m) [])) m w = (w1, e)"
    by force
  let ?rep = "case e of None \<Rightarrow> rep | Some x \<Rightarrow> trouble (mem_name m) (Some (FsErr x)) rep"
  obtain r2 w2 p2 where s: "sync_ensure E ms w1 ?rep = (r2, w2, p2)"
    by (metis prod.exhaust)
  have "handed ?rep = handed rep" by (cases e) (simp_all add: trouble_def)
  with Cons.IH [OF s] ensure_member_files [OF e] Cons.prems e s show ?case
    by (cases e) auto
qed simp

lemma harvest_each_folder_kept:
  "harvest_each_folder E who dir fs s pool rep = (s', pool', rep', err) \<Longrightarrow> withheld s' = withheld s"
proof (induction fs arbitrary: s pool rep)
  case (Cons f fs)
  show ?case
    using Cons.prems
    by (auto simp: Let_def kept_simps split: if_splits option.splits prod.splits sum.splits folder_error.splits
        dest!: Cons.IH)
qed simp

lemma harvest_folders_kept:
  "harvest_folders E m s w rep = (s', w', rep', fs, err) \<Longrightarrow> withheld s' = withheld s \<and> pool_apps w' = pool_apps w"
  by (auto simp: harvest_folders_def Let_def split: sum.splits option.splits prod.splits
      dest!: harvest_each_folder_kept)

lemma sync_folders_kept:
  "sync_folders E ms s w rep = (s', w', rep', scans) \<Longrightarrow> withheld s' = withheld s \<and> pool_apps w' = pool_apps w"
proof (induction ms arbitrary: s w rep s' w' rep' scans)
  case (Cons m ms)
  obtain s1 w1 r1 fs e where h: "harvest_folders E m s w rep = (s1, w1, r1, fs, e)" by (metis prod.exhaust)
  obtain s2 w2 r2 sc where t: "sync_folders E ms s1 w1 (trouble (mem_name m) e r1) = (s2, w2, r2, sc)"
    by (metis prod.exhaust)
  from Cons.IH [OF t] harvest_folders_kept [OF h] Cons.prems h t show ?case by simp
qed simp

lemma give_apps_kept:
  "give_apps E m pr pc apps opened s lib rep = (s', lib', rep', err) \<Longrightarrow> withheld s' = withheld s"
proof (induction apps arbitrary: opened s lib rep)
  case (Cons a apps)
  show ?case
    using Cons.prems
    by (auto simp: kept_simps split: if_splits choice.splits prod.splits given.splits dest!: Cons.IH)
qed simp

lemma give_folders_kept:
  "give_folders E m here pool names s dir rep = (s', dir', rep', err) \<Longrightarrow> withheld s' = withheld s"
proof (induction names arbitrary: s dir rep)
  case (Cons n names)
  show ?case
    using Cons.prems
    by (auto simp: Let_def kept_simps split: if_splits choice.splits prod.splits option.splits dest!: Cons.IH)
qed simp

lemma distribute_kept:
  "distribute E m pool s w rep = (s', w', rep', err) \<Longrightarrow> withheld s' = withheld s \<and> pool_apps w' = pool_apps w"
  by (auto simp: distribute_def Let_def kept_simps split: sum.splits prod.splits dest!: give_apps_kept)

lemma distribute_folders_kept:
  "distribute_folders E m fs s w rep = (s', w', rep', err) \<Longrightarrow> withheld s' = withheld s \<and> pool_apps w' = pool_apps w"
  by (auto simp: distribute_folders_def Let_def split: sum.splits prod.splits option.splits
      dest!: give_folders_kept folders_dir_place) (metis apps_place_outside(3) pool_apps_store)

lemma sync_give_kept:
  "sync_give E apps scans ms s w rep = (s', w', rep') \<Longrightarrow> withheld s' = withheld s \<and> pool_apps w' = pool_apps w"
proof (induction ms arbitrary: s w rep)
  case (Cons m ms)
  obtain s1 w1 r1 e1 where d: "distribute E m apps s w rep = (s1, w1, r1, e1)" by (metis prod.exhaust)
  note k1 = distribute_kept [OF d]
  show ?case
  proof (cases "scan_of scans (mem_name m)")
    case None
    with Cons.prems d Cons.IH [of s1 w1] k1 show ?thesis by simp
  next
    case (Some fs)
    obtain s2 w2 r2 e2 where f: "distribute_folders E m fs s1 w1 (trouble (mem_name m) e1 r1) = (s2, w2, r2, e2)"
      by (metis prod.exhaust)
    with Some Cons.prems d Cons.IH [of s2 w2] k1 distribute_folders_kept [OF f] show ?thesis by simp
  qed
qed simp

text \<open>Taking in changes no library outside the pool, and hands nothing out.\<close>

lemma harvest_apps_handed:
  "harvest_apps E who s common apps d rep = (d', rep', err) \<Longrightarrow> handed rep' = handed rep"
proof (induction apps arbitrary: d rep)
  case (Cons a apps)
  then show ?case
    by (auto simp: Let_def note_copied_def split: if_splits prod.splits option.splits)
qed simp

lemma harvest_from_files:
  "harvest_from E who s lib apps w rep = (w', rep', err) \<Longrightarrow>
     (\<forall>pl name. pl \<noteq> PoolApps \<longrightarrow> file_at w' pl name = file_at w pl name) \<and> handed rep' = handed rep"
  by (auto simp: harvest_from_def kept_simps split: sum.splits if_splits prod.splits dest: harvest_apps_handed)

lemma harvest_source_files:
  "harvest_source E src s w rep = (w', rep', err) \<Longrightarrow>
     (\<forall>pl name. pl \<noteq> PoolApps \<longrightarrow> file_at w' pl name = file_at w pl name) \<and> handed rep' = handed rep"
  by (auto simp del: open_place.simps simp: harvest_source_def split: sum.splits dest: harvest_from_files)

lemma harvest_files:
  "harvest E m s w rep = (s', w', rep', err) \<Longrightarrow>
     (\<forall>pl name. pl \<noteq> PoolApps \<longrightarrow> file_at w' pl name = file_at w pl name)
     \<and> handed rep' = handed rep \<and> withheld s' = withheld s"
  by (auto simp: harvest_def Let_def kept_simps split: sum.splits prod.splits dest: harvest_from_files)

lemma handed_trouble [simp]: "handed (trouble who e rep) = handed rep"
  by (simp add: trouble_def split: option.split)

lemma sync_sources_files:
  "sync_sources E ms srcs s w rep = (w', rep') \<Longrightarrow>
     (\<forall>pl name. pl \<noteq> PoolApps \<longrightarrow> file_at w' pl name = file_at w pl name) \<and> handed rep' = handed rep"
proof (induction srcs arbitrary: w rep)
  case (Cons src srcs)
  obtain w1 r e where h: "harvest_source E src s w rep = (w1, r, e)" by (metis prod.exhaust)
  from Cons.IH [of w1] Cons.IH [of w rep] Cons.prems h harvest_source_files [OF h] show ?case
    by (auto split: if_splits)
qed simp

lemma sync_harvest_files:
  "sync_harvest E ms s w rep = (s', w', rep') \<Longrightarrow>
     (\<forall>pl name. pl \<noteq> PoolApps \<longrightarrow> file_at w' pl name = file_at w pl name)
     \<and> handed rep' = handed rep \<and> withheld s' = withheld s"
proof (induction ms arbitrary: s w rep)
  case (Cons m ms)
  obtain s1 w1 r e where h: "harvest E m s w rep = (s1, w1, r, e)" by (metis prod.exhaust)
  from Cons.IH [of s1 w1] Cons.prems h harvest_files [OF h] show ?case by auto
qed simp

lemma harvest_each_folder_handed:
  "harvest_each_folder E who dir fs s pool rep = (s', pool', rep', err) \<Longrightarrow> handed rep' = handed rep"
proof (induction fs arbitrary: s pool rep)
  case (Cons f fs)
  show ?case
    using Cons.prems
    by (auto simp: Let_def note_copied_def split: if_splits option.splits prod.splits sum.splits folder_error.splits
        dest!: Cons.IH)
qed simp

lemma harvest_folders_files:
  "harvest_folders E m s w rep = (s', w', rep', fs, err) \<Longrightarrow>
     (\<forall>pl name. pl \<noteq> PoolFolders \<longrightarrow> file_at w' pl name = file_at w pl name) \<and> handed rep' = handed rep"
  by (auto simp del: open_place.simps simp: harvest_folders_def Let_def kept_simps
      split: sum.splits option.splits prod.splits dest: harvest_each_folder_handed)

lemma sync_folders_files:
  "sync_folders E ms s w rep = (s', w', rep', scans) \<Longrightarrow>
     (\<forall>pl name. pl \<noteq> PoolFolders \<longrightarrow> file_at w' pl name = file_at w pl name) \<and> handed rep' = handed rep"
proof (induction ms arbitrary: s w rep s' w' rep' scans)
  case (Cons m ms)
  obtain s1 w1 r1 fs e where h: "harvest_folders E m s w rep = (s1, w1, r1, fs, e)" by (metis prod.exhaust)
  obtain s2 w2 r2 sc where t: "sync_folders E ms s1 w1 (trouble (mem_name m) e r1) = (s2, w2, r2, sc)"
    by (metis prod.exhaust)
  from Cons.IH [OF t] harvest_folders_files [OF h] Cons.prems h t show ?case by simp
qed simp

text \<open>The steps of a pass, in their order.\<close>

lemma sync_steps:
  assumes "sync E ms p = (p', rep, err)"
  shows "\<exists>w1 rep1 ready w2 rep2 s3 w3 rep3.
      sync_sources E ms (sources (st p)) (st p) (wd p) no_report = (w1, rep1)
    \<and> sync_ensure E ms w1 rep1 = (ready, w2, rep2)
    \<and> sync_harvest E ready (st p) w2 rep2 = (s3, w3, rep3)
    \<and> pool_apps (wd p') = pool_apps w3 \<and> withheld (st p') = withheld s3
    \<and> ((wd p' = w3 \<and> st p' = s3 \<and> rep = rep3) \<or>
       (\<exists>apps s4 w4 rep4 scans. read_apps_at (flts E Giving [] PoolApps) (pool_apps w3) = Inr apps
        \<and> sync_folders E ready s3 w3 rep3 = (s4, w4, rep4, scans)
        \<and> sync_give E apps scans ready s4 w4 rep4 = (st p', wd p', rep)))"
proof -
  obtain w1 rep1 where s1: "sync_sources E ms (sources (st p)) (st p) (wd p) no_report = (w1, rep1)" by force
  obtain ready w2 rep2 where s2: "sync_ensure E ms w1 rep1 = (ready, w2, rep2)" by (metis prod.exhaust)
  obtain s3 w3 rep3 where s3: "sync_harvest E ready (st p) w2 rep2 = (s3, w3, rep3)" by (metis prod.exhaust)
  obtain s4 w4 rep4 scans where s4: "sync_folders E ready s3 w3 rep3 = (s4, w4, rep4, scans)" by (metis prod.exhaust)
  show ?thesis
  proof (cases "read_apps_at (flts E Giving [] PoolApps) (pool_apps w3)")
    case (Inl e)
    with assms s1 s2 s3 show ?thesis by (auto simp: sync_def)
  next
    case (Inr apps)
    obtain s5 w5 rep5 where s5: "sync_give E apps scans ready s4 w4 rep4 = (s5, w5, rep5)" by (metis prod.exhaust)
    with assms s1 s2 s3 s4 Inr have "st p' = s5 \<and> wd p' = w5 \<and> rep = rep5"
      by (auto simp: sync_def save_state_def split: if_splits)
    with s1 s2 s3 s4 s5 Inr sync_folders_kept [OF s4] sync_give_kept [OF s5] show ?thesis by auto
  qed
qed

section \<open>Taking in\<close>

locale taking =
  fixes R :: "env \<Rightarrow> (string \<times> string) list \<Rightarrow> node \<Rightarrow> node \<Rightarrow> bool"
    and okd :: "env \<Rightarrow> string \<Rightarrow> bool"
  assumes stays: "R E W d d"
    and onward: "R E W d d1 \<Longrightarrow> R E W d1 d2 \<Longrightarrow> R E W d d2"
    and tree: "\<lbrakk>takes E who s common d a; withheld s = W; well_read a; okd E (app_data a);
        clone_to E Harvesting who common (install_dir a) (entry d common_dir) (own E) False = (c, r, err)\<rbrakk>
        \<Longrightarrow> R E W d (change common_dir c d)"
    and manifest: "\<lbrakk>takes E who s common d a; withheld s = W; well_read a; okd E (app_data a);
        clone_to E Harvesting who common (install_dir a) (entry d common_dir) (own E) False = (c, r, None);
        copy_manifest (kern E) (flts E Harvesting who PoolApps) (app_data a) (change common_dir c d)
          (manifest_name (app_id a)) (own E) = (d', e)\<rbrakk>
        \<Longrightarrow> R E W d d'"
begin

lemma by_apps:
  "harvest_apps E who s common apps d rep = (d', rep', err) \<Longrightarrow>
     \<forall>a \<in> set apps. well_read a \<and> okd E (app_data a) \<Longrightarrow> R E (withheld s) d d'"
proof (induction apps arbitrary: d rep)
  case (Cons a apps)
  show ?case
  proof (cases "takes E who s common d a")
    case False
    with Cons show ?thesis by simp
  next
    case True
    obtain c r e where c: "clone_to E Harvesting who common (install_dir a) (entry d common_dir) (own E) False = (c, r, e)"
      by (metis prod.exhaust)
    have a: "well_read a" "okd E (app_data a)" using Cons.prems(2) by simp_all
    show ?thesis
    proof (cases e)
      case (Some x)
      with Cons.prems(1) True c tree [OF True refl a c] show ?thesis by simp
    next
      case None
      obtain d1 e1 where m: "copy_manifest (kern E) (flts E Harvesting who PoolApps) (app_data a)
          (change common_dir c d) (manifest_name (app_id a)) (own E) = (d1, e1)" by force
      note step = manifest [OF True refl a c [unfolded None] m]
      show ?thesis
      proof (cases e1)
        case (Some x)
        with Cons.prems(1) True c None m step show ?thesis by simp
      next
        case e1: None
        obtain rep1 where "harvest_apps E who s common apps d1 rep1 = (d', rep', err)"
          using Cons.prems(1) True c None m e1 by (auto simp: Let_def)
        with Cons.IH Cons.prems(2) have "R E (withheld s) d1 d'" by simp
        with step show ?thesis by (rule onward)
      qed
    qed
  qed
qed (simp add: stays)

lemma by_from:
  assumes "harvest_from E who s lib apps w rep = (w', rep', err)"
    and "\<forall>a \<in> set apps. well_read a \<and> okd E (app_data a)"
  shows "R E (withheld s) (pool_apps w) (pool_apps w')"
proof -
  have "w' = w \<or> (\<exists>common d' rep' err'. harvest_apps E who s common apps (pool_apps w) rep = (d', rep', err')
      \<and> w' = w\<lparr>pool_apps := d'\<rparr>)"
    using assms(1) by (auto simp: harvest_from_def split: sum.splits if_splits prod.splits)
  with by_apps assms(2) stays show ?thesis by fastforce
qed

lemma by_source:
  assumes "harvest_source E src s w rep = (w', rep', err)" "libraries (okd E) w"
  shows "R E (withheld s) (pool_apps w) (pool_apps w')"
proof -
  have "w' = w \<or> (\<exists>lib apps r e. open_place (flts E Harvesting src (Outside src)) w (Outside src) = Inr lib
      \<and> read_apps_at (flts E Harvesting src (Outside src)) lib = Inr apps
      \<and> harvest_from E host_label s lib apps w rep = (w', r, e))"
    using assms(1) by (auto simp del: open_place.simps simp: harvest_source_def split: sum.splits)
  then show ?thesis
    using stays by_from read_apps_at_read libraries_apps [OF assms(2), of _ "Outside src"]
      place.distinct by metis
qed

lemma by_member:
  assumes "harvest E m s w rep = (s', w', rep', err)" "libraries (okd E) w"
  shows "R E (withheld s) (pool_apps w) (pool_apps w')"
proof -
  have "w' = w \<or> (\<exists>lib apps r e. open_place (flts E Harvesting (mem_name m) (apps_place m)) w (apps_place m) = Inr lib
      \<and> read_apps_at (flts E Harvesting (mem_name m) (apps_place m)) lib = Inr apps
      \<and> harvest_from E (mem_name m) (mark_apps (mem_name m) apps s) lib apps w rep = (w', r, e))"
    using assms(1) by (auto simp: harvest_def Let_def split: sum.splits prod.splits)
  then show ?thesis
    using stays by_from read_apps_at_read libraries_apps [OF assms(2) _ apps_place_outside(1)]
      withheld_mark_apps by metis
qed

lemma by_sources:
  "sync_sources E ms srcs s w rep = (w', rep') \<Longrightarrow> libraries (okd E) w \<Longrightarrow>
     R E (withheld s) (pool_apps w) (pool_apps w')"
proof (induction srcs arbitrary: w rep)
  case (Cons src srcs)
  show ?case
  proof (cases "joined ms src")
    case True
    with Cons show ?thesis by simp
  next
    case False
    obtain w1 r e where h: "harvest_source E src s w rep = (w1, r, e)" by (metis prod.exhaust)
    have "libraries (okd E) w1"
      using Cons.prems(2) libraries_cong harvest_source_files [OF h] by blast
    with Cons False h have "R E (withheld s) (pool_apps w1) (pool_apps w')" by simp
    with by_source [OF h Cons.prems(2)] show ?thesis by (rule onward)
  qed
qed (simp add: stays)

lemma by_members:
  "sync_harvest E ms s w rep = (s', w', rep') \<Longrightarrow> libraries (okd E) w \<Longrightarrow>
     R E (withheld s) (pool_apps w) (pool_apps w')"
proof (induction ms arbitrary: s w rep)
  case (Cons m ms)
  obtain s1 w1 r e where h: "harvest E m s w rep = (s1, w1, r, e)" by (metis prod.exhaust)
  note f = harvest_files [OF h]
  have "libraries (okd E) w1" using Cons.prems(2) libraries_cong f by blast
  with Cons h have "R E (withheld s1) (pool_apps w1) (pool_apps w')" by simp
  then have "R E (withheld s) (pool_apps w1) (pool_apps w')" using f by simp
  with by_member [OF h Cons.prems(2)] show ?case by (rule onward)
qed (simp add: stays)

lemma by_pass:
  assumes "sync E ms p = (p', rep, err)" "libraries (okd E) (wd p)"
  shows "R E (withheld (st p)) (pool_apps (wd p)) (pool_apps (wd p'))"
proof -
  from sync_steps [OF assms(1)] obtain w1 rep1 ready w2 rep2 s3 w3 rep3 where
    s: "sync_sources E ms (sources (st p)) (st p) (wd p) no_report = (w1, rep1)"
    "sync_ensure E ms w1 rep1 = (ready, w2, rep2)"
    "sync_harvest E ready (st p) w2 rep2 = (s3, w3, rep3)"
    and p: "pool_apps (wd p') = pool_apps w3" by blast
  have "libraries (okd E) w1" using assms(2) libraries_cong sync_sources_files [OF s(1)] by blast
  then have "libraries (okd E) w2" using libraries_cong sync_ensure_files [OF s(2)] by blast
  from by_members [OF s(3) this] by_sources [OF s(1) assms(2)] sync_ensure_files [OF s(2)] p
  show ?thesis by (auto intro: onward)
qed

end

end
