(* ===== verification/Pool_Rules.thy ===== *)
theory Pool_Rules
  imports Pool_Pass
begin

text \<open>
  The relations every taking keeps, each an interpretation of the locale: the pool's manifests
  stay under the names of their apps, and the title that is withheld is not taken.
\<close>

section \<open>Every manifest under its own name\<close>

definition pool_named :: "node \<Rightarrow> bool" where
  "pool_named d \<longleftrightarrow>
     (\<forall>c n a. manifest_shape n \<longrightarrow> read_app_at c d n = Inr a \<longrightarrow> n = manifest_name (app_id a))"

lemma takes_facts:
  "takes E who s common d a \<Longrightarrow> installed a \<and> map_of (withheld s) (app_id a) = None
     \<and> app_settled (now (kern E)) (settle E) a"
  by (auto simp: takes_def split: if_splits)

lemma read_rewritten:
  assumes "read_app_at c d n = Inr b" "map_of (entries d) n = Some (Reg m (rewrite (app_data a)))" "well_read a"
  shows "app_id b = app_id a \<and> build_id b = build_id a \<and> install_dir b = install_dir a
    \<and> state_flags b = state_flags a \<and> app_name b = app_name a"
proof -
  have d: "app_data b = rewrite (app_data a)" "well_read b" using read_app_at_Inr [OF assms(1)] assms(2) by auto
  obtain a0 where a: "parse_manifest (app_data a) = Inr a0" "a = a0\<lparr>app_data := app_data a, mod_time := mod_time a\<rparr>"
    using assms(3) by (auto simp: well_read_def read_from_def)
  obtain b0 where b: "parse_manifest (app_data b) = Inr b0" "b = b0\<lparr>app_data := app_data b, mod_time := mod_time b\<rparr>"
    using d(2) by (auto simp: well_read_def read_from_def)
  have "b0 = a0" using parse_rewrite [OF a(1)] b(1) d(1) by simp
  then show ?thesis by (subst (1 2 3 4 5) a(2), subst (1 2 3 4 5) b(2)) simp
qed

lemma change_common_named:
  assumes "pool_named d"
  shows "pool_named (change common_dir x d)"
proof -
  have "\<not> manifest_shape common_dir" by (simp add: manifest_shape_def common_dir_def)
  then have "read_app_at c (change common_dir x d) n = read_app_at c d n" if "manifest_shape n" for c n
    using that by (intro read_app_at_cong) (auto simp: map_of_update)
  with assms show ?thesis by (simp add: pool_named_def)
qed

lemma copy_manifest_named:
  assumes "copy_manifest k flt (app_data a) d (manifest_name (app_id a)) w = (d', e)"
    and "pool_named d" "well_read a"
  shows "pool_named d'"
  unfolding pool_named_def
proof (intro allI impI)
  fix c n b assume n: "manifest_shape n" and r: "read_app_at c d' n = Inr b"
  note f = copy_manifest_names [OF assms(1) well_read_names(1) [OF assms(3)]]
  have old: "n = manifest_name (app_id b)" if "map_of (entries d') n = map_of (entries d) n"
    using read_app_at_cong [OF that] r n assms(2) by (simp add: pool_named_def)
  show "n = manifest_name (app_id b)"
  proof (cases "n = manifest_name (app_id a)")
    case False
    moreover have "n \<noteq> manifest_name (app_id a) @ ''.polyseat-tmp''" using n manifest_shape_temp by metis
    ultimately show ?thesis using f old by blast
  next
    case True
    show ?thesis
    proof (cases e)
      case None
      with f True obtain m where "map_of (entries d') n = Some (Reg m (rewrite (app_data a)))" by auto
      from read_rewritten [OF r this assms(3)] True show ?thesis by simp
    next
      case (Some x)
      with f True old show ?thesis by simp
    qed
  qed
qed

interpretation names: taking "\<lambda>E W d d'. pool_named d \<longrightarrow> pool_named d'" "\<lambda>E s. True"
  by unfold_locales (auto intro: change_common_named copy_manifest_named [OF _ change_common_named])

section \<open>What is withheld is not taken\<close>

definition same_manifests :: "(string \<Rightarrow> bool) \<Rightarrow> node \<Rightarrow> node \<Rightarrow> bool" where
  "same_manifests P d' d \<longleftrightarrow>
     (\<forall>x. P x \<longrightarrow> map_of (entries d') (manifest_name x) = map_of (entries d) (manifest_name x))"

lemma same_manifests_refl [simp]: "same_manifests P d d"
  by (simp add: same_manifests_def)

lemma same_manifests_trans: "same_manifests P d1 d \<Longrightarrow> same_manifests P d2 d1 \<Longrightarrow> same_manifests P d2 d"
  by (simp add: same_manifests_def)

lemma same_manifests_common [simp]: "same_manifests P (change common_dir x d) d"
  by (simp add: same_manifests_def map_of_update)

lemma copy_manifest_same:
  assumes "copy_manifest k flt data d (manifest_name y) w = (d', e)" "component (manifest_name y)" "\<not> P y \<or> e \<noteq> None"
  shows "same_manifests P d' d"
  unfolding same_manifests_def
proof (intro allI impI)
  fix x assume "P x"
  then show "map_of (entries d') (manifest_name x) = map_of (entries d) (manifest_name x)"
    using copy_manifest_names [OF assms(1,2)] assms(3) by (cases "x = y"; cases e) auto
qed

interpretation held: taking "\<lambda>E W d d'. same_manifests (\<lambda>x. map_of W x \<noteq> None) d' d" "\<lambda>E s. True"
proof unfold_locales
  fix E who s common d a W c r d' e
  assume t: "takes E who s common d a" "withheld s = W" "well_read a"
    and m: "copy_manifest (kern E) (flts E Harvesting who PoolApps) (app_data a) (change common_dir c d)
          (manifest_name (app_id a)) (own E) = (d', e)"
  have "same_manifests (\<lambda>x. map_of W x \<noteq> None) d' (change common_dir c d)"
    using copy_manifest_same [OF m well_read_names(1) [OF t(3)]] takes_facts [OF t(1)] t(2) by simp
  with same_manifests_common show "same_manifests (\<lambda>x. map_of W x \<noteq> None) d' d" by (rule same_manifests_trans)
qed (auto intro: same_manifests_trans)

section \<open>Handing out\<close>

lemma open_common_files:
  assumes "open_common E m opened lib = (lib', err)"
  shows "same_manifests P lib' lib \<and> (is_dir lib \<longrightarrow> is_dir lib')"
proof (cases opened)
  case True
  with assms show ?thesis by (simp add: open_common_def)
next
  case False
  obtain l r where e: "ensure_dir_at (kern E) (flts E Giving (mem_name m) (apps_place m) [common_dir]) lib common_dir 493 = (l, r)"
    by force
  have l: "same_manifests P l lib" "is_dir lib \<longrightarrow> is_dir l"
    using e by (auto simp: ensure_dir_at_def Let_def same_manifests_def map_of_update split: if_splits)
  have "lib' = l \<or> (\<exists>x. lib' = change common_dir x l)"
    using assms False e by (auto simp: open_common_def Let_def split: sum.splits if_splits)
  with l same_manifests_trans [OF _ same_manifests_common] show ?thesis by auto
qed

lemma give_app_files:
  assumes "give_app E m pc a opened lib = (lib', opened', g)" "component (manifest_name (app_id a))"
  shows "same_manifests (\<lambda>x. x \<noteq> app_id a \<or> (\<forall>r. g \<noteq> Handed r)) lib' lib \<and> (is_dir lib \<longrightarrow> is_dir lib')
    \<and> (\<forall>r. g = Handed r \<longrightarrow> (\<exists>x. map_of (entries lib') (manifest_name (app_id a)) = Some (Reg x (rewrite (app_data a)))))"
    (is "same_manifests ?P _ _ \<and> _ \<and> _")
proof (cases "is_dir_at (flts E Giving (mem_name m) PoolApps [install_dir a]) pc (install_dir a)")
  case False
  with assms show ?thesis by (simp add: give_app_def)
next
  case True
  obtain l1 e1 where o: "open_common E m opened lib = (l1, e1)" by force
  note f1 = open_common_files [OF o]
  show ?thesis
  proof (cases e1)
    case (Some x)
    with assms True o f1 show ?thesis by (auto simp: give_app_def)
  next
    case None
    obtain c r e where c: "clone_to E Giving (mem_name m) pc (install_dir a) (entry l1 common_dir) (mem_owner m) False = (c, r, e)"
      by (metis prod.exhaust)
    have l1: "same_manifests ?P (change common_dir c l1) lib"
      using f1 same_manifests_common same_manifests_trans by blast
    show ?thesis
    proof (cases e)
      case (Some x)
      with assms True o None c l1 show ?thesis by (auto simp: give_app_def)
    next
      case e: None
      obtain l2 e2 where m: "copy_manifest (kern E) (flts E Giving (mem_name m) (apps_place m)) (app_data a)
          (change common_dir c l1) (manifest_name (app_id a)) (mem_owner m) = (l2, e2)" by force
      have r: "lib' = l2" "g = (case e2 of None \<Rightarrow> Handed r | Some x \<Rightarrow> Refused (FsErr x))"
        using assms True o None c e m by (auto simp: give_app_def split: option.splits)
      have "same_manifests ?P l2 (change common_dir c l1)"
        by (rule copy_manifest_same [OF m assms(2)]) (auto simp: r split: option.splits)
      with l1 have "same_manifests ?P l2 lib" by (rule same_manifests_trans)
      moreover have "is_dir l2" by (rule copy_manifest_dir [OF m]) simp
      ultimately show ?thesis using copy_manifest_names [OF m assms(2)] r by (auto split: option.splits)
    qed
  qed
qed

end
