(* ===== verification/Pool_Give.thy ===== *)
theory Pool_Give
  imports Pool_Rules
begin

text \<open>
  Handing titles to a member, against a description of it that knows no files: a library is a
  map from titles to builds, and a pass over it gives, waits or declines title by title.
\<close>

section \<open>Title by title\<close>

definition outcome :: "member \<Rightarrow> (string \<Rightarrow> app option) \<Rightarrow> pool_state \<Rightarrow> app \<Rightarrow> choice" where
  "outcome m pr s a =
     (if \<not> installed a then Leave
      else decide (map_option (\<lambda>here. newer_build (build_id a) (build_id here)) (pr (app_id a)))
             (updatable m) (status s (mem_name m) (app_id a)))"

lemma status_mark:
  "status (mark seat x v s) seat' y =
     (if seat' = seat \<and> y = x \<and> \<not> (status s seat x = status_declined \<and> v = status_delivered)
      then v else status s seat' y)"
  by (auto simp: status_def mark_def)

text \<open>What the pass makes of one title: its manifest, its mark and the report.\<close>

definition made :: "env \<Rightarrow> member \<Rightarrow> node \<Rightarrow> choice \<Rightarrow> app \<Rightarrow> pool_state \<Rightarrow> node \<Rightarrow> pool_state \<Rightarrow> node \<Rightarrow> report \<Rightarrow> bool" where
  "made E m pc ch a s lib s' lib' rep' \<longleftrightarrow>
     (let who = mem_name m; x = app_id a;
          same_file = (map_of (entries lib') (manifest_name x) = map_of (entries lib) (manifest_name x));
          same_mark = (status s' who x = status s who x)
      in case ch of
        Leave \<Rightarrow> same_file \<and> same_mark
      | Wait \<Rightarrow> same_file \<and> same_mark \<and> app_move a who 0 \<in> set (pending rep')
      | Decline \<Rightarrow> same_file \<and> status s' who x = status_declined \<and> app_move a who 0 \<in> set (declined rep')
      | Give \<Rightarrow>
          if \<not> is_dir_at (flts E Giving who PoolApps [install_dir a]) pc (install_dir a) then same_file \<and> same_mark
          else (\<exists>md. map_of (entries lib') (manifest_name x) = Some (Reg md (rewrite (app_data a))))
             \<and> (status s who x = status_declined \<or> status s' who x = status_delivered)
             \<and> (status s who x = status_declined \<longrightarrow> same_mark)
             \<and> (\<exists>n. app_move a who n \<in> set (handed rep')))"

text \<open>A pass that goes on from another one.\<close>

definition grown :: "report \<Rightarrow> report \<Rightarrow> bool" where
  "grown rep' rep \<longleftrightarrow> set (pending rep) \<subseteq> set (pending rep') \<and> set (declined rep) \<subseteq> set (declined rep')
     \<and> set (handed rep) \<subseteq> set (handed rep')"

lemma made_later:
  assumes "made E m pc ch a s lib s1 lib1 rep1" "same_manifests P lib2 lib1" "P (app_id a)"
    and "status s2 (mem_name m) (app_id a) = status s1 (mem_name m) (app_id a)" "grown rep2 rep1"
  shows "made E m pc ch a s lib s2 lib2 rep2"
proof -
  have f: "map_of (entries lib2) (manifest_name (app_id a)) = map_of (entries lib1) (manifest_name (app_id a))"
    using assms(2,3) by (simp add: same_manifests_def)
  show ?thesis
    using assms(1,4,5) by (cases ch) (auto simp: made_def grown_def Let_def f split: if_splits)
qed

lemma made_earlier:
  assumes "made E m pc ch a s1 lib1 s2 lib2 rep2" "same_manifests P lib1 lib" "P (app_id a)"
    and "status s1 (mem_name m) (app_id a) = status s (mem_name m) (app_id a)"
  shows "made E m pc ch a s lib s2 lib2 rep2"
proof -
  have f: "map_of (entries lib1) (manifest_name (app_id a)) = map_of (entries lib) (manifest_name (app_id a))"
    using assms(2,3) by (simp add: same_manifests_def)
  show ?thesis
    using assms(1,4) by (cases ch) (auto simp: made_def Let_def f split: if_splits)
qed

text \<open>One title, and what the others see of it.\<close>

lemma give_apps_Cons:
  assumes "give_apps E m pr pc (a # apps) opened s lib rep = (s', lib', rep', err)" "well_read a" "is_dir lib"
  obtains opened1 s1 lib1 rep1 where
    "is_dir lib1" "grown rep1 rep" "same_manifests (\<lambda>x. x \<noteq> app_id a) lib1 lib"
    "\<And>seat x. x \<noteq> app_id a \<or> seat \<noteq> mem_name m \<or> (outcome m pr s a \<noteq> Give \<and> outcome m pr s a \<noteq> Decline)
       \<Longrightarrow> status s1 seat x = status s seat x"
    "outcome m pr s a \<noteq> Give \<Longrightarrow> handed rep1 = handed rep \<and> same_manifests (\<lambda>_. True) lib1 lib"
    "\<And>mv. mv \<in> set (handed rep1) \<Longrightarrow> mv \<in> set (handed rep) \<or> mv_app mv = app_id a"
    "(give_apps E m pr pc apps opened1 s1 lib1 rep1 = (s', lib', rep', err) \<and> made E m pc (outcome m pr s a) a s lib s1 lib1 rep1)
     \<or> (s' = s1 \<and> lib' = lib1 \<and> rep' = rep1 \<and> err \<noteq> None)"
proof (cases "outcome m pr s a")
  case Leave
  then have "give_apps E m pr pc apps opened s lib rep = (s', lib', rep', err)"
    using assms(1) by (auto simp: outcome_def split: if_splits)
  with Leave assms show ?thesis
    by (intro that [of lib rep s opened]) (auto simp: grown_def made_def)
next
  case Wait
  then have "give_apps E m pr pc apps opened s lib (rep\<lparr>pending := pending rep @ [app_move a (mem_name m) 0]\<rparr>)
      = (s', lib', rep', err)"
    using assms(1) by (auto simp: outcome_def split: if_splits)
  with Wait assms show ?thesis
    by (intro that [of lib "rep\<lparr>pending := pending rep @ [app_move a (mem_name m) 0]\<rparr>" s opened])
      (auto simp: grown_def made_def Let_def)
next
  case Decline
  then have "give_apps E m pr pc apps opened (mark (mem_name m) (app_id a) status_declined s) lib
      (rep\<lparr>declined := declined rep @ [app_move a (mem_name m) 0]\<rparr>) = (s', lib', rep', err)"
    using assms(1) by (auto simp: outcome_def split: if_splits)
  with Decline assms show ?thesis
    by (intro that [of lib "rep\<lparr>declined := declined rep @ [app_move a (mem_name m) 0]\<rparr>"
            "mark (mem_name m) (app_id a) status_declined s" opened])
      (auto simp: grown_def made_def Let_def status_mark)
next
  case Give
  obtain l1 o1 g where g: "give_app E m pc a opened lib = (l1, o1, g)" by (metis prod.exhaust)
  note f = give_app_files [OF g well_read_names(1) [OF assms(2)]]
  have others: "same_manifests (\<lambda>x. x \<noteq> app_id a) l1 lib" using f by (auto simp: same_manifests_def)
  have run: "give_apps E m pr pc (a # apps) opened s lib rep =
      (case (l1, o1, g) of
         (lib', opened', NotInPool) \<Rightarrow> give_apps E m pr pc apps opened' s lib' rep
       | (lib', opened', Refused e) \<Rightarrow> (s, lib', rep, Some e)
       | (lib', opened', Handed r) \<Rightarrow>
           give_apps E m pr pc apps opened' (mark (mem_name m) (app_id a) status_delivered s) lib'
             (rep\<lparr>handed := handed rep @ [app_move a (mem_name m) (bytes r)]\<rparr>))"
    using Give g by (simp add: outcome_def split: if_splits)
  show ?thesis
  proof (cases g)
    case NotInPool
    then have nd: "\<not> is_dir_at (flts E Giving (mem_name m) PoolApps [install_dir a]) pc (install_dir a)"
      using g by (auto simp: give_app_def Let_def split: if_splits prod.splits option.splits)
    show ?thesis
      using Give NotInPool run assms(1,3) f nd others
      by (intro that [of l1 rep s o1]) (auto simp: grown_def made_def Let_def same_manifests_def)
  next
    case (Refused e)
    with Give run assms(1,3) f others show ?thesis
      by (intro that [of l1 rep s o1]) (auto simp: grown_def)
  next
    case (Handed r)
    let ?rep = "rep\<lparr>handed := handed rep @ [app_move a (mem_name m) (bytes r)]\<rparr>"
    let ?s = "mark (mem_name m) (app_id a) status_delivered s"
    have there: "is_dir_at (flts E Giving (mem_name m) PoolApps [install_dir a]) pc (install_dir a)"
      using g Handed by (auto simp: give_app_def Let_def split: if_splits)
    obtain x where "map_of (entries l1) (manifest_name (app_id a)) = Some (Reg x (rewrite (app_data a)))"
      using f Handed by auto
    with there have made: "made E m pc Give a s lib ?s l1 ?rep"
      by (auto simp: made_def Let_def status_mark)
    have go: "give_apps E m pr pc apps o1 ?s l1 ?rep = (s', lib', rep', err)"
      using run Handed assms(1) by simp
    show ?thesis
      by (rule that [of l1 ?rep ?s o1])
        (use f assms(3) others made go Give in \<open>auto simp: grown_def status_mark app_move_def\<close>)
  qed
qed

lemma give_apps_others:
  "give_apps E m pr pc apps opened s lib rep = (s', lib', rep', err) \<Longrightarrow> \<forall>a \<in> set apps. well_read a \<Longrightarrow> is_dir lib \<Longrightarrow>
     is_dir lib' \<and> grown rep' rep \<and> same_manifests (\<lambda>x. x \<notin> app_id ` set apps) lib' lib
     \<and> (\<forall>seat x. x \<notin> app_id ` set apps \<or> seat \<noteq> mem_name m \<longrightarrow> status s' seat x = status s seat x)
     \<and> (\<forall>mv \<in> set (handed rep'). mv \<in> set (handed rep) \<or> mv_app mv \<in> app_id ` set apps)"
proof (induction apps arbitrary: opened s lib rep)
  case Nil
  then show ?case by (simp add: grown_def)
next
  case (Cons a apps)
  have wa: "well_read a" and wr: "\<forall>b \<in> set apps. well_read b" using Cons.prems(2) by simp_all
  from Cons.prems(1) wa Cons.prems(3) obtain opened1 s1 lib1 rep1 where
    one: "is_dir lib1" "grown rep1 rep" "same_manifests (\<lambda>x. x \<noteq> app_id a) lib1 lib"
      "\<And>seat x. x \<noteq> app_id a \<or> seat \<noteq> mem_name m \<or> (outcome m pr s a \<noteq> Give \<and> outcome m pr s a \<noteq> Decline)
         \<Longrightarrow> status s1 seat x = status s seat x"
      "\<And>mv. mv \<in> set (handed rep1) \<Longrightarrow> mv \<in> set (handed rep) \<or> mv_app mv = app_id a"
    and rest: "give_apps E m pr pc apps opened1 s1 lib1 rep1 = (s', lib', rep', err)
        \<or> (s' = s1 \<and> lib' = lib1 \<and> rep' = rep1)"
    by (rule give_apps_Cons) blast
  show ?case
  proof (cases "s' = s1 \<and> lib' = lib1 \<and> rep' = rep1")
    case True
    with one show ?thesis by (auto simp: same_manifests_def)
  next
    case False
    with rest have g: "give_apps E m pr pc apps opened1 s1 lib1 rep1 = (s', lib', rep', err)" by blast
    note ih = Cons.IH [OF g wr one(1)]
    have "grown rep' rep" using ih one(2) by (auto simp: grown_def)
    moreover have "same_manifests (\<lambda>x. x \<notin> app_id ` set (a # apps)) lib' lib"
      using ih one(3) by (simp add: same_manifests_def)
    moreover have "\<forall>seat x. x \<notin> app_id ` set (a # apps) \<or> seat \<noteq> mem_name m \<longrightarrow> status s' seat x = status s seat x"
      using ih one(4) by simp
    moreover have "\<forall>mv \<in> set (handed rep'). mv \<in> set (handed rep) \<or> mv_app mv \<in> app_id ` set (a # apps)"
      using ih one(5) by fastforce
    ultimately show ?thesis using ih by blast
  qed
qed

lemma give_apps_made:
  assumes "give_apps E m pr pc apps opened s lib rep = (s', lib', rep', None)"
    and "\<forall>a \<in> set apps. well_read a" "is_dir lib" "distinct (map app_id apps)" "a \<in> set apps"
  shows "made E m pc (outcome m pr s a) a s lib s' lib' rep'"
  using assms
proof (induction apps arbitrary: opened s lib rep)
  case (Cons b apps)
  have wb: "well_read b" and wr: "\<forall>b \<in> set apps. well_read b" using Cons.prems(2) by simp_all
  from Cons.prems(1) wb Cons.prems(3) obtain opened1 s1 lib1 rep1 where
    one: "is_dir lib1" "same_manifests (\<lambda>x. x \<noteq> app_id b) lib1 lib"
      "\<And>x. x \<noteq> app_id b \<Longrightarrow> status s1 (mem_name m) x = status s (mem_name m) x"
    and g: "give_apps E m pr pc apps opened1 s1 lib1 rep1 = (s', lib', rep', None)"
    and mb: "made E m pc (outcome m pr s b) b s lib s1 lib1 rep1"
    by (rule give_apps_Cons) blast
  note rest = give_apps_others [OF g wr one(1)]
  show ?case
  proof (cases "a = b")
    case True
    have "app_id b \<notin> app_id ` set apps" using Cons.prems(4) by auto
    with rest mb True show ?thesis
      by (auto intro!: made_later [OF mb])
  next
    case False
    with Cons.prems(5) have a1: "a \<in> set apps" by simp
    have nb: "app_id b \<notin> app_id ` set apps" using Cons.prems(4) by simp
    have "app_id a \<in> app_id ` set apps" using a1 by (rule imageI)
    with nb have "app_id a \<noteq> app_id b" by metis
    with a1 have a: "a \<in> set apps" "app_id a \<noteq> app_id b" by simp_all
    have "outcome m pr s1 a = outcome m pr s a" using one(3) a(2) by (simp add: outcome_def)
    with Cons.IH [OF g wr one(1)] Cons.prems(4) a have
      "made E m pc (outcome m pr s a) a s1 lib1 s' lib' rep'" by simp
    from made_earlier [OF this one(2) a(2)] one(3) a(2) show ?thesis by blast
  qed
qed simp

section \<open>A library as a map of builds\<close>

definition build_at :: "node \<Rightarrow> string \<Rightarrow> string option" where
  "build_at lib x =
     (case read_app_at (\<lambda>_. False) lib (manifest_name x) of Inl e \<Rightarrow> None | Inr a \<Rightarrow> Some (build_id a))"

text \<open>The build a member has of a title, if its library can be opened and the manifest read.\<close>

definition member_build :: "world \<Rightarrow> member \<Rightarrow> string \<Rightarrow> string option" where
  "member_build w m x =
     (case open_place (\<lambda>_ _. False) w (apps_place m) of Inl e \<Rightarrow> None | Inr lib \<Rightarrow> build_at lib x)"

lemma build_at_file:
  "build_at lib x =
     (case file_of (map_of (entries lib) (manifest_name x)) of
        None \<Rightarrow> None
      | Some (m, s) \<Rightarrow>
          if \<not> component (manifest_name x) \<or> length s > max_manifest then None
          else (case parse_manifest s of Inl e \<Rightarrow> None | Inr a \<Rightarrow> Some (build_id a)))"
  by (auto simp: build_at_def read_app_at_def open_file_at_def file_of_def split: option.split node.split sum.split)

lemma member_build_file:
  "member_build w m x =
     (case file_at w (apps_place m) (manifest_name x) of
        None \<Rightarrow> None
      | Some (md, s) \<Rightarrow>
          if \<not> component (manifest_name x) \<or> length s > max_manifest then None
          else (case parse_manifest s of Inl e \<Rightarrow> None | Inr a \<Rightarrow> Some (build_id a)))"
  by (simp add: member_build_def file_at_def build_at_file split: sum.split)

text \<open>A pass, without files: what the member has and what it was given before, title by title.\<close>

type_synonym shelf = "(string \<Rightarrow> string option) \<times> (string \<Rightarrow> string)"

definition spec_choice :: "bool \<Rightarrow> string \<Rightarrow> string option \<Rightarrow> string \<Rightarrow> choice" where
  "spec_choice upd build have' mk =
     (case have' of
        Some b \<Rightarrow> if newer_build build b then if upd then Give else Wait else Leave
      | None \<Rightarrow> if mk = ''declined'' then Leave else if mk = ''delivered'' then Decline else Give)"

lemma spec_choice_decide: "spec_choice upd build have' mk = decide (map_option (newer_build build) have') upd mk"
  by (simp add: spec_choice_def decide_def status_declined_def status_delivered_def split: option.split)

definition spec_give :: "bool \<Rightarrow> (string \<Rightarrow> (string \<times> bool) option) \<Rightarrow> shelf \<Rightarrow> shelf" where
  "spec_give upd offer' sh =
     (case sh of (builds, marks) \<Rightarrow>
        (\<lambda>x. case offer' x of
               None \<Rightarrow> builds x
             | Some (b, full) \<Rightarrow>
                 if full \<and> spec_choice upd b (builds x) (marks x) = Give then Some b else builds x,
         \<lambda>x. case offer' x of
               None \<Rightarrow> marks x
             | Some (b, full) \<Rightarrow>
                 (case spec_choice upd b (builds x) (marks x) of
                    Give \<Rightarrow> if \<not> full \<or> marks x = status_declined then marks x else status_delivered
                  | Decline \<Rightarrow> status_declined
                  | _ \<Rightarrow> marks x)))"

text \<open>What the pool offers: the titles that are finished, and whether their files are there.\<close>

definition offered :: "env \<Rightarrow> member \<Rightarrow> node \<Rightarrow> app list \<Rightarrow> string \<Rightarrow> (string \<times> bool) option" where
  "offered E m pc apps =
     map_of (map (\<lambda>a. (app_id a, build_id a,
              is_dir_at (flts E Giving (mem_name m) PoolApps [install_dir a]) pc (install_dir a)))
       (filter installed apps))"

definition shelf_of :: "member \<Rightarrow> pool_state \<Rightarrow> node \<Rightarrow> shelf" where
  "shelf_of m s lib = (build_at lib, status s (mem_name m))"

lemma apps_named_mem:
  "a \<in> set (apps_named c d names) \<longleftrightarrow> (\<exists>n \<in> set names. manifest_shape n \<and> read_app_at (c n) d n = Inr a)"
  by (induction names) (auto simp: manifest_shape_def split: sum.split)

lemma present_apps_iff:
  assumes "\<And>b c. b \<in> set apps \<Longrightarrow> c \<in> set apps \<Longrightarrow> app_id b = app_id c \<Longrightarrow> b = c"
  shows "present_apps apps x = Some a \<longleftrightarrow> a \<in> set apps \<and> app_id a = x"
proof
  assume "present_apps apps x = Some a"
  then show "a \<in> set apps \<and> app_id a = x" by (auto simp: present_apps_def dest!: map_of_SomeD)
next
  assume a: "a \<in> set apps \<and> app_id a = x"
  then have "map_of (rev (map (\<lambda>a. (app_id a, a)) apps)) x \<noteq> None"
    by (auto simp: map_of_eq_None_iff image_image)
  then obtain b where b: "map_of (rev (map (\<lambda>a. (app_id a, a)) apps)) x = Some b" by blast
  then have "b \<in> set apps \<and> app_id b = x" by (auto dest!: map_of_SomeD)
  with a assms b show "present_apps apps x = Some a" by (auto simp: present_apps_def)
qed

lemma present_apps_named:
  assumes "read_apps_at flt lib = Inr apps" "\<forall>p op. \<not> flt p op" "pool_named lib"
  shows "present_apps apps x =
    (case read_app_at (\<lambda>_. False) lib (manifest_name x) of Inl e \<Rightarrow> None
     | Inr a \<Rightarrow> if app_id a = x then Some a else None)"
proof -
  have f: "flt p = (\<lambda>_. False)" for p using assms(2) by (intro ext) simp
  have mem: "a \<in> set apps \<longleftrightarrow> (\<exists>n. manifest_shape n \<and> read_app_at (\<lambda>_. False) lib n = Inr a)" for a
  proof
    assume "a \<in> set apps"
    with read_apps_at_read [OF assms(1)] show "\<exists>n. manifest_shape n \<and> read_app_at (\<lambda>_. False) lib n = Inr a"
      by (auto simp: f)
  next
    assume "\<exists>n. manifest_shape n \<and> read_app_at (\<lambda>_. False) lib n = Inr a"
    then obtain n where n: "manifest_shape n" "read_app_at (\<lambda>_. False) lib n = Inr a" by blast
    then have "n \<in> set (map fst (entries lib))"
      by (auto dest!: read_app_at_Inr map_of_SomeD intro: rev_image_eqI)
    with n have "a \<in> set (apps_named (\<lambda>n. flt [n]) lib (map fst (entries lib)))"
      unfolding apps_named_mem f by blast
    with assms(1) show "a \<in> set apps" by (auto simp: read_apps_at_def split: if_splits)
  qed
  have uniq: "a = b" if "a \<in> set apps" "b \<in> set apps" "app_id a = app_id b" for a b
    using that mem assms(3) by (auto simp: pool_named_def) (metis sum.inject(2))
  have pr: "present_apps apps x = Some a \<longleftrightarrow> a \<in> set apps \<and> app_id a = x" for a
    by (rule present_apps_iff) (use uniq in blast)
  show ?thesis
  proof (cases "read_app_at (\<lambda>_. False) lib (manifest_name x)")
    case (Inl e)
    then have "present_apps apps x \<noteq> Some a" for a
      using pr [of a] mem [of a] assms(3) by (auto simp: pool_named_def)
    with Inl show ?thesis by (cases "present_apps apps x") auto
  next
    case (Inr a)
    show ?thesis
    proof (cases "app_id a = x")
      case True
      with Inr mem [of a] pr [of a] show ?thesis by auto
    next
      case False
      then have "present_apps apps x \<noteq> Some b" for b
        using pr [of b] mem [of b] assms(3) Inr by (auto simp: pool_named_def)
      with Inr False show ?thesis by (cases "present_apps apps x") auto
    qed
  qed
qed

lemma offered_iff:
  assumes "distinct (map app_id apps)"
  shows "a \<in> set apps \<Longrightarrow> offered E m pc apps (app_id a) =
      (if installed a then Some (build_id a,
         is_dir_at (flts E Giving (mem_name m) PoolApps [install_dir a]) pc (install_dir a)) else None)"
    "x \<notin> app_id ` set apps \<Longrightarrow> offered E m pc apps x = None"
  using assms by (induction apps) (auto simp: offered_def map_of_eq_None_iff image_iff)

lemma read_written:
  assumes "map_of (entries lib) (manifest_name (app_id a)) = Some (Reg md (rewrite (app_data a)))"
    and "well_read a" "ordinary_lines (app_data a)" "length (rewrite (app_data a)) \<le> max_manifest"
  shows "build_at lib (app_id a) = Some (build_id a)"
proof -
  obtain a0 where a: "parse_manifest (app_data a) = Inr a0" "a = a0\<lparr>app_data := app_data a, mod_time := mod_time a\<rparr>"
    using assms(2) by (auto simp: well_read_def read_from_def)
  have b: "build_id a = build_id a0" by (subst a(2)) simp
  have "parse_manifest (rewrite (app_data a)) = Inr a0"
    using fields_rewrite(1) [OF ordinary_flags [OF assms(3)]] a(1) by simp
  with assms(1,4) b well_read_names(1) [OF assms(2)] show ?thesis
    by (simp add: build_at_def read_app_at_def open_file_at_def)
qed

lemma build_at_cong:
  "map_of (entries d) (manifest_name x) = map_of (entries e) (manifest_name x) \<Longrightarrow> build_at d x = build_at e x"
  by (simp only: build_at_def read_app_at_cong [of d "manifest_name x" e])

lemma made_same_build:
  assumes "made E m pc ch a s lib s' lib' rep'"
    and "ch \<noteq> Give \<or> \<not> is_dir_at (flts E Giving (mem_name m) PoolApps [install_dir a]) pc (install_dir a)"
  shows "build_at lib' (app_id a) = build_at lib (app_id a)"
  by (rule build_at_cong) (use assms in \<open>cases ch; simp add: made_def Let_def\<close>)

definition plain_data :: "string \<Rightarrow> bool" where
  "plain_data s \<longleftrightarrow> ordinary_lines s \<and> length (rewrite s) \<le> max_manifest"

lemma shelf_made:
  assumes "made E m pc (outcome m pr s a) a s lib s' lib' rep'" "well_read a" "plain_data (app_data a)"
    and "pr (app_id a) = None \<longleftrightarrow> build_at lib (app_id a) = None"
    and "\<And>h. pr (app_id a) = Some h \<Longrightarrow> build_at lib (app_id a) = Some (build_id h)"
    and "offered E m pc apps (app_id a) = (if installed a then Some (build_id a,
         is_dir_at (flts E Giving (mem_name m) PoolApps [install_dir a]) pc (install_dir a)) else None)"
  shows "build_at lib' (app_id a) = fst (spec_give (updatable m) (offered E m pc apps) (shelf_of m s lib)) (app_id a)
    \<and> status s' (mem_name m) (app_id a) = snd (spec_give (updatable m) (offered E m pc apps) (shelf_of m s lib)) (app_id a)"
proof -
  let ?ch = "outcome m pr s a"
  let ?full = "is_dir_at (flts E Giving (mem_name m) PoolApps [install_dir a]) pc (install_dir a)"
  note made = assms(1) and same = made_same_build [OF assms(1)]
  have ch: "spec_choice (updatable m) (build_id a) (build_at lib (app_id a)) (status s (mem_name m) (app_id a)) = ?ch"
    if "installed a"
    using that assms(4,5) by (cases "pr (app_id a)") (auto simp: outcome_def spec_choice_decide)
  consider "\<not> installed a" | "installed a" "?ch = Give" "?full" | "installed a" "?ch = Give" "\<not> ?full"
    | "installed a" "?ch = Decline" | "installed a" "?ch = Leave \<or> ?ch = Wait"
    by (cases ?ch) auto
  then show ?thesis
  proof cases
    case 1
    then have "?ch = Leave" by (simp add: outcome_def)
    with 1 made same assms(6) show ?thesis by (simp add: made_def spec_give_def shelf_of_def Let_def)
  next
    case 2
    with made obtain md where md: "map_of (entries lib') (manifest_name (app_id a)) = Some (Reg md (rewrite (app_data a)))"
      by (auto simp: made_def Let_def)
    have b: "build_at lib' (app_id a) = Some (build_id a)"
      using read_written [OF md assms(2)] assms(3) by (simp add: plain_data_def)
    have st: "status s' (mem_name m) (app_id a) = (if status s (mem_name m) (app_id a) = status_declined
        then status s (mem_name m) (app_id a) else status_delivered)"
      using made 2 by (auto simp: made_def Let_def)
    show ?thesis using 2 assms(6) ch b st by (simp add: spec_give_def shelf_of_def)
  next
    case 3
    with made same assms(6) ch show ?thesis by (simp add: made_def spec_give_def shelf_of_def Let_def)
  next
    case 4
    with made same assms(6) ch show ?thesis by (simp add: made_def spec_give_def shelf_of_def Let_def)
  next
    case 5
    have st: "status s' (mem_name m) (app_id a) = status s (mem_name m) (app_id a)"
      using made 5(2) by (auto simp: made_def Let_def)
    have b: "build_at lib' (app_id a) = build_at lib (app_id a)" using same 5(2) by auto
    show ?thesis using 5 assms(6) ch b st by (auto simp: spec_give_def shelf_of_def)
  qed
qed

lemma distribute_steps:
  assumes "distribute E m apps s w rep = (s', w', rep', err)"
  shows "(w' = w \<and> s' = s \<and> rep' = rep \<and> err \<noteq> None) \<or>
    (\<exists>lib here pc lib'. open_place (flts E Giving (mem_name m) (apps_place m)) w (apps_place m) = Inr lib
      \<and> read_apps_at (flts E Giving (mem_name m) (apps_place m)) lib = Inr here
      \<and> map_of (entries (pool_apps w)) common_dir = Some pc
      \<and> give_apps E m (present_apps here) pc apps False s lib rep = (s', lib', rep', err)
      \<and> w' = store_place (apps_place m) lib' w)"
proof (cases "open_place (flts E Giving (mem_name m) (apps_place m)) w (apps_place m)")
  case (Inl e)
  with assms show ?thesis by (auto simp: distribute_def)
next
  case o: (Inr lib)
  show ?thesis
  proof (cases "read_apps_at (flts E Giving (mem_name m) (apps_place m)) lib")
    case (Inl e)
    with assms o show ?thesis by (auto simp: distribute_def)
  next
    case r: (Inr here)
    show ?thesis
    proof (cases "open_dir_at (flts E Giving (mem_name m) PoolApps [common_dir]) (pool_apps w) common_dir")
      case (Inl e)
      with assms o r show ?thesis by (auto simp: distribute_def)
    next
      case p: (Inr pc)
      obtain s1 l1 rep1 e1 where g: "give_apps E m (present_apps here) pc apps False s lib rep = (s1, l1, rep1, e1)"
        by (metis prod.exhaust)
      with assms o r p have "s' = s1 \<and> w' = store_place (apps_place m) l1 w \<and> rep' = rep1 \<and> err = e1"
        by (simp add: distribute_def)
      with o r p g show ?thesis by (auto simp: open_dir_at_iff)
    qed
  qed
qed

end
