(* ===== verification/Pool_Marks.thy ===== *)
theory Pool_Marks
  imports Pool_Give
begin

text \<open>
  What is remembered of a title somebody removed: the mark stays through every pass, and the
  member is not given the title.
\<close>

section \<open>What a pass does to the state\<close>

text \<open>
  A pass changes the state by marking titles and by writing down builds of folders. A relation that
  both keep is kept by every pass, whichever calls fail.
\<close>

locale mark_rule =
  fixes R :: "pool_state \<Rightarrow> pool_state \<Rightarrow> bool"
  assumes same: "R s s"
    and trans: "R s1 s \<Longrightarrow> R s2 s1 \<Longrightarrow> R s2 s"
    and by_mark: "v = status_delivered \<or> v = status_declined \<Longrightarrow> R (mark seat x v s) s"
    and by_folders: "R (s\<lparr>folders := f\<rparr>) s"
begin

lemma by_marked_folders: "R s1 s \<Longrightarrow> R (s1\<lparr>folders := f\<rparr>) s"
  by (rule trans [OF _ by_folders])

lemmas rules = same by_mark by_marked_folders

lemma by_mark_apps: "R (mark_apps seat apps s) s"
proof (induction apps arbitrary: s)
  case (Cons a apps)
  show ?case using trans [OF by_mark Cons.IH] by simp
qed (simp add: same)

lemma by_harvest: "harvest E m s w rep = (s', w', rep', err) \<Longrightarrow> R s' s"
  by (auto simp: harvest_def Let_def same by_mark_apps split: sum.splits prod.splits)

lemma by_harvest_each_folder:
  "harvest_each_folder E who dir fs s pool rep = (s', pool', rep', err) \<Longrightarrow> R s' s"
proof (induction fs arbitrary: s pool rep)
  case (Cons f fs)
  let ?s = "mark who (folder_key (f_name f)) status_delivered s"
  have m: "R ?s s" by (simp add: by_mark)
  have "s' = ?s \<or> (\<exists>s2 pool2 rep2. harvest_each_folder E who dir fs s2 pool2 rep2 = (s', pool', rep', err)
      \<and> R s2 s)"
    using Cons.prems m by_marked_folders [OF m]
    by (auto simp: Let_def split: if_splits option.splits prod.splits sum.splits folder_error.splits)
  with m Cons.IH trans show ?case by blast
qed (simp add: same)

lemma by_harvest_folders: "harvest_folders E m s w rep = (s', w', rep', fs, err) \<Longrightarrow> R s' s"
  by (auto simp: harvest_folders_def Let_def same split: sum.splits option.splits prod.splits
      dest: by_harvest_each_folder)

lemma by_give_apps:
  "give_apps E m pr pc apps opened s lib rep = (s', lib', rep', err) \<Longrightarrow> R s' s"
proof (induction apps arbitrary: opened s lib rep)
  case (Cons a apps)
  have "s' = s \<or> (\<exists>o2 s2 lib2 rep2. give_apps E m pr pc apps o2 s2 lib2 rep2 = (s', lib', rep', err)
      \<and> R s2 s)"
    using Cons.prems same by_mark
    by (auto split: if_splits choice.splits prod.splits given.splits) blast+
  with Cons.IH trans same show ?case by blast
qed (simp add: same)

lemma by_distribute: "distribute E m apps s w rep = (s', w', rep', err) \<Longrightarrow> R s' s"
  using distribute_steps [of E m apps s w rep s' w' rep' err] by_give_apps same by blast

lemma by_give_folders:
  "give_folders E m here pool names s dir rep = (s', dir', rep', err) \<Longrightarrow> R s' s"
proof (induction names arbitrary: s dir rep)
  case (Cons n names)
  have "s' = s \<or> (\<exists>s2 dir2 rep2. give_folders E m here pool names s2 dir2 rep2 = (s', dir', rep', err)
      \<and> R s2 s)"
    using Cons.prems same by_mark
    by (auto simp: Let_def split: if_splits choice.splits prod.splits option.splits) blast+
  with Cons.IH trans same show ?case by blast
qed (simp add: same)

lemma by_distribute_folders: "distribute_folders E m fs s w rep = (s', w', rep', err) \<Longrightarrow> R s' s"
  by (auto simp: distribute_folders_def Let_def same split: sum.splits prod.splits option.splits
      dest: by_give_folders)

lemma by_sync_harvest: "sync_harvest E ms s w rep = (s', w', rep') \<Longrightarrow> R s' s"
proof (induction ms arbitrary: s w rep)
  case (Cons m ms)
  obtain s1 w1 r e where h: "harvest E m s w rep = (s1, w1, r, e)" by (metis prod.exhaust)
  with Cons.prems Cons.IH by_harvest [OF h] trans show ?case by auto
qed (simp add: same)

lemma by_sync_folders: "sync_folders E ms s w rep = (s', w', rep', sc) \<Longrightarrow> R s' s"
proof (induction ms arbitrary: s w rep s' w' rep' sc)
  case (Cons m ms)
  obtain s1 w1 r1 fs e where h: "harvest_folders E m s w rep = (s1, w1, r1, fs, e)" by (metis prod.exhaust)
  obtain s2 w2 r2 sc2 where t: "sync_folders E ms s1 w1 (trouble (mem_name m) e r1) = (s2, w2, r2, sc2)"
    by (metis prod.exhaust)
  from trans [OF by_harvest_folders [OF h] Cons.IH [OF t]] Cons.prems h t show ?case by simp
qed (simp add: same)

lemma by_sync_give: "sync_give E apps scans ms s w rep = (s', w', rep') \<Longrightarrow> R s' s"
proof (induction ms arbitrary: s w rep)
  case (Cons m ms)
  obtain s1 w1 r1 e1 where d: "distribute E m apps s w rep = (s1, w1, r1, e1)" by (metis prod.exhaust)
  note k1 = by_distribute [OF d]
  show ?case
  proof (cases "scan_of scans (mem_name m)")
    case None
    with Cons d trans [OF k1] show ?thesis by simp
  next
    case (Some fs)
    obtain s2 w2 r2 e2 where f: "distribute_folders E m fs s1 w1 (trouble (mem_name m) e1 r1) = (s2, w2, r2, e2)"
      by (metis prod.exhaust)
    with Some Cons d trans [OF trans [OF k1 by_distribute_folders [OF f]]]
    show ?thesis by simp
  qed
qed (simp add: same)

lemma by_whole_pass:
  assumes "sync E ms p = (p', rep, err)"
  shows "R (st p') (st p)"
proof -
  from sync_steps [OF assms] obtain w1 rep1 ready w2 rep2 s3 w3 rep3 where
    k: "sync_harvest E ready (st p) w2 rep2 = (s3, w3, rep3)"
    and fin: "(wd p' = w3 \<and> st p' = s3 \<and> rep = rep3) \<or>
       (\<exists>apps s4 w4 rep4 scans. read_apps_at (flts E Giving [] PoolApps) (pool_apps w3) = Inr apps
        \<and> sync_folders E ready s3 w3 rep3 = (s4, w4, rep4, scans)
        \<and> sync_give E apps scans ready s4 w4 rep4 = (st p', wd p', rep))" by blast
  note k = by_sync_harvest [OF k]
  from fin show ?thesis
  proof
    assume "\<exists>apps s4 w4 rep4 scans. read_apps_at (flts E Giving [] PoolApps) (pool_apps w3) = Inr apps
        \<and> sync_folders E ready s3 w3 rep3 = (s4, w4, rep4, scans)
        \<and> sync_give E apps scans ready s4 w4 rep4 = (st p', wd p', rep)"
    then obtain apps s4 w4 rep4 scans where f: "sync_folders E ready s3 w3 rep3 = (s4, w4, rep4, scans)"
      and g: "sync_give E apps scans ready s4 w4 rep4 = (st p', wd p', rep)" by blast
    from trans [OF trans [OF k by_sync_folders [OF f]] by_sync_give [OF g]] show ?thesis .
  qed (use k in simp)
qed

end

section \<open>Declined for good\<close>

definition keeps_declined :: "pool_state \<Rightarrow> pool_state \<Rightarrow> bool" where
  "keeps_declined s' s \<longleftrightarrow>
     (\<forall>seat x. status s seat x = status_declined \<longrightarrow> status s' seat x = status_declined)"

interpretation declined: mark_rule keeps_declined
  by unfold_locales (auto simp: keeps_declined_def status_mark, simp add: status_def)

section \<open>And not given\<close>

lemma give_apps_refused:
  "give_apps E m pr pc apps opened s lib rep = (s', lib', rep', err) \<Longrightarrow> \<forall>a \<in> set apps. well_read a \<Longrightarrow> is_dir lib \<Longrightarrow>
     pr x = None \<Longrightarrow> status s (mem_name m) x = status_declined \<Longrightarrow>
     map_of (entries lib') (manifest_name x) = map_of (entries lib) (manifest_name x)"
proof (induction apps arbitrary: opened s lib rep)
  case (Cons a apps)
  have wa: "well_read a" and wr: "\<forall>b \<in> set apps. well_read b" using Cons.prems(2) by simp_all
  have leave: "app_id a = x \<Longrightarrow> outcome m pr s a = Leave"
    using Cons.prems(4,5) by (simp add: outcome_def decide_def)
  from Cons.prems(1) wa Cons.prems(3) obtain opened1 s1 lib1 rep1 where
    one: "is_dir lib1" "same_manifests (\<lambda>y. y \<noteq> app_id a) lib1 lib"
      "\<And>seat y. y \<noteq> app_id a \<or> seat \<noteq> mem_name m \<or> (outcome m pr s a \<noteq> Give \<and> outcome m pr s a \<noteq> Decline)
         \<Longrightarrow> status s1 seat y = status s seat y"
      "outcome m pr s a \<noteq> Give \<Longrightarrow> handed rep1 = handed rep \<and> same_manifests (\<lambda>_. True) lib1 lib"
    and rest: "give_apps E m pr pc apps opened1 s1 lib1 rep1 = (s', lib', rep', err) \<or> lib' = lib1"
    by (rule give_apps_Cons) blast
  have same: "map_of (entries lib1) (manifest_name x) = map_of (entries lib) (manifest_name x)"
    using one(2,4) leave by (cases "app_id a = x") (auto simp: same_manifests_def)
  have "status s1 (mem_name m) x = status_declined"
    using one(3) [of x "mem_name m"] leave Cons.prems(5) by (cases "app_id a = x") auto
  with rest same Cons.IH [OF _ wr one(1) Cons.prems(4)] show ?case by auto
qed simp

lemma give_app_named:
  assumes "give_app E m pc a opened lib = (lib', opened', g)" "well_read a" "pool_named lib"
  shows "pool_named lib'"
proof -
  have put: "pool_named (put k common_dir x d)" if "pool_named d" for k x d
  proof -
    have "\<not> manifest_shape common_dir" by (simp add: manifest_shape_def common_dir_def)
    then have "read_app_at c (put k common_dir x d) n = read_app_at c d n" if "manifest_shape n" for c n
      using that by (intro read_app_at_cong) (auto simp: map_of_update)
    with that show ?thesis by (simp add: pool_named_def)
  qed
  have oc: "pool_named l" if "open_common E m opened lib = (l, e)" for l e
    using that assms(3) put change_common_named
    by (auto simp: open_common_def ensure_dir_at_def Let_def split: if_splits sum.splits)
  show ?thesis
    using assms(1,2,3) oc change_common_named copy_manifest_named [OF _ change_common_named]
    by (auto simp: give_app_def Let_def split: if_splits prod.splits option.splits)
qed

lemma give_apps_named:
  "give_apps E m pr pc apps opened s lib rep = (s', lib', rep', err) \<Longrightarrow> \<forall>a \<in> set apps. well_read a \<Longrightarrow>
     pool_named lib \<Longrightarrow> pool_named lib'"
proof (induction apps arbitrary: opened s lib rep)
  case (Cons a apps)
  have "lib' = lib \<or> (\<exists>o2 s2 lib2 rep2. give_apps E m pr pc apps o2 s2 lib2 rep2 = (s', lib', rep', err) \<and> pool_named lib2)
      \<or> (\<exists>o2 g. give_app E m pc a opened lib = (lib', o2, g))"
    using Cons.prems give_app_named
    by (auto split: if_splits choice.splits prod.splits given.splits) blast+
  with Cons give_app_named show ?case by (metis list.set_intros)
qed simp

text \<open>No member's own folder of shared games is a library of apps.\<close>

definition places_apart :: "member list \<Rightarrow> bool" where
  "places_apart ms \<longleftrightarrow> (\<forall>m \<in> set ms. \<forall>m' \<in> set ms. folders_place m \<noteq> Some (apps_place m'))"

lemma distribute_folders_files:
  assumes "distribute_folders E m fs s w rep = (s', w', rep', err)" "folders_place m \<noteq> Some pl"
  shows "file_at w' pl n = file_at w pl n"
proof -
  consider "w' = w" | p dir dir' where
    "folders_dir (flts E FolderOut (mem_name m) (the (folders_place m))) w m = Inr (Some (p, dir))"
    "w' = store_place p dir' w"
    using assms(1) by (auto simp: distribute_folders_def Let_def split: sum.splits prod.splits option.splits)
  then show ?thesis
  proof cases
    case 2
    have p: "folders_place m = Some p" "open_place (flts E FolderOut (mem_name m) (the (folders_place m))) w p = Inr dir"
      using folders_dir_place [OF 2(1)] by blast+
    from open_store_other [OF p(2), of pl dir'] p(1) 2(2) assms(2) show ?thesis by (simp add: file_at_def)
  qed simp
qed

text \<open>The library of a member that lacks a title, if it can be opened.\<close>

definition lacks_title :: "world \<Rightarrow> member \<Rightarrow> string \<Rightarrow> bool" where
  "lacks_title w m x \<longleftrightarrow>
     (\<forall>lib. open_place (\<lambda>_ _. False) w (apps_place m) = Inr lib \<longrightarrow> pool_named lib \<and> build_at lib x = None)"

lemma pool_named_files:
  "pool_named lib \<longleftrightarrow> (\<forall>n md d a. manifest_shape n \<longrightarrow> component n \<longrightarrow>
     file_of (map_of (entries lib) n) = Some (md, d) \<longrightarrow> length d \<le> max_manifest \<longrightarrow>
     parse_manifest d = Inr a \<longrightarrow> n = manifest_name (app_id a))"
proof -
  have r: "(\<exists>c a. read_app_at c lib n = Inr a \<and> app_id a = x) \<longleftrightarrow>
      component n \<and> (\<exists>md d a. file_of (map_of (entries lib) n) = Some (md, d) \<and> length d \<le> max_manifest
        \<and> parse_manifest d = Inr a \<and> app_id a = x)" (is "?l = ?r") for n x
  proof
    assume ?l
    then show ?r
      by (fastforce simp: read_app_at_def open_file_at_def file_of_def
          split: sum.splits if_splits option.splits node.splits)
  next
    assume ?r
    then have "\<exists>a. read_app_at (\<lambda>_. False) lib n = Inr a \<and> app_id a = x"
      by (auto simp: read_app_at_def open_file_at_def file_of_def split: option.splits node.splits)
    then show ?l by blast
  qed
  have "pool_named lib \<longleftrightarrow>
      (\<forall>n x. manifest_shape n \<longrightarrow> (\<exists>c a. read_app_at c lib n = Inr a \<and> app_id a = x) \<longrightarrow> n = manifest_name x)"
    unfolding pool_named_def by metis
  then show ?thesis unfolding r by metis
qed

lemma lacks_title_files:
  assumes "lacks_title w m x" "\<And>n. file_at w' (apps_place m) n = file_at w (apps_place m) n"
  shows "lacks_title w' m x"
  unfolding lacks_title_def
proof (intro allI impI)
  fix lib' assume o': "open_place (\<lambda>_ _. False) w' (apps_place m) = Inr lib'"
  have f': "file_of (map_of (entries lib') n) = file_at w (apps_place m) n" for n
    using assms(2) [of n] o' by (simp add: file_at_def)
  show "pool_named lib' \<and> build_at lib' x = None"
  proof (cases "open_place (\<lambda>_ _. False) w (apps_place m)")
    case (Inl e)
    then have "file_of (map_of (entries lib') n) = None" for n by (simp add: f' file_at_def)
    then show ?thesis by (simp add: pool_named_files build_at_file)
  next
    case (Inr lib)
    then have "file_of (map_of (entries lib') n) = file_of (map_of (entries lib) n)" for n
      by (simp add: f' file_at_def)
    moreover have "pool_named lib \<and> build_at lib x = None" using assms(1) Inr by (simp add: lacks_title_def)
    ultimately show ?thesis by (simp add: pool_named_files build_at_file)
  qed
qed

lemma distribute_refused:
  assumes "distribute E m apps s w rep = (s', w', rep', err)" "\<forall>a \<in> set apps. well_read a"
    and "\<forall>q op. \<not> flts E Giving (mem_name m) (apps_place m) q op"
    and "status s (mem_name m) x = status_declined" "lacks_title w m x"
  shows "lacks_title w' m x"
proof -
  consider "w' = w" | lib here pc lib' where
    "open_place (flts E Giving (mem_name m) (apps_place m)) w (apps_place m) = Inr lib"
    "read_apps_at (flts E Giving (mem_name m) (apps_place m)) lib = Inr here"
    "give_apps E m (present_apps here) pc apps False s lib rep = (s', lib', rep', err)"
    "w' = store_place (apps_place m) lib' w"
    using distribute_steps [OF assms(1)] by blast
  then show ?thesis
  proof cases
    case 1
    with assms(5) show ?thesis by simp
  next
    case 2
    have dir: "is_dir lib" using open_place_dir [OF 2(1)] by simp
    have lib: "pool_named lib" "build_at lib x = None"
      using assms(5) open_place_faults [OF 2(1)] by (auto simp: lacks_title_def)
    have none: "present_apps here x = None"
      using present_apps_named [OF 2(2) assms(3) lib(1)] lib(2) by (auto simp: build_at_def split: sum.splits)
    have "map_of (entries lib') (manifest_name x) = map_of (entries lib) (manifest_name x)"
      using give_apps_refused [OF 2(3) assms(2) dir none assms(4)] .
    then have "build_at lib' x = None" using lib(2) build_at_cong by metis
    moreover have "pool_named lib'" using give_apps_named [OF 2(3) assms(2) lib(1)] .
    moreover have "open_place (\<lambda>_ _. False) w' (apps_place m) = Inr lib'"
      using open_store [OF 2(1), of lib' "apps_place m"] give_apps_others [OF 2(3) assms(2) dir] 2(4) by simp
    ultimately show ?thesis by (simp add: lacks_title_def)
  qed
qed

lemma distribute_elsewhere:
  assumes "distribute E m' apps s w rep = (s', w', rep', err)" "apps_place m' \<noteq> pl"
  shows "file_at w' pl n = file_at w pl n"
proof -
  consider "w' = w" | lib lib' where
    "open_place (flts E Giving (mem_name m') (apps_place m')) w (apps_place m') = Inr lib"
    "w' = store_place (apps_place m') lib' w"
    using distribute_steps [OF assms(1)] by blast
  then show ?thesis
  proof cases
    case 2
    from open_store_other [OF 2(1), of pl lib'] assms(2) 2(2) show ?thesis by (simp add: file_at_def)
  qed simp
qed

lemma sync_give_refused:
  "sync_give E apps scans ms s w rep = (s', w', rep') \<Longrightarrow> \<forall>a \<in> set apps. well_read a \<Longrightarrow>
     \<forall>q op. \<not> flts E Giving (mem_name m) (apps_place m) q op \<Longrightarrow>
     status s (mem_name m) x = status_declined \<Longrightarrow> lacks_title w m x \<Longrightarrow>
     \<forall>m' \<in> set ms. (m' = m \<or> apps_place m' \<noteq> apps_place m) \<and> folders_place m' \<noteq> Some (apps_place m) \<Longrightarrow>
     lacks_title w' m x"
proof (induction ms arbitrary: s w rep)
  case (Cons n ms)
  obtain s1 w1 r1 e1 where d: "distribute E n apps s w rep = (s1, w1, r1, e1)" by (metis prod.exhaust)
  have n: "n = m \<or> apps_place n \<noteq> apps_place m" "folders_place n \<noteq> Some (apps_place m)"
    using Cons.prems(6) by simp_all
  have l1: "lacks_title w1 m x"
  proof (cases "n = m")
    case True
    with distribute_refused d Cons.prems(2-5) show ?thesis by blast
  next
    case False
    with n(1) distribute_elsewhere [OF d] Cons.prems(5) show ?thesis by (blast intro: lacks_title_files)
  qed
  have st1: "status s1 (mem_name m) x = status_declined"
    using declined.by_distribute [OF d] Cons.prems(4) by (simp add: keeps_declined_def)
  have rest: "\<forall>m' \<in> set ms. (m' = m \<or> apps_place m' \<noteq> apps_place m) \<and> folders_place m' \<noteq> Some (apps_place m)"
    using Cons.prems(6) by simp
  show ?case
  proof (cases "scan_of scans (mem_name n)")
    case None
    then have "sync_give E apps scans ms s1 w1 (trouble (mem_name n) e1 r1) = (s', w', rep')"
      using Cons.prems(1) d by simp
    from Cons.IH [OF this Cons.prems(2,3) st1 l1 rest] show ?thesis .
  next
    case (Some fs)
    obtain s2 w2 r2 e2 where f: "distribute_folders E n fs s1 w1 (trouble (mem_name n) e1 r1) = (s2, w2, r2, e2)"
      by (metis prod.exhaust)
    have go: "sync_give E apps scans ms s2 w2 (trouble (mem_name n) e2 r2) = (s', w', rep')"
      using Cons.prems(1) d Some f by simp
    have st2: "status s2 (mem_name m) x = status_declined"
      using declined.by_distribute_folders [OF f] st1 by (simp add: keeps_declined_def)
    have l2: "lacks_title w2 m x"
      using distribute_folders_files [OF f n(2)] l1 by (blast intro: lacks_title_files)
    from Cons.IH [OF go Cons.prems(2,3) st2 l2 rest] show ?thesis .
  qed
qed simp

end
