(* ===== verification/Pool_Forward.thy ===== *)
theory Pool_Forward
  imports Pool_Give Clone_Safety
begin

text \<open>
  The pool only moves forward: a title it has in full is replaced by a newer build of it or
  left as it is, whatever fails on the way.
\<close>

section \<open>A clone keeps its directory\<close>

lemma empty_dir_dir: "empty_dir k f d = (d', err) \<Longrightarrow> is_dir d \<Longrightarrow> is_dir d'"
  by (auto simp: empty_dir_def split: if_splits prod.splits)

lemma discard_dir: "is_dir (discard k f n d)"
  by (auto simp: discard_def split: prod.split)

lemma rename_in_dir: "rename_in k c d a b = Inr d' \<Longrightarrow> is_dir d \<Longrightarrow> is_dir d'"
  by (auto simp: rename_in_def split: if_splits option.splits)

lemma roll_back_dir: "roll_back k flt w s n pr mv e d = (d', x) \<Longrightarrow> is_dir d \<Longrightarrow> is_dir d'"
  by (auto simp: roll_back_def Let_def discard_dir split: prod.splits option.splits if_splits)

lemma removed_dir: "is_dir d \<Longrightarrow> is_dir (fst (remove_all_at k f d n))"
  using remove_all_at_dir [of k f d n] by (cases "remove_all_at k f d n") simp

lemma settle_in_dir: "settle_in k flt w m s n pr mv d = (d', x) \<Longrightarrow> is_dir d \<Longrightarrow> is_dir d'"
  by (auto simp: settle_in_def map_prod_def split: prod.splits option.splits sum.splits if_splits
      dest: roll_back_dir rename_in_dir intro: removed_dir)

lemma carry_over_dir: "carry_over k flt w m s n pr c d = (d', x) \<Longrightarrow> is_dir d \<Longrightarrow> is_dir d'"
  by (auto simp: carry_over_def Let_def map_prod_def split: prod.splits option.splits sum.splits if_splits
      dest: roll_back_dir settle_in_dir)

lemma swap_in_dir: "swap_in k flt w m s n c d = (d', x) \<Longrightarrow> is_dir d \<Longrightarrow> is_dir d'"
  by (auto simp: swap_in_def discard_dir split: prod.splits option.splits sum.splits
      dest: carry_over_dir rename_in_dir remove_all_at_dir)

lemma mkdir_temp_dir: "mkdir_temp_at k f pre sf d = (d', r) \<Longrightarrow> is_dir d \<Longrightarrow> is_dir d'"
  by (induction sf) (auto simp: Let_def split: if_splits)

lemma clone_at_dir:
  assumes "clone_at k flt sh sf sd sn d n w priv = (d', r, err)" "is_dir d"
  shows "is_dir d'"
  using assms
  by (auto simp: clone_at_def Let_def discard_dir split: sum.splits if_splits prod.splits option.splits
      dest: mkdir_temp_dir swap_in_dir)

text \<open>Without saves to carry there is nothing that could be left in the staging directory.\<close>

lemma settle_in_plain_error:
  "settle_in k flt w m s n pr [] d = (d', err) \<Longrightarrow> err = None \<or> (\<exists>x. err = Some (CloneFs x))"
  by (auto simp: settle_in_def roll_back_def map_prod_def split: prod.splits option.splits sum.splits if_splits)

lemma clone_plain_error:
  "clone_at k flt sh sf sd sn d n w False = (d', r, err) \<Longrightarrow> err = None \<or> (\<exists>x. err = Some (CloneFs x))"
  by (auto simp: clone_at_def swap_in_def carry_over_def Let_def
      split: sum.splits if_splits prod.splits option.splits dest: settle_in_plain_error)

section \<open>Full copies\<close>

definition has_files :: "node \<Rightarrow> string \<Rightarrow> bool" where
  "has_files d name \<longleftrightarrow> is_dir_at (\<lambda>_. False) (entry d common_dir) name"

definition backup_name :: "string \<Rightarrow> bool" where
  "backup_name n \<longleftrightarrow> (\<exists>s. n = old_name s)"

text \<open>
  The pool as it should be: a \<open>common\<close> directory, and for every manifest that can be read a
  game directory, under a name that is not one the clone sets copies aside under.
\<close>

definition pool_full :: "node \<Rightarrow> bool" where
  "pool_full d \<longleftrightarrow> is_dir d \<and> (\<exists>c. map_of (entries d) common_dir = Some c \<and> is_dir c)
     \<and> (\<forall>x a. read_app_at (\<lambda>_. False) d (manifest_name x) = Inr a \<longrightarrow>
          has_files d (install_dir a) \<and> \<not> backup_name (install_dir a))"

definition no_older :: "node \<Rightarrow> node \<Rightarrow> bool" where
  "no_older d' d \<longleftrightarrow> (\<forall>x b. build_at d x = Some b \<longrightarrow>
     (\<exists>b'. build_at d' x = Some b' \<and> (b' = b \<or> newer_build b' b)))"

text \<open>
  The calls that must work: reading the pool's own manifests and looking at its directories,
  and putting the old copy back when a clone fails.
\<close>

definition pool_readable :: "env \<Rightarrow> bool" where
  "pool_readable E \<longleftrightarrow> (\<forall>who n op. op \<in> {SOpen, SFstat, SCopy} \<longrightarrow> \<not> flts E Harvesting who PoolApps [n] op)
     \<and> (\<forall>who n. \<not> flts E Harvesting who PoolApps [common_dir, n] SLstat)
     \<and> (\<forall>who n m. \<not> clones E Harvesting who n RenameBack [] SRename
           \<and> \<not> clones E Harvesting who n (CarryBack m Source) m SLstat)"

text \<open>What every manifest that is taken satisfies, besides being one.\<close>

definition plain_title :: "string \<Rightarrow> bool" where
  "plain_title s \<longleftrightarrow> plain_data s \<and> (\<forall>a. parse_manifest s = Inr a \<longrightarrow> \<not> backup_name (install_dir a))"

lemma newer_build_trans: "newer_build a b \<Longrightarrow> newer_build b c \<Longrightarrow> newer_build a c"
  by (auto simp: newer_build_def split: prod.splits option.splits)

lemma no_older_refl [simp]: "no_older d d"
  by (simp add: no_older_def)

lemma no_older_trans:
  assumes "no_older d1 d" "no_older d2 d1"
  shows "no_older d2 d"
  unfolding no_older_def
proof (intro allI impI)
  fix x b assume "build_at d x = Some b"
  with assms(1) obtain b1 where b1: "build_at d1 x = Some b1" "b1 = b \<or> newer_build b1 b"
    unfolding no_older_def by blast
  with assms(2) obtain b2 where b2: "build_at d2 x = Some b2" "b2 = b1 \<or> newer_build b2 b1"
    unfolding no_older_def by blast
  with b1 newer_build_trans [of b2 b1 b] show "\<exists>b'. build_at d2 x = Some b' \<and> (b' = b \<or> newer_build b' b)" by auto
qed

lemma read_plain:
  assumes "\<And>op. op \<in> {SOpen, SFstat, SCopy} \<Longrightarrow> \<not> c op"
  shows "read_app_at c d n = read_app_at (\<lambda>_. False) d n"
proof -
  have c: "\<not> c SOpen" "\<not> c SFstat" "\<not> c SCopy" using assms by simp_all
  then have "open_file_at c d n = open_file_at (\<lambda>_. False) d n" by (simp add: open_file_at_def cong: option.case_cong node.case_cong)
  with c show ?thesis
    by (cases "open_file_at (\<lambda>_. False) d n") (auto simp: read_app_at_def)
qed

lemma clone_common:
  assumes "clone_to E Harvesting who common n c w False = (c', r, err)" "is_dir c" "safe_name n = None"
    and "pool_readable E"
  shows "is_dir c' \<and> (\<forall>m. is_dir_at (\<lambda>_. False) c m \<and> safe_name m = None \<and> \<not> backup_name m \<longrightarrow> is_dir_at (\<lambda>_. False) c' m)
    \<and> (err = None \<longrightarrow> is_dir_at (\<lambda>_. False) c' n)"
proof -
  note cl = assms(1) [unfolded clone_to_def]
  have nc: "component n" "\<not> has_prefix n ''.''" using safe_name_entry [OF assms(3)] by simp_all
  have stat: "\<And>m. \<not> clones E Harvesting who n (CarryBack m Source) m SLstat"
    using assms(4) by (simp add: pool_readable_def)
  have nf: "False \<longrightarrow> wf_node c" by simp
  note res = clone_at_result [OF cl nf assms(2) nc stat]
  have other: "is_dir_at (\<lambda>_. False) c' m"
    if m: "is_dir_at (\<lambda>_. False) c m" "safe_name m = None" "\<not> backup_name m" "m \<noteq> n" for m
  proof -
    have "\<not> has_prefix m clone_prefix" using safe_name_entry [OF m(2)] not_temp by blast
    moreover have "m \<noteq> old_name n" using m(3) by (auto simp: backup_name_def)
    ultimately have "map_of (entries c') m = map_of (entries c) m"
      using res m(4) by (simp add: untouched_def)
    with m(1) show ?thesis by (simp add: is_dir_at_iff)
  qed
  have own: "is_dir_at (\<lambda>_. False) c' n" if "err = None \<or> is_dir_at (\<lambda>_. False) c n"
  proof (cases err)
    case None
    with res obtain src s st0 r0 where
      src: "open_dir_at (clones E Harvesting who n OpenSrc []) common n = Inr src"
      and ct: "clone_tree (kern E) (clones E Harvesting who n TreeSrc) (clones E Harvesting who n TreeDst)
          (sharing E Harvesting who n) w (carried_of (clones E Harvesting who n) c n False) src
          (Dir (fresh_meta (kern E) 448) []) nothing_done = (st0, r0, None)"
      and pl: "placed s n (clones E Harvesting who n) w (stat_of src)
          (carried_of (clones E Harvesting who n) c n False) (map_of (entries c) n) st0 c'"
      by auto
    have "is_dir src" using src by (simp add: open_dir_at_iff)
    then have "is_dir st0" using clone_tree_ok [OF ct] by (simp add: same_dir_def)
    with pl obtain st2 where "map_of (entries c') n = Some st2" "is_dir st2"
      using finish_dir_entries by (fastforce simp: placed_def carried_of_def)
    with nc show ?thesis by (simp add: is_dir_at_iff)
  next
    case (Some e)
    with that obtain old where old: "map_of (entries c) n = Some old" "is_dir old" by (auto simp: is_dir_at_iff)
    with res Some obtain s where k: "kept s n (clones E Harvesting who n) old e c'" by auto
    obtain x where "e = CloneFs x" using clone_plain_error [OF cl] Some by auto
    with k assms(4) have "cont c' (n # []) = cont old []" by (auto simp: kept_def pool_readable_def)
    then obtain y where "map_of (entries c') n = Some y" "face y = face old"
      by (cases "map_of (entries c') n") (auto simp: cont_Cons)
    with old nc show ?thesis by (auto simp: is_dir_at_iff) (metis is_dir_face)
  qed
  show ?thesis using other own clone_at_dir [OF cl assms(2)] by metis
qed

section \<open>Only ever forward\<close>

lemma well_read_dir: "well_read a \<Longrightarrow> install_dir a \<noteq> [] \<Longrightarrow> safe_name (install_dir a) = None"
proof -
  assume "well_read a" and ne: "install_dir a \<noteq> []"
  then obtain a0 where p: "parse_manifest (app_data a) = Inr a0"
    and a: "a = a0\<lparr>app_data := app_data a, mod_time := mod_time a\<rparr>"
    by (auto simp: well_read_def read_from_def)
  have "install_dir a = install_dir a0" by (subst a) simp
  with parse_manifest_names(3) [OF p] ne show ?thesis by simp
qed

definition forward :: "env \<Rightarrow> node \<Rightarrow> node \<Rightarrow> bool" where
  "forward E d d' \<longleftrightarrow> (pool_readable E \<longrightarrow> pool_full d \<longrightarrow> pool_full d' \<and> no_older d' d)"

lemma forward_common:
  assumes "takes E who s common d a" "well_read a"
    and "clone_to E Harvesting who common (install_dir a) (entry d common_dir) (own E) False = (c, r, err)"
    and "pool_readable E" "pool_full d"
  shows "pool_full (change common_dir c d) \<and> no_older (change common_dir c d) d
    \<and> (err = None \<longrightarrow> has_files (change common_dir c d) (install_dir a))"
proof -
  let ?d = "change common_dir c d"
  obtain c0 where c0: "map_of (entries d) common_dir = Some c0" "is_dir c0"
    using assms(5) by (auto simp: pool_full_def)
  then have e0: "entry d common_dir = c0" and e1: "entry ?d common_dir = c"
    by (simp_all add: entry_def map_of_update)
  have safe: "safe_name (install_dir a) = None"
    using well_read_names(3) [OF assms(2)] takes_facts [OF assms(1)] by simp
  note cc = clone_common [OF assms(3) [unfolded e0] c0(2) safe assms(4)]
  have rd: "read_app_at (\<lambda>_. False) ?d (manifest_name x) = read_app_at (\<lambda>_. False) d (manifest_name x)" for x
    by (rule read_app_at_cong) (simp add: map_of_update)
  have "has_files ?d (install_dir b) \<and> \<not> backup_name (install_dir b)"
    if r: "read_app_at (\<lambda>_. False) d (manifest_name x) = Inr b" for x b
  proof -
    have b: "has_files d (install_dir b)" "\<not> backup_name (install_dir b)"
      using assms(5) r by (auto simp: pool_full_def)
    have "install_dir b \<noteq> []" using b(1) by (auto simp: has_files_def is_dir_at_iff component_def)
    then have "safe_name (install_dir b) = None"
      using read_app_at_Inr [OF r] well_read_dir by blast
    with b cc show ?thesis by (simp add: has_files_def e0 e1)
  qed
  with cc have "pool_full ?d" by (auto simp: pool_full_def rd map_of_update)
  moreover have "no_older ?d d" by (simp add: no_older_def build_at_def rd)
  ultimately show ?thesis using cc by (simp add: has_files_def e1)
qed

lemma forward_manifest:
  assumes t: "takes E who s common d a" and wr: "well_read a" and pl: "plain_title (app_data a)"
    and c: "clone_to E Harvesting who common (install_dir a) (entry d common_dir) (own E) False = (c, r, None)"
    and m: "copy_manifest (kern E) (flts E Harvesting who PoolApps) (app_data a) (change common_dir c d)
          (manifest_name (app_id a)) (own E) = (d', e)"
    and ok: "pool_readable E" "pool_full d"
  shows "pool_full d' \<and> no_older d' d"
proof -
  let ?d = "change common_dir c d" and ?n = "manifest_name (app_id a)"
  note f1 = forward_common [OF t wr c ok]
  note cn = well_read_names(1) [OF wr]
  note f2 = copy_manifest_names [OF m cn]
  have common: "map_of (entries d') common_dir = map_of (entries ?d) common_dir" using f2 by simp
  then have files: "has_files d' x = has_files ?d x" for x by (simp add: has_files_def entry_def)
  have dir': "is_dir d'" by (rule copy_manifest_dir [OF m]) simp
  have other: "map_of (entries d') (manifest_name x) = map_of (entries ?d) (manifest_name x)" if "x \<noteq> app_id a \<or> e \<noteq> None" for x
    using f2 that by (cases "x = app_id a"; cases e) auto
  have full_other: "has_files d' (install_dir b) \<and> \<not> backup_name (install_dir b)"
    if "read_app_at (\<lambda>_. False) d' (manifest_name x) = Inr b" "x \<noteq> app_id a \<or> e \<noteq> None" for x b
    using that(1) read_app_at_cong [OF other [OF that(2)]] f1 files by (auto simp: pool_full_def)
  have old_other: "build_at d' x = build_at ?d x" if "x \<noteq> app_id a \<or> e \<noteq> None" for x
    using build_at_cong [OF other [OF that]] .
  show ?thesis
  proof (cases e)
    case (Some y)
    have "pool_full d'" using full_other Some f1 common dir' by (auto simp: pool_full_def)
    moreover have "no_older d' ?d" using old_other Some by (simp add: no_older_def)
    ultimately show ?thesis using f1 no_older_trans by blast
  next
    case None
    with f2 obtain md where md: "map_of (entries d') ?n = Some (Reg md (rewrite (app_data a)))" by auto
    have new: "build_at d' (app_id a) = Some (build_id a)"
      using read_written [OF md wr] pl by (auto simp: plain_title_def plain_data_def)
    have nb: "\<not> backup_name (install_dir a)"
    proof -
      obtain a0 where p: "parse_manifest (app_data a) = Inr a0"
        and a: "a = a0\<lparr>app_data := app_data a, mod_time := mod_time a\<rparr>"
        using wr by (auto simp: well_read_def read_from_def)
      have "install_dir a = install_dir a0" by (subst a) simp
      with pl p show ?thesis by (simp add: plain_title_def)
    qed
    have "has_files d' (install_dir b) \<and> \<not> backup_name (install_dir b)"
      if r: "read_app_at (\<lambda>_. False) d' (manifest_name x) = Inr b" for x b
    proof (cases "x = app_id a")
      case True
      with read_rewritten [OF _ md wr] r have "install_dir b = install_dir a" by simp
      with f1 files nb show ?thesis by simp
    next
      case False
      with full_other r show ?thesis by blast
    qed
    with f1 common dir' have full: "pool_full d'" by (auto simp: pool_full_def)
    have "\<exists>b'. build_at d' x = Some b' \<and> (b' = b \<or> newer_build b' b)" if b: "build_at d x = Some b" for x b
    proof (cases "x = app_id a")
      case False
      then have "build_at d' x = build_at ?d x" using old_other by blast
      with f1 b show ?thesis by (auto simp: no_older_def)
    next
      case True
      obtain h where h: "read_app_at (\<lambda>_. False) d ?n = Inr h" "build_id h = b"
        using b True by (auto simp: build_at_def split: sum.splits)
      have "read_app_at (flts E Harvesting who PoolApps [?n]) d ?n = Inr h"
        using read_plain [of "flts E Harvesting who PoolApps [?n]" d ?n] ok(1) h(1) by (auto simp: pool_readable_def)
      moreover have "is_dir_at (flts E Harvesting who PoolApps [common_dir, install_dir h]) (entry d common_dir) (install_dir h)"
        using ok h(1) by (auto simp: pool_full_def has_files_def is_dir_at_iff pool_readable_def)
      ultimately have "newer_build (build_id a) b" using t h(2) by (auto simp: takes_def Let_def split: if_splits)
      with new True show ?thesis by simp
    qed
    then have "no_older d' d" unfolding no_older_def by blast
    with full show ?thesis ..
  qed
qed

interpretation newer: taking "\<lambda>E W d d'. forward E d d'" "\<lambda>E. plain_title"
proof unfold_locales
  fix E :: env and W :: "(string \<times> string) list" and d d1 d2
  assume "forward E d d1" "forward E d1 d2"
  then show "forward E d d2" unfolding forward_def using no_older_trans by blast
next
  fix E who s common d a and W :: "(string \<times> string) list" and c r err
  assume "takes E who s common d a" "well_read a"
    "clone_to E Harvesting who common (install_dir a) (entry d common_dir) (own E) False = (c, r, err)"
  then show "forward E d (change common_dir c d)" using forward_common unfolding forward_def by blast
next
  fix E who s common d a and W :: "(string \<times> string) list" and c r d' e
  assume "takes E who s common d a" "well_read a" "plain_title (app_data a)"
    "clone_to E Harvesting who common (install_dir a) (entry d common_dir) (own E) False = (c, r, None)"
    "copy_manifest (kern E) (flts E Harvesting who PoolApps) (app_data a) (change common_dir c d)
          (manifest_name (app_id a)) (own E) = (d', e)"
  then show "forward E d d'" using forward_manifest unfolding forward_def by blast
qed (simp add: forward_def)

end
