(* ===== verification/Pool_Uninstall.thy ===== *)
theory Pool_Uninstall
  imports Pool_Give
begin

text \<open>
  Taking a title away: what each step removes, and that no step puts anything back.
\<close>

section \<open>What is there and what is left\<close>

text \<open>The entry of a title's manifest in the directory at a place.\<close>

definition manifest_at :: "world \<Rightarrow> place \<Rightarrow> string \<Rightarrow> node option" where
  "manifest_at w pl x =
     (case open_place (\<lambda>_ _. False) w pl of Inl _ \<Rightarrow> None | Inr d \<Rightarrow> map_of (entries d) (manifest_name x))"

definition nothing_new :: "world \<Rightarrow> world \<Rightarrow> bool" where
  "nothing_new w' w \<longleftrightarrow> (\<forall>pl x. manifest_at w' pl x = manifest_at w pl x \<or> manifest_at w' pl x = None)"

lemma nothing_new_refl [simp]: "nothing_new w w"
  by (simp add: nothing_new_def)

lemma nothing_new_trans: "nothing_new w1 w \<Longrightarrow> nothing_new w2 w1 \<Longrightarrow> nothing_new w2 w"
  by (simp add: nothing_new_def) metis

lemma drop_subs_manifests:
  "drop_subs E who pl subs lib = (lib', err) \<Longrightarrow> \<forall>e \<in> set subs. \<forall>x. fst e \<noteq> manifest_name x \<Longrightarrow> is_dir lib \<Longrightarrow>
     is_dir lib' \<and> (\<forall>x. map_of (entries lib') (manifest_name x) = map_of (entries lib) (manifest_name x))"
proof (induction subs arbitrary: lib)
  case (Cons e subs)
  obtain sub name where e: "e = (sub, name)" by force
  show ?case
  proof (cases "open_dir_at (flts E Dropping who pl [sub]) lib sub")
    case (Inl x)
    with Cons e show ?thesis by (auto split: if_splits)
  next
    case (Inr parent)
    obtain parent' err1 where r: "remove_all_at (kern E) (\<lambda>q. flts E Dropping who pl (sub # name # q)) parent name = (parent', err1)"
      by force
    have same: "map_of (entries (change sub parent' lib)) (manifest_name x) = map_of (entries lib) (manifest_name x)" for x
      using Cons.prems(2) e by (simp add: map_of_update) metis
    show ?thesis
    proof (cases err1)
      case None
      then have "drop_subs E who pl subs (change sub parent' lib) = (lib', err)"
        using Cons.prems(1) e Inr r by simp
      from Cons.IH [OF this] Cons.prems(2) same show ?thesis by simp
    next
      case (Some x)
      with Cons.prems(1) e Inr r same show ?thesis by auto
    qed
  qed
qed simp

lemma drop_app_manifests:
  assumes "drop_app E m a w = (w', None)" "component (manifest_name (app_id a))"
  shows "nothing_new w' w \<and> manifest_at w' (apps_place m) (app_id a) = None \<and> pool_apps w' = pool_apps w"
proof (cases "open_place (flts E Dropping (mem_name m) (apps_place m)) w (apps_place m)")
  case (Inl e)
  with assms show ?thesis by (auto simp: drop_app_def Let_def)
next
  case (Inr lib)
  let ?pl = "apps_place m" and ?f = "flts E Dropping (mem_name m) (apps_place m)"
  have dir: "is_dir lib" using open_place_dir [OF Inr] by simp
  obtain lib1 e1 where r: "remove_all_at (kern E) (\<lambda>q. ?f (manifest_name (app_id a) # q)) lib (manifest_name (app_id a)) = (lib1, e1)"
    by force
  have e1: "e1 = None" using assms(1) Inr r by (cases e1) (auto simp: drop_app_def Let_def)
  note r1 = remove_all_at_names [OF r assms(2)] and d1 = remove_all_at_dir [OF r dir]
  obtain lib2 e2 where s: "drop_subs E (mem_name m) ?pl
      [(common_dir, install_dir a), (''shadercache'', app_id a), (''downloading'', app_id a)] lib1 = (lib2, e2)" by force
  have subs: "is_dir lib2 \<and> (\<forall>x. map_of (entries lib2) (manifest_name x) = map_of (entries lib1) (manifest_name x))"
    by (rule drop_subs_manifests [OF s _ d1]) (use manifest_name_other in \<open>auto dest: sym\<close>)
  have w': "w' = store_place ?pl lib2 w"
    using assms(1) Inr r s e1 by (auto simp: drop_app_def Let_def)
  have o: "open_place (\<lambda>_ _. False) w' pl = (if pl = ?pl then Inr lib2 else open_place (\<lambda>_ _. False) w pl)" for pl
    unfolding w' using subs by (intro open_store [OF Inr]) simp
  have before: "manifest_at w ?pl x = map_of (entries lib) (manifest_name x)" for x
    by (simp add: manifest_at_def open_place_faults [OF Inr])
  have after: "manifest_at w' pl x = (if pl = ?pl then map_of (entries lib1) (manifest_name x) else manifest_at w pl x)" for pl x
    using subs by (simp add: manifest_at_def o)
  have "nothing_new w' w"
    unfolding nothing_new_def
  proof (intro allI)
    fix pl x
    show "manifest_at w' pl x = manifest_at w pl x \<or> manifest_at w' pl x = None"
      using r1 e1 before [of x] by (cases "x = app_id a") (auto simp: after)
  qed
  with after e1 r1 w' show ?thesis by (auto simp: kept_simps)
qed

section \<open>Who has it\<close>

lemma holdings_members:
  "holdings E fo x w ms = Inr hs \<Longrightarrow>
     set hs = {(m, h). m \<in> set ms \<and> holding_of E fo x m w = Inr h \<and> h \<noteq> Lacks}"
proof (induction ms arbitrary: hs)
  case (Cons m ms)
  then obtain h hs' where h: "holding_of E fo x m w = Inr h" "holdings E fo x w ms = Inr hs'"
    "hs = (if h = Lacks then hs' else (m, h) # hs')"
    by (auto split: sum.splits)
  with Cons.IH [OF h(2)] show ?case by auto
qed simp

lemma holdings_all:
  "holdings E fo x w ms = Inr hs \<Longrightarrow> m \<in> set ms \<Longrightarrow> \<exists>h. holding_of E fo x m w = Inr h"
proof (induction ms arbitrary: hs)
  case (Cons n ms)
  then show ?case by (auto split: sum.splits)
qed simp

lemma holding_of_app:
  assumes "holding_of E None x m w = Inr h" "\<forall>q op. \<not> flts E Asking (mem_name m) (apps_place m) q op"
  shows "case h of
      HasApp a \<Rightarrow> (\<exists>lib. open_place (\<lambda>_ _. False) w (apps_place m) = Inr lib
                  \<and> read_app_at (\<lambda>_. False) lib (manifest_name x) = Inr a)
    | _ \<Rightarrow> h = Lacks \<and> (\<exists>lib. open_place (\<lambda>_ _. False) w (apps_place m) = Inr lib \<and> build_at lib x = None)"
proof -
  have f: "flts E Asking (mem_name m) (apps_place m) = (\<lambda>_ _. False)" using assms(2) by (intro ext) simp
  show ?thesis
  proof (cases "open_place (\<lambda>_ _. False) w (apps_place m)")
    case (Inl e)
    with assms(1) show ?thesis by (simp add: holding_of_def f)
  next
    case (Inr lib)
    show ?thesis
    proof (cases "read_app_at (\<lambda>_. False) lib (manifest_name x)")
      case (Inl e)
      with assms(1) \<open>open_place _ _ _ = Inr lib\<close> show ?thesis by (auto simp: holding_of_def f build_at_def)
    next
      case r: (Inr a)
      with assms(1) \<open>open_place _ _ _ = Inr lib\<close> show ?thesis
        by (auto simp: holding_of_def f split: option.splits)
    qed
  qed
qed

lemma drop_each_manifests:
  "drop_each E None x title hs w gone = (w', gone', None) \<Longrightarrow>
     \<forall>(m, h) \<in> set hs. \<exists>a. h = HasApp a \<and> app_id a = x \<and> well_read a \<Longrightarrow>
     nothing_new w' w \<and> pool_apps w' = pool_apps w
     \<and> (\<forall>(m, h) \<in> set hs. manifest_at w' (apps_place m) x = None)
     \<and> map mv_seat gone' = map mv_seat gone @ map (mem_name \<circ> fst) hs"
proof (induction hs arbitrary: w gone)
  case (Cons mh hs)
  obtain m a where mh: "mh = (m, HasApp a)" "app_id a = x" "well_read a"
    using Cons.prems(2) by (cases mh) auto
  obtain w1 e1 where d: "drop_app E m a w = (w1, e1)" by force
  have e1: "e1 = None" using Cons.prems(1) mh d by (cases e1) auto
  note f1 = drop_app_manifests [OF d [unfolded e1] well_read_names(1) [OF mh(3)], unfolded mh(2)]
  have go: "drop_each E None x title hs w1
      (gone @ [\<lparr>mv_app = x, mv_name = title, mv_seat = mem_name m, mv_bytes = 0\<rparr>]) = (w', gone', None)"
    using Cons.prems(1) mh d e1 by simp
  note ih = Cons.IH [OF go]
  have "manifest_at w' (apps_place m) x = None"
    using f1 ih Cons.prems(2) by (simp add: nothing_new_def) metis
  with f1 ih Cons.prems(2) mh show ?case by (auto intro: nothing_new_trans)
qed simp

section \<open>The pool's copy\<close>

lemma remove_error:
  "remove_node k flt p x = (left, err) \<Longrightarrow> err \<noteq> Some NoEntry"
  "empty_list k flt p es = (es', err) \<Longrightarrow> err \<noteq> Some NoEntry"
  by (induction k flt p x and k flt p es arbitrary: left err and es' err rule: remove_node_empty_list.induct)
    (auto simp: Let_def split: if_splits prod.splits option.splits)

lemma remove_all_error: "remove_all_at k flt d n = (d', err) \<Longrightarrow> err \<noteq> Some NoEntry"
  by (auto simp: remove_all_at_def split: if_splits option.splits prod.splits dest: remove_error(1))

lemma read_no_entry:
  "read_app_at c d n = Inl (FsErr NoEntry) \<Longrightarrow> map_of (entries d) n = None"
  by (auto simp: read_app_at_def open_file_at_def split: sum.splits if_splits option.splits node.splits)

lemma manifest_at_pool:
  "pl \<noteq> PoolApps \<Longrightarrow> manifest_at (w\<lparr>pool_apps := d\<rparr>) pl x = manifest_at w pl x"
  by (cases pl) (auto simp: manifest_at_def seat_dir_def)

lemma del_named: "pool_named d \<Longrightarrow> pool_named (del k n d)"
proof -
  assume named: "pool_named d"
  have "read_app_at c d m = Inr a" if r: "read_app_at c (del k n d) m = Inr a" for c m a
  proof -
    have "m \<noteq> n" using read_app_at_Inr [OF r] by (auto simp: map_of_delete)
    then have "map_of (entries (del k n d)) m = map_of (entries d) m" by (simp add: map_of_delete)
    with r show ?thesis by (simp add: read_app_at_cong [of "del k n d" m d])
  qed
  with named show ?thesis unfolding pool_named_def by blast
qed

lemma remove_locked_app:
  assumes "remove_locked E x p = (p', err)" "folder_name_of x = None"
    and "err = None \<or> err = Some (FsErr NoEntry)"
  shows "map_of (entries (pool_apps (wd p'))) (manifest_name x) = None \<and> st p' = st p
    \<and> (pool_named (pool_apps (wd p)) \<longrightarrow> pool_named (pool_apps (wd p')))
    \<and> (\<forall>pl y. pl \<noteq> PoolApps \<longrightarrow> manifest_at (wd p') pl y = manifest_at (wd p) pl y)"
proof (cases "safe_name (manifest_name x)")
  case (Some e)
  with assms show ?thesis by (auto simp: remove_locked_def)
next
  case None
  let ?d = "pool_apps (wd p)" and ?f = "flts E Dropping [] PoolApps" and ?file = "manifest_name x"
  show ?thesis
  proof (cases "read_app_at (?f [?file]) ?d ?file")
    case (Inl e)
    with assms None have "p' = p" "e = FsErr NoEntry" by (auto simp: remove_locked_def Let_def)
    with Inl read_no_entry show ?thesis by auto
  next
    case (Inr a)
    obtain c e where r: "remove_all_at (kern E) (\<lambda>q. ?f (common_dir # install_dir a # q)) (entry ?d common_dir) (install_dir a) = (c, e)"
      by force
    have "safe_name (install_dir a) = None \<and> e = None \<and> \<not> ?f [?file] SUnlink"
      using assms None Inr r remove_all_error [OF r]
      by (auto simp: remove_locked_def Let_def split: option.splits if_splits)
    then have "p' = p\<lparr>wd := (wd p)\<lparr>pool_apps := del (kern E) ?file (change common_dir c ?d)\<rparr>\<rparr>"
      using assms(1,2) None Inr r by (simp add: remove_locked_def Let_def)
    then show ?thesis by (simp add: map_of_delete manifest_at_pool del_named change_common_named)
  qed
qed

section \<open>Uninstalling\<close>

lemma uninstall_busy:
  assumes "m \<in> set ms" "\<not> updatable m" "holding_of E (folder_name_of x) x m (wd p) = Inr h" "h \<noteq> Lacks"
  shows "\<exists>e. uninstall E x ms p = (p, [], Some e)"
proof -
  let ?fo = "folder_name_of x"
  show ?thesis
  proof (cases "safe_name (case ?fo of None \<Rightarrow> manifest_name x | Some n \<Rightarrow> n)")
    case (Some e)
    then show ?thesis by (simp add: uninstall_def Let_def)
  next
    case name: None
    show ?thesis
    proof (cases "if ?fo = None then kept_by_source E ms x (wd p) (sources (st p)) else None")
      case (Some src)
      with name show ?thesis by (simp add: uninstall_def Let_def)
    next
      case src: None
      show ?thesis
      proof (cases "holdings E ?fo x (wd p) ms")
        case (Inl e)
        with name src show ?thesis by (simp add: uninstall_def Let_def)
      next
        case (Inr hs)
        have "(m, h) \<in> set hs" using holdings_members [OF Inr] assms by auto
        then have "map (\<lambda>(m, h). mem_name m) (filter (\<lambda>(m, h). \<not> updatable m) hs) \<noteq> []"
          using assms(2) by (auto simp: filter_empty_conv)
        with name src Inr show ?thesis by (simp add: uninstall_def Let_def)
      qed
    qed
  qed
qed

lemma uninstall_steps:
  assumes "uninstall E x ms p = (p', gone, None)" "folder_name_of x = None"
  shows "\<exists>hs title w' p1 err. holdings E None x (wd p) ms = Inr hs \<and> (\<forall>(m, h) \<in> set hs. updatable m)
    \<and> drop_each E None x title hs (wd p) [] = (w', gone, None)
    \<and> remove_locked E x (p\<lparr>wd := w'\<rparr>) = (p1, err) \<and> (err = None \<or> err = Some (FsErr NoEntry))
    \<and> p' = p1\<lparr>st := withhold x title (forget_marks x (st p1)),
              saved := Some (withhold x title (forget_marks x (st p1)))\<rparr>"
proof (cases "safe_name (manifest_name x)")
  case (Some e)
  with assms show ?thesis by (simp add: uninstall_def Let_def)
next
  case name: None
  show ?thesis
  proof (cases "kept_by_source E ms x (wd p) (sources (st p))")
    case (Some src)
    with assms name show ?thesis by (simp add: uninstall_def Let_def)
  next
    case src: None
    show ?thesis
    proof (cases "holdings E None x (wd p) ms")
      case (Inl e)
      with assms name src show ?thesis by (simp add: uninstall_def Let_def)
    next
      case hs: (Inr hs)
      define title where "title = (case read_app_at (flts E Asking [] PoolApps [manifest_name x])
              (pool_apps (wd p)) (manifest_name x) of
            Inr a \<Rightarrow> if app_name a \<noteq> [] then app_name a else title_of x hs
          | Inl e \<Rightarrow> title_of x hs)"
      have upd: "\<forall>(m, h) \<in> set hs. updatable m"
      proof (rule ccontr)
        assume "\<not> (\<forall>(m, h) \<in> set hs. updatable m)"
        then have "map (\<lambda>(m, h). mem_name m) (filter (\<lambda>(m, h). \<not> updatable m) hs) \<noteq> []"
          by (auto simp: filter_empty_conv)
        with assms name src hs show False by (simp add: uninstall_def Let_def)
      qed
      then have idle: "filter (\<lambda>(m, h). \<not> updatable m) hs = []" by (auto simp: filter_empty_conv)
      obtain w' g e where d: "drop_each E None x title hs (wd p) [] = (w', g, e)" by (metis prod.exhaust)
      obtain p1 err where r: "remove_locked E x (p\<lparr>wd := w'\<rparr>) = (p1, err)" by force
      show ?thesis
      proof (cases e)
        case (Some e)
        with assms name src hs idle d show ?thesis
          by (simp add: uninstall_def Let_def title_def split: prod.splits option.splits)
      next
        case None
        have u: "uninstall E x ms p =
            (if err \<noteq> None \<and> err \<noteq> Some (FsErr NoEntry) then (p1, g, err)
             else case save_state E (p1\<lparr>st := withhold x title (forget_marks x (st p1))\<rparr>) of (p2, e2) \<Rightarrow> (p2, g, e2))"
          using assms(2) name src hs idle d None r
          by (simp add: uninstall_def Let_def title_def)
        have ok: "err = None \<or> err = Some (FsErr NoEntry)"
          using assms(1) u by (cases err) (auto split: if_splits)
        then have "save_state E (p1\<lparr>st := withhold x title (forget_marks x (st p1))\<rparr>) = (p', None) \<and> g = gone"
          using assms(1) u by (auto split: prod.splits)
        with hs upd d None r ok show ?thesis
          by (intro exI [of _ hs] exI [of _ title] exI [of _ w'] exI [of _ p1] exI [of _ err])
            (auto simp: save_state_def split: if_splits)
      qed
    qed
  qed
qed

text \<open>Every library is named the way the pool is.\<close>

definition named_libraries :: "member list \<Rightarrow> world \<Rightarrow> bool" where
  "named_libraries ms w \<longleftrightarrow>
     (\<forall>m \<in> set ms. \<forall>lib. open_place (\<lambda>_ _. False) w (apps_place m) = Inr lib \<longrightarrow> pool_named lib)"

definition no_asking_faults :: "env \<Rightarrow> member list \<Rightarrow> bool" where
  "no_asking_faults E ms \<longleftrightarrow> (\<forall>m \<in> set ms. \<forall>q op. \<not> flts E Asking (mem_name m) (apps_place m) q op)"

lemma member_build_manifest:
  "manifest_at w (apps_place m) x = None \<Longrightarrow> member_build w m x = None"
  "manifest_at w' (apps_place m) x = manifest_at w (apps_place m) x \<Longrightarrow> member_build w' m x = member_build w m x"
  by (auto simp: manifest_at_def member_build_def build_at_file file_of_def split: sum.splits)

lemma uninstall_result:
  assumes "uninstall E x ms p = (p', gone, None)" "folder_name_of x = None"
    and "no_asking_faults E ms" "named_libraries ms (wd p)"
  shows "map_of (entries (pool_apps (wd p'))) (manifest_name x) = None
    \<and> (pool_named (pool_apps (wd p)) \<longrightarrow> pool_named (pool_apps (wd p')))
    \<and> (\<forall>seat. status (st p') seat x = []) \<and> saved p' = Some (st p')
    \<and> (\<forall>m \<in> set ms. member_build (wd p') m x = None)"
proof -
  from uninstall_steps [OF assms(1,2)] obtain hs title w' p1 err where
    hs: "holdings E None x (wd p) ms = Inr hs"
    and d: "drop_each E None x title hs (wd p) [] = (w', gone, None)"
    and r: "remove_locked E x (p\<lparr>wd := w'\<rparr>) = (p1, err)" "err = None \<or> err = Some (FsErr NoEntry)"
    and p': "p' = p1\<lparr>st := withhold x title (forget_marks x (st p1)),
              saved := Some (withhold x title (forget_marks x (st p1)))\<rparr>" by blast
  note mem = holdings_members [OF hs]
  have app: "\<exists>a. h = HasApp a \<and> app_id a = x \<and> well_read a" if mh: "(m, h) \<in> set hs" for m h
  proof -
    have m: "m \<in> set ms" "holding_of E None x m (wd p) = Inr h" "h \<noteq> Lacks" using mem mh by auto
    have nf: "\<forall>q op. \<not> flts E Asking (mem_name m) (apps_place m) q op"
      using assms(3) m(1) by (simp add: no_asking_faults_def)
    obtain a lib where a: "h = HasApp a" "open_place (\<lambda>_ _. False) (wd p) (apps_place m) = Inr lib"
      "read_app_at (\<lambda>_. False) lib (manifest_name x) = Inr a"
      using holding_of_app [OF m(2) nf] m(3) by (cases h) auto
    have "pool_named lib" using assms(4) m(1) a(2) by (simp add: named_libraries_def)
    then have "manifest_name x = manifest_name (app_id a)"
      using a(3) manifest_shape_name unfolding pool_named_def by blast
    with a read_app_at_Inr [OF a(3)] show ?thesis by simp
  qed
  have "\<forall>(m, h) \<in> set hs. \<exists>a. h = HasApp a \<and> app_id a = x \<and> well_read a" using app by blast
  note dropped = drop_each_manifests [OF d this]
  note rl = remove_locked_app [OF r(1) assms(2) r(2)]
  have wd': "wd p' = wd p1" by (simp add: p')
  have "member_build (wd p') m x = None" if m: "m \<in> set ms" for m
  proof -
    have nf: "\<forall>q op. \<not> flts E Asking (mem_name m) (apps_place m) q op"
      using assms(3) m by (simp add: no_asking_faults_def)
    have at: "manifest_at (wd p') (apps_place m) x = manifest_at w' (apps_place m) x" using rl wd' by simp
    obtain h where h: "holding_of E None x m (wd p) = Inr h"
      using holdings_all [OF hs m] by blast
    show ?thesis
    proof (cases "h = Lacks")
      case True
      then have b: "member_build (wd p) m x = None"
        using holding_of_app [OF h nf] by (auto simp: member_build_def)
      have "manifest_at w' (apps_place m) x = manifest_at (wd p) (apps_place m) x \<or> manifest_at w' (apps_place m) x = None"
        using dropped by (simp add: nothing_new_def)
      with b at member_build_manifest show ?thesis by metis
    next
      case False
      then have "(m, h) \<in> set hs" using mem m h by auto
      then have "manifest_at w' (apps_place m) x = None" using dropped by auto
      with at member_build_manifest(1) show ?thesis by metis
    qed
  qed
  moreover have "status (st p') seat x = []" for seat
    by (simp add: p' withhold_def forget_marks_def status_def)
  moreover have "pool_apps w' = pool_apps (wd p)" using dropped by simp
  ultimately show ?thesis using rl wd' p' by simp
qed

end
