(* ===== verification/Pool_Sample.thy ===== *)
theory Pool_Sample
  imports Pool_Forward Pool_Uninstall Pool_Marks
begin

text \<open>
  A small library to apply the theorems to: one title with its manifest, a pool that has it,
  and a seat and a library of somebody else that may get it.
\<close>

section \<open>A manifest\<close>

definition acf :: "(string \<times> string) list \<Rightarrow> string" where
  "acf kvs = unlines (''{'' # map (\<lambda>(k, v). pair_text k v) kvs @ [''}''])"

definition acf_ok :: "(string \<times> string) list \<Rightarrow> bool" where
  "acf_ok kvs \<longleftrightarrow> list_all (\<lambda>(k, v). quote \<notin> set k \<and> quote \<notin> set v \<and> newline \<notin> set k \<and> newline \<notin> set v
     \<and> length k + length v < 1000) kvs"

lemma acf_raw:
  assumes "acf_ok kvs"
  shows "raw_lines (acf kvs) = ''{'' # map (\<lambda>(k, v). pair_text k v) kvs @ [''}'']"
proof -
  have "newline \<notin> set l" if "l \<in> set (map (\<lambda>(k, v). pair_text k v) kvs)" for l
    using that assms by (auto simp: acf_ok_def list_all_iff)
  then show ?thesis unfolding acf_def by (intro raw_lines_unlines) auto
qed

lemma acf_ordinary:
  assumes "acf_ok kvs"
  shows "ordinary_lines (acf kvs)"
  unfolding ordinary_lines_def acf_raw [OF assms]
  using assms by (fastforce simp: list_all_iff max_token_def acf_ok_def)

lemma acf_lines:
  assumes "acf_ok kvs"
  shows "manifest_fields 1 fs (map (\<lambda>(k, v). pair_text k v) kvs @ [''}''])
    = fold (\<lambda>(k, v) fs. AList.update (to_lower k) v fs) kvs fs"
  using assms
proof (induction kvs arbitrary: fs)
  case Nil
  then show ?case by (simp add: vdf_line_brace)
next
  case (Cons e kvs)
  obtain k v where e: "e = (k, v)" by force
  have "vdf_line (trim_space (pair_text k v)) = Pair k v"
    using Cons.prems by (intro vdf_line_pair_text) (auto simp: e acf_ok_def)
  with Cons e show ?case by (simp add: acf_ok_def)
qed

lemma acf_parse:
  assumes "acf_ok kvs"
  defines "fs \<equiv> fold (\<lambda>(k, v) fs. AList.update (to_lower k) v fs) kvs []"
  shows "parse_manifest (acf kvs) =
    (if length fs = 0 then Inl NoFields
     else if field fs ''appid'' = [] then Inl NoAppID
     else case (if field fs ''installdir'' = [] then None else safe_name (field fs ''installdir'')) of
       Some e \<Rightarrow> Inl (BadInstallDir e)
     | None \<Rightarrow> if \<not> numeric (field fs ''appid'') then Inl AppIDNotNumber else Inr (app_of_fields fs))"
proof -
  obtain ls where ls: "scan_lines (acf kvs) = (ls, False)" "ls = map drop_cr (raw_lines (acf kvs))"
    using scan_ordinary [OF acf_ordinary [OF assms(1)]] by simp
  have "manifest_fields 0 [] ls = fs"
    unfolding ls(2) manifest_fields_drop_cr acf_raw [OF assms(1)] fs_def
    using acf_lines [OF assms(1)] by (simp add: vdf_line_brace)
  with ls(1) show ?thesis
    by (simp add: parse_manifest_def Let_def app_of_fields_def split: option.split)
qed

text \<open>A manifest with nothing to clear is written as it is.\<close>

lemma acf_rewrite:
  assumes "acf_ok kvs" "list_all (\<lambda>(k, v). neutralised (to_lower k) = None) kvs"
  shows "rewrite (acf kvs) = acf kvs"
proof -
  have pair: "vdf_line (trim_space (pair_text k v)) = Pair k v" if "(k, v) \<in> set kvs" for k v
    using that assms(1) by (intro vdf_line_pair_text) (auto simp: acf_ok_def list_all_iff)
  have "rewrite_lines 1 (map (\<lambda>(k, v). pair_text k v) es @ [''}'']) = map (\<lambda>(k, v). pair_text k v) es @ [''}'']"
    if "set es \<subseteq> set kvs" for es
    using that
  proof (induction es)
    case Nil
    then show ?case by (simp add: rewrite_line_def vdf_line_brace)
  next
    case (Cons e es)
    obtain k v where e: "e = (k, v)" by force
    then have "neutralised (to_lower k) = None" using Cons.prems assms(2) by (auto simp: list_all_iff)
    with Cons pair [of k v] e show ?case by (simp add: rewrite_line_def)
  qed
  then have r: "rewrite_lines 0 (''{'' # map (\<lambda>(k, v). pair_text k v) kvs @ [''}''])
      = ''{'' # map (\<lambda>(k, v). pair_text k v) kvs @ [''}'']"
    by (simp add: rewrite_line_def vdf_line_brace)
  have "drop_cr (pair_text k v) = pair_text k v" for k v
    using drop_cr_quote [of "[quote] @ k @ [quote] @ [CHR 0x09, CHR 0x09] @ [quote] @ v"] by simp
  then have "map drop_cr (''{'' # map (\<lambda>(k, v). pair_text k v) kvs @ [''}''])
      = ''{'' # map (\<lambda>(k, v). pair_text k v) kvs @ [''}'']"
    by (auto simp: drop_cr_def trim_suffix_def has_suffix_def)
  then show ?thesis
    by (simp only: rewrite_def scan_ordinary [OF acf_ordinary [OF assms(1)]] fst_conv acf_raw [OF assms(1)] r)
      (simp only: acf_def)
qed

definition title_fields :: "(string \<times> string) list" where
  "title_fields = [(''appid'', ''7''), (''name'', ''Game''), (''StateFlags'', ''4''), (''installdir'', ''game''),
     (''buildid'', ''12'')]"

definition title_data :: string where "title_data = acf title_fields"

definition sample_app :: app where
  "sample_app = \<lparr>app_id = ''7'', app_name = ''Game'', install_dir = ''game'', build_id = ''12'', state_flags = 4,
     size_on_disk = 0, app_data = title_data, mod_time = 0\<rparr>"

lemma title_fields_ok: "acf_ok title_fields"
  by (simp add: acf_ok_def title_fields_def)

lemma title_ordinary: "ordinary_lines title_data"
  unfolding title_data_def by (rule acf_ordinary [OF title_fields_ok])

lemma title_parse: "parse_manifest title_data = Inr (sample_app\<lparr>app_data := []\<rparr>)"
proof -
  have f: "fold (\<lambda>(k, v) fs. AList.update (to_lower k) v fs) title_fields []
      = [(''appid'', ''7''), (''name'', ''Game''), (''stateflags'', ''4''), (''installdir'', ''game''), (''buildid'', ''12'')]"
    by code_simp
  have i: "fst (parse_int64 ''4'') = 4" "fst (parse_int64 []) = 0" "numeric ''7''"
    by (simp_all add: parse_int64_def numeric_def is_digit_def digit_val_def)
  have n: "safe_name ''game'' = None" by code_simp
  show ?thesis
    unfolding title_data_def acf_parse [OF title_fields_ok] f
    by (simp add: app_of_fields_def field_def sample_app_def i n)
qed

lemma title_rewrite: "rewrite title_data = title_data"
  unfolding title_data_def by (rule acf_rewrite [OF title_fields_ok]) code_simp

lemma title_length: "length title_data < 200"
  by (simp add: title_data_def acf_def title_fields_def unlines_def)

lemma sample_read: "read_from title_data sample_app" "well_read sample_app"
  using title_length by (auto simp: read_from_def well_read_def title_parse max_manifest_def sample_app_def)

section \<open>A pool and a seat\<close>

definition sample_pool_apps :: node where
  "sample_pool_apps = Dir root_meta
     [(manifest_name ''7'', Reg root_meta title_data),
      (common_dir, Dir root_meta [(''game'', Dir root_meta [(''run'', Reg root_meta ''x'')])])]"

definition sample_env :: env where
  "sample_env = \<lparr>kern = sample_kernel, own = sample_member, settle = 0,
     flts = (\<lambda>_ _ _ _ _. False), wflts = (\<lambda>_ _ _ _ _ _ _. False), clones = (\<lambda>_ _ _. all_well),
     sharing = (\<lambda>_ _ _ _. True), temps = (\<lambda>_ _ _. [''1'']), save_fails = False\<rparr>"

definition sample_one :: member where
  "sample_one = \<lparr>mem_name = ''s1'', mem_owner = sample_member, updatable = True, mem_apps = [], mem_folders = []\<rparr>"

definition sample_lib :: node where
  "sample_lib = Dir root_meta [(common_dir, Dir root_meta [])]"

definition sample_world :: world where
  "sample_world = \<lparr>seats = Dir root_meta [(''s1'', Dir root_meta [(steam_apps, sample_lib), (shared_dir, Dir root_meta [])])],
     outside = (\<lambda>_. None), pool_apps = sample_pool_apps, pool_folders = Dir root_meta []\<rparr>"

lemma copy_manifest_works:
  assumes "component name" "map_of (entries d) name = None" "map_of (entries d) (name @ ''.polyseat-tmp'') = None"
  shows "snd (copy_manifest k (\<lambda>_ _. False) data d name w) = None"
proof -
  have "name @ ''.polyseat-tmp'' \<noteq> name" by simp
  with assms component_temp [OF assms(1)] show ?thesis
    by (simp add: copy_manifest_def Let_def remove_all_at_def create_file_at_def rename_in_def map_of_update displace_def)
qed

lemma sample_place: "apps_place sample_one = SeatDir ''s1'' steam_apps"
  "open_place (\<lambda>_ _. False) sample_world (SeatDir ''s1'' steam_apps) = Inr sample_lib"
proof -
  show "apps_place sample_one = SeatDir ''s1'' steam_apps" by (simp add: apps_place_def external_def sample_one_def)
  show "open_place (\<lambda>_ _. False) sample_world (SeatDir ''s1'' steam_apps) = Inr sample_lib"
    by (simp add: sample_world_def seat_dir_def open_dir_at_def sample_lib_def steam_apps_def component_def)
qed

lemma sample_distribute:
  "\<exists>s' w' rep'. distribute sample_env sample_one [sample_app] no_state sample_world no_report = (s', w', rep', None)"
proof -
  let ?game = "Dir root_meta [(''run'', Reg root_meta ''x'')]"
  let ?pc = "Dir root_meta [(''game'', ?game)]"
  have "snd (snd (clone_to sample_env Giving ''s1'' ?pc ''game'' (Dir root_meta []) sample_member False)) = None"
    by code_simp
  then obtain c r where c: "clone_to sample_env Giving ''s1'' ?pc ''game'' (Dir root_meta []) sample_member False = (c, r, None)"
    by (metis prod.collapse)
  have n: "component (manifest_name ''7'')" by code_simp
  have "snd (copy_manifest sample_kernel (\<lambda>_ _. False) title_data (change common_dir c sample_lib)
      (manifest_name ''7'') sample_member) = None"
    by (rule copy_manifest_works [OF n]) (simp_all add: sample_lib_def map_of_update)
  then obtain l where l: "copy_manifest sample_kernel (\<lambda>_ _. False) title_data (change common_dir c sample_lib)
      (manifest_name ''7'') sample_member = (l, None)"
    by (metis prod.collapse)
  have e: "kern sample_env = sample_kernel" "flts sample_env stg who pl = (\<lambda>_ _. False)" for stg who pl
    by (simp_all add: sample_env_def)
  have m: "mem_name sample_one = ''s1''" "mem_owner sample_one = sample_member" by (simp_all add: sample_one_def)
  have r: "read_apps_at (\<lambda>_ _. False) sample_lib = Inr []"
    by (simp add: read_apps_at_def sample_lib_def common_dir_def)
  have pc: "open_dir_at (\<lambda>_. False) (pool_apps sample_world) common_dir = Inr ?pc"
    by (simp add: open_dir_at_def sample_world_def sample_pool_apps_def component_def common_dir_def manifest_name_def)
  have game: "is_dir_at (\<lambda>_. False) ?pc ''game''" by (simp add: is_dir_at_iff component_def)
  have common: "ensure_dir_at sample_kernel (\<lambda>_. False) sample_lib common_dir 493 = (sample_lib, Inr (Dir root_meta [], False))"
    by (simp add: ensure_dir_at_def sample_lib_def common_dir_def component_def open_dir_at_def)
  have a: "install_dir sample_app = ''game''" "app_data sample_app = title_data" "app_id sample_app = ''7''" "installed sample_app"
    by (simp_all add: sample_app_def installed_def state_installed_def)
  have en: "entry sample_lib common_dir = Dir root_meta []" by (simp add: entry_def sample_lib_def)
  show ?thesis
    by (simp add: Let_def distribute_def sample_place e m r pc a game common c l en open_common_def give_app_def
        present_apps_def decide_def status_def no_state_def status_declined_def status_delivered_def
        del: open_place.simps)
qed

section \<open>The pool in samples\<close>

definition sample_pool :: pool where
  "sample_pool = \<lparr>st = no_state, saved = None, wd = sample_world\<rparr>"

lemma sample_entries:
  "map_of (entries sample_pool_apps) n =
     (if n = manifest_name ''7'' then Some (Reg root_meta title_data)
      else if n = common_dir then Some (Dir root_meta [(''game'', Dir root_meta [(''run'', Reg root_meta ''x'')])])
      else None)"
  by (simp add: sample_pool_apps_def)

lemma sample_read_pool:
  "read_app_at (\<lambda>_. False) sample_pool_apps (manifest_name ''7'') = Inr sample_app"
proof -
  have "component (manifest_name ''7'')" by code_simp
  then show ?thesis
    using title_length
    by (simp add: read_app_at_def open_file_at_def sample_entries title_parse max_manifest_def sample_app_def root_meta_def)
qed

lemma sample_read_only:
  "read_app_at c sample_pool_apps n = Inr a \<Longrightarrow> n = manifest_name ''7'' \<and> app_id a = ''7'' \<and> install_dir a = ''game''"
proof -
  assume r: "read_app_at c sample_pool_apps n = Inr a"
  from read_app_at_Inr [OF r] have n: "n = manifest_name ''7''" and d: "app_data a = title_data" and w: "well_read a"
    by (auto simp: sample_entries split: if_splits)
  obtain a0 where "parse_manifest (app_data a) = Inr a0" "a = a0\<lparr>app_data := app_data a, mod_time := mod_time a\<rparr>"
    using w by (auto simp: well_read_def read_from_def)
  then have e: "a = (sample_app\<lparr>app_data := []\<rparr>)\<lparr>app_data := title_data, mod_time := mod_time a\<rparr>"
    by (simp add: d title_parse)
  have "app_id a = ''7'' \<and> install_dir a = ''game''" by (subst (1 2) e) (simp add: sample_app_def)
  with n show ?thesis by simp
qed

lemma sample_named: "pool_named sample_pool_apps"
  using sample_read_only by (auto simp: pool_named_def)

lemma sample_full: "pool_full sample_pool_apps"
proof -
  have "\<not> backup_name ''game''"
  proof
    assume "backup_name ''game''"
    then obtain s where "''game'' = s @ ''.polyseat-old''" by (auto simp: backup_name_def old_name_def)
    from arg_cong [OF this, of length] show False by simp
  qed
  moreover have "has_files sample_pool_apps ''game''"
    by (simp add: has_files_def entry_def sample_entries is_dir_at_iff component_def)
  moreover have "is_dir sample_pool_apps" by (simp add: sample_pool_apps_def)
  ultimately show ?thesis
    using sample_read_only by (auto simp: pool_full_def sample_entries)
qed

lemma sample_no_files: "pl \<noteq> PoolApps \<Longrightarrow> file_at sample_world pl n = None"
proof (cases pl)
  case (SeatDir seat sub)
  then show ?thesis
    by (auto simp: file_at_SeatDir look_Cons sample_world_def sample_lib_def file_of_def Option.bind_eq_Some_conv
        split: option.split node.split)
qed (auto simp: file_at_def file_of_def sample_world_def)

lemma sample_lib_named: "pool_named sample_lib"
  by (auto simp: pool_named_def sample_lib_def manifest_shape_def common_dir_def
      dest!: read_app_at_Inr split: if_splits)

lemma sample_lib_lacks: "build_at sample_lib x = None"
  by (simp add: build_at_file sample_lib_def file_of_def split: option.split)

lemma sample_apart: "places_apart [sample_one]"
  by (simp add: places_apart_def folders_place_def apps_place_def external_def sample_one_def shared_dir_def steam_apps_def)

lemma sample_env_calm: "flts sample_env stg who pl = (\<lambda>_ _. False)" "kern sample_env = sample_kernel" "save_fails sample_env = False"
  by (simp_all add: sample_env_def)

text \<open>A seat that has the title and is in use.\<close>

definition busy_one :: member where "busy_one = sample_one\<lparr>updatable := False\<rparr>"

definition busy_pool :: pool where
  "busy_pool = sample_pool\<lparr>wd := sample_world\<lparr>seats := Dir root_meta [(''s1'', Dir root_meta [(steam_apps, sample_pool_apps)])]\<rparr>\<rparr>"

lemma busy_holds: "holding_of sample_env None ''7'' busy_one (wd busy_pool) = Inr (HasApp sample_app)"
proof -
  have p: "apps_place busy_one = SeatDir ''s1'' steam_apps"
    by (simp add: apps_place_def external_def busy_one_def sample_one_def)
  have "is_dir sample_pool_apps" by (simp add: sample_pool_apps_def)
  then have "open_dir_at (\<lambda>_. False) (Dir root_meta [(steam_apps, sample_pool_apps)]) steam_apps = Inr sample_pool_apps"
    by (simp add: open_dir_at_iff component_def steam_apps_def)
  then have o: "open_place (\<lambda>_ _. False) (wd busy_pool) (SeatDir ''s1'' steam_apps) = Inr sample_pool_apps"
    by (simp add: busy_pool_def seat_dir_def open_dir_at_def component_def)
  have "safe_name (install_dir sample_app) = None" by (simp add: sample_app_def safe_name_def contains_any_def)
  then show ?thesis
    by (simp add: holding_of_def Let_def p o sample_env_calm sample_read_pool del: open_place.simps)
qed

lemma sample_uninstall:
  "\<exists>p'. uninstall sample_env ''7'' [sample_one] sample_pool = (p', [], None) \<and> map_of (withheld (st p')) ''7'' = Some ''Game''"
proof -
  have n: "folder_name_of ''7'' = None" "safe_name (manifest_name ''7'') = None" by code_simp+
  have g: "safe_name ''game'' = None" by code_simp
  have h: "holding_of sample_env None ''7'' sample_one sample_world = Inr Lacks"
    using sample_place sample_lib_lacks [of "''7''"]
    by (auto simp: holding_of_def Let_def sample_env_calm build_at_def simp del: open_place.simps split: sum.splits)
  have a: "install_dir sample_app = ''game''" "app_name sample_app = ''Game''" by (simp_all add: sample_app_def)
  obtain c e where r: "remove_all_at sample_kernel (\<lambda>_ _. False) (entry sample_pool_apps common_dir) ''game'' = (c, e)" by force
  have "e = None"
    using r by (auto simp: remove_all_at_def entry_def sample_entries component_def)
  note r = r [unfolded this]
  have w: "wd sample_pool = sample_world" "pool_apps sample_world = sample_pool_apps" "st sample_pool = no_state"
    by (simp_all add: sample_pool_def sample_world_def)
  have k: "kept_by_source sample_env [sample_one] ''7'' sample_world [] = None" by simp
  show ?thesis
    by (simp add: uninstall_def Let_def n w k h a sample_env_calm sample_read_pool remove_locked_def g r save_state_def
        withhold_def forget_marks_def no_state_def)
qed

end
