(* ===== verification/Pool_Promises.thy ===== *)
theory Pool_Promises
  imports Pool_Sample
begin

text \<open>
  What the shared library promises: handing out by its description, titles that were taken
  away stay away, and the pool only moves forward.
\<close>

section \<open>Handing out\<close>

text \<open>
  Property C5: handing out is the description without files. After a pass over a member that
  met no error, what its library holds and what is remembered of it are, title by title, what
  the description says of what they were: the pool's build where the member lacks the title
  and may have it, or has an older build and can take the update; everything else as it was;
  and what was handed over and is gone counts as declined.
\<close>

theorem distribute_refines:
  assumes "distribute E m apps s w rep = (s', w', rep', None)"
    and "\<forall>p op. \<not> flts E Giving (mem_name m) (apps_place m) p op"
    and "open_place (\<lambda>_ _. False) w (apps_place m) = Inr lib" "pool_named lib"
    and "\<forall>a \<in> set apps. well_read a \<and> plain_data (app_data a)" "distinct (map app_id apps)"
  shows "\<exists>lib'. open_place (\<lambda>_ _. False) w' (apps_place m) = Inr lib'
    \<and> shelf_of m s' lib'
        = spec_give (updatable m) (offered E m (entry (pool_apps w) common_dir) apps) (shelf_of m s lib)"
proof -
  let ?pl = "apps_place m"
  from distribute_steps [OF assms(1)] obtain lib0 here pc lib' where
    o: "open_place (flts E Giving (mem_name m) ?pl) w ?pl = Inr lib0"
    and r: "read_apps_at (flts E Giving (mem_name m) ?pl) lib0 = Inr here"
    and pc: "map_of (entries (pool_apps w)) common_dir = Some pc"
    and g: "give_apps E m (present_apps here) pc apps False s lib0 rep = (s', lib', rep', None)"
    and w': "w' = store_place ?pl lib' w" by blast
  have lib0: "lib0 = lib" using open_place_faults [OF o] assms(3) by simp
  have dir: "is_dir lib" using open_place_dir [OF o] lib0 by simp
  have wr: "\<forall>a \<in> set apps. well_read a" using assms(5) by blast
  note pr = present_apps_named [OF r [unfolded lib0] assms(2,4)]
  have named: "app_id a = x" if "read_app_at (\<lambda>_. False) lib (manifest_name x) = Inr a" for a x
  proof -
    from assms(4) that manifest_shape_name have "manifest_name x = manifest_name (app_id a)"
      unfolding pool_named_def by blast
    then show ?thesis by simp
  qed
  have pr1: "present_apps here x = None \<longleftrightarrow> build_at lib x = None" for x
    using named [of x] by (auto simp: pr build_at_def split: sum.split)
  have pr2: "build_at lib x = Some (build_id h)" if "present_apps here x = Some h" for x h
    using that by (auto simp: pr build_at_def split: sum.splits if_splits)
  note others = give_apps_others [OF g wr, unfolded lib0, OF dir]
  let ?spec = "spec_give (updatable m) (offered E m pc apps) (shelf_of m s lib)"
  have each: "build_at lib' x = fst ?spec x \<and> status s' (mem_name m) x = snd ?spec x" for x
  proof (cases "x \<in> app_id ` set apps")
    case True
    then obtain a where a: "a \<in> set apps" "x = app_id a" by blast
    note made = give_apps_made [OF g wr _ assms(6) a(1), unfolded lib0, OF dir]
    show ?thesis
      unfolding a(2)
      using shelf_made [OF made _ _ pr1 pr2 offered_iff(1) [OF assms(6) a(1)]] assms(5) a(1) by blast
  next
    case False
    then have "map_of (entries lib') (manifest_name x) = map_of (entries lib) (manifest_name x)"
      "status s' (mem_name m) x = status s (mem_name m) x"
      using others by (auto simp: same_manifests_def)
    note this(2) build_at_cong [OF this(1)]
    with False show ?thesis
      by (simp add: spec_give_def shelf_of_def offered_iff(2) [OF assms(6)])
  qed
  have "shelf_of m s' lib' = ?spec"
    using each by (intro prod_eqI ext) (simp_all add: shelf_of_def)
  moreover have "open_place (\<lambda>_ _. False) w' ?pl = Inr lib'"
    using open_store [OF o, of lib' ?pl] others w' by simp
  ultimately show ?thesis using pc by (auto simp: entry_def)
qed

theorem distribute_refines_witness:
  "\<exists>s' w' rep' lib'. distribute sample_env sample_one [sample_app] no_state sample_world no_report = (s', w', rep', None)
     \<and> open_place (\<lambda>_ _. False) w' (apps_place sample_one) = Inr lib'
     \<and> build_at lib' ''7'' = Some ''12'' \<and> status s' ''s1'' ''7'' = status_delivered"
proof -
  obtain s' w' rep' where d: "distribute sample_env sample_one [sample_app] no_state sample_world no_report = (s', w', rep', None)"
    using sample_distribute by blast
  have pc: "entry (pool_apps sample_world) common_dir = Dir root_meta [(''game'', Dir root_meta [(''run'', Reg root_meta ''x'')])]"
    by (simp add: entry_def sample_world_def sample_pool_apps_def)
  have o: "offered sample_env sample_one (entry (pool_apps sample_world) common_dir) [sample_app] ''7'' = Some (''12'', True)"
    by (simp add: offered_def pc sample_app_def installed_def state_installed_def sample_env_def is_dir_at_iff component_def)
  note b = sample_lib_lacks [of "''7''"]
  have m: "mem_name sample_one = ''s1''" "updatable sample_one" by (simp_all add: sample_one_def)
  have st: "status no_state ''s1'' ''7'' = []" by (simp add: status_def no_state_def)
  obtain lib' where l: "open_place (\<lambda>_ _. False) w' (apps_place sample_one) = Inr lib'"
    and sh: "shelf_of sample_one s' lib' = spec_give (updatable sample_one)
      (offered sample_env sample_one (entry (pool_apps sample_world) common_dir) [sample_app])
      (shelf_of sample_one no_state sample_lib)"
    using distribute_refines [OF d _ _ sample_lib_named] sample_place sample_read(2) title_ordinary title_length
    by (auto simp: sample_env_def plain_data_def title_rewrite max_manifest_def sample_app_def)
  have "build_at lib' ''7'' = Some ''12'' \<and> status s' ''s1'' ''7'' = status_delivered"
    using fun_cong [OF arg_cong [OF sh, of fst], of "''7''"] fun_cong [OF arg_cong [OF sh, of snd], of "''7''"]
    by (simp add: shelf_of_def spec_give_def o b spec_choice_def st m status_declined_def status_delivered_def)
  with d l show ?thesis by blast
qed

section \<open>What one title sees of a pass\<close>

lemma file_at_distribute:
  assumes "distribute E m apps s w rep = (s', w', rep', err)"
    and "\<forall>a \<in> set apps. well_read a \<and> app_id a \<noteq> x" "\<forall>mv \<in> set (handed rep). mv_app mv \<noteq> x"
  shows "file_at w' pl (manifest_name x) = file_at w pl (manifest_name x)
    \<and> (\<forall>mv \<in> set (handed rep'). mv_app mv \<noteq> x) \<and> status s' seat x = status s seat x"
proof -
  consider "w' = w" "s' = s" "rep' = rep" | lib pr pc lib' where
    "open_place (flts E Giving (mem_name m) (apps_place m)) w (apps_place m) = Inr lib"
    "give_apps E m pr pc apps False s lib rep = (s', lib', rep', err)"
    "w' = store_place (apps_place m) lib' w"
    using distribute_steps [OF assms(1)] by blast
  then show ?thesis
  proof cases
    case 1
    with assms(3) show ?thesis by simp
  next
    case 2
    have wr: "\<forall>a \<in> set apps. well_read a" using assms(2) by blast
    have dir: "is_dir lib" using open_place_dir [OF 2(1)] by simp
    note others = give_apps_others [OF 2(2) wr dir]
    have x: "x \<notin> app_id ` set apps" using assms(2) by auto
    have "map_of (entries lib') (manifest_name x) = map_of (entries lib) (manifest_name x)"
      using others x by (auto simp: same_manifests_def)
    moreover have "open_place (\<lambda>_ _. False) w' pl =
        (if pl = apps_place m then Inr lib' else open_place (\<lambda>_ _. False) w pl)" for pl
      using open_store [OF 2(1)] others 2(3) by simp
    ultimately have "file_at w' pl (manifest_name x) = file_at w pl (manifest_name x)"
      using open_place_faults [OF 2(1)] by (simp add: file_at_def)
    moreover have "\<forall>mv \<in> set (handed rep'). mv_app mv \<noteq> x" using others x assms(3) by metis
    ultimately show ?thesis using others x by auto
  qed
qed

lemma folder_key_none: "folder_name_of x = None \<Longrightarrow> folder_key n \<noteq> x"
  by (auto simp: folder_name_of_def folder_key_def cut_prefix_def has_prefix_iff)

lemma give_folders_others:
  "give_folders E m here pool names s dir rep = (s', dir', rep', err) \<Longrightarrow> folder_name_of x = None \<Longrightarrow>
     \<forall>mv \<in> set (handed rep). mv_app mv \<noteq> x \<Longrightarrow>
     (\<forall>mv \<in> set (handed rep'). mv_app mv \<noteq> x) \<and> status s' seat x = status s seat x"
proof (induction names arbitrary: s dir rep)
  case (Cons n names)
  show ?case
    using Cons.prems folder_key_none [OF Cons.prems(2), of n]
    by (auto simp: Let_def folder_move_def status_mark split: if_splits choice.splits prod.splits option.splits dest!: Cons.IH)
qed simp

lemma file_at_distribute_folders:
  assumes "distribute_folders E m fs s w rep = (s', w', rep', err)" "folder_name_of x = None"
    and "\<forall>mv \<in> set (handed rep). mv_app mv \<noteq> x"
  shows "(folders_place m \<noteq> Some pl \<longrightarrow> file_at w' pl n = file_at w pl n)
    \<and> (\<forall>mv \<in> set (handed rep'). mv_app mv \<noteq> x) \<and> status s' seat x = status s seat x"
proof -
  consider "w' = w" "s' = s" "rep' = rep" | p dir pool dir' where
    "folders_dir (flts E FolderOut (mem_name m) (the (folders_place m))) w m = Inr (Some (p, dir))"
    "give_folders E m (here_folders fs) pool (sort (map fst (folders s))) s dir rep = (s', dir', rep', err)"
    "w' = store_place p dir' w"
    using assms(1) by (auto simp: distribute_folders_def Let_def split: sum.splits prod.splits option.splits)
  then show ?thesis
  proof cases
    case 1
    with assms(3) show ?thesis by simp
  next
    case 2
    have p: "folders_place m = Some p" "open_place (flts E FolderOut (mem_name m) (the (folders_place m))) w p = Inr dir"
      using folders_dir_place [OF 2(1)] by blast+
    have "file_at w' pl n = file_at w pl n" if "folders_place m \<noteq> Some pl"
      using open_store_other [OF p(2), of pl dir'] that p(1) 2(3) by (simp add: file_at_def)
    with give_folders_others [OF 2(2) assms(2,3)] show ?thesis by blast
  qed
qed

lemma sync_give_others:
  "sync_give E apps scans ms s w rep = (s', w', rep') \<Longrightarrow> set ms \<subseteq> set MS \<Longrightarrow> places_apart MS \<Longrightarrow>
     \<forall>a \<in> set apps. well_read a \<and> app_id a \<noteq> x \<Longrightarrow> folder_name_of x = None \<Longrightarrow>
     \<forall>mv \<in> set (handed rep). mv_app mv \<noteq> x \<Longrightarrow>
     (\<forall>m \<in> set MS. file_at w' (apps_place m) (manifest_name x) = file_at w (apps_place m) (manifest_name x))
     \<and> (\<forall>mv \<in> set (handed rep'). mv_app mv \<noteq> x) \<and> (\<forall>seat. status s' seat x = status s seat x)"
proof (induction ms arbitrary: s w rep)
  case (Cons m ms)
  obtain s1 w1 r1 e1 where d: "distribute E m apps s w rep = (s1, w1, r1, e1)" by (metis prod.exhaust)
  note f1 = file_at_distribute [OF d Cons.prems(4) Cons.prems(6)]
  let ?r1 = "trouble (mem_name m) e1 r1"
  have h1: "\<forall>mv \<in> set (handed ?r1). mv_app mv \<noteq> x" using f1 by simp
  have ms: "set ms \<subseteq> set MS" using Cons.prems(2) by simp
  show ?case
  proof (cases "scan_of scans (mem_name m)")
    case None
    then have "sync_give E apps scans ms s1 w1 ?r1 = (s', w', rep')" using Cons.prems(1) d by simp
    from Cons.IH [OF this ms Cons.prems(3-5) h1] f1 show ?thesis by simp
  next
    case (Some fs)
    obtain s2 w2 r2 e2 where f: "distribute_folders E m fs s1 w1 ?r1 = (s2, w2, r2, e2)"
      by (metis prod.exhaust)
    note f2 = file_at_distribute_folders [OF f Cons.prems(5) h1]
    let ?r2 = "trouble (mem_name m) e2 r2"
    have h2: "\<forall>mv \<in> set (handed ?r2). mv_app mv \<noteq> x" using f2 by simp
    have "sync_give E apps scans ms s2 w2 ?r2 = (s', w', rep')" using Cons.prems(1) d Some f by simp
    note rest = Cons.IH [OF this ms Cons.prems(3-5) h2]
    have "folders_place m \<noteq> Some (apps_place m')" if "m' \<in> set MS" for m'
      using Cons.prems(2,3) that by (auto simp: places_apart_def)
    with rest f1 f2 show ?thesis by simp
  qed
qed simp

section \<open>Taken away for good\<close>

text \<open>
  Property C11: a pass keeps the pool in order. Every manifest of the pool stays under the name
  of the title it describes, which is where the pool looks for it, whatever the libraries it
  takes from call their own files and however the pass ends.
\<close>

theorem pool_stays_named:
  assumes "sync E ms p = (p', rep, err)" "pool_named (pool_apps (wd p))"
  shows "pool_named (pool_apps (wd p'))"
  using names.by_pass [OF assms(1)] assms(2) by (simp add: libraries_def)

lemma withheld_pass:
  assumes "sync E ms p = (p', rep, err)" "map_of (withheld (st p)) x \<noteq> None"
    and "pool_named (pool_apps (wd p))" "map_of (entries (pool_apps (wd p))) (manifest_name x) = None"
    and "folder_name_of x = None" "places_apart ms"
  shows "map_of (entries (pool_apps (wd p'))) (manifest_name x) = None
    \<and> map_of (withheld (st p')) x \<noteq> None
    \<and> (\<forall>mv \<in> set (handed rep). mv_app mv \<noteq> x)
    \<and> pool_named (pool_apps (wd p'))
    \<and> (\<forall>m \<in> set ms. member_build (wd p') m x = member_build (wd p) m x)"
proof -
  from sync_steps [OF assms(1)] obtain w1 rep1 ready w2 rep2 s3 w3 rep3 where
    s: "sync_sources E ms (sources (st p)) (st p) (wd p) no_report = (w1, rep1)"
    "sync_ensure E ms w1 rep1 = (ready, w2, rep2)"
    "sync_harvest E ready (st p) w2 rep2 = (s3, w3, rep3)"
    and p': "pool_apps (wd p') = pool_apps w3" "withheld (st p') = withheld s3"
    and fin: "(wd p' = w3 \<and> st p' = s3 \<and> rep = rep3) \<or>
       (\<exists>apps s4 w4 rep4 scans. read_apps_at (flts E Giving [] PoolApps) (pool_apps w3) = Inr apps
        \<and> sync_folders E ready s3 w3 rep3 = (s4, w4, rep4, scans)
        \<and> sync_give E apps scans ready s4 w4 rep4 = (st p', wd p', rep))" by blast
  note f1 = sync_sources_files [OF s(1)] and f2 = sync_ensure_files [OF s(2)] and f3 = sync_harvest_files [OF s(3)]
  have gone: "map_of (entries (pool_apps (wd p'))) (manifest_name x) = None"
    using held.by_pass [OF assms(1)] assms(2,4) by (simp add: libraries_def same_manifests_def)
  have files: "file_at w3 (apps_place m) n = file_at (wd p) (apps_place m) n" for m n
    using f1 f2 f3 by simp
  have none: "handed rep3 = []" using f1 f2 f3 by (simp add: no_report_def)
  have held: "map_of (withheld (st p')) x \<noteq> None" using f3 p'(2) assms(2) by simp
  have named: "pool_named (pool_apps w3)"
    using names.by_pass [OF assms(1)] assms(3) p'(1) by (simp add: libraries_def)
  from fin show ?thesis
  proof
    assume "wd p' = w3 \<and> st p' = s3 \<and> rep = rep3"
    with gone held files none named p'(1) show ?thesis by (simp add: member_build_file)
  next
    assume "\<exists>apps s4 w4 rep4 scans. read_apps_at (flts E Giving [] PoolApps) (pool_apps w3) = Inr apps
        \<and> sync_folders E ready s3 w3 rep3 = (s4, w4, rep4, scans)
        \<and> sync_give E apps scans ready s4 w4 rep4 = (st p', wd p', rep)"
    then obtain apps s4 w4 rep4 scans where r: "read_apps_at (flts E Giving [] PoolApps) (pool_apps w3) = Inr apps"
      and sf: "sync_folders E ready s3 w3 rep3 = (s4, w4, rep4, scans)"
      and sg: "sync_give E apps scans ready s4 w4 rep4 = (st p', wd p', rep)" by blast
    have other: "well_read a \<and> app_id a \<noteq> x" if a: "a \<in> set apps" for a
    proof -
      obtain n where n: "well_read a" "manifest_shape n" "read_app_at (flts E Giving [] PoolApps [n]) (pool_apps w3) n = Inr a"
        using read_apps_at_read [OF r a] by blast
      then have "n = manifest_name (app_id a)" using named unfolding pool_named_def by blast
      with n gone p'(1) read_app_at_Inr [OF n(3)] show ?thesis by auto
    qed
    note f4 = sync_folders_files [OF sf]
    have h: "\<forall>mv \<in> set (handed rep4). mv_app mv \<noteq> x" using f4 none by simp
    have ready: "set ready \<subseteq> set ms" using f2 by simp
    from sync_give_others [OF sg ready assms(6) _ assms(5) h] other f4 files gone held named p'(1)
    show ?thesis by (auto simp: member_build_file)
  qed
qed

text \<open>Passes one after another, each under its own circumstances.\<close>

fun passes :: "env list \<Rightarrow> member list \<Rightarrow> pool \<Rightarrow> pool" where
  "passes [] ms p = p"
| "passes (E # Es) ms p = passes Es ms (fst (sync E ms p))"

lemma withheld_passes:
  assumes "map_of (withheld (st p)) x \<noteq> None" "pool_named (pool_apps (wd p))"
    and "map_of (entries (pool_apps (wd p))) (manifest_name x) = None"
    and "folder_name_of x = None" "places_apart ms"
  shows "map_of (entries (pool_apps (wd (passes Es ms p)))) (manifest_name x) = None
    \<and> map_of (withheld (st (passes Es ms p))) x \<noteq> None
    \<and> (\<forall>m \<in> set ms. member_build (wd (passes Es ms p)) m x = member_build (wd p) m x)"
  using assms(1-3)
proof (induction Es arbitrary: p)
  case (Cons E Es)
  obtain p1 rep err where s: "sync E ms p = (p1, rep, err)" by (metis prod.exhaust)
  note one = withheld_pass [OF s Cons.prems assms(4,5)]
  with Cons.IH [of p1] s show ?case by simp
qed simp

text \<open>
  Property C7: a title that was taken away everywhere does not come back by itself. While it is
  withheld and the pool has no copy, no number of passes takes it in again, from whatever
  library still or again has it; nobody is handed it, and what each member has of it is what it
  had; and it stays withheld until somebody lets it back in.
\<close>

theorem withheld_titles_stay_away:
  assumes "map_of (withheld (st p)) x \<noteq> None" "pool_named (pool_apps (wd p))"
    and "map_of (entries (pool_apps (wd p))) (manifest_name x) = None"
    and "folder_name_of x = None" "places_apart ms"
  shows "map_of (entries (pool_apps (wd (passes Es ms p)))) (manifest_name x) = None
    \<and> map_of (withheld (st (passes Es ms p))) x \<noteq> None
    \<and> (\<forall>m \<in> set ms. member_build (wd (passes Es ms p)) m x = member_build (wd p) m x)
    \<and> (\<forall>mv \<in> set (handed (fst (snd (sync E ms (passes Es ms p))))). mv_app mv \<noteq> x)"
proof -
  note all = withheld_passes [OF assms]
  have named: "pool_named (pool_apps (wd (passes Es ms p)))"
    using assms(2)
  proof (induction Es arbitrary: p)
    case (Cons E Es)
    obtain p1 rep err where s: "sync E ms p = (p1, rep, err)" by (metis prod.exhaust)
    have "pool_named (pool_apps (wd p1))"
      using names.by_pass [OF s] Cons.prems by (simp add: libraries_def)
    with Cons.IH s show ?case by simp
  qed simp
  obtain p1 rep err where "sync E ms (passes Es ms p) = (p1, rep, err)" by (metis prod.exhaust)
  with withheld_pass [OF this _ named _ assms(4,5)] all show ?thesis by simp
qed


text \<open>
  Property C10: a member that is using a title keeps it. Where any member that may not be
  touched has the title, uninstalling it ends with an error and has done nothing: no library,
  no mark and no file of the pool is different.
\<close>

theorem uninstall_spares_busy_members:
  assumes "m \<in> set ms" "\<not> updatable m" "holding_of E (folder_name_of x) x m (wd p) = Inr h" "h \<noteq> Lacks"
  shows "\<exists>e. uninstall E x ms p = (p, [], Some e)"
  using assms by (rule uninstall_busy)

section \<open>Declined\<close>

text \<open>
  Property C9: what somebody removed is not given back. A title a member declined stays declined
  through every pass, for every member and title; and a member that lacks such a title still
  lacks it after a pass, whatever the pool has and whoever else is given it.
\<close>

theorem declined_titles_are_not_given:
  assumes "sync E ms p = (p', rep, err)" "m \<in> set ms"
    and "status (st p) (mem_name m) x = status_declined" "lacks_title (wd p) m x"
    and "\<forall>q op. \<not> flts E Giving (mem_name m) (apps_place m) q op"
    and "places_apart ms" "\<forall>m' \<in> set ms. m' = m \<or> apps_place m' \<noteq> apps_place m"
  shows "keeps_declined (st p') (st p) \<and> lacks_title (wd p') m x"
proof -
  from sync_steps [OF assms(1)] obtain w1 rep1 ready w2 rep2 s3 w3 rep3 where
    s: "sync_sources E ms (sources (st p)) (st p) (wd p) no_report = (w1, rep1)"
    "sync_ensure E ms w1 rep1 = (ready, w2, rep2)"
    "sync_harvest E ready (st p) w2 rep2 = (s3, w3, rep3)"
    and fin: "(wd p' = w3 \<and> st p' = s3 \<and> rep = rep3) \<or>
       (\<exists>apps s4 w4 rep4 scans. read_apps_at (flts E Giving [] PoolApps) (pool_apps w3) = Inr apps
        \<and> sync_folders E ready s3 w3 rep3 = (s4, w4, rep4, scans)
        \<and> sync_give E apps scans ready s4 w4 rep4 = (st p', wd p', rep))" by blast
  note f1 = sync_sources_files [OF s(1)] and f2 = sync_ensure_files [OF s(2)] and f3 = sync_harvest_files [OF s(3)]
  have l3: "lacks_title w3 m x"
    by (rule lacks_title_files [OF assms(4)]) (use f1 f2 f3 in simp)
  from fin have "lacks_title (wd p') m x"
  proof
    assume "\<exists>apps s4 w4 rep4 scans. read_apps_at (flts E Giving [] PoolApps) (pool_apps w3) = Inr apps
        \<and> sync_folders E ready s3 w3 rep3 = (s4, w4, rep4, scans)
        \<and> sync_give E apps scans ready s4 w4 rep4 = (st p', wd p', rep)"
    then obtain apps s4 w4 rep4 scans where r: "read_apps_at (flts E Giving [] PoolApps) (pool_apps w3) = Inr apps"
      and sf: "sync_folders E ready s3 w3 rep3 = (s4, w4, rep4, scans)"
      and sg: "sync_give E apps scans ready s4 w4 rep4 = (st p', wd p', rep)" by blast
    have wr: "\<forall>a \<in> set apps. well_read a" using read_apps_at_read [OF r] by blast
    have l4: "lacks_title w4 m x"
      by (rule lacks_title_files [OF l3]) (use sync_folders_files [OF sf] in simp)
    have st4: "status s4 (mem_name m) x = status_declined"
      using declined.by_sync_harvest [OF s(3)] declined.by_sync_folders [OF sf] assms(3) by (simp add: keeps_declined_def)
    have ms: "\<forall>m' \<in> set ready. (m' = m \<or> apps_place m' \<noteq> apps_place m) \<and> folders_place m' \<noteq> Some (apps_place m)"
      using f2 assms(2,6,7) by (auto simp: places_apart_def)
    from sync_give_refused [OF sg wr assms(5) st4 l4 ms] show ?thesis .
  qed (use l3 in simp)
  with declined.by_whole_pass [OF assms(1)] show ?thesis by blast
qed

section \<open>Only forward\<close>


section \<open>The samples\<close>

theorem pool_stays_named_witness:
  "pool_named (pool_apps (wd (fst (sync sample_env [sample_one] sample_pool))))"
proof -
  obtain p' rep err where s: "sync sample_env [sample_one] sample_pool = (p', rep, err)" by (metis prod.exhaust)
  have "pool_apps (wd sample_pool) = sample_pool_apps" by (simp add: sample_pool_def sample_world_def)
  with pool_stays_named [OF s] sample_named s show ?thesis by simp
qed

theorem withheld_titles_stay_away_witness:
  "map_of (entries (pool_apps (wd (passes [sample_env, sample_env] [sample_one]
     \<lparr>st = no_state\<lparr>withheld := [(''7'', ''Game'')], sources := [''/games'']\<rparr>, saved = None,
      wd = sample_world\<lparr>outside := (\<lambda>_. Some sample_pool_apps), pool_apps := sample_lib\<rparr>\<rparr>)))) (manifest_name ''7'') = None"
proof -
  have "folder_name_of ''7'' = None" by code_simp
  with withheld_titles_stay_away [of "\<lparr>st = no_state\<lparr>withheld := [(''7'', ''Game'')], sources := [''/games'']\<rparr>, saved = None,
      wd = sample_world\<lparr>outside := (\<lambda>_. Some sample_pool_apps), pool_apps := sample_lib\<rparr>\<rparr>" "''7''" "[sample_one]"
      "[sample_env, sample_env]"] sample_apart sample_lib_named
  show ?thesis by (simp add: sample_lib_def del: passes.simps)
qed


theorem uninstall_spares_busy_members_witness:
  "\<exists>e. uninstall sample_env ''7'' [busy_one] busy_pool = (busy_pool, [], Some e)"
proof -
  have n: "folder_name_of ''7'' = None" by code_simp
  show ?thesis
    by (rule uninstall_spares_busy_members [of busy_one _ sample_env "''7''" busy_pool "HasApp sample_app"])
      (simp_all add: n busy_holds, simp add: busy_one_def)
qed

theorem declined_titles_are_not_given_witness:
  "lacks_title (wd (fst (sync sample_env [sample_one]
     (sample_pool\<lparr>st := mark ''s1'' ''7'' status_declined no_state\<rparr>)))) sample_one ''7''"
proof -
  let ?p = "sample_pool\<lparr>st := mark ''s1'' ''7'' status_declined no_state\<rparr>"
  obtain p' rep err where s: "sync sample_env [sample_one] ?p = (p', rep, err)" by (metis prod.exhaust)
  have "status (st ?p) (mem_name sample_one) ''7'' = status_declined"
    by (simp add: status_mark sample_one_def status_declined_def status_delivered_def)
  moreover have "lacks_title (wd ?p) sample_one ''7''"
    using sample_place sample_lib_named sample_lib_lacks by (simp add: lacks_title_def sample_pool_def del: open_place.simps)
  ultimately show ?thesis
    using declined_titles_are_not_given [OF s, of sample_one "''7''"] sample_apart s
    by (simp add: sample_env_calm)
qed


end
