(* ===== verification/Seat.thy ===== *)
theory Seat
  imports Complex_Main NetIP Filepath "HOL-Library.List_Lexorder" "HOL-Library.Char_ord"
begin

text \<open>
  The record of a seat, what may be saved as one, and the store that keeps the records on
  disk, one file per seat (internal/seat/seat.go); with it the network file the accepted
  address is written into (internal/seat/provision.go).

  A float64 is the rational it stands for; \<open>json.Marshal\<close> and \<open>Unmarshal\<close> read back what they
  wrote, so a file holds a record or something that is none.
\<close>

record seat =
  seat_name :: string
  label :: string
  autostart :: bool
  resolution :: string
  address :: string
  gateway :: string
  library_on :: bool
  isolated :: bool
  no_ge_proton :: bool
  pointer_speed :: rat
  player_uid :: int
  provisioned :: int
  schema :: int
  created_at :: int

definition record_schema :: int where "record_schema = 1"

text \<open>The float64 nearest to 0.10, and 1.50.\<close>

definition min_pointer_speed :: rat where "min_pointer_speed = 3602879701896397 / 2 ^ 55"
definition max_pointer_speed :: rat where "max_pointer_speed = 3 / 2"

definition host_member :: string where "host_member = ''host''"

section \<open>What may be saved\<close>

definition is_lower :: "char \<Rightarrow> bool" where
  "is_lower c \<longleftrightarrow> 97 \<le> (of_char c :: nat) \<and> (of_char c :: nat) \<le> 122"

definition name_char :: "char \<Rightarrow> bool" where
  "name_char c \<longleftrightarrow> is_lower c \<or> is_digit c \<or> c = CHR ''-''"

text \<open>\<open>nameRE\<close>: \<^verbatim>\<open>^[a-z][a-z0-9-]{1,30}[a-z0-9]$\<close>.\<close>

definition name_matches :: "string \<Rightarrow> bool" where
  "name_matches s \<longleftrightarrow>
     3 \<le> length s \<and> length s \<le> 32 \<and> is_lower (hd s) \<and> list_all name_char (butlast (tl s))
     \<and> (is_lower (last s) \<or> is_digit (last s))"

text \<open>\<open>resolutionRE\<close>: \<^verbatim>\<open>^[0-9]{3,5}x[0-9]{3,5}@[0-9]{2,3}Hz$\<close>; no digit can stand
  right after a run of them, so each run is as long as it can be.\<close>

definition digits_of :: "nat \<Rightarrow> nat \<Rightarrow> string \<Rightarrow> string option" where
  "digits_of lo hi s =
     (let n = length (takeWhile is_digit s)
      in if lo \<le> n \<and> n \<le> hi then Some (dropWhile is_digit s) else None)"

definition resolution_matches :: "string \<Rightarrow> bool" where
  "resolution_matches s =
     (case digits_of 3 5 s of None \<Rightarrow> False | Some r1 \<Rightarrow>
      case cut_prefix r1 ''x'' of None \<Rightarrow> False | Some r2 \<Rightarrow>
      case digits_of 3 5 r2 of None \<Rightarrow> False | Some r3 \<Rightarrow>
      case cut_prefix r3 ''@'' of None \<Rightarrow> False | Some r4 \<Rightarrow>
      case digits_of 2 3 r4 of None \<Rightarrow> False | Some r5 \<Rightarrow> r5 = ''Hz'')"

datatype seat_error =
  NameShape | PhysicalSeat | HostsName | ResolutionShape | PointerRange
| GatewayAlone | NoPrefixLength | NotAPrefix | NoGateway | NotAGateway | MixedKinds

definition validate_name :: "string \<Rightarrow> seat_error option" where
  "validate_name name =
     (if \<not> name_matches name then Some NameShape
      else if name = ''seat0'' then Some PhysicalSeat
      else if name = host_member then Some HostsName
      else None)"

definition validate_static :: "string \<Rightarrow> string \<Rightarrow> seat_error option" where
  "validate_static addr gw =
     (if addr = [] then (if gw \<noteq> [] then Some GatewayAlone else None)
      else if \<not> contains addr ''/'' then Some NoPrefixLength
      else case parse_prefix addr of
        None \<Rightarrow> Some NotAPrefix
      | Some (ip, _) \<Rightarrow>
          if gw = [] then Some NoGateway
          else case parse_addr gw of
            None \<Rightarrow> Some NotAGateway
          | Some g \<Rightarrow>
              if zone_of g \<noteq> [] then Some NotAGateway
              else if is4 g \<noteq> is4 ip then Some MixedKinds
              else None)"

definition validate :: "seat \<Rightarrow> seat_error option" where
  "validate s =
     (case validate_name (seat_name s) of
        Some e \<Rightarrow> Some e
      | None \<Rightarrow>
          if \<not> resolution_matches (resolution s) then Some ResolutionShape
          else if pointer_speed s \<noteq> 0
               \<and> (pointer_speed s < min_pointer_speed \<or> max_pointer_speed < pointer_speed s)
          then Some PointerRange
          else validate_static (address s) (gateway s))"

text \<open>The file systemd-networkd is given for \<open>eth1\<close>; \<open>\<n>\<close> is a line feed.\<close>

definition nl :: string where "nl = [CHR 0x0A]"

definition network_file :: "seat \<Rightarrow> string" where
  "network_file s =
     (if address s \<noteq> []
      then ''[Match]'' @ nl @ ''Name=eth1'' @ nl @ nl @ ''[Network]'' @ nl @ ''Address=''
           @ address s @ nl @ nl @ ''[Route]'' @ nl @ ''Gateway='' @ gateway s @ nl
           @ ''Metric='' @ dec_nat 100 @ nl
      else ''[Match]'' @ nl @ ''Name=eth1'' @ nl @ nl @ ''[Network]'' @ nl @ ''DHCP=yes'' @ nl
           @ nl @ ''[DHCPv4]'' @ nl @ ''RouteMetric='' @ dec_nat 100 @ nl)"

section \<open>The store\<close>

text \<open>
  The file system by clean absolute path, as far as the store's directory is concerned:
  directories and regular files. The directory is the daemon's own (mode 0700), so no link
  stands in it.
\<close>

datatype seat_file = Holds seat | Garbage
datatype fs_entry = Directory | Regular seat_file
type_synonym disk_files = "(string \<times> fs_entry) list"

text \<open>The calls the machine may refuse, whatever stands on the disk.\<close>

datatype store_call =
  MakeDir string | ReadDirCall | ReadRecord string | MarshalRecord | OpenTmp | WriteTmp | RenameTmp
| RemoveRecord

type_synonym store_faults = "store_call \<Rightarrow> bool"

datatype store_error =
  BadSeatName | Failed store_call | NotThere | WrongKind | NotARecord string
| NewerRecord string int

text \<open>\<open>os.MkdirAll\<close>: every missing directory on the way; a file in the way is an error.\<close>

fun mkdir_all ::
  "store_faults \<Rightarrow> string \<Rightarrow> string list \<Rightarrow> disk_files \<Rightarrow> disk_files \<times> store_error option" where
  "mkdir_all flt up [] fs = (fs, None)"
| "mkdir_all flt up (c # cs) fs =
     (let p = up @ ''/'' @ c
      in case map_of fs p of
           Some (Regular _) \<Rightarrow> (fs, Some WrongKind)
         | Some Directory \<Rightarrow> mkdir_all flt p cs fs
         | None \<Rightarrow>
             if flt (MakeDir p) then (fs, Some (Failed (MakeDir p)))
             else mkdir_all flt p cs (AList.update p Directory fs))"

definition open_seats ::
  "store_faults \<Rightarrow> string \<Rightarrow> disk_files \<Rightarrow> disk_files \<times> (store_error + string)" where
  "open_seats flt state_dir fs =
     (let dir = path_join [state_dir, ''seats'']
      in case mkdir_all flt [] (path_parts dir) fs of
           (fs', Some e) \<Rightarrow> (fs', Inl e)
         | (fs', None) \<Rightarrow> (fs', Inr dir))"

definition check_name :: "string \<Rightarrow> store_error option" where
  "check_name name = (if \<not> name_matches name then Some BadSeatName else None)"

definition record_path :: "string \<Rightarrow> string \<Rightarrow> store_error + string" where
  "record_path dir name =
     (case check_name name of
        Some e \<Rightarrow> Inl e
      | None \<Rightarrow> Inr (path_join [dir, name @ ''.json'']))"

definition load_seat :: "store_faults \<Rightarrow> disk_files \<Rightarrow> string \<Rightarrow> store_error + seat" where
  "load_seat flt fs p =
     (if flt (ReadRecord p) then Inl (Failed (ReadRecord p))
      else case map_of fs p of
        None \<Rightarrow> Inl NotThere
      | Some Directory \<Rightarrow> Inl WrongKind
      | Some (Regular Garbage) \<Rightarrow> Inl (NotARecord p)
      | Some (Regular (Holds s)) \<Rightarrow>
          if record_schema < schema s then Inl (NewerRecord p (schema s)) else Inr s)"

definition get_seat :: "store_faults \<Rightarrow> string \<Rightarrow> disk_files \<Rightarrow> string \<Rightarrow> store_error + seat" where
  "get_seat flt dir fs name =
     (case record_path dir name of Inl e \<Rightarrow> Inl e | Inr p \<Rightarrow> load_seat flt fs p)"

text \<open>\<open>os.ReadDir\<close>: the names right below the directory, sorted.\<close>

definition name_below :: "string \<Rightarrow> string \<Rightarrow> string option" where
  "name_below dir p =
     (case cut_prefix p (dir @ ''/'') of
        None \<Rightarrow> None
      | Some n \<Rightarrow> if n = [] \<or> CHR ''/'' \<in> set n then None else Some n)"

definition read_dir :: "string \<Rightarrow> disk_files \<Rightarrow> string list" where
  "read_dir dir fs = sort (remdups (List.map_filter (\<lambda>(p, _). name_below dir p) fs))"

fun load_seats :: "store_faults \<Rightarrow> string \<Rightarrow> disk_files \<Rightarrow> string list \<Rightarrow> store_error + seat list" where
  "load_seats flt dir fs [] = Inr []"
| "load_seats flt dir fs (n # ns) =
     (if map_of fs (dir @ ''/'' @ n) = Some Directory \<or> \<not> has_suffix n ''.json''
      then load_seats flt dir fs ns
      else case load_seat flt fs (path_join [dir, n]) of
        Inl e \<Rightarrow> Inl e
      | Inr s \<Rightarrow> and_then (load_seats flt dir fs ns) (\<lambda>ss. Inr (s # ss)))"

definition list_seats :: "store_faults \<Rightarrow> string \<Rightarrow> disk_files \<Rightarrow> store_error + seat list" where
  "list_seats flt dir fs =
     (if flt ReadDirCall then Inl (Failed ReadDirCall)
      else and_then (load_seats flt dir fs (read_dir dir fs)) (\<lambda>ss. Inr (sort_key seat_name ss)))"

text \<open>
  \<open>Put\<close>: \<open>os.WriteFile\<close> leaves an unfinished file where it fails half way, and the rename
  puts a finished one over the record in one step.
\<close>

definition put_seat ::
  "store_faults \<Rightarrow> string \<Rightarrow> seat \<Rightarrow> disk_files \<Rightarrow> disk_files \<times> store_error option" where
  "put_seat flt dir seat fs =
     (let s = seat\<lparr>schema := record_schema\<rparr>
      in if flt MarshalRecord then (fs, Some (Failed MarshalRecord))
         else case record_path dir (seat_name s) of
           Inl e \<Rightarrow> (fs, Some e)
         | Inr p \<Rightarrow>
             let tmp = p @ ''.tmp''
             in if map_of fs tmp = Some Directory then (fs, Some WrongKind)
                else if flt OpenTmp then (fs, Some (Failed OpenTmp))
                else if flt WriteTmp
                then (AList.update tmp (Regular Garbage) fs, Some (Failed WriteTmp))
                else
                  let fs1 = AList.update tmp (Regular (Holds s)) fs
                  in if map_of fs p = Some Directory then (fs1, Some WrongKind)
                     else if flt RenameTmp then (fs1, Some (Failed RenameTmp))
                     else (AList.update p (Regular (Holds s)) (AList.delete tmp fs1), None))"

text \<open>\<open>os.Remove\<close> also removes a directory, when nothing is in it.\<close>

definition occupied :: "disk_files \<Rightarrow> string \<Rightarrow> bool" where
  "occupied fs p = list_ex (\<lambda>(q, _). has_prefix q (p @ ''/'')) fs"

definition delete_seat ::
  "store_faults \<Rightarrow> string \<Rightarrow> string \<Rightarrow> disk_files \<Rightarrow> disk_files \<times> store_error option" where
  "delete_seat flt dir name fs =
     (case record_path dir name of
        Inl e \<Rightarrow> (fs, Some e)
      | Inr p \<Rightarrow>
          if map_of fs p = None then (fs, None)
          else if flt RemoveRecord then (fs, Some (Failed RemoveRecord))
          else if map_of fs p = Some Directory \<and> occupied fs p then (fs, Some WrongKind)
          else (AList.delete p fs, None))"

section \<open>Names and paths\<close>

lemma name_char_plain [simp]:
  "\<not> name_char CHR ''.''" "\<not> name_char CHR ''/''"
  by (simp_all add: name_char_def is_lower_def)

lemma name_matches_chars:
  assumes "name_matches n"
  shows "list_all name_char n"
proof -
  obtain c cs where n: "n = c # cs" using assms by (cases n) (auto simp: name_matches_def)
  moreover obtain ys l where "cs = ys @ [l]"
    using assms n by (cases cs rule: rev_cases) (auto simp: name_matches_def)
  ultimately show ?thesis using assms by (auto simp: name_matches_def name_char_def)
qed

lemma name_matches_plain:
  assumes "name_matches n"
  shows "n \<noteq> []" "CHR ''.'' \<notin> set n" "CHR ''/'' \<notin> set n"
  using name_matches_chars [OF assms] assms name_char_plain
  by (auto simp: name_matches_def list_all_iff)

definition record_at :: "string \<Rightarrow> string \<Rightarrow> string" where
  "record_at dir n = dir @ ''/'' @ n @ ''.json''"

lemma record_component:
  assumes "name_matches n" "p = record_at dir n \<or> p = record_at dir n @ ''.tmp''"
  shows "\<exists>c. component_name c \<and> p = dir @ ''/'' @ c"
proof -
  have "component_name (n @ ''.json'')" "component_name (n @ ''.json.tmp'')"
    using name_matches_plain [OF assms(1)]
    by (cases n; auto simp: component_name_def)+
  with assms(2) show ?thesis by (auto simp: record_at_def)
qed

lemma record_path_eq:
  assumes "clean_dir dir"
  shows "record_path dir n = (if name_matches n then Inr (record_at dir n) else Inl BadSeatName)"
proof -
  have "component_name (n @ ''.json'')" if "name_matches n"
    using name_matches_plain [OF that] by (auto simp: component_name_def append_eq_Cons_conv)
  then show ?thesis
    using path_join_below [OF assms] by (simp add: record_path_def check_name_def record_at_def)
qed

lemma record_at_eq_iff [simp]: "record_at dir n = record_at dir m \<longleftrightarrow> n = m"
  by (simp add: record_at_def)

lemma record_at_tmp [simp]:
  "record_at dir n \<noteq> record_at dir m @ ''.tmp''" "record_at dir m @ ''.tmp'' \<noteq> record_at dir n"
proof -
  have "last (record_at dir n) \<noteq> last (record_at dir m @ ''.tmp'')" by (simp add: record_at_def)
  then show "record_at dir n \<noteq> record_at dir m @ ''.tmp''" "record_at dir m @ ''.tmp'' \<noteq> record_at dir n"
    by metis+
qed

section \<open>What may be saved cannot say more than an address\<close>

lemma validate_static_chars:
  assumes "validate_static addr gw = None" "addr \<noteq> []"
  shows "list_all (\<lambda>c. addr_char c \<or> c = CHR ''/'') addr" "list_all addr_char gw" "gw \<noteq> []"
  using assms
  by (auto simp: validate_static_def split: if_splits option.splits
      intro: parse_prefix_chars parse_addr_chars)

lemma addr_char_no_lf: "\<not> addr_char CHR 0x0A"
  by (simp add: addr_char_def hex_val_def digit_val_def Let_def)

lemma addr_lines:
  "list_all (\<lambda>c. addr_char c \<or> c = CHR ''/'') w \<Longrightarrow> CHR 0x0A \<notin> set w"
  "list_all addr_char w \<Longrightarrow> CHR 0x0A \<notin> set w"
  using addr_char_no_lf by (auto simp: list_all_iff)

lemma validate_static_lines:
  "validate s = None \<Longrightarrow> address s \<noteq> [] \<Longrightarrow> CHR 0x0A \<notin> set (address s) \<and> CHR 0x0A \<notin> set (gateway s)"
  by (auto simp: validate_def split: option.splits if_splits dest: validate_static_chars addr_lines)

text \<open>
  Property C15: a static address that was accepted is one line of \<open>50-eth1.network\<close>, and so
  is its gateway: the file has the nine lines of the template and no directive the person
  who saved the seat put_seat there. Without an address the file says nothing of what was saved.
\<close>

theorem static_address_is_one_line:
  assumes "validate s = None"
  shows "split_on CHR 0x0A (network_file s) =
    (if address s = []
     then [''[Match]'', ''Name=eth1'', [], ''[Network]'', ''DHCP=yes'', [], ''[DHCPv4]'',
           ''RouteMetric=100'', []]
     else [''[Match]'', ''Name=eth1'', [], ''[Network]'', ''Address='' @ address s, [],
           ''[Route]'', ''Gateway='' @ gateway s, ''Metric=100'', []])"
proof -
  have n: "dec_nat 100 = ''100''" by (simp add: dec_nat.simps digit_chars)
  show ?thesis
  proof (cases "address s = []")
    case True
    then show ?thesis by (simp add: network_file_def nl_def n)
  next
    case False
    with validate_static_lines [OF assms] show ?thesis
      by (simp add: network_file_def nl_def n split_on_append)
  qed
qed

section \<open>What the store promises\<close>

text \<open>The records the store answers with, by name.\<close>

definition records :: "string \<Rightarrow> disk_files \<Rightarrow> string \<Rightarrow> seat option" where
  "records dir fs n = (case get_seat (\<lambda>_. False) dir fs n of Inl _ \<Rightarrow> None | Inr s \<Rightarrow> Some s)"

text \<open>Every file that is named like a record is the record of that name, and one this build reads.\<close>

definition is_record :: "string \<Rightarrow> string \<Rightarrow> seat_file \<Rightarrow> bool" where
  "is_record dir p c \<longleftrightarrow>
     (case name_below dir p of
        None \<Rightarrow> True
      | Some n \<Rightarrow> has_suffix n ''.json'' \<longrightarrow>
          (\<exists>s. c = Holds s \<and> n = seat_name s @ ''.json'' \<and> name_matches (seat_name s)
               \<and> schema s \<le> record_schema))"

definition kept_records :: "string \<Rightarrow> disk_files \<Rightarrow> bool" where
  "kept_records dir fs \<longleftrightarrow> (\<forall>p c. map_of fs p = Some (Regular c) \<longrightarrow> is_record dir p c)"

datatype store_op = PutOp store_faults seat | DeleteOp store_faults string

definition store_step :: "string \<Rightarrow> store_op \<Rightarrow> disk_files \<Rightarrow> disk_files \<times> store_error option" where
  "store_step dir opn fs =
     (case opn of PutOp flt s \<Rightarrow> put_seat flt dir s fs | DeleteOp flt n \<Rightarrow> delete_seat flt dir n fs)"

text \<open>What an operation that succeeds means for the records.\<close>

definition store_effect :: "store_op \<Rightarrow> (string \<Rightarrow> seat option) \<Rightarrow> string \<Rightarrow> seat option" where
  "store_effect opn m =
     (case opn of
        PutOp flt s \<Rightarrow> m(seat_name s \<mapsto> s\<lparr>schema := 1\<rparr>)
      | DeleteOp flt n \<Rightarrow> m(n := None))"

text \<open>A sequence of operations, each of which may fail, and the specification of one.\<close>

fun run_ops :: "('op \<Rightarrow> 'd \<Rightarrow> 'd \<times> 'e option) \<Rightarrow> 'op list \<Rightarrow> 'd \<Rightarrow> 'd \<times> 'e option list" where
  "run_ops step [] d = (d, [])"
| "run_ops step (opn # ops) d =
     (case step opn d of (d1, r) \<Rightarrow> case run_ops step ops d1 of (d2, rs) \<Rightarrow> (d2, r # rs))"

fun spec_ops :: "('op \<Rightarrow> 'm \<Rightarrow> 'm) \<Rightarrow> ('op \<times> 'e option) list \<Rightarrow> 'm \<Rightarrow> 'm" where
  "spec_ops effect [] m = m"
| "spec_ops effect ((opn, None) # rs) m = spec_ops effect rs (effect opn m)"
| "spec_ops effect ((opn, Some e) # rs) m = spec_ops effect rs m"

locale record_store =
  fixes step :: "'op \<Rightarrow> 'd \<Rightarrow> 'd \<times> 'e option"
    and effect :: "'op \<Rightarrow> 'm \<Rightarrow> 'm"
    and contents :: "'d \<Rightarrow> 'm"
    and good :: "'d \<Rightarrow> bool"
  assumes step_good: "good d \<Longrightarrow> step opn d = (d', r) \<Longrightarrow> good d'"
    and step_done: "good d \<Longrightarrow> step opn d = (d', None) \<Longrightarrow> contents d' = effect opn (contents d)"
    and step_refused: "good d \<Longrightarrow> step opn d = (d', Some e) \<Longrightarrow> contents d' = contents d"
begin

lemma run_refines:
  "good d \<Longrightarrow> run_ops step ops d = (d', rs) \<Longrightarrow>
     good d' \<and> contents d' = spec_ops effect (zip ops rs) (contents d)"
proof (induction ops arbitrary: d rs)
  case (Cons opn ops)
  obtain d1 r rs1 where s: "step opn d = (d1, r)" "run_ops step ops d1 = (d', rs1)" "rs = r # rs1"
    using Cons.prems(2) by (auto split: prod.splits)
  with Cons have "good d'" "contents d' = spec_ops effect (zip ops rs1) (contents d1)"
    using step_good by blast+
  with s show ?case
    using step_done [OF Cons.prems(1)] step_refused [OF Cons.prems(1)] by (cases r) simp_all
qed simp

end

lemma get_eq:
  "clean_dir dir \<Longrightarrow> get_seat flt dir fs n =
     (if name_matches n then load_seat flt fs (record_at dir n) else Inl BadSeatName)"
  by (simp add: get_seat_def record_path_eq)

lemma records_eq:
  "clean_dir dir \<Longrightarrow> records dir fs n =
     (if name_matches n
      then (case map_of fs (record_at dir n) of
              Some (Regular (Holds s)) \<Rightarrow> if schema s \<le> record_schema then Some s else None
            | _ \<Rightarrow> None)
      else None)"
  by (auto simp: records_def get_eq load_seat_def split: option.split fs_entry.split seat_file.split)

lemma put_refused:
  assumes "clean_dir dir" "put_seat flt dir s fs = (fs', Some e)"
  shows "fs' = fs \<or> (name_matches (seat_name s)
    \<and> (\<exists>c. fs' = AList.update (record_at dir (seat_name s) @ ''.tmp'') (Regular c) fs))"
  using assms by (auto simp: put_seat_def Let_def record_path_eq split: if_splits)

lemma put_done:
  assumes "clean_dir dir" "put_seat flt dir s fs = (fs', None)"
  shows "name_matches (seat_name s)"
    "map_of fs' q =
       (if q = record_at dir (seat_name s) then Some (Regular (Holds (s\<lparr>schema := record_schema\<rparr>)))
        else if q = record_at dir (seat_name s) @ ''.tmp'' then None else map_of fs q)"
  using assms
  by (auto simp: put_seat_def Let_def record_path_eq update_conv' delete_conv' split: if_splits)

lemma delete_refused: "delete_seat flt dir n fs = (fs', Some e) \<Longrightarrow> fs' = fs"
  by (auto simp: delete_seat_def split: if_splits sum.splits)

lemma delete_done:
  assumes "clean_dir dir" "delete_seat flt dir n fs = (fs', None)"
  shows "name_matches n"
    "map_of fs' q = (if q = record_at dir n then None else map_of fs q)"
  using assms by (auto simp: delete_seat_def record_path_eq delete_conv' split: if_splits)

lemma name_below_iff:
  "name_below dir p = Some n \<longleftrightarrow> p = dir @ ''/'' @ n \<and> n \<noteq> [] \<and> CHR ''/'' \<notin> set n"
  by (auto simp: name_below_def cut_prefix_def has_prefix_iff)

lemma kept_keep:
  assumes "kept_records dir fs"
    and "\<And>p c. map_of fs' p = Some (Regular c) \<Longrightarrow> map_of fs p = Some (Regular c)
      \<or> (\<exists>n. p = record_at dir n @ ''.tmp'')
      \<or> (\<exists>s. p = record_at dir (seat_name s) \<and> c = Holds s \<and> name_matches (seat_name s)
             \<and> schema s \<le> record_schema)"
  shows "kept_records dir fs'"
  unfolding kept_records_def
proof (intro allI impI)
  fix p c assume "map_of fs' p = Some (Regular c)"
  from assms(2) [OF this] consider "map_of fs p = Some (Regular c)"
    | n where "p = record_at dir n @ ''.tmp''"
    | s where "p = record_at dir (seat_name s)" "c = Holds s" "name_matches (seat_name s)"
        "schema s \<le> record_schema"
    by blast
  then show "is_record dir p c"
    by cases (use assms(1) in
      \<open>auto simp: kept_records_def is_record_def name_below_iff record_at_def has_suffix_def split: option.split\<close>)
qed

lemma kept_step:
  assumes "clean_dir dir" "kept_records dir fs" "store_step dir opn fs = (fs', r)"
  shows "kept_records dir fs'"
proof (cases opn)
  case (PutOp flt s)
  show ?thesis
  proof (cases r)
    case None
    with PutOp assms(3) have "put_seat flt dir s fs = (fs', None)" by (simp add: store_step_def)
    from put_done [OF assms(1) this] show ?thesis
      by (intro kept_keep [OF assms(2)]) (auto split: if_splits)
  next
    case (Some e)
    with PutOp assms(3) have "put_seat flt dir s fs = (fs', Some e)" by (simp add: store_step_def)
    from put_refused [OF assms(1) this] show ?thesis
      by (intro kept_keep [OF assms(2)]) (auto simp: update_conv' split: if_splits)
  qed
next
  case (DeleteOp flt n)
  then have "r = None \<Longrightarrow> map_of fs' q = (if q = record_at dir n then None else map_of fs q)"
    and "r = Some e \<Longrightarrow> fs' = fs" for q e
    using assms(3) delete_done [OF assms(1)] delete_refused by (auto simp: store_step_def)
  then show ?thesis
    by (cases r) (auto intro!: kept_keep [OF assms(2)] split: if_splits)
qed

interpretation seats: record_store "store_step dir" store_effect "records dir"
  "\<lambda>fs. clean_dir dir \<and> kept_records dir fs" for dir
proof unfold_locales
  fix fs fs' :: disk_files and opn r
  assume "clean_dir dir \<and> kept_records dir fs" "store_step dir opn fs = (fs', r)"
  then show "clean_dir dir \<and> kept_records dir fs'" using kept_step by blast
next
  fix fs fs' :: disk_files and opn
  assume g: "clean_dir dir \<and> kept_records dir fs" and st: "store_step dir opn fs = (fs', None)"
  show "records dir fs' = store_effect opn (records dir fs)"
  proof (cases opn)
    case (PutOp flt s)
    with st have "put_seat flt dir s fs = (fs', None)" by (simp add: store_step_def)
    from put_done [OF conjunct1 [OF g] this] PutOp g show ?thesis
      by (auto simp: fun_eq_iff records_eq store_effect_def record_schema_def)
  next
    case (DeleteOp flt n)
    with st have "delete_seat flt dir n fs = (fs', None)" by (simp add: store_step_def)
    from delete_done [OF conjunct1 [OF g] this] DeleteOp g show ?thesis
      by (auto simp: fun_eq_iff records_eq store_effect_def)
  qed
next
  fix fs fs' :: disk_files and opn e
  assume g: "clean_dir dir \<and> kept_records dir fs" and st: "store_step dir opn fs = (fs', Some e)"
  show "records dir fs' = records dir fs"
  proof (cases opn)
    case (PutOp flt s)
    with st have "put_seat flt dir s fs = (fs', Some e)" by (simp add: store_step_def)
    from put_refused [OF conjunct1 [OF g] this] g show ?thesis
      by (auto simp: fun_eq_iff records_eq update_conv')
  next
    case (DeleteOp flt n)
    with st show ?thesis by (auto simp: store_step_def dest: delete_refused)
  qed
qed

section \<open>The listing\<close>

lemma records_file:
  assumes "clean_dir dir"
  shows "records dir fs n = Some s \<longleftrightarrow>
    name_matches n \<and> map_of fs (record_at dir n) = Some (Regular (Holds s))
    \<and> schema s \<le> record_schema"
  using assms by (auto simp: records_eq split: option.splits fs_entry.splits seat_file.splits)

lemma records_named:
  assumes "clean_dir dir" "kept_records dir fs" "records dir fs n = Some s"
  shows "seat_name s = n"
proof -
  from assms have f: "map_of fs (record_at dir n) = Some (Regular (Holds s))" "name_matches n"
    by (auto simp: records_file)
  with assms(2) have "is_record dir (record_at dir n) (Holds s)" by (auto simp: kept_records_def)
  moreover have "name_below dir (record_at dir n) = Some (n @ ''.json'')"
    using name_matches_plain [OF f(2)] by (simp add: name_below_iff record_at_def)
  ultimately show ?thesis by (simp add: is_record_def has_suffix_def)
qed

lemma load_record:
  assumes "clean_dir dir" "records dir fs (seat_name s) = Some s"
  shows "load_seat (\<lambda>_. False) fs (path_join [dir, seat_name s @ ''.json'']) = Inr s"
proof -
  have "record_path dir (seat_name s) = Inr (record_at dir (seat_name s))"
    using assms by (simp add: records_file record_path_eq)
  then have "path_join [dir, seat_name s @ ''.json''] = record_at dir (seat_name s)"
    by (auto simp: record_path_def split: option.splits)
  with assms show ?thesis by (auto simp: records_file load_seat_def)
qed

lemma kept_name:
  assumes "clean_dir dir" "kept_records dir fs" "name_below dir (dir @ ''/'' @ n) = Some n"
    "map_of fs (dir @ ''/'' @ n) = Some (Regular c)" "has_suffix n ''.json''"
  obtains s where "n = seat_name s @ ''.json''" "records dir fs (seat_name s) = Some s"
proof -
  from assms have "is_record dir (dir @ ''/'' @ n) c" by (auto simp: kept_records_def)
  with assms that show ?thesis by (auto simp: is_record_def records_file record_at_def)
qed

lemma load_all_kept:
  assumes "clean_dir dir" "kept_records dir fs"
  shows "distinct ns \<Longrightarrow>
    \<forall>n \<in> set ns. name_below dir (dir @ ''/'' @ n) = Some n \<and> map_of fs (dir @ ''/'' @ n) \<noteq> None \<Longrightarrow>
    \<exists>xs. load_seats (\<lambda>_. False) dir fs ns = Inr xs \<and> distinct (map seat_name xs)
      \<and> (\<forall>s. s \<in> set xs \<longleftrightarrow>
            seat_name s @ ''.json'' \<in> set ns \<and> records dir fs (seat_name s) = Some s)"
proof (induction ns)
  case (Cons n ns)
  then obtain xs where xs: "load_seats (\<lambda>_. False) dir fs ns = Inr xs" "distinct (map seat_name xs)"
    "\<And>s. s \<in> set xs \<longleftrightarrow> seat_name s @ ''.json'' \<in> set ns \<and> records dir fs (seat_name s) = Some s"
    by auto
  obtain e where e: "map_of fs (dir @ ''/'' @ n) = Some e" using Cons.prems(2) by auto
  show ?case
  proof (cases "e = Directory \<or> \<not> has_suffix n ''.json''")
    case True
    have "\<not> (n = seat_name s @ ''.json'' \<and> records dir fs (seat_name s) = Some s)" for s
      using True e assms(1) by (auto simp: records_file record_at_def has_suffix_def)
    with True e xs show ?thesis by (intro exI [of _ xs]) auto
  next
    case False
    then obtain c where "e = Regular c" by (cases e) auto
    with kept_name [OF assms, of n c] False e Cons.prems(2) obtain s
      where s: "n = seat_name s @ ''.json''" "records dir fs (seat_name s) = Some s" by auto
    have "load_seats (\<lambda>_. False) dir fs (n # ns) = Inr (s # xs)"
      using False e s(1) xs(1) load_record [OF assms(1) s(2)] by simp
    moreover have "seat_name s \<notin> seat_name ` set xs"
      using s(1) Cons.prems(1) xs(3) by force
    moreover have "t \<in> set (s # xs) \<longleftrightarrow>
        seat_name t @ ''.json'' \<in> set (n # ns) \<and> records dir fs (seat_name t) = Some t" for t
    proof (cases "seat_name t = seat_name s")
      case True
      then have "records dir fs (seat_name t) = Some s" using s(2) by simp
      then show ?thesis using s(1) True xs(3) [of t] by auto
    next
      case False
      then show ?thesis using s(1) xs(3) [of t] by auto
    qed
    ultimately show ?thesis using xs(2) by (intro exI [of _ "s # xs"]) simp
  qed
qed simp

lemma read_dir_names:
  "n \<in> set (read_dir dir fs) \<longleftrightarrow>
     name_below dir (dir @ ''/'' @ n) = Some n \<and> map_of fs (dir @ ''/'' @ n) \<noteq> None"
proof
  assume "n \<in> set (read_dir dir fs)"
  then obtain p e where "(p, e) \<in> set fs" "name_below dir p = Some n"
    by (auto simp: read_dir_def List.map_filter_def)
  then show "name_below dir (dir @ ''/'' @ n) = Some n \<and> map_of fs (dir @ ''/'' @ n) \<noteq> None"
    by (auto simp: name_below_iff map_of_eq_None_iff intro: rev_image_eqI)
next
  assume n: "name_below dir (dir @ ''/'' @ n) = Some n \<and> map_of fs (dir @ ''/'' @ n) \<noteq> None"
  then obtain e where "(dir @ ''/'' @ n, e) \<in> set fs" by (auto dest: map_of_SomeD)
  with n show "n \<in> set (read_dir dir fs)"
    by (force simp: read_dir_def List.map_filter_def)
qed

lemma distinct_read_dir: "distinct (read_dir dir fs)"
  by (simp add: read_dir_def)

text \<open>
  Over a directory whose records are those of their names, \<open>List\<close> gives exactly
  the records \<open>Get\<close> answers with, each of them once and ordered by name: whatever else lies
  in the directory, a file left half written among it, is not a seat.
\<close>

theorem list_is_the_records:
  assumes "clean_dir dir" "kept_records dir fs"
  shows "\<exists>xs. list_seats (\<lambda>_. False) dir fs = Inr xs
    \<and> sorted (map seat_name xs) \<and> distinct (map seat_name xs)
    \<and> (\<forall>s. s \<in> set xs \<longleftrightarrow> (\<exists>n. get_seat (\<lambda>_. False) dir fs n = Inr s))"
proof -
  obtain xs where xs: "load_seats (\<lambda>_. False) dir fs (read_dir dir fs) = Inr xs"
    "distinct (map seat_name xs)"
    "\<And>s. s \<in> set xs \<longleftrightarrow> seat_name s @ ''.json'' \<in> set (read_dir dir fs)
          \<and> records dir fs (seat_name s) = Some s"
    using load_all_kept [OF assms distinct_read_dir] read_dir_names by metis
  have get_seat: "get_seat (\<lambda>_. False) dir fs n = Inr s \<longleftrightarrow> records dir fs n = Some s" for n s
    by (auto simp: records_def split: sum.splits)
  have own: "seat_name s = n" if "records dir fs n = Some s" for n s
    using assms that by (rule records_named)
  have listed: "seat_name s @ ''.json'' \<in> set (read_dir dir fs)"
    if "records dir fs (seat_name s) = Some s" for s
    using that assms(1) name_matches_plain [of "seat_name s"]
    by (auto simp: records_file read_dir_names name_below_iff record_at_def)
  have "s \<in> set xs \<longleftrightarrow> (\<exists>n. records dir fs n = Some s)" for s
    using xs(3) own listed by metis
  with xs(1,2) get_seat show ?thesis
    by (intro exI [of _ "sort_key seat_name xs"])
      (auto simp: list_seats_def distinct_map)
qed

section \<open>The store as a map\<close>

text \<open>
  Property C13: whatever sequence of saving and deleting runs against the store, whichever of
  its system calls fail on the way, the records it answers with are those of a map in which
  every operation that reported success was made and no other: a save that failed, half way
  through the write or at the rename, has changed no record.
\<close>

theorem store_refines_map:
  assumes "clean_dir dir" "kept_records dir fs" "run_ops (store_step dir) ops fs = (fs', rs)"
  shows "kept_records dir fs' \<and> records dir fs' = spec_ops store_effect (zip ops rs) (records dir fs)"
  using seats.run_refines [OF conjI [OF assms(1,2)] assms(3)] by blast

text \<open>
  Property C14: no name leads the store out of its directory. Whatever bytes a request names a
  seat with, saving and deleting change nothing but files right below the directory, and what
  is answered depends on nothing but those.
\<close>

theorem store_stays_inside:
  assumes "clean_dir dir"
  shows "(store_step dir opn fs = (fs', r) \<longrightarrow> map_of fs' p \<noteq> map_of fs p \<longrightarrow>
            (\<exists>c. component_name c \<and> p = dir @ ''/'' @ c))
    \<and> ((\<forall>c. component_name c \<longrightarrow> map_of fs (dir @ ''/'' @ c) = map_of fs2 (dir @ ''/'' @ c)) \<longrightarrow>
          get_seat (\<lambda>_. False) dir fs n = get_seat (\<lambda>_. False) dir fs2 n)"
proof (intro conjI impI)
  assume st: "store_step dir opn fs = (fs', r)" and ch: "map_of fs' p \<noteq> map_of fs p"
  have "\<exists>m. name_matches m \<and> (p = record_at dir m \<or> p = record_at dir m @ ''.tmp'')"
  proof (cases opn)
    case (PutOp flt s)
    show ?thesis
    proof (cases r)
      case None
      with PutOp st have "put_seat flt dir s fs = (fs', None)" by (simp add: store_step_def)
      from put_done [OF assms this] ch show ?thesis by metis
    next
      case (Some e)
      with PutOp st have "put_seat flt dir s fs = (fs', Some e)" by (simp add: store_step_def)
      from put_refused [OF assms this] ch show ?thesis by (auto simp: update_conv' split: if_splits)
    qed
  next
    case (DeleteOp flt m)
    then have "delete_seat flt dir m fs = (fs', r)" using st by (simp add: store_step_def)
    with ch have "delete_seat flt dir m fs = (fs', None)" by (cases r) (auto dest: delete_refused)
    from delete_done [OF assms this] ch show ?thesis by metis
  qed
  with record_component show "\<exists>c. component_name c \<and> p = dir @ ''/'' @ c" by blast
next
  assume "\<forall>c. component_name c \<longrightarrow> map_of fs (dir @ ''/'' @ c) = map_of fs2 (dir @ ''/'' @ c)"
  then have "map_of fs (record_at dir n) = map_of fs2 (record_at dir n)" if "name_matches n"
    using record_component [OF that] by (metis (no_types))
  with assms show "get_seat (\<lambda>_. False) dir fs n = get_seat (\<lambda>_. False) dir fs2 n"
    by (auto simp: get_eq load_seat_def)
qed

section \<open>A seat and a store to try them on\<close>

definition sample_record :: seat where
  "sample_record =
     \<lparr>seat_name = ''vince'', label = ''Vince'', autostart = True, resolution = ''1920x1080@60Hz'',
      address = ''10.20.30.71/24'', gateway = ''10.20.30.1'', library_on = True, isolated = False,
      no_ge_proton = False, pointer_speed = 0, player_uid = 1000, provisioned = 12, schema = 1,
      created_at = 0\<rparr>"

definition sample_dir :: string where "sample_dir = ''/var/lib/polyseat/seats''"

definition sample_files :: disk_files where
  "sample_files =
     [(sample_dir @ ''/vince.json'', Regular (Holds sample_record)),
      (sample_dir @ ''/vince.json.tmp'', Regular Garbage),
      (sample_dir @ ''/old'', Directory), (''/var/lib/polyseat/secrets/vince.json'', Regular Garbage)]"

lemma sample_dir_clean: "clean_dir sample_dir"
  by code_simp

lemma sample_kept: "kept_records sample_dir sample_files"
proof -
  have "list_all (\<lambda>(p, e). case e of Directory \<Rightarrow> True | Regular c \<Rightarrow>
      (case name_below sample_dir p of None \<Rightarrow> True | Some n \<Rightarrow> \<not> has_suffix n ''.json''
         \<or> c = Holds sample_record \<and> n = seat_name sample_record @ ''.json''
            \<and> name_matches (seat_name sample_record) \<and> schema sample_record \<le> record_schema))
      sample_files"
    by code_simp
  then show ?thesis
    by (fastforce simp: kept_records_def is_record_def list_all_iff dest!: map_of_SomeD split: option.splits)
qed

text \<open>What the checks of a seat answer, a few of the inputs they were written for among it.\<close>

lemma validate_examples:
  "validate sample_record = None"
  "validate (sample_record\<lparr>address := ''10.0.0.2/24'' @ nl @ ''DNS=10.9.9.9''\<rparr>) = Some NotAPrefix"
  "validate (sample_record\<lparr>address := []\<rparr>) = Some GatewayAlone"
  "validate (sample_record\<lparr>gateway := ''::1''\<rparr>) = Some MixedKinds"
  "validate (sample_record\<lparr>seat_name := ''seat0''\<rparr>) = Some PhysicalSeat"
  "validate (sample_record\<lparr>seat_name := ''host''\<rparr>) = Some HostsName"
  "validate (sample_record\<lparr>resolution := ''1920x1080''\<rparr>) = Some ResolutionShape"
proof -
  have n: "validate_name ''vince'' = None" "validate_name ''seat0'' = Some PhysicalSeat"
    "validate_name ''host'' = Some HostsName"
    by code_simp+
  have r: "resolution_matches ''1920x1080@60Hz''" "\<not> resolution_matches ''1920x1080''"
    by code_simp+
  have a: "parse_addr ''10.20.30.71'' = Some (V4 [10, 20, 30, 71])"
    "parse_addr ''10.20.30.1'' = Some (V4 [10, 20, 30, 1])"
    "parse_addr ''10.0.0.2'' = Some (V4 [10, 0, 0, 2])"
    "parse_addr ''::1'' = Some (V6 [0, 0, 0, 0, 0, 0, 0, 1] [])"
    by code_simp+
  have s: "split_on CHR ''/'' ''10.20.30.71/24'' = [''10.20.30.71'', ''24'']"
    "split_on CHR ''/'' (''10.0.0.2/24'' @ nl @ ''DNS=10.9.9.9'') =
       [''10.0.0.2'', ''24'' @ nl @ ''DNS=10.9.9.9'']"
    "list_all is_digit ''24''" "\<not> list_all is_digit (''24'' @ nl @ ''DNS=10.9.9.9'')"
    "digits_value 0 ''24'' = Some 24" "contains ''10.20.30.71/24'' ''/''"
    "contains (''10.0.0.2/24'' @ nl @ ''DNS=10.9.9.9'') ''/''"
    by code_simp+
  have p: "parse_prefix ''10.20.30.71/24'' = Some (V4 [10, 20, 30, 71], 24)"
    "parse_prefix (''10.0.0.2/24'' @ nl @ ''DNS=10.9.9.9'') = None"
    using s by (simp_all add: parse_prefix_def a is4_def zone_of_def nl_def del: digits_value.simps)
  have v: "validate_static ''10.20.30.71/24'' ''10.20.30.1'' = None"
    "validate_static (''10.0.0.2/24'' @ nl @ ''DNS=10.9.9.9'') ''10.20.30.1'' = Some NotAPrefix"
    "validate_static [] ''10.20.30.1'' = Some GatewayAlone"
    "validate_static ''10.20.30.71/24'' ''::1'' = Some MixedKinds"
    using s p a by (simp_all add: validate_static_def is4_def zone_of_def)
  show "validate sample_record = None"
    "validate (sample_record\<lparr>address := ''10.0.0.2/24'' @ nl @ ''DNS=10.9.9.9''\<rparr>) = Some NotAPrefix"
    "validate (sample_record\<lparr>address := []\<rparr>) = Some GatewayAlone"
    "validate (sample_record\<lparr>gateway := ''::1''\<rparr>) = Some MixedKinds"
    "validate (sample_record\<lparr>seat_name := ''seat0''\<rparr>) = Some PhysicalSeat"
    "validate (sample_record\<lparr>seat_name := ''host''\<rparr>) = Some HostsName"
    "validate (sample_record\<lparr>resolution := ''1920x1080''\<rparr>) = Some ResolutionShape"
    using n r v by (simp_all add: validate_def sample_record_def)
qed

lemma static_address_is_one_line_witness:
  "split_on CHR 0x0A (network_file sample_record) =
     [''[Match]'', ''Name=eth1'', [], ''[Network]'', ''Address=10.20.30.71/24'', [],
      ''[Route]'', ''Gateway=10.20.30.1'', ''Metric=100'', []]"
  using static_address_is_one_line [OF validate_examples(1)] by (simp add: sample_record_def)

lemma list_is_the_records_witness:
  "\<exists>xs. list_seats (\<lambda>_. False) sample_dir sample_files = Inr xs
     \<and> (\<exists>n. get_seat (\<lambda>_. False) sample_dir sample_files n = Inr sample_record) \<and> sample_record \<in> set xs"
proof -
  have "get_seat (\<lambda>_. False) sample_dir sample_files ''vince'' = Inr sample_record" by code_simp
  then show ?thesis using list_is_the_records [OF sample_dir_clean sample_kept] by metis
qed

text \<open>A save, one that fails half way through its write, and a deletion of a name that is none.\<close>

definition sample_ops :: "store_op list" where
  "sample_ops =
     [PutOp (\<lambda>_. False) (sample_record\<lparr>seat_name := ''anna''\<rparr>),
      PutOp (\<lambda>c. c = WriteTmp) (sample_record\<lparr>label := ''Nobody''\<rparr>),
      DeleteOp (\<lambda>_. False) ''../secrets/vince'']"

lemma store_refines_map_witness:
  "\<exists>fs'. run_ops (store_step sample_dir) sample_ops sample_files =
           (fs', [None, Some (Failed WriteTmp), Some BadSeatName])
     \<and> records sample_dir fs' = (records sample_dir sample_files)
         (''anna'' \<mapsto> sample_record\<lparr>seat_name := ''anna''\<rparr>)"
proof -
  have "snd (run_ops (store_step sample_dir) sample_ops sample_files) =
      [None, Some (Failed WriteTmp), Some BadSeatName]"
    by code_simp
  then obtain fs' where r: "run_ops (store_step sample_dir) sample_ops sample_files =
      (fs', [None, Some (Failed WriteTmp), Some BadSeatName])"
    by (cases "run_ops (store_step sample_dir) sample_ops sample_files") simp
  have "sample_record\<lparr>seat_name := ''anna'', schema := 1\<rparr> = sample_record\<lparr>seat_name := ''anna''\<rparr>"
    by (simp add: sample_record_def)
  with store_refines_map [OF sample_dir_clean sample_kept r] r show ?thesis
    by (auto simp: sample_ops_def store_effect_def sample_record_def)
qed

lemma store_stays_inside_witness:
  "\<exists>c. component_name c \<and> record_at sample_dir ''vince'' = sample_dir @ ''/'' @ c"
proof -
  let ?p = "record_at sample_dir ''vince''"
  let ?op = "DeleteOp (\<lambda>_. False) ''vince''"
  have "map_of (fst (store_step sample_dir ?op sample_files)) ?p \<noteq> map_of sample_files ?p"
    by code_simp
  then show ?thesis
    using store_stays_inside [OF sample_dir_clean, of ?op sample_files
        "fst (store_step sample_dir ?op sample_files)"
        "snd (store_step sample_dir ?op sample_files)" ?p] by simp
qed

end
