(* ===== verification/Incus.thy ===== *)
theory Incus
  imports Strconv Filepath
begin

text \<open>
  What the daemon's Incus client makes of the answers of the server
  (internal/incusx/client.go): merging configuration and devices into an instance, mapping
  identifiers, the addresses of an instance, making directories level by level, and the names
  in lifecycle events. The server itself is not part of the program: what it answers is an
  argument.

  A Go map is an association list with distinct keys, and a key that is missing reads as the
  empty string.
\<close>

type_synonym kvs = "(string \<times> string) list"
type_synonym device = kvs
type_synonym devices = "(string \<times> device) list"

definition dget :: "kvs \<Rightarrow> string \<Rightarrow> string" where
  "dget m k = (case map_of m k of None \<Rightarrow> [] | Some v \<Rightarrow> v)"

definition same_device :: "device \<Rightarrow> device \<Rightarrow> bool" where
  "same_device a b \<longleftrightarrow> length a = length b \<and> list_all (\<lambda>(k, v). dget b k = v) a"

record instance_put =
  inst_config :: kvs
  inst_devices :: devices

section \<open>Configure\<close>

fun merge_config :: "kvs \<Rightarrow> kvs \<times> bool \<Rightarrow> kvs \<times> bool" where
  "merge_config [] acc = acc"
| "merge_config ((k, v) # kvs) (conf, changed) =
     merge_config kvs (if dget conf k \<noteq> v then (AList.update k v conf, True) else (conf, changed))"

fun merge_devices :: "(string \<times> device option) list \<Rightarrow> devices \<times> bool \<Rightarrow> devices \<times> bool" where
  "merge_devices [] acc = acc"
| "merge_devices ((n, None) # ds) (devs, changed) =
     merge_devices ds (if map_of devs n \<noteq> None then (AList.delete n devs, True) else (devs, changed))"
| "merge_devices ((n, Some d) # ds) (devs, changed) =
     merge_devices ds
       (if \<not> same_device (case map_of devs n of None \<Rightarrow> [] | Some e \<Rightarrow> e) d
        then (AList.update n d devs, True) else (devs, changed))"

definition merge_put ::
  "kvs \<Rightarrow> (string \<times> device option) list \<Rightarrow> instance_put \<Rightarrow> instance_put \<times> bool" where
  "merge_put conf devs p =
     (case merge_config conf (inst_config p, False) of (c, ch) \<Rightarrow>
      case merge_devices devs (inst_devices p, ch) of (d, ch') \<Rightarrow> (\<lparr>inst_config = c, inst_devices = d\<rparr>, ch'))"

text \<open>
  \<open>Configure\<close> over what \<open>GetInstance\<close> answered and what \<open>UpdateInstance\<close> and the wait for it
  say to an update: the update to make, if there is one, and the answer.
\<close>

definition configure ::
  "('e + instance_put) \<Rightarrow> (instance_put \<Rightarrow> 'e option) \<Rightarrow> kvs \<Rightarrow> (string \<times> device option) list
     \<Rightarrow> instance_put option \<times> ('e + bool)" where
  "configure answer update conf devs =
     (case answer of
        Inl e \<Rightarrow> (None, Inl e)
      | Inr p \<Rightarrow>
          (case merge_put conf devs p of (p', changed) \<Rightarrow>
             if \<not> changed then (None, Inr False)
             else (Some p', case update p' of Some e \<Rightarrow> Inl e | None \<Rightarrow> Inr True)))"

fun drop_keys :: "string list \<Rightarrow> kvs \<times> bool \<Rightarrow> kvs \<times> bool" where
  "drop_keys [] acc = acc"
| "drop_keys (k # ks) (conf, changed) =
     drop_keys ks (if map_of conf k \<noteq> None then (AList.delete k conf, True) else (conf, changed))"

definition unset_config ::
  "('e + instance_put) \<Rightarrow> (instance_put \<Rightarrow> 'e option) \<Rightarrow> string list
     \<Rightarrow> instance_put option \<times> 'e option" where
  "unset_config answer update ks =
     (case answer of
        Inl e \<Rightarrow> (None, Some e)
      | Inr p \<Rightarrow>
          (case drop_keys ks (inst_config p, False) of (c, changed) \<Rightarrow>
             if \<not> changed then (None, None)
             else let p' = p\<lparr>inst_config := c\<rparr> in (Some p', update p')))"

section \<open>Identifiers\<close>

record idmap_entry =
  is_uid :: bool
  is_gid :: bool
  hostid :: int
  nsid :: int
  maprange :: int

definition covers :: "idmap_entry \<Rightarrow> int \<Rightarrow> bool" where
  "covers e i \<longleftrightarrow> nsid e \<le> i \<and> i < nsid e + maprange e"

fun map_entries :: "idmap_entry list \<Rightarrow> int \<Rightarrow> int \<Rightarrow> int \<times> int \<Rightarrow> int \<times> int" where
  "map_entries [] uid gid acc = acc"
| "map_entries (e # es) uid gid (hu, hg) =
     map_entries es uid gid
       (if is_uid e \<and> covers e uid then hostid e + (uid - nsid e) else hu,
        if is_gid e \<and> covers e gid then hostid e + (gid - nsid e) else hg)"

datatype map_error = NoInstance | BadIdmap | OutsideRange

text \<open>
  \<open>MapID\<close>; the mapping is what \<open>volatile.idmap.current\<close> holds: no key, something that is no
  mapping, or the entries. The sums stay in an \<open>int64\<close>: identifiers of the kernel have 32 bits.
\<close>

datatype idmap = NoMapping | Unparsable | Entries "idmap_entry list"

definition map_id :: "idmap \<Rightarrow> int \<Rightarrow> int \<Rightarrow> map_error + int \<times> int" where
  "map_id m uid gid =
     (case m of
        NoMapping \<Rightarrow> Inr (uid, gid)
      | Unparsable \<Rightarrow> Inl BadIdmap
      | Entries es \<Rightarrow>
          (case map_entries es uid gid (-1, -1) of (hu, hg) \<Rightarrow>
             if hu < 0 \<or> hg < 0 then Inl OutsideRange else Inr (hu, hg)))"

section \<open>Addresses, directories, events\<close>

record net_address =
  family :: string
  scope :: string
  ip :: string

definition addresses_of :: "(string \<times> net_address list) list \<Rightarrow> (string \<times> string list) list" where
  "addresses_of net =
     [(i, map ip as). (i, as) \<leftarrow>
        map (\<lambda>(i, as). (i, filter (\<lambda>a. family a = ''inet'' \<and> scope a = ''global'') as)) net,
        i \<noteq> ''lo'' \<and> as \<noteq> []]"

text \<open>
  \<open>MakeDir\<close>: one request for every level, and only the last one's answer is looked at. The
  answer of the server is \<^term>\<open>None\<close> or the text of an error.
\<close>

definition dir_levels :: "string \<Rightarrow> string list" where
  "dir_levels p =
     (let parts = split_on CHR ''/'' (trim_set ''/'' p)
      in map (\<lambda>i. ''/'' @ join ''/'' (take (Suc i) parts)) [0..<length parts])"

definition make_dir :: "(string \<Rightarrow> string option) \<Rightarrow> string \<Rightarrow> string list \<times> string option" where
  "make_dir create p =
     (let ls = dir_levels p
      in (ls, case create (last ls) of
                None \<Rightarrow> None
              | Some e \<Rightarrow> if contains (to_lower e) ''exists'' then None else Some e))"

definition parent_dir :: "string \<Rightarrow> string" where
  "parent_dir p =
     (let rest = dropWhile (\<lambda>c. c \<noteq> CHR ''/'') (rev p)
      in if length rest \<le> 1 then [] else rev (tl rest))"

definition lifecycle_of :: "string \<Rightarrow> string \<Rightarrow> (string \<times> string) option" where
  "lifecycle_of act source =
     (if \<not> has_prefix act ''instance-'' then None
      else let name = last (split_on CHR ''/'' source)
           in if name = [] then None else Some (act, name))"

section \<open>What merging does\<close>

lemma dget_update [simp]: "dget (AList.update k v m) j = (if j = k then v else dget m j)"
  by (simp add: dget_def update_conv')

lemma merge_config_dget:
  "distinct (map fst kvs) \<Longrightarrow>
     dget (fst (merge_config kvs (conf, ch))) k =
       (case map_of kvs k of Some v \<Rightarrow> v | None \<Rightarrow> dget conf k)"
proof (induction kvs arbitrary: conf ch)
  case (Cons p kvs)
  obtain j v where p: "p = (j, v)" by force
  from Cons have "map_of kvs j = None" by (simp add: p map_of_eq_None_iff)
  with Cons p show ?case by (auto split: option.split)
qed simp

text \<open>Every value of a device is written out: the server keeps no empty ones.\<close>

definition no_blanks :: "device \<Rightarrow> bool" where
  "no_blanks d \<longleftrightarrow> distinct (map fst d) \<and> list_all (\<lambda>(k, v). v \<noteq> []) d"

lemma same_device_eq:
  assumes "no_blanks a" "no_blanks b" "same_device a b"
  shows "map_of a = map_of b"
proof -
  have in_b: "map_of b k = Some v" if "(k, v) \<in> set a" for k v
  proof -
    from that assms(1,3) have "dget b k = v" "v \<noteq> []"
      by (auto simp: same_device_def no_blanks_def list_all_iff)
    then show ?thesis by (auto simp: dget_def split: option.splits)
  qed
  then have sub: "set a \<subseteq> set b" by (auto dest: map_of_SomeD)
  have "card (set a) = length a" "card (set b) = length b"
    using assms(1,2) by (auto simp: no_blanks_def simp: distinct_map intro!: distinct_card)
  with assms(3) have "set a = set b"
    using sub by (intro card_subset_eq) (auto simp: same_device_def)
  then show ?thesis
    using assms(1,2) by (auto simp: no_blanks_def intro: map_of_inject_set [THEN iffD2])
qed

text \<open>Where a value is empty, two devices that are not the same can be taken for it.\<close>

lemma same_device_blank: "same_device [(''a'', [])] [(''b'', ''x'')]"
  by (simp add: same_device_def dget_def)

lemma merge_one_device:
  assumes "merge_put [] [(n, Some d)] p = (p', ch)"
  shows "inst_config p' = inst_config p"
    "ch \<Longrightarrow> map_of (inst_devices p') = (map_of (inst_devices p))(n \<mapsto> d)"
    "\<not> ch \<Longrightarrow> p' = p \<and> same_device (case map_of (inst_devices p) n of None \<Rightarrow> [] | Some e \<Rightarrow> e) d"
  using assms by (auto simp: merge_put_def update_conv' split: if_splits)

section \<open>What mapping an identifier gives\<close>

definition disjoint_ranges :: "idmap_entry list \<Rightarrow> bool" where
  "disjoint_ranges es \<longleftrightarrow>
     sorted_wrt (\<lambda>e f. \<not> (\<exists>i. (is_uid e \<and> is_uid f \<or> is_gid e \<and> is_gid f) \<and> covers e i \<and> covers f i)) es"

lemma map_entries_uncovered:
  "\<forall>e \<in> set es. \<not> (is_uid e \<and> covers e uid) \<Longrightarrow> fst (map_entries es uid gid acc) = fst acc"
  "\<forall>e \<in> set es. \<not> (is_gid e \<and> covers e gid) \<Longrightarrow> snd (map_entries es uid gid acc) = snd acc"
  by (induction es uid gid acc rule: map_entries.induct) auto

lemma map_entries_uid:
  "disjoint_ranges es \<Longrightarrow> e \<in> set es \<Longrightarrow> is_uid e \<Longrightarrow> covers e uid \<Longrightarrow>
     fst (map_entries es uid gid acc) = hostid e + (uid - nsid e)"
proof (induction es uid gid acc rule: map_entries.induct)
  case (2 f es uid gid hu hg)
  have ih: "e \<in> set es \<Longrightarrow> ?case" using 2 by (auto simp: disjoint_ranges_def)
  show ?case
  proof (cases "e \<in> set es")
    case False
    with 2 have "e = f" "\<forall>e' \<in> set es. \<not> (is_uid e' \<and> covers e' uid)"
      by (auto simp: disjoint_ranges_def)
    with 2 show ?thesis by (simp add: map_entries_uncovered)
  qed (rule ih)
qed simp

end
