(* ===== verification/Config.thy ===== *)
theory Config
  imports Filepath
begin

text \<open>
  The bootstrap configuration (internal/config/config.go): the defaults and the file over
  them, where the helpers are, and what the machine says about its network interfaces.

  What the kernel shows below \<open>/sys\<close> and \<open>/proc\<close> is an argument: by path, whether there is
  something, the text of a file, the target of a link.
\<close>

record config =
  listen :: string
  state_dir :: string
  helper_dir :: string
  uplink_name :: string
  image :: string
  python :: string
  library_dir :: string
  update_check :: bool
  web_update :: bool
  update_needs_password :: bool
  web_uninstall :: bool
  web_lan_bridge :: bool
  gpu_render_node :: string
  gpu_all_cards :: bool

definition default_config :: config where
  "default_config =
     \<lparr>listen = '':47800'', state_dir = ''/var/lib/polyseat'', helper_dir = [], uplink_name = [],
      image = ''archlinux/current'', python = ''/usr/bin/python3'',
      library_dir = ''/srv/polyseat/library'', update_check = True, web_update = True,
      update_needs_password = False, web_uninstall = True, web_lan_bridge = True,
      gpu_render_node = [], gpu_all_cards = False\<rparr>"

text \<open>
  The file: what it sets, in its order. \<open>json.Unmarshal\<close> leaves every field the file does not
  name as it was.
\<close>

datatype setting =
  Listen string | StateDir string | HelperDir string | Uplink string | Image string
| Python string | LibraryDir string | UpdateCheck bool | WebUpdate bool
| UpdateNeedsPassword bool | WebUninstall bool | WebLanBridge bool | GPURenderNode string
| GPUAllCards bool

primrec set_field :: "setting \<Rightarrow> config \<Rightarrow> config" where
  "set_field (Listen v) c = c\<lparr>listen := v\<rparr>"
| "set_field (StateDir v) c = c\<lparr>state_dir := v\<rparr>"
| "set_field (HelperDir v) c = c\<lparr>helper_dir := v\<rparr>"
| "set_field (Uplink v) c = c\<lparr>uplink_name := v\<rparr>"
| "set_field (Image v) c = c\<lparr>image := v\<rparr>"
| "set_field (Python v) c = c\<lparr>python := v\<rparr>"
| "set_field (LibraryDir v) c = c\<lparr>library_dir := v\<rparr>"
| "set_field (UpdateCheck b) c = c\<lparr>update_check := b\<rparr>"
| "set_field (WebUpdate b) c = c\<lparr>web_update := b\<rparr>"
| "set_field (UpdateNeedsPassword b) c = c\<lparr>update_needs_password := b\<rparr>"
| "set_field (WebUninstall b) c = c\<lparr>web_uninstall := b\<rparr>"
| "set_field (WebLanBridge b) c = c\<lparr>web_lan_bridge := b\<rparr>"
| "set_field (GPURenderNode v) c = c\<lparr>gpu_render_node := v\<rparr>"
| "set_field (GPUAllCards b) c = c\<lparr>gpu_all_cards := b\<rparr>"

datatype config_file = NoFile | Unreadable | NotConfig | Sets "setting list"

datatype config_error = CannotRead | CannotParse

definition helper_dirs :: "string list" where
  "helper_dirs = [''/usr/local/lib/polyseat'', ''/usr/lib/polyseat'']"

definition find_helper_dir :: "(string \<Rightarrow> bool) \<Rightarrow> string list \<Rightarrow> string" where
  "find_helper_dir exists candidates =
     (case List.find (\<lambda>d. exists (path_join [d, ''broker.py''])) candidates of
        Some d \<Rightarrow> d
      | None \<Rightarrow> hd candidates)"

definition load_config :: "(string \<Rightarrow> bool) \<Rightarrow> config_file \<Rightarrow> config_error + config" where
  "load_config exists f =
     (case f of
        NoFile \<Rightarrow> Inr (default_config\<lparr>helper_dir := find_helper_dir exists helper_dirs\<rparr>)
      | Unreadable \<Rightarrow> Inl CannotRead
      | NotConfig \<Rightarrow> Inl CannotParse
      | Sets ss \<Rightarrow>
          let c = fold set_field ss default_config
          in Inr (if helper_dir c = [] then c\<lparr>helper_dir := find_helper_dir exists helper_dirs\<rparr>
                  else c))"

text \<open>\<open>Save\<close>: the file is written beside the old one and renamed over it.\<close>

datatype save_call = SaveMkdir | SaveWrite | SaveRename

definition all_settings :: "config \<Rightarrow> setting list" where
  "all_settings c =
     [Listen (listen c), StateDir (state_dir c), HelperDir (helper_dir c), Uplink (uplink_name c),
      Image (image c), Python (python c), LibraryDir (library_dir c), UpdateCheck (update_check c),
      WebUpdate (web_update c), UpdateNeedsPassword (update_needs_password c),
      WebUninstall (web_uninstall c), WebLanBridge (web_lan_bridge c),
      GPURenderNode (gpu_render_node c), GPUAllCards (gpu_all_cards c)]"

definition save_config ::
  "(save_call \<Rightarrow> bool) \<Rightarrow> config \<Rightarrow> config_file \<Rightarrow> config_file \<times> save_call option" where
  "save_config flt c f =
     (if flt SaveMkdir then (f, Some SaveMkdir)
      else if flt SaveWrite then (f, Some SaveWrite)
      else if flt SaveRename then (f, Some SaveRename)
      else (Sets (all_settings c), None))"

section \<open>The interfaces of the machine\<close>

record sysfs =
  there :: "string \<Rightarrow> bool"
  dir_there :: "string \<Rightarrow> bool"
  text_of :: "string \<Rightarrow> string option"
  link_of :: "string \<Rightarrow> string option"

definition iface_name :: "string \<Rightarrow> bool" where
  "iface_name i \<longleftrightarrow> \<not> (i = [] \<or> i \<noteq> path_base i \<or> i = ''.'' \<or> i = ''..'')"

definition iface_path :: "string \<Rightarrow> string \<Rightarrow> string" where
  "iface_path i what = path_join [''/sys/class/net'', i, what]"

fun default_route_in :: "string list \<Rightarrow> string option" where
  "default_route_in [] = None"
| "default_route_in (l # ls) =
     (let fs = str_fields l
      in if length fs < 3 then default_route_in ls
         else if fs ! 1 = ''00000000'' then Some (fs ! 0)
         else default_route_in ls)"

definition default_uplink :: "string option \<Rightarrow> string option" where
  "default_uplink route =
     (case route of None \<Rightarrow> None | Some t \<Rightarrow> default_route_in (split_on CHR 0x0A t))"

definition wireless :: "sysfs \<Rightarrow> string \<Rightarrow> bool" where
  "wireless sys i =
     (if \<not> iface_name i then False
      else there sys (iface_path i ''wireless'') \<or> there sys (iface_path i ''phy80211''))"

definition carrier :: "sysfs \<Rightarrow> string \<Rightarrow> bool" where
  "carrier sys i =
     (if \<not> iface_name i then False
      else case text_of sys (iface_path i ''carrier'') of
        None \<Rightarrow> False
      | Some t \<Rightarrow> trim_space t = ''1'')"

text \<open>\<open>net.Interfaces\<close>: the names with their loopback flag, or that it failed.\<close>

definition uplinks :: "(string \<times> bool) list option \<Rightarrow> string list" where
  "uplinks ifs =
     (case ifs of
        None \<Rightarrow> []
      | Some is \<Rightarrow>
          map fst (filter (\<lambda>(n, loopback). \<not> loopback \<and> \<not> (has_prefix n ''veth''
             \<or> has_prefix n ''incusbr'' \<or> has_prefix n ''lxdbr'')) is))"

section \<open>What loading and saving give\<close>

lemma fold_all_settings: "fold set_field (all_settings c) d = c"
  by (simp add: all_settings_def)

text \<open>What was saved is what is loaded, once the helpers are known.\<close>

lemma load_save:
  assumes "save_config flt c f = (f', None)" "helper_dir c \<noteq> []"
  shows "load_config exists f' = Inr c"
  using assms by (auto simp: save_config_def load_config_def fold_all_settings split: if_splits)

lemma save_refused: "save_config flt c f = (f', Some e) \<Longrightarrow> f' = f"
  by (auto simp: save_config_def split: if_splits)

text \<open>A file that says nothing of a setting leaves its default.\<close>

lemma load_keeps_default:
  assumes "load_config exists (Sets ss) = Inr c" "\<forall>s \<in> set ss. \<forall>b. s \<noteq> UpdateCheck b"
  shows "update_check c"
proof -
  have "update_check (fold set_field ss d) = update_check d" if "\<forall>s \<in> set ss. \<forall>b. s \<noteq> UpdateCheck b" for d
    using that
  proof (induction ss arbitrary: d)
    case (Cons s ss)
    then have "update_check (set_field s d) = update_check d" by (cases s) auto
    with Cons show ?case by simp
  qed simp
  with assms show ?thesis
    by (auto simp: load_config_def Let_def default_config_def split: if_splits)
qed

text \<open>A name that is looked for below \<open>/sys/class/net\<close> stays there.\<close>

lemma split_on_last_no_sep: "CHR ''/'' \<notin> set (last (split_on CHR ''/'' s))"
  by (rule split_on_no_sep [OF last_in_set]) simp

lemma iface_name_component:
  assumes "iface_name i"
  shows "component_name i \<or> i = ''/''"
proof -
  have "CHR ''/'' \<notin> set i" if "i \<noteq> ''/''"
  proof -
    have "i = path_base i" "i \<noteq> []" using assms by (auto simp: iface_name_def)
    then have "i = ''/'' \<or> i = last (split_on CHR ''/'' (trim_right_set ''/'' i))"
      by (auto simp: path_base_def Let_def split: if_splits)
    with that show ?thesis using split_on_last_no_sep by metis
  qed
  with assms show ?thesis by (auto simp: iface_name_def component_name_def)
qed

end
