(* ===== verification/Network.thy ===== *)
theory Network
  imports Config Incus
begin

text \<open>
  A seat's two interfaces (internal/seat/network.go): which host interface the seats hang off,
  how a seat's LAN interface is attached to it, and the management interface the daemon
  reaches a seat over, with the bridge behind it.

  The Incus server is not part of the program. What it answers is an argument, and what is
  relied on of it is stated as \<open>creates_bridges\<close> and \<open>expands_profile\<close> below.
\<close>

section \<open>The uplink\<close>

definition is_bridge :: "sysfs \<Rightarrow> string \<Rightarrow> bool" where
  "is_bridge sys i =
     (if i = [] then False
      else if i \<noteq> path_base i \<or> i = ''.'' \<or> i = ''..'' then False
      else dir_there sys (iface_path i ''bridge''))"

definition enslaved :: "sysfs \<Rightarrow> string \<Rightarrow> string" where
  "enslaved sys i =
     (if \<not> iface_name i then i
      else case link_of sys (iface_path i ''master'') of
        None \<Rightarrow> i
      | Some target \<Rightarrow> let m = path_base target in if \<not> is_bridge sys m then i else m)"

text \<open>What the daemon asks about the machine: the default route, the interfaces and the kernel.\<close>

record machine_net =
  route_text :: "string option"
  ifaces :: "(string \<times> bool) list option"
  kernel_net :: sysfs

definition wired_candidates :: "machine_net \<Rightarrow> string \<Rightarrow> string list" where
  "wired_candidates m except =
     filter (\<lambda>n. \<not> (n = except \<or> wireless (kernel_net m) n \<or> \<not> carrier (kernel_net m) n)
               \<and> enslaved (kernel_net m) n = n)
       (uplinks (ifaces m))"

datatype uplink_reason =
  NowAPortOf string string | Configured | NoDefaultRoute | CarriesDefaultRoute
| WiredInstead string string | NothingWired string | SeveralWired string "string list"

definition uplink :: "config \<Rightarrow> machine_net \<Rightarrow> string \<times> uplink_reason" where
  "uplink cfg m =
     (if uplink_name cfg \<noteq> []
      then (let n = enslaved (kernel_net m) (uplink_name cfg)
            in if n \<noteq> uplink_name cfg then (n, NowAPortOf (uplink_name cfg) n) else (n, Configured))
      else case default_uplink (route_text m) of
        None \<Rightarrow> ([], NoDefaultRoute)
      | Some route \<Rightarrow>
          if \<not> wireless (kernel_net m) route then (route, CarriesDefaultRoute)
          else (case wired_candidates m route of
                  [w] \<Rightarrow> (w, WiredInstead route w)
                | [] \<Rightarrow> ([], NothingWired route)
                | ws \<Rightarrow> ([], SeveralWired route ws)))"

section \<open>The LAN interface\<close>

definition lan_device_name :: string where "lan_device_name = ''eth1''"

definition lan_device :: "sysfs \<Rightarrow> string \<Rightarrow> string \<Rightarrow> bool \<Rightarrow> device" where
  "lan_device sys uplnk hwaddr isol =
     [(''type'', ''nic''),
      (''nictype'', if is_bridge sys uplnk \<and> \<not> isol then ''bridged'' else ''macvlan''),
      (''parent'', uplnk), (''name'', lan_device_name)]
     @ (if hwaddr \<noteq> [] then [(''hwaddr'', hwaddr)] else [])"

text \<open>\<open>findNIC\<close>: the devices in the order the map is walked in.\<close>

definition nic_name :: "string \<times> device \<Rightarrow> string" where
  "nic_name kd = (let n = dget (snd kd) ''name'' in if n = [] then fst kd else n)"

definition is_nic :: "string \<times> device \<Rightarrow> bool" where
  "is_nic kd \<longleftrightarrow> dget (snd kd) ''type'' = ''nic''"

definition find_nic :: "devices \<Rightarrow> string \<Rightarrow> (string \<times> device) option" where
  "find_nic devs ifname = List.find (\<lambda>kd. is_nic kd \<and> nic_name kd = ifname) devs"

definition lan_reaches_host :: "devices option \<Rightarrow> bool" where
  "lan_reaches_host expanded =
     (case expanded of
        None \<Rightarrow> False
      | Some devs \<Rightarrow>
          (case find_nic devs lan_device_name of
             None \<Rightarrow> False
           | Some (_, d) \<Rightarrow> dget d ''nictype'' = ''bridged''))"

definition mgmt_device_name :: string where "mgmt_device_name = ''eth0''"

definition addrs_on :: "(string \<times> string list) list \<Rightarrow> string \<Rightarrow> string list" where
  "addrs_on addresses i = (case map_of addresses i of None \<Rightarrow> [] | Some as \<Rightarrow> as)"

definition management_path ::
  "(string \<times> string list) list \<Rightarrow> devices option \<Rightarrow> string \<times> string" where
  "management_path addresses expanded =
     (case addrs_on addresses mgmt_device_name of
        a # _ \<Rightarrow> (mgmt_device_name, a)
      | [] \<Rightarrow>
          (case addrs_on addresses lan_device_name of
             a # _ \<Rightarrow> if lan_reaches_host expanded then (lan_device_name, a) else ([], [])
           | [] \<Rightarrow> ([], [])))"

definition lan_mac :: "instance_put option \<Rightarrow> string" where
  "lan_mac inst =
     (case inst of
        None \<Rightarrow> []
      | Some p \<Rightarrow>
          let mac = (case map_of (inst_devices p) lan_device_name of
                       None \<Rightarrow> [] | Some d \<Rightarrow> dget d ''hwaddr'')
          in if mac \<noteq> [] then mac
             else dget (inst_config p) (''volatile.'' @ lan_device_name @ ''.hwaddr''))"

section \<open>The management interface\<close>

definition default_bridge :: string where "default_bridge = ''incusbr0''"
definition polyseat_bridge :: string where "polyseat_bridge = ''polyseatbr0''"

definition management_device :: "string \<Rightarrow> device" where
  "management_device bridge =
     [(''type'', ''nic''), (''name'', mgmt_device_name), (''network'', bridge)]"

record network =
  net_type :: string
  managed :: bool
  net_config :: kvs

definition hands_out_leases :: "network \<Rightarrow> bool" where
  "hands_out_leases n =
     (let a = dget (net_config n) ''ipv4.address''
      in if a = [] \<or> a = ''none'' then False else dget (net_config n) ''ipv4.dhcp'' \<noteq> ''false'')"

datatype unusable = NoManagementNic | NotManagedBridge string | NoLeases string | CannotReach string

definition management_usable ::
  "device option \<Rightarrow> (string \<Rightarrow> 'e + network option) \<Rightarrow> 'e + unusable option" where
  "management_usable device lookup =
     (case device of
        None \<Rightarrow> Inr (Some NoManagementNic)
      | Some d \<Rightarrow>
          let name = dget d ''network''; nictype = dget d ''nictype''
          in if name \<noteq> []
             then (case lookup name of
                     Inl e \<Rightarrow> Inl e
                   | Inr None \<Rightarrow> Inr (Some (NotManagedBridge name))
                   | Inr (Some n) \<Rightarrow>
                       if net_type n \<noteq> ''bridge'' \<or> \<not> managed n then Inr (Some (NotManagedBridge name))
                       else if \<not> hands_out_leases n then Inr (Some (NoLeases name))
                       else Inr None)
             else if nictype = ''bridged'' then Inr None
             else Inr (Some (CannotReach (if nictype = [] then ''unconfigured'' else nictype))))"

text \<open>
  \<open>bridgeMaker\<close>: how a network is read and how a bridge is made, over the state of the server.
  The error of the latter leaves whatever state the server is in.
\<close>

fun usable_bridge ::
  "('s \<Rightarrow> string \<Rightarrow> 'e + network option) \<Rightarrow> 's \<Rightarrow> string list \<Rightarrow> 'e + string" where
  "usable_bridge network_of s [] = Inr []"
| "usable_bridge network_of s (c # cs) =
     (case network_of s c of
        Inl e \<Rightarrow> Inl e
      | Inr None \<Rightarrow> usable_bridge network_of s cs
      | Inr (Some n) \<Rightarrow>
          if net_type n \<noteq> ''bridge'' \<or> \<not> managed n then usable_bridge network_of s cs
          else if \<not> hands_out_leases n then usable_bridge network_of s cs
          else Inr c)"

definition candidates :: "string list" where
  "candidates = [default_bridge, polyseat_bridge]"

text \<open>\<open>managementBridge\<close> holds \<open>bridgeMu\<close> throughout, so it is one step of the daemon.\<close>

definition management_bridge ::
  "('s \<Rightarrow> string \<Rightarrow> 'e + network option) \<Rightarrow> (string \<Rightarrow> 's \<Rightarrow> 's \<times> 'e option) \<Rightarrow> 's
     \<Rightarrow> 's \<times> ('e + string)" where
  "management_bridge network_of create_bridge s =
     (case usable_bridge network_of s candidates of
        Inl e \<Rightarrow> (s, Inl e)
      | Inr name \<Rightarrow>
          if name \<noteq> [] then (s, Inr name)
          else (case create_bridge polyseat_bridge s of
                  (s', None) \<Rightarrow> (s', Inr polyseat_bridge)
                | (s', Some e) \<Rightarrow>
                    (s', case usable_bridge network_of s' candidates of
                           Inr n \<Rightarrow> if n \<noteq> [] then Inr n else Inl e
                         | Inl _ \<Rightarrow> Inl e)))"

text \<open>
  \<open>ensureManagement\<close> over the instance Incus answered with: its own devices and, expanded, the
  devices of its profiles with them, in the order the map is walked in. The answer of an update
  is \<open>update\<close>.
\<close>

record 'e seat_instance =
  own :: "'e + instance_put"
  expanded :: devices

definition ensure_management ::
  "('s \<Rightarrow> string \<Rightarrow> 'e + network option) \<Rightarrow> (string \<Rightarrow> 's \<Rightarrow> 's \<times> 'e option)
     \<Rightarrow> (instance_put \<Rightarrow> 'e option) \<Rightarrow> 'e seat_instance \<Rightarrow> 's
     \<Rightarrow> 's \<times> instance_put option \<times> 'e option" where
  "ensure_management network_of create_bridge update inst s =
     (case own inst of
        Inl e \<Rightarrow> (s, None, Some e)
      | Inr _ \<Rightarrow>
          let found = find_nic (expanded inst) mgmt_device_name
          in case management_usable (map_option snd found) (network_of s) of
            Inl e \<Rightarrow> (s, None, Some e)
          | Inr None \<Rightarrow> (s, None, None)
          | Inr (Some why) \<Rightarrow>
              (case management_bridge network_of create_bridge s of
                 (s', Inl e) \<Rightarrow> (s', None, Some e)
               | (s', Inr bridge) \<Rightarrow>
                   let key = (case found of None \<Rightarrow> mgmt_device_name | Some (k, _) \<Rightarrow> k)
                   in case configure (own inst) update [] [(key, Some (management_device bridge))] of
                        (put, Inl e) \<Rightarrow> (s', put, Some e)
                      | (put, Inr changed) \<Rightarrow> (s', put, None)))"

text \<open>
  \<open>applyNetwork\<close>: the LAN interface of a seat that has a container, moved between the bridge and
  a macvlan on it, with its MAC address carried over.
\<close>

definition apply_network ::
  "config \<Rightarrow> machine_net \<Rightarrow> ('e + string) \<Rightarrow> ('e + instance_put) \<Rightarrow> (instance_put \<Rightarrow> 'e option)
     \<Rightarrow> bool \<Rightarrow> instance_put option \<times> 'e option" where
  "apply_network cfg m status answer update isol =
     (case status of
        Inl e \<Rightarrow> (None, Some e)
      | Inr st \<Rightarrow>
          if st = [] then (None, None)
          else case answer of
            Inl e \<Rightarrow> (None, Some e)
          | Inr p \<Rightarrow>
              (case configure answer update []
                      [(lan_device_name,
                        Some (lan_device (kernel_net m) (fst (uplink cfg m)) (lan_mac (Some p)) isol))] of
                 (put, Inl e) \<Rightarrow> (put, Some e)
               | (put, Inr _) \<Rightarrow> (put, None)))"

section \<open>Choosing an uplink\<close>

text \<open>
  Without a name in the configuration, an uplink is never a wireless interface, and one that was
  chosen in place of a wireless default route has a cable in it and is no port of a bridge.
\<close>

lemma uplink_chosen:
  assumes "uplink_name cfg = []" "uplink cfg m = (n, why)" "n \<noteq> []"
  shows "\<not> wireless (kernel_net m) n"
    "default_uplink (route_text m) \<noteq> Some n \<Longrightarrow>
       carrier (kernel_net m) n \<and> enslaved (kernel_net m) n = n \<and> n \<in> set (uplinks (ifaces m))
       \<and> (\<exists>route. wired_candidates m route = [n])"
proof -
  obtain route where r: "default_uplink (route_text m) = Some route"
    using assms by (cases "default_uplink (route_text m)") (auto simp: uplink_def)
  have c: "wired_candidates m route = [n]" if "wireless (kernel_net m) route"
    using that assms r by (auto simp: uplink_def split: list.splits)
  then have "n \<in> set (wired_candidates m route)" if "wireless (kernel_net m) route"
    using that by simp
  moreover have "n = route" if "\<not> wireless (kernel_net m) route"
    using that assms r by (simp add: uplink_def)
  ultimately show "\<not> wireless (kernel_net m) n"
    "default_uplink (route_text m) \<noteq> Some n \<Longrightarrow>
       carrier (kernel_net m) n \<and> enslaved (kernel_net m) n = n \<and> n \<in> set (uplinks (ifaces m))
       \<and> (\<exists>route. wired_candidates m route = [n])"
    using r c by (auto simp: wired_candidates_def)
qed

section \<open>Finding an interface among the devices\<close>

text \<open>Incus starts no container two devices of which give it the same interface.\<close>

definition one_nic :: "devices \<Rightarrow> string \<Rightarrow> bool" where
  "one_nic ds i \<longleftrightarrow>
     (\<forall>kd \<in> set ds. \<forall>kd' \<in> set ds. is_nic kd \<and> nic_name kd = i \<and> is_nic kd' \<and> nic_name kd' = i \<longrightarrow> kd = kd')"

text \<open>
  What Incus expands an instance's devices to: those of its profiles, and its own in place of a
  profile's of the same key; in any order.
\<close>

definition expands_profile :: "devices \<Rightarrow> devices \<Rightarrow> devices \<Rightarrow> bool" where
  "expands_profile profile own_devs ds \<longleftrightarrow>
     distinct (map fst ds) \<and> map_of ds = map_of profile ++ map_of own_devs"

lemma find_nic_iff:
  assumes "one_nic ds i"
  shows "find_nic ds i = Some kd \<longleftrightarrow> kd \<in> set ds \<and> is_nic kd \<and> nic_name kd = i"
proof
  assume "find_nic ds i = Some kd"
  then show "kd \<in> set ds \<and> is_nic kd \<and> nic_name kd = i"
    by (auto simp: find_nic_def find_Some_iff)
next
  assume kd: "kd \<in> set ds \<and> is_nic kd \<and> nic_name kd = i"
  then obtain kd' where "find_nic ds i = Some kd'"
    unfolding find_nic_def by (metis (mono_tags, lifting) find_None_iff option.exhaust)
  then have "kd' \<in> set ds \<and> is_nic kd' \<and> nic_name kd' = i"
    by (auto simp: find_nic_def find_Some_iff)
  with kd assms have "kd' = kd" unfolding one_nic_def by blast
  with \<open>find_nic ds i = Some kd'\<close> show "find_nic ds i = Some kd" by simp
qed

lemma expanded_set:
  "expands_profile profile own_devs ds \<Longrightarrow>
     (k, d) \<in> set ds \<longleftrightarrow> (map_of profile ++ map_of own_devs) k = Some d"
  using map_of_eq_Some_iff [of ds k d] by (simp add: expands_profile_def)

text \<open>Writing one interface leaves it the only one of its name, when no other device had that.\<close>

lemma find_nic_written:
  assumes old: "expands_profile profile (inst_devices p) ds0"
    and others: "\<And>k d. (k, d) \<in> set ds0 \<Longrightarrow> is_nic (k, d) \<Longrightarrow> nic_name (k, d) = i \<Longrightarrow> k = key"
    and new: "expands_profile profile devs' ds" "map_of devs' key = Some dev"
      "\<And>k. k \<noteq> key \<Longrightarrow> map_of devs' k = map_of (inst_devices p) k"
    and nic: "is_nic (key, dev)" "nic_name (key, dev) = i"
  shows "find_nic ds i = Some (key, dev)"
proof -
  have key: "(key, d) \<in> set ds \<longleftrightarrow> d = dev" for d
    using new(2) by (auto simp: expanded_set [OF new(1)] map_add_def)
  have rest: "(k, d) \<in> set ds \<longleftrightarrow> (k, d) \<in> set ds0" if "k \<noteq> key" for k d
    using that new(3) by (simp add: expanded_set [OF new(1)] expanded_set [OF old] map_add_def)
  have "one_nic ds i"
    unfolding one_nic_def using key rest others by (metis prod.exhaust)
  then show ?thesis using key nic by (simp add: find_nic_iff)
qed

text \<open>
  What \<open>Configure\<close> leaves of one device that was to be set, when nothing was refused: a device
  that says the same, whether or not it had to be written.
\<close>

definition after_put :: "instance_put option \<Rightarrow> instance_put \<Rightarrow> instance_put" where
  "after_put put p = (case put of None \<Rightarrow> p | Some q \<Rightarrow> q)"

lemma configure_device:
  assumes "configure (Inr p) update [] [(key, Some d)] = (put, Inr changed)"
    and "no_blanks d" "d \<noteq> []" "\<forall>k e. map_of (inst_devices p) k = Some e \<longrightarrow> no_blanks e"
  shows "\<exists>dev. map_of (inst_devices (after_put put p)) key = Some dev \<and> map_of dev = map_of d"
    "k \<noteq> key \<Longrightarrow> map_of (inst_devices (after_put put p)) k = map_of (inst_devices p) k"
    "inst_config (after_put put p) = inst_config p"
proof -
  obtain p1 ch where m: "merge_put [] [(key, Some d)] p = (p1, ch)" by force
  note one = merge_one_device [OF m]
  have "(\<exists>dev. map_of (inst_devices (after_put put p)) key = Some dev \<and> map_of dev = map_of d)
    \<and> (k \<noteq> key \<longrightarrow> map_of (inst_devices (after_put put p)) k = map_of (inst_devices p) k)
    \<and> inst_config (after_put put p) = inst_config p" for k
  proof (cases ch)
    case True
    with m assms(1) have "after_put put p = p1"
      by (auto simp: configure_def after_put_def split: option.splits)
    with one True show ?thesis by auto
  next
    case False
    with m assms(1) have same: "after_put put p = p" by (auto simp: configure_def after_put_def)
    obtain e where e: "map_of (inst_devices p) key = Some e" "same_device e d"
      using one(3) [OF False] assms(3) by (cases "map_of (inst_devices p) key") (auto simp: same_device_def)
    with assms(2,4) have "map_of e = map_of d" by (intro same_device_eq) auto
    with e same show ?thesis by auto
  qed
  then show "\<exists>dev. map_of (inst_devices (after_put put p)) key = Some dev \<and> map_of dev = map_of d"
    "k \<noteq> key \<Longrightarrow> map_of (inst_devices (after_put put p)) k = map_of (inst_devices p) k"
    "inst_config (after_put put p) = inst_config p"
    by blast+
qed

lemma dget_cong: "map_of a = map_of b \<Longrightarrow> dget a = dget b"
  by (auto simp: dget_def)

section \<open>The bridge\<close>

definition leasing :: "('s \<Rightarrow> string \<Rightarrow> 'e + network option) \<Rightarrow> 's \<Rightarrow> string \<Rightarrow> bool" where
  "leasing network_of s b \<longleftrightarrow>
     (\<exists>n. network_of s b = Inr (Some n) \<and> net_type n = ''bridge'' \<and> managed n \<and> hands_out_leases n)"

text \<open>
  What is relied on of the server: a network it says it made is a managed bridge that hands out
  leases (it was asked for with \<open>ipv4.address=auto\<close>), and the others are as they were.
\<close>

definition creates_bridges ::
  "('s \<Rightarrow> string \<Rightarrow> 'e + network option) \<Rightarrow> (string \<Rightarrow> 's \<Rightarrow> 's \<times> 'e option) \<Rightarrow> bool" where
  "creates_bridges network_of create_bridge \<longleftrightarrow>
     (\<forall>s s' n. create_bridge n s = (s', None) \<longrightarrow>
        leasing network_of s' n \<and> (\<forall>m. m \<noteq> n \<longrightarrow> network_of s' m = network_of s m))"

lemma usable_bridge_leasing:
  "usable_bridge network_of s cs = Inr b \<Longrightarrow> b \<noteq> [] \<Longrightarrow> leasing network_of s b \<and> b \<in> set cs"
  by (induction network_of s cs rule: usable_bridge.induct)
    (auto simp: leasing_def split: sum.splits option.splits if_splits)

lemma management_bridge_cases:
  assumes "management_bridge network_of create_bridge s = (s', Inr b)"
  obtains (had) "usable_bridge network_of s candidates = Inr b" "b \<noteq> []" "s' = s"
    | (made) "usable_bridge network_of s candidates = Inr []"
        "create_bridge polyseat_bridge s = (s', None)" "b = polyseat_bridge"
    | (raced) "usable_bridge network_of s' candidates = Inr b" "b \<noteq> []"
  using assms
  by (auto simp: management_bridge_def split: sum.splits if_splits prod.splits option.splits)

lemma candidate_names [simp]: "default_bridge \<noteq> polyseat_bridge" "polyseat_bridge \<noteq> []" "default_bridge \<noteq> []"
  by (simp_all add: default_bridge_def polyseat_bridge_def)

lemma management_bridge_leasing:
  assumes "creates_bridges network_of create_bridge"
    and "management_bridge network_of create_bridge s = (s', Inr b)"
  shows "leasing network_of s' b \<and> b \<in> set candidates"
  using assms(2)
proof (cases rule: management_bridge_cases)
  case made
  with assms(1) show ?thesis by (auto simp: creates_bridges_def candidates_def)
qed (auto dest: usable_bridge_leasing)

text \<open>
  The seats that start one after the other on a host without a bridge share the one that the
  first of them made.
\<close>

lemma management_bridge_settles:
  assumes "creates_bridges network_of create_bridge"
    and "management_bridge network_of create_bridge s = (s', Inr b)"
  shows "management_bridge network_of create_bridge s' = (s', Inr b)"
proof -
  from assms(2) have "usable_bridge network_of s' candidates = Inr b \<and> b \<noteq> []"
  proof (cases rule: management_bridge_cases)
    case made
    with assms(1) have "leasing network_of s' polyseat_bridge"
      "network_of s' default_bridge = network_of s default_bridge"
      by (auto simp: creates_bridges_def)
    with made show ?thesis
      by (auto simp: candidates_def leasing_def split: sum.splits option.splits if_splits)
  qed auto
  then show ?thesis by (simp add: management_bridge_def)
qed

section \<open>The management interface\<close>

lemma management_device_facts [simp]:
  "dget (management_device b) ''network'' = b"
  "is_nic (k, management_device b)" "nic_name (k, management_device b) = mgmt_device_name"
  by (simp_all add: management_device_def is_nic_def nic_name_def dget_def mgmt_device_name_def)

lemma management_device_no_blanks: "b \<noteq> [] \<Longrightarrow> no_blanks (management_device b)"
  by (simp add: management_device_def no_blanks_def mgmt_device_name_def)

lemma leasing_usable:
  "leasing network_of s (dget d ''network'') \<Longrightarrow> dget d ''network'' \<noteq> [] \<Longrightarrow>
     management_usable (Some d) (network_of s) = Inr None"
  by (auto simp: leasing_def management_usable_def Let_def)

lemma is_nic_cong: "map_of d = map_of e \<Longrightarrow> is_nic (k, d) = is_nic (k, e)"
  "map_of d = map_of e \<Longrightarrow> nic_name (k, d) = nic_name (k, e)"
  by (simp_all add: is_nic_def nic_name_def dget_cong [of d e] Let_def)


section \<open>Moving the LAN interface\<close>

lemma lan_device_facts [simp]:
  "dget (lan_device sys u hw isol) ''hwaddr'' = hw"
  "dget (lan_device sys u hw isol) ''nictype'' =
     (if is_bridge sys u \<and> \<not> isol then ''bridged'' else ''macvlan'')"
  "is_nic (k, lan_device sys u hw isol)" "nic_name (k, lan_device sys u hw isol) = lan_device_name"
  by (simp_all add: lan_device_def dget_def is_nic_def nic_name_def lan_device_name_def)

lemma lan_device_no_blanks: "u \<noteq> [] \<Longrightarrow> no_blanks (lan_device sys u hw isol)"
  by (simp add: lan_device_def no_blanks_def lan_device_name_def)

text \<open>
  The checkbox that lets a seat and the host see each other does that and nothing
  else. After it was applied without an error the seat keeps the MAC address its interface had,
  and so its lease, and the host reaches it over the LAN exactly when the uplink is a bridge
  and the seat is not isolated; no other device of the seat has changed.
\<close>

theorem moving_the_lan_interface:
  assumes "uplink cfg m = (u, why)" "u \<noteq> []"
    and "apply_network cfg m (Inr status) (Inr p) update isol = (put, None)" "status \<noteq> []"
    and "expands_profile profile (inst_devices p) (expanded_before)"
    and "\<forall>k d. (k, d) \<in> set expanded_before \<longrightarrow> is_nic (k, d) \<longrightarrow> nic_name (k, d) = lan_device_name
           \<longrightarrow> k = lan_device_name"
    and "\<forall>k e. map_of (inst_devices p) k = Some e \<longrightarrow> no_blanks e"
    and "expands_profile profile (inst_devices (after_put put p)) ds"
  shows "lan_mac (Some (after_put put p)) = lan_mac (Some p)
    \<and> (lan_reaches_host (Some ds) \<longleftrightarrow> is_bridge (kernel_net m) u \<and> \<not> isol)
    \<and> (\<forall>k. k \<noteq> lan_device_name \<longrightarrow>
          map_of (inst_devices (after_put put p)) k = map_of (inst_devices p) k)"
proof -
  let ?d = "lan_device (kernel_net m) u (lan_mac (Some p)) isol"
  obtain changed where "configure (Inr p) update [] [(lan_device_name, Some ?d)] = (put, Inr changed)"
    using assms(1,3,4) by (auto simp: apply_network_def split: prod.splits sum.splits)
  note conf = configure_device [OF this lan_device_no_blanks [OF assms(2)] _ assms(7)]
  obtain dev where dev: "map_of (inst_devices (after_put put p)) lan_device_name = Some dev"
      "map_of dev = map_of ?d"
    using conf(1) by (auto simp: lan_device_def)
  note same = dget_cong [OF dev(2)] is_nic_cong [OF dev(2)]
  have conf': "inst_config (after_put put p) = inst_config p"
    "map_of (inst_devices (after_put put p)) k = map_of (inst_devices p) k" if "k \<noteq> lan_device_name" for k
    using conf(2,3) that by (auto simp: lan_device_def)
  have mac: "lan_mac (Some (after_put put p)) = lan_mac (Some p)"
    using dev(1) same conf'(1) [of "''eth0''"] by (simp add: lan_mac_def lan_device_name_def Let_def)
  have only: "k = lan_device_name"
    if "(k, d) \<in> set expanded_before" "is_nic (k, d)" "nic_name (k, d) = lan_device_name" for k d
    using assms(6) that by blast
  have "find_nic ds lan_device_name = Some (lan_device_name, dev)"
    using find_nic_written [OF assms(5) only assms(8) dev(1) conf'(2)] same by simp
  then have "lan_reaches_host (Some ds) \<longleftrightarrow> is_bridge (kernel_net m) u \<and> \<not> isol"
    using same by (simp add: lan_reaches_host_def)
  with mac show ?thesis using conf'(2) by blast
qed

section \<open>A host to try them on\<close>

text \<open>
  A host whose profile hangs \<open>eth0\<close> off a bridge without addresses, files it under another key,
  and has no bridge the daemon could use; its server makes the bridges it is asked for.
\<close>

type_synonym sample_server = "(string \<times> network) list"

definition sample_network_of :: "sample_server \<Rightarrow> string \<Rightarrow> unit + network option" where
  "sample_network_of s n = Inr (map_of s n)"

definition sample_create :: "string \<Rightarrow> sample_server \<Rightarrow> sample_server \<times> unit option" where
  "sample_create n s =
     (if map_of s n \<noteq> None then (s, Some ())
      else (AList.update n \<lparr>net_type = ''bridge'', managed = True,
              net_config = [(''ipv4.address'', ''10.1.2.1/24'')]\<rparr> s, None))"

definition sample_server :: sample_server where
  "sample_server =
     [(''br-lan'', \<lparr>net_type = ''bridge'', managed = True, net_config = [(''ipv4.address'', ''none'')]\<rparr>)]"

definition sample_profile :: devices where
  "sample_profile =
     [(''net0'', [(''type'', ''nic''), (''name'', ''eth0''), (''network'', ''br-lan'')]),
      (''root'', [(''type'', ''disk''), (''path'', ''/'')])]"

definition sample_put :: instance_put where
  "sample_put =
     \<lparr>inst_config = [(''volatile.eth1.hwaddr'', ''00:16:3e:01:02:03'')],
      inst_devices = [(''eth1'', [(''type'', ''nic''), (''nictype'', ''macvlan''), (''parent'', ''br0''), (''name'', ''eth1'')])]\<rparr>"

definition sample_instance :: "unit seat_instance" where
  "sample_instance = \<lparr>own = Inr sample_put, expanded = sample_profile @ inst_devices sample_put\<rparr>"

lemma sample_creates: "creates_bridges sample_network_of sample_create"
  by (auto simp: creates_bridges_def sample_create_def sample_network_of_def leasing_def update_conv'
      hands_out_leases_def dget_def split: if_splits)

lemma sample_expands:
  "expands_profile sample_profile (inst_devices sample_put) (sample_profile @ inst_devices sample_put)"
  by (auto simp: expands_profile_def sample_profile_def sample_put_def fun_eq_iff map_add_def)

lemma sample_blanks: "\<forall>k e. map_of (inst_devices sample_put) k = Some e \<longrightarrow> no_blanks e"
  by (auto simp: sample_put_def no_blanks_def split: if_splits)

lemma sample_one_nic: "one_nic (expanded sample_instance) mgmt_device_name"
  by (auto simp: one_nic_def sample_instance_def sample_profile_def sample_put_def is_nic_def nic_name_def
      dget_def mgmt_device_name_def)

definition sample_after :: instance_put where
  "sample_after = sample_put\<lparr>inst_devices := inst_devices sample_put @ [(''net0'', management_device polyseat_bridge)]\<rparr>"

lemma sample_ensured:
  "\<exists>s'. ensure_management sample_network_of sample_create (\<lambda>_. None) sample_instance sample_server =
     (s', Some sample_after, None)"
proof -
  have "snd (ensure_management sample_network_of sample_create (\<lambda>_. None) sample_instance sample_server)
      = (Some sample_after, None)"
    by code_simp
  then show ?thesis by (metis prod.collapse)
qed


definition sample_machine :: machine_net where
  "sample_machine =
     \<lparr>route_text = Some (''Iface Destination Gateway'' @ [CHR 0x0A] @ ''br0 00000000 010011AC''),
      ifaces = Some [(''lo'', True), (''br0'', False), (''enp4s0'', False)],
      kernel_net = \<lparr>there = (\<lambda>p. p = ''/sys/class/net/br0/bridge''),
        dir_there = (\<lambda>p. p = ''/sys/class/net/br0/bridge''),
        text_of = (\<lambda>_. None), link_of = (\<lambda>_. None)\<rparr>\<rparr>"

lemma moving_the_lan_interface_witness:
  "\<exists>put. apply_network default_config sample_machine (Inr ''Running'') (Inr sample_put) (\<lambda>_. None) False
       = (Some put, None :: unit option)
     \<and> lan_mac (Some put) = ''00:16:3e:01:02:03'' \<and> lan_reaches_host (Some (sample_profile @ inst_devices put))"
proof -
  define put where "put = sample_put\<lparr>inst_devices := [(''eth1'', [(''type'', ''nic''), (''nictype'', ''bridged''),
      (''parent'', ''br0''), (''name'', ''eth1''), (''hwaddr'', ''00:16:3e:01:02:03'')])]\<rparr>"
  have u: "uplink default_config sample_machine = (''br0'', CarriesDefaultRoute)" by code_simp
  have b: "is_bridge (kernel_net sample_machine) ''br0''" by code_simp
  have m: "lan_mac (Some sample_put) = ''00:16:3e:01:02:03''" by code_simp
  have r: "apply_network default_config sample_machine (Inr ''Running'') (Inr sample_put) (\<lambda>_. None) False
      = (Some put, None :: unit option)"
    unfolding put_def by code_simp
  have e: "expands_profile sample_profile (inst_devices (after_put (Some put) sample_put))
      (sample_profile @ inst_devices put)"
    by (auto simp: expands_profile_def sample_profile_def sample_put_def put_def after_put_def
        fun_eq_iff map_add_def)
  have o: "\<forall>k d. (k, d) \<in> set (sample_profile @ inst_devices sample_put) \<longrightarrow> is_nic (k, d)
      \<longrightarrow> nic_name (k, d) = lan_device_name \<longrightarrow> k = lan_device_name"
    by (auto simp: sample_profile_def sample_put_def nic_name_def dget_def lan_device_name_def)
  from moving_the_lan_interface [OF u _ r _ sample_expands o sample_blanks e] b m r
  show ?thesis by (auto simp: after_put_def)
qed

end
