(* ===== verification/Guard.thy ===== *)
theory Guard
  imports Prelude
begin

text \<open>
  What a request has to be before a handler sees it (internal/api/guard.go): where it came
  from, what it carries, how much and how fast. \<open>http.CrossOriginProtection\<close> and
  \<open>http.MaxBytesReader\<close> of the standard library are modelled with it; no route is exempted.
\<close>

text \<open>What a header parses to: absent or empty, something that does not parse, or its value.\<close>

datatype 'a header = Absent | Malformed | Value 'a

text \<open>How the body ends once what was delivered has been read.\<close>

datatype body_state = Complete | Broken | TooSlow

record request =
  http_method :: string
  url_path :: "char list"
  content_type :: "string header"
  sec_fetch_site :: string
  origin :: "string header"
  host_header :: string
  body :: string
  body_ends :: body_state

definition max_body :: nat where "max_body = 65536"
definition max_auth_body :: nat where "max_auth_body = 4096"

definition auth_paths :: "string list" where
  "auth_paths = [''/api/login'', ''/api/setup'', ''/api/password'']"

datatype refusal =
  Forbidden | UnsupportedMediaType | TooLargeBody | BadRequest

datatype guarded = Refused refusal | Handled request

text \<open>The methods nothing is asked of.\<close>

definition safe_method :: "string \<Rightarrow> bool" where
  "safe_method m \<longleftrightarrow> m = ''GET'' \<or> m = ''HEAD'' \<or> m = ''OPTIONS''"

text \<open>\<open>CrossOriginProtection.Check\<close>; an origin is the host its URL names.\<close>

definition same_origin :: "request \<Rightarrow> bool" where
  "same_origin r =
     (if safe_method (http_method r) then True
      else if sec_fetch_site r = ''same-origin'' \<or> sec_fetch_site r = ''none'' then True
      else if sec_fetch_site r \<noteq> [] then False
      else case origin r of
        Absent \<Rightarrow> True
      | Malformed \<Rightarrow> False
      | Value h \<Rightarrow> h = host_header r)"

definition is_upload :: "request \<Rightarrow> bool" where
  "is_upload r =
     (if http_method r \<noteq> ''POST'' then False
      else let parts = split_on CHR ''/'' (url_path r)
           in length parts = 5 \<and> parts ! 0 = [] \<and> parts ! 1 = ''api'' \<and> parts ! 2 = ''seats''
              \<and> parts ! 3 \<noteq> [] \<and> parts ! 4 = ''files'')"

datatype read_error = TooLarge | ReadFailed

text \<open>
  \<open>io.ReadAll\<close> over \<open>http.MaxBytesReader\<close>: one byte more than the limit is an error whatever
  follows it, and a body that breaks off or does not come before the deadline is another.
\<close>

definition read_body :: "nat \<Rightarrow> request \<Rightarrow> read_error + string" where
  "read_body limit r =
     (if limit < length (body r) then Inl TooLarge
      else if body_ends r \<noteq> Complete then Inl ReadFailed
      else Inr (body r))"

definition media_type :: "request \<Rightarrow> string option" where
  "media_type r =
     (case content_type r of Absent \<Rightarrow> Some [] | Malformed \<Rightarrow> None | Value t \<Rightarrow> Some t)"

definition requests :: "request \<Rightarrow> guarded" where
  "requests r =
     (if \<not> same_origin r then Refused Forbidden
      else if safe_method (http_method r) then Handled r
      else case media_type r of
        None \<Rightarrow> Refused UnsupportedMediaType
      | Some t \<Rightarrow>
          if is_upload r
          then (if t \<noteq> ''multipart/form-data'' then Refused UnsupportedMediaType else Handled r)
          else
            let limit = (if url_path r \<in> set auth_paths then max_auth_body else max_body)
            in if t \<noteq> ''application/json'' \<and> t \<noteq> [] then Refused UnsupportedMediaType
               else let limit = (if t = [] then 0 else limit)
                    in case read_body limit r of
                         Inl TooLarge \<Rightarrow>
                           Refused (if limit = 0 then UnsupportedMediaType else TooLargeBody)
                       | Inl ReadFailed \<Rightarrow> Refused BadRequest
                       | Inr b \<Rightarrow> Handled (r\<lparr>body := b, body_ends := Complete\<rparr>))"

text \<open>
  What another site can make a browser send here without asking: a request that changes
  something, marked as what it is, by \<open>Sec-Fetch-Site\<close> or at least by its origin.
\<close>

definition cross_site :: "request \<Rightarrow> bool" where
  "cross_site r \<longleftrightarrow>
     \<not> safe_method (http_method r)
     \<and> (sec_fetch_site r \<in> {''cross-site'', ''same-site''}
        \<or> sec_fetch_site r = [] \<and> (\<exists>h. origin r = Value h \<and> h \<noteq> host_header r))"

lemma handled_here:
  assumes "requests r = Handled r'"
  shows "\<not> cross_site r \<and> r' = r"
  using assms
  by (cases "content_type r")
    (auto simp: requests_def read_body_def media_type_def Let_def same_origin_def cross_site_def split: if_splits)

text \<open>
  Property C18: no handler sees a request another site made a browser send, and one that changes
  something reaches a handler in two shapes only. It is an upload, for the one route that takes
  files and as multipart; or its body was read whole, is no longer than the limit of its path,
  and is empty unless it says it is JSON. Nothing of the request is changed on the way.
\<close>

theorem handlers_see_guarded_requests:
  assumes "requests r = Handled r'"
  shows "\<not> cross_site r \<and> r' = r
    \<and> (safe_method (http_method r)
       \<or> is_upload r \<and> content_type r = Value ''multipart/form-data''
       \<or> \<not> is_upload r \<and> body_ends r = Complete
         \<and> length (body r) \<le> (if url_path r \<in> set auth_paths then max_auth_body else max_body)
         \<and> (body r \<noteq> [] \<longrightarrow> content_type r = Value ''application/json''))"
proof -
  have s: "same_origin r" using assms by (simp add: requests_def split: if_splits)
  have "\<not> cross_site r" using s by (auto simp: same_origin_def cross_site_def split: if_splits)
  moreover have "r' = r \<and> (safe_method (http_method r)
       \<or> is_upload r \<and> content_type r = Value ''multipart/form-data''
       \<or> \<not> is_upload r \<and> body_ends r = Complete
         \<and> length (body r) \<le> (if url_path r \<in> set auth_paths then max_auth_body else max_body)
         \<and> (body r \<noteq> [] \<longrightarrow> content_type r = Value ''application/json''))"
    using assms s
    by (cases "content_type r")
      (auto simp: requests_def read_body_def media_type_def Let_def split: if_splits)
  ultimately show ?thesis by blast
qed

definition sample_login :: request where
  "sample_login =
     \<lparr>http_method = ''POST'', url_path = ''/api/login'', content_type = Value ''application/json'',
      sec_fetch_site = ''same-origin'', origin = Value ''host:47800'', host_header = ''host:47800'',
      body = ''{}'', body_ends = Complete\<rparr>"

lemma request_examples:
  "requests sample_login = Handled sample_login"
  "requests (sample_login\<lparr>sec_fetch_site := ''cross-site''\<rparr>) = Refused Forbidden"
  "requests (sample_login\<lparr>sec_fetch_site := [], host_header := ''other''\<rparr>) = Refused Forbidden"
  "requests (sample_login\<lparr>content_type := Value ''text/plain''\<rparr>) = Refused UnsupportedMediaType"
  "requests (sample_login\<lparr>content_type := Absent\<rparr>) = Refused UnsupportedMediaType"
  "requests (sample_login\<lparr>body_ends := TooSlow\<rparr>) = Refused BadRequest"
  by (simp_all add: requests_def same_origin_def safe_method_def media_type_def is_upload_def
      sample_login_def auth_paths_def read_body_def max_auth_body_def max_body_def)

lemma handlers_see_guarded_requests_witness:
  "requests sample_login = Handled sample_login \<and> \<not> cross_site sample_login"
  using handlers_see_guarded_requests [OF request_examples(1)] request_examples(1) by simp

end
