(* ===== verification/HostPkg.thy ===== *)
theory HostPkg
  imports Filepath
begin

text \<open>
  Which package manager a host has (internal/hostpkg/hostpkg.go): the family from
  \<open>/etc/os-release\<close> or from what is on \<open>PATH\<close>, the file a release has for it, and the commands
  that ask for an owner or install a package. Running a command is an argument.
\<close>

datatype pkg_family = Arch | Debian | Fedora | Unknown

definition unquote :: "string \<Rightarrow> string" where
  "unquote s = trim_set [CHR 0x22, CHR 0x27] (trim_space s)"

fun os_release_lines :: "string list \<Rightarrow> string \<times> string \<Rightarrow> string \<times> string" where
  "os_release_lines [] acc = acc"
| "os_release_lines (l # ls) (i, like) =
     os_release_lines ls
       (case cut_prefix l ''ID='' of None \<Rightarrow> i | Some v \<Rightarrow> unquote v,
        case cut_prefix l ''ID_LIKE='' of None \<Rightarrow> like | Some v \<Rightarrow> unquote v)"

definition read_os_release :: "string option \<Rightarrow> string \<times> string" where
  "read_os_release raw =
     (case raw of None \<Rightarrow> ([], []) | Some t \<Rightarrow> os_release_lines (split_on CHR 0x0A t) ([], []))"

definition os_fields :: "string \<Rightarrow> string list" where
  "os_fields s = (if s = [] then [] else str_fields s)"

definition family_of_token :: "string \<Rightarrow> pkg_family option" where
  "family_of_token t =
     (if t = ''arch'' \<or> t = ''archlinux'' \<or> t = ''cachyos'' then Some Arch
      else if t = ''debian'' \<or> t = ''ubuntu'' then Some Debian
      else if t = ''fedora'' \<or> t = ''rhel'' \<or> t = ''centos'' then Some Fedora
      else None)"

fun first_family :: "string list \<Rightarrow> pkg_family option" where
  "first_family [] = None"
| "first_family (t # ts) =
     (case family_of_token t of Some f \<Rightarrow> Some f | None \<Rightarrow> first_family ts)"

definition detect :: "string option \<Rightarrow> (string \<Rightarrow> bool) \<Rightarrow> pkg_family" where
  "detect raw on_path =
     (case read_os_release raw of (i, like) \<Rightarrow>
        case first_family (os_fields i @ os_fields like) of
          Some f \<Rightarrow> f
        | None \<Rightarrow>
            if on_path ''pacman'' then Arch
            else if on_path ''apt-get'' then Debian
            else if on_path ''dnf'' then Fedora
            else Unknown)"

definition pkg_manager :: "pkg_family \<Rightarrow> string" where
  "pkg_manager f =
     (case f of Arch \<Rightarrow> ''pacman'' | Debian \<Rightarrow> ''apt'' | Fedora \<Rightarrow> ''dnf''
      | Unknown \<Rightarrow> ''the package manager'')"

definition release_asset :: "pkg_family \<Rightarrow> string" where
  "release_asset f =
     (case f of Arch \<Rightarrow> ''polyseat-x86_64.pkg.tar.zst'' | Debian \<Rightarrow> ''polyseat_amd64.deb''
      | Fedora \<Rightarrow> ''polyseat.x86_64.rpm'' | Unknown \<Rightarrow> [])"

text \<open>\<open>Owns\<close>: the command that asks the local database; it succeeds for a file it owns.\<close>

definition owner_query :: "pkg_family \<Rightarrow> string \<Rightarrow> string list option" where
  "owner_query f path =
     (case f of
        Arch \<Rightarrow> Some [''pacman'', ''-Qo'', ''--'', path]
      | Debian \<Rightarrow> Some [''dpkg'', ''-S'', ''--'', path]
      | Fedora \<Rightarrow> Some [''rpm'', ''-qf'', ''--'', path]
      | Unknown \<Rightarrow> None)"

definition owns ::
  "(string list \<Rightarrow> bool) \<Rightarrow> (string \<Rightarrow> string option) \<Rightarrow> pkg_family \<Rightarrow> string \<Rightarrow> bool" where
  "owns run eval_symlinks f path =
     (let path = (case eval_symlinks path of None \<Rightarrow> path | Some p \<Rightarrow> p)
      in case owner_query f path of None \<Rightarrow> False | Some argv \<Rightarrow> run argv)"

datatype install_error = UnknownManager | RefusedPackage string

definition install_command :: "pkg_family \<Rightarrow> string \<Rightarrow> string list option" where
  "install_command f file =
     (case f of
        Arch \<Rightarrow> Some [''pacman'', ''-U'', ''--noconfirm'', ''--'', file]
      | Debian \<Rightarrow> Some [''apt-get'', ''install'', ''-y'', file]
      | Fedora \<Rightarrow> Some [''dnf'', ''install'', ''-y'', file]
      | Unknown \<Rightarrow> None)"

text \<open>\<open>filepath.Abs\<close> of a relative name joins it to the working directory, where that is known.\<close>

definition absolute :: "string option \<Rightarrow> string \<Rightarrow> string" where
  "absolute cwd file =
     (if is_abs file then path_clean file
      else case cwd of None \<Rightarrow> file | Some d \<Rightarrow> path_join [d, file])"

definition install_file ::
  "(string list \<Rightarrow> string \<times> bool) \<Rightarrow> string option \<Rightarrow> pkg_family \<Rightarrow> string
     \<Rightarrow> string \<times> install_error option" where
  "install_file run cwd f file =
     (case install_command f (absolute cwd file) of
        None \<Rightarrow> ([], Some UnknownManager)
      | Some argv \<Rightarrow>
          (case run argv of (out', success) \<Rightarrow>
             (out', if success then None else Some (RefusedPackage (pkg_manager f)))))"

lemma path_clean_abs: "is_abs p \<Longrightarrow> is_abs (path_clean p)"
  by (simp add: path_clean_def is_abs_def)

text \<open>
  What is installed is a path and never a name: the last argument starts with a slash, so no
  package manager takes it for an option or for a package of that name, whenever the working
  directory is known.
\<close>

lemma install_command_path:
  assumes "install_command f (absolute (Some d) file) = Some argv" "is_abs d" "d \<noteq> []"
  shows "is_abs (last argv)"
proof -
  have "is_abs (absolute (Some d) file)"
  proof (cases "is_abs file")
    case False
    have "is_abs (join ''/'' (filter (\<lambda>p. p \<noteq> []) [d, file]))"
      using assms(2,3) is_abs_append [of d] by (cases "file = []") auto
    then show ?thesis using False assms(3) by (simp add: absolute_def path_join_def path_clean_abs)
  qed (simp add: absolute_def path_clean_abs)
  with assms(1) show ?thesis by (auto simp: install_command_def split: pkg_family.splits)
qed

text \<open>A host no release can be installed on has no asset and no command, and the other way round.\<close>

lemma release_asset_iff: "release_asset f = [] \<longleftrightarrow> install_command f file = None"
  by (cases f) (simp_all add: release_asset_def install_command_def)

lemma detect_examples:
  "detect (Some (''NAME=x'' @ [CHR 0x0A] @ ''ID='' @ [CHR 0x22] @ ''manjaro'' @ [CHR 0x22, CHR 0x0A] @ ''ID_LIKE=arch'')) (\<lambda>_. False) = Arch"
  "detect (Some ''ID=linuxmint'') (\<lambda>b. b = ''apt-get'') = Debian"
  "detect None (\<lambda>_. False) = Unknown"
  by code_simp+

end
