(* ===== verification/Lanes.thy ===== *)
theory Lanes
  imports Prelude
begin

text \<open>
  What keeps a reading of a seat and an operation on it apart (internal/seat/manager.go:
  \<open>lane\<close>, \<open>enter\<close>, \<open>claim\<close>, \<open>quiesce\<close>, \<open>operate\<close>). Readings run on goroutines of their own, each
  holding one of three lanes; an operation claims the seat, tells the readings to stop and
  waits for them. One step is one section under a lock, or one call between two of them.
\<close>

datatype lane = Sweep | Apps | Asking

definition lanes :: "lane list" where
  "lanes = [Sweep, Apps, Asking]"

text \<open>Where a reading is, and where an operation is.\<close>

datatype reading =
    NoReading
  | Entering lane bool   \<comment> \<open>before the lane's lock; whether it waits for it\<close>
  | Looking lane         \<comment> \<open>it holds the lane and has not looked at the seat yet\<close>
  | Reading lane         \<comment> \<open>it talks to the container\<close>
  | Leaving lane         \<comment> \<open>its cancel is gone, the lane is still held\<close>

datatype operation =
    NoOperation
  | Telling "nat list"   \<comment> \<open>the readings it has still to cancel\<close>
  | Waiting "lane list"  \<comment> \<open>the lanes it has still to wait for\<close>
  | Working              \<comment> \<open>its own work on the seat\<close>

record seat_runtime =
  busy :: string
  state_stopping :: bool             \<comment> \<open>\<open>rt.state == StateStopping\<close>\<close>
  lane_holder :: "lane \<Rightarrow> nat option"   \<comment> \<open>who holds the lane's mutex\<close>
  lane_cancel :: "lane \<Rightarrow> nat option"   \<comment> \<open>whose cancel stands in the lane\<close>
  reading :: "nat \<Rightarrow> reading"
  told :: "nat \<Rightarrow> bool"                \<comment> \<open>whose context is cancelled\<close>
  operation :: "nat \<Rightarrow> operation"

definition new_runtime :: seat_runtime where
  "new_runtime =
     \<lparr>busy = [], state_stopping = False, lane_holder = (\<lambda>_. None), lane_cancel = (\<lambda>_. None),
      reading = (\<lambda>_. NoReading), told = (\<lambda>_. False), operation = (\<lambda>_. NoOperation)\<rparr>"

definition at_reading :: "nat \<Rightarrow> reading \<Rightarrow> seat_runtime \<Rightarrow> seat_runtime" where
  "at_reading r pc s = s\<lparr>reading := (reading s)(r := pc)\<rparr>"

definition at_operation :: "nat \<Rightarrow> operation \<Rightarrow> seat_runtime \<Rightarrow> seat_runtime" where
  "at_operation p pc s = s\<lparr>operation := (operation s)(p := pc)\<rparr>"

definition hold :: "lane \<Rightarrow> nat option \<Rightarrow> seat_runtime \<Rightarrow> seat_runtime" where
  "hold l who s = s\<lparr>lane_holder := (lane_holder s)(l := who)\<rparr>"

text \<open>
  \<open>enter\<close> under \<open>mu\<close>: a seat that is busy or stopping turns the reading away; otherwise it gets a
  context of its own, and the way to cancel it stands in the lane.
\<close>

definition look :: "nat \<Rightarrow> lane \<Rightarrow> seat_runtime \<Rightarrow> seat_runtime" where
  "look r l s =
     (if busy s \<noteq> [] \<or> state_stopping s then at_reading r NoReading (hold l None s)
      else at_reading r (Reading l)
             (s\<lparr>lane_cancel := (lane_cancel s)(l := Some r), told := (told s)(r := False)\<rparr>))"

text \<open>\<open>end\<close>: first the cancel goes, under \<open>mu\<close>, then the lane is let go.\<close>

definition end_reading :: "nat \<Rightarrow> lane \<Rightarrow> seat_runtime \<Rightarrow> seat_runtime" where
  "end_reading r l s = at_reading r (Leaving l) (s\<lparr>lane_cancel := (lane_cancel s)(l := None)\<rparr>)"

definition release :: "nat \<Rightarrow> lane \<Rightarrow> seat_runtime \<Rightarrow> seat_runtime" where
  "release r l s = at_reading r NoReading (hold l None s)"

text \<open>\<open>claim\<close> under \<open>mu\<close>: \<open>ErrBusy\<close>, or the seat is taken and the readings to cancel are collected.\<close>

definition readings :: "seat_runtime \<Rightarrow> nat list" where
  "readings s = List.map_filter (lane_cancel s) lanes"

definition claim_seat :: "nat \<Rightarrow> string \<Rightarrow> seat_runtime \<Rightarrow> seat_runtime option" where
  "claim_seat p lbl s =
     (if busy s \<noteq> [] then None else Some (at_operation p (Telling (readings s)) (s\<lparr>busy := lbl\<rparr>)))"

text \<open>What \<open>operate\<close> does once the work has returned.\<close>

definition finish :: "nat \<Rightarrow> seat_runtime \<Rightarrow> seat_runtime" where
  "finish p s = at_operation p NoOperation (s\<lparr>busy := []\<rparr>)"

text \<open>
  The steps. The state of the seat can be set by anybody at any time; an operation's label is
  never empty. Waiting for a lane locks it and lets it go at once, which is one step here.
\<close>

inductive lane_step :: "seat_runtime \<Rightarrow> seat_runtime \<Rightarrow> bool" where
  arrives: "reading s r = NoReading \<Longrightarrow> lane_step s (at_reading r (Entering l w) s)"
| locks: "reading s r = Entering l w \<Longrightarrow> lane_holder s l = None \<Longrightarrow>
    lane_step s (at_reading r (Looking l) (hold l (Some r) s))"
| gives_up: "reading s r = Entering l False \<Longrightarrow> lane_holder s l \<noteq> None \<Longrightarrow>
    lane_step s (at_reading r NoReading s)"
| looks: "reading s r = Looking l \<Longrightarrow> lane_step s (look r l s)"
| ends: "reading s r = Reading l \<Longrightarrow> lane_step s (end_reading r l s)"
| unlocks: "reading s r = Leaving l \<Longrightarrow> lane_step s (release r l s)"
| claims: "operation s p = NoOperation \<Longrightarrow> lbl \<noteq> [] \<Longrightarrow> claim_seat p lbl s = Some t \<Longrightarrow> lane_step s t"
| tells: "operation s p = Telling (r # rs) \<Longrightarrow>
    lane_step s (at_operation p (Telling rs) (s\<lparr>told := (told s)(r := True)\<rparr>))"
| told_all: "operation s p = Telling [] \<Longrightarrow> lane_step s (at_operation p (Waiting lanes) s)"
| passes: "operation s p = Waiting (l # ls) \<Longrightarrow> lane_holder s l = None \<Longrightarrow>
    lane_step s (at_operation p (Waiting ls) s)"
| works: "operation s p = Waiting [] \<Longrightarrow> lane_step s (at_operation p Working s)"
| finishes: "operation s p = Working \<Longrightarrow> lane_step s (finish p s)"
| sets_state: "lane_step s (s\<lparr>state_stopping := b\<rparr>)"

inductive lane_reach :: "seat_runtime \<Rightarrow> bool" where
  at_first: "lane_reach new_runtime"
| goes_on: "lane_reach s \<Longrightarrow> lane_step s t \<Longrightarrow> lane_reach t"

section \<open>The invariant\<close>

lemma at_simps [simp]:
  "busy (at_reading r pc s) = busy s" "state_stopping (at_reading r pc s) = state_stopping s"
  "lane_holder (at_reading r pc s) = lane_holder s" "lane_cancel (at_reading r pc s) = lane_cancel s"
  "reading (at_reading r pc s) = (reading s)(r := pc)" "told (at_reading r pc s) = told s"
  "operation (at_reading r pc s) = operation s"
  "busy (at_operation p po s) = busy s" "state_stopping (at_operation p po s) = state_stopping s"
  "lane_holder (at_operation p po s) = lane_holder s" "lane_cancel (at_operation p po s) = lane_cancel s"
  "reading (at_operation p po s) = reading s" "told (at_operation p po s) = told s"
  "operation (at_operation p po s) = (operation s)(p := po)"
  by (simp_all add: at_reading_def at_operation_def)

lemma hold_simps [simp]:
  "busy (hold l who s) = busy s" "state_stopping (hold l who s) = state_stopping s"
  "lane_holder (hold l who s) = (lane_holder s)(l := who)" "lane_cancel (hold l who s) = lane_cancel s"
  "reading (hold l who s) = reading s" "told (hold l who s) = told s"
  "operation (hold l who s) = operation s"
  by (simp_all add: hold_def)

lemma set_lanes [simp]: "l \<in> set lanes"
  by (cases l) (simp_all add: lanes_def)

lemma set_readings: "r \<in> set (readings s) \<longleftrightarrow> (\<exists>l. lane_cancel s l = Some r)"
  by (force simp: readings_def List.map_filter_def)

text \<open>The lane a reading holds.\<close>

definition held_lane :: "reading \<Rightarrow> lane option" where
  "held_lane pc = (case pc of Looking l \<Rightarrow> Some l | Reading l \<Rightarrow> Some l | Leaving l \<Rightarrow> Some l | _ \<Rightarrow> None)"

lemma held_lane_simps [simp]:
  "held_lane NoReading = None" "held_lane (Entering l w) = None" "held_lane (Looking l) = Some l"
  "held_lane (Reading l) = Some l" "held_lane (Leaving l) = Some l"
  by (simp_all add: held_lane_def)

text \<open>What an operation that has come so far has achieved against the readings.\<close>

definition kept_off :: "seat_runtime \<Rightarrow> operation \<Rightarrow> nat \<Rightarrow> lane \<Rightarrow> bool" where
  "kept_off s pc r l =
     (case pc of
        NoOperation \<Rightarrow> True
      | Telling rs \<Rightarrow> r \<in> set rs \<or> told s r
      | Waiting ls \<Rightarrow> l \<in> set ls \<and> told s r
      | Working \<Rightarrow> False)"

definition lane_inv :: "seat_runtime \<Rightarrow> bool" where
  "lane_inv s \<longleftrightarrow>
     (\<forall>r l. held_lane (reading s r) = Some l \<longleftrightarrow> lane_holder s l = Some r)
     \<and> (\<forall>r l. reading s r = Reading l \<longleftrightarrow> lane_cancel s l = Some r)
     \<and> (\<forall>p q. operation s p \<noteq> NoOperation \<longrightarrow> operation s q \<noteq> NoOperation \<longrightarrow> p = q)
     \<and> (\<forall>p. operation s p \<noteq> NoOperation \<longrightarrow> busy s \<noteq> [])
     \<and> (\<forall>p r l. reading s r = Reading l \<longrightarrow> kept_off s (operation s p) r l)"

lemma lane_inv_held: "lane_inv s \<Longrightarrow> held_lane (reading s r) = Some l \<longleftrightarrow> lane_holder s l = Some r"
  and lane_inv_cancel: "lane_inv s \<Longrightarrow> reading s r = Reading l \<longleftrightarrow> lane_cancel s l = Some r"
  and lane_inv_one: "lane_inv s \<Longrightarrow> operation s p \<noteq> NoOperation \<Longrightarrow> operation s q \<noteq> NoOperation \<Longrightarrow> p = q"
  and lane_inv_busy: "lane_inv s \<Longrightarrow> operation s p \<noteq> NoOperation \<Longrightarrow> busy s \<noteq> []"
  and lane_inv_off: "lane_inv s \<Longrightarrow> reading s r = Reading l \<Longrightarrow> kept_off s (operation s p) r l"
  unfolding lane_inv_def by blast+

lemma lane_invI:
  assumes "\<And>r l. held_lane (reading s r) = Some l \<longleftrightarrow> lane_holder s l = Some r"
    and "\<And>r l. reading s r = Reading l \<longleftrightarrow> lane_cancel s l = Some r"
    and "\<And>p q. operation s p \<noteq> NoOperation \<Longrightarrow> operation s q \<noteq> NoOperation \<Longrightarrow> p = q"
    and "\<And>p. operation s p \<noteq> NoOperation \<Longrightarrow> busy s \<noteq> []"
    and "\<And>p r l. reading s r = Reading l \<Longrightarrow> kept_off s (operation s p) r l"
  shows "lane_inv s"
  using assms unfolding lane_inv_def by blast

lemma lane_inv_unique:
  "lane_inv s \<Longrightarrow> held_lane (reading s r) = Some l \<Longrightarrow> held_lane (reading s r') = Some l \<Longrightarrow> r' = r"
  using lane_inv_held by (metis option.inject)

lemma kept_off_cong: "told s = told t \<Longrightarrow> kept_off s pc r l = kept_off t pc r l"
  by (simp add: kept_off_def split: operation.split)

text \<open>
  A step of a reading that does not begin one, and a step of an operation, keep the invariant
  because each half of it speaks of one of them.
\<close>

lemma reading_moves:
  assumes "lane_inv s"
    and "\<And>r l. held_lane (reading t r) = Some l \<longleftrightarrow> lane_holder t l = Some r"
    and "\<And>r l. reading t r = Reading l \<longleftrightarrow> lane_cancel t l = Some r"
    and "\<And>r l. reading t r = Reading l \<Longrightarrow> reading s r = Reading l"
    and "operation t = operation s" "busy t = busy s" "told t = told s"
  shows "lane_inv t"
proof (rule lane_invI)
  fix p q
  show "operation t p \<noteq> NoOperation \<Longrightarrow> operation t q \<noteq> NoOperation \<Longrightarrow> p = q"
    using assms(5) lane_inv_one [OF assms(1)] by simp
  show "operation t p \<noteq> NoOperation \<Longrightarrow> busy t \<noteq> []"
    using assms(5,6) lane_inv_busy [OF assms(1)] by simp
  show "kept_off t (operation t p) r l" if "reading t r = Reading l" for r l
    using assms(5) lane_inv_off [OF assms(1) assms(4) [OF that], of p] kept_off_cong [OF assms(7)]
    by simp
qed (use assms(2,3) in auto)

lemma operation_moves:
  assumes "lane_inv s"
    and "reading t = reading s" "lane_holder t = lane_holder s" "lane_cancel t = lane_cancel s"
    and "\<And>q. q \<noteq> p \<Longrightarrow> operation t q = NoOperation"
    and "operation t p \<noteq> NoOperation \<Longrightarrow> busy t \<noteq> []"
    and "\<And>r l. reading s r = Reading l \<Longrightarrow> kept_off t (operation t p) r l"
  shows "lane_inv t"
proof (rule lane_invI)
  fix p' q
  show "operation t p' \<noteq> NoOperation \<Longrightarrow> operation t q \<noteq> NoOperation \<Longrightarrow> p' = q"
    using assms(5) by metis
  show "operation t p' \<noteq> NoOperation \<Longrightarrow> busy t \<noteq> []" using assms(5,6) by metis
  show "kept_off t (operation t p') r l" if "reading t r = Reading l" for r l
    using that assms(2,5,7) by (cases "p' = p") (auto simp: kept_off_def)
qed (use assms(2-4) lane_inv_held [OF assms(1)] lane_inv_cancel [OF assms(1)] in simp_all)

lemma alone:
  "lane_inv s \<Longrightarrow> operation s p \<noteq> NoOperation \<Longrightarrow> q \<noteq> p \<Longrightarrow> operation s q = NoOperation"
  using lane_inv_one by blast

lemma lane_inv_step:
  assumes "lane_step s t" "lane_inv s"
  shows "lane_inv t"
  using assms
proof (cases rule: lane_step.cases)
  case (arrives r l w)
  then show ?thesis
    using lane_inv_held [OF assms(2), symmetric] lane_inv_cancel [OF assms(2), symmetric]
    by (intro reading_moves [OF assms(2)]) (auto split: if_splits)
next
  case (locks r l w)
  then have "held_lane (reading s r') \<noteq> Some l" for r'
    using lane_inv_held [OF assms(2), of r' l] by simp
  with locks show ?thesis
    using lane_inv_held [OF assms(2), symmetric] lane_inv_cancel [OF assms(2), symmetric]
    by (intro reading_moves [OF assms(2)]) (auto split: if_splits)
next
  case (gives_up r l)
  then show ?thesis
    using lane_inv_held [OF assms(2), symmetric] lane_inv_cancel [OF assms(2), symmetric]
    by (intro reading_moves [OF assms(2)]) (auto split: if_splits)
next
  case (looks r l)
  note h = lane_inv_held [OF assms(2), symmetric] and c = lane_inv_cancel [OF assms(2), symmetric]
  have own: "r' \<noteq> r \<Longrightarrow> held_lane (reading s r') \<noteq> Some l" for r'
    using looks(2) lane_inv_unique [OF assms(2), of r l r'] by auto
  show ?thesis
  proof (cases "busy s \<noteq> [] \<or> state_stopping s")
    case True
    with looks h c own show ?thesis
      by (intro reading_moves [OF assms(2)]) (auto simp: look_def split: if_splits)
  next
    case False
    then have none: "operation s p = NoOperation" for p using lane_inv_busy [OF assms(2)] by blast
    have t: "t = at_reading r (Reading l)
        (s\<lparr>lane_cancel := (lane_cancel s)(l := Some r), told := (told s)(r := False)\<rparr>)"
      using looks(1) False by (simp add: look_def)
    show ?thesis
    proof (rule lane_invI)
      fix r' l'
      show "held_lane (reading t r') = Some l' \<longleftrightarrow> lane_holder t l' = Some r'"
        using t h looks(2) by auto
      show "reading t r' = Reading l' \<longleftrightarrow> lane_cancel t l' = Some r'"
      proof (cases "r' = r")
        case True
        then show ?thesis using t looks(2) c [of l' r] by (cases "l' = l") simp_all
      next
        case False
        with own [of r'] have "reading s r' \<noteq> Reading l" by auto
        with False show ?thesis using t c [of l' r'] by (cases "l' = l") auto
      qed
    qed (use t none in \<open>simp_all add: kept_off_def\<close>)
  qed
next
  case (ends r l)
  then have "r' \<noteq> r \<Longrightarrow> reading s r' \<noteq> Reading l" for r'
    using lane_inv_unique [OF assms(2), of r l r'] by auto
  with ends show ?thesis
    using lane_inv_held [OF assms(2), symmetric] lane_inv_cancel [OF assms(2), symmetric]
    by (intro reading_moves [OF assms(2)]) (auto simp: end_reading_def split: if_splits)
next
  case (unlocks r l)
  then have "r' \<noteq> r \<Longrightarrow> held_lane (reading s r') \<noteq> Some l" for r'
    using lane_inv_unique [OF assms(2), of r l r'] by auto
  with unlocks show ?thesis
    using lane_inv_held [OF assms(2), symmetric] lane_inv_cancel [OF assms(2), symmetric]
    by (intro reading_moves [OF assms(2)]) (auto simp: release_def split: if_splits)
next
  case (claims p lbl)
  then have t: "t = at_operation p (Telling (readings s)) (s\<lparr>busy := lbl\<rparr>)" "busy s = []"
    by (auto simp: claim_seat_def split: if_splits)
  then have "operation s q = NoOperation" for q using lane_inv_busy [OF assms(2)] by blast
  with t claims show ?thesis
    using lane_inv_cancel [OF assms(2)]
    by (intro operation_moves [OF assms(2), of _ p]) (auto simp: kept_off_def set_readings)
next
  case (tells p r rs)
  then show ?thesis
    using alone [OF assms(2), of p] lane_inv_busy [OF assms(2), of p] lane_inv_off [OF assms(2), of _ _ p]
    by (intro operation_moves [OF assms(2), of _ p]) (auto simp: kept_off_def)
next
  case (told_all p)
  then show ?thesis
    using alone [OF assms(2), of p] lane_inv_busy [OF assms(2), of p] lane_inv_off [OF assms(2), of _ _ p]
    by (intro operation_moves [OF assms(2), of _ p]) (auto simp: kept_off_def)
next
  case (passes p l ls)
  then have free: "reading s r \<noteq> Reading l" for r
    using lane_inv_held [OF assms(2), of r l] by auto
  have "l' \<in> set ls \<and> told s r" if "reading s r = Reading l'" for r l'
    using lane_inv_off [OF assms(2) that, of p] passes(2) free [of r] that by (auto simp: kept_off_def)
  with passes show ?thesis
    using alone [OF assms(2), of p] lane_inv_busy [OF assms(2), of p]
    by (intro operation_moves [OF assms(2), of _ p]) (simp_all add: kept_off_def)
next
  case (works p)
  then show ?thesis
    using alone [OF assms(2), of p] lane_inv_busy [OF assms(2), of p] lane_inv_off [OF assms(2), of _ _ p]
    by (intro operation_moves [OF assms(2), of _ p]) (auto simp: kept_off_def)
next
  case (finishes p)
  then show ?thesis
    using alone [OF assms(2), of p]
    by (intro operation_moves [OF assms(2), of _ p]) (auto simp: kept_off_def finish_def)
next
  case (sets_state b)
  then show ?thesis
    using lane_inv_held [OF assms(2), symmetric] lane_inv_cancel [OF assms(2), symmetric]
    by (intro reading_moves [OF assms(2)]) auto
qed

lemma lane_reach_inv: "lane_reach s \<Longrightarrow> lane_inv s"
proof (induction rule: lane_reach.induct)
  case at_first
  show ?case by (simp add: lane_inv_def new_runtime_def kept_off_def)
qed (rule lane_inv_step)

text \<open>
  Property C20: no reading of a seat shares a moment with an operation on it. Whatever the
  goroutines do, while an operation does its work nothing reads the seat, there is never more
  than one operation, and a reading that is still under way while an operation waits has been
  told to stop.
\<close>

theorem no_reading_during_an_operation:
  assumes "lane_reach s"
  shows "(operation s p = Working \<longrightarrow> reading s r \<noteq> Reading l)
    \<and> (operation s p \<noteq> NoOperation \<longrightarrow> operation s q \<noteq> NoOperation \<longrightarrow> p = q)
    \<and> (operation s p = Waiting ls \<longrightarrow> reading s r = Reading l \<longrightarrow> told s r)"
proof -
  have inv: "lane_inv s" using assms by (rule lane_reach_inv)
  have off: "kept_off s (operation s p) r l" if "reading s r = Reading l"
    using that by (rule lane_inv_off [OF inv])
  show ?thesis using off lane_inv_one [OF inv, of p q] by (auto simp: kept_off_def)
qed

section \<open>An operation gets its seat\<close>

abbreviation lane_steps :: "seat_runtime \<Rightarrow> seat_runtime \<Rightarrow> bool" where
  "lane_steps \<equiv> lane_step\<^sup>*\<^sup>*"

text \<open>A lane can always be let go of: whoever holds it has at most three steps to take.\<close>

lemma leaving_frees:
  "reading s r = Leaving l \<Longrightarrow>
     \<exists>t. lane_steps s t \<and> lane_holder t l = None \<and> operation t = operation s"
  by (intro exI [of _ "release r l s"]) (auto simp: release_def dest: unlocks)

lemma reading_frees:
  assumes "reading s r = Reading l"
  shows "\<exists>t. lane_steps s t \<and> lane_holder t l = None \<and> operation t = operation s"
proof -
  have "reading (end_reading r l s) r = Leaving l" "operation (end_reading r l s) = operation s"
    by (simp_all add: end_reading_def)
  with leaving_frees [of "end_reading r l s" r l] ends [OF assms] show ?thesis
    by (metis converse_rtranclp_into_rtranclp)
qed

lemma lane_frees:
  assumes "lane_inv s"
  shows "\<exists>t. lane_steps s t \<and> lane_holder t l = None \<and> operation t = operation s"
proof (cases "lane_holder s l")
  case None
  then show ?thesis by blast
next
  case (Some r)
  then have "held_lane (reading s r) = Some l" using lane_inv_held [OF assms] by simp
  then consider "reading s r = Looking l" | "reading s r = Reading l" | "reading s r = Leaving l"
    by (cases "reading s r") auto
  then show ?thesis
  proof cases
    case 1
    have op: "operation (look r l s) = operation s" by (simp add: look_def)
    show ?thesis
    proof (cases "busy s \<noteq> [] \<or> state_stopping s")
      case True
      then have "lane_holder (look r l s) l = None" by (simp add: look_def)
      with op looks [OF 1] show ?thesis by blast
    next
      case False
      then have "reading (look r l s) r = Reading l" by (simp add: look_def)
      with reading_frees [of "look r l s" r l] op looks [OF 1] show ?thesis
        by (metis converse_rtranclp_into_rtranclp)
    qed
  qed (use reading_frees leaving_frees in auto)
qed

lemma lane_steps_inv: "lane_steps s t \<Longrightarrow> lane_inv s \<Longrightarrow> lane_inv t"
  by (induction rule: rtranclp_induct) (auto intro: lane_inv_step)

lemma waiting_works:
  "operation s p = Waiting ls \<Longrightarrow> lane_inv s \<Longrightarrow> \<exists>t. lane_steps s t \<and> operation t p = Working"
proof (induction ls arbitrary: s)
  case Nil
  then show ?case using works [OF Nil(1)] by (intro exI [of _ "at_operation p Working s"]) auto
next
  case (Cons l ls)
  obtain t where t: "lane_steps s t" "lane_holder t l = None" "operation t = operation s"
    using lane_frees [OF Cons.prems(2)] by blast
  let ?u = "at_operation p (Waiting ls) t"
  have "lane_step t ?u" using Cons.prems(1) t(2,3) by (intro passes) simp_all
  with t(1) have su: "lane_steps s ?u" by simp
  then have "lane_inv ?u" using Cons.prems(2) by (rule lane_steps_inv)
  then obtain v where "lane_steps ?u v" "operation v p = Working"
    using Cons.IH [of ?u] by auto
  with su show ?case by (meson rtranclp_trans)
qed

lemma telling_works:
  "operation s p = Telling rs \<Longrightarrow> lane_inv s \<Longrightarrow> \<exists>t. lane_steps s t \<and> operation t p = Working"
proof (induction rs arbitrary: s)
  case Nil
  let ?u = "at_operation p (Waiting lanes) s"
  have "lane_step s ?u" using Nil(1) by (rule told_all)
  with waiting_works [of ?u p lanes] lane_inv_step [OF _ Nil(2)] show ?case
    by (metis at_simps(14) converse_rtranclp_into_rtranclp fun_upd_same)
next
  case (Cons r rs)
  let ?u = "at_operation p (Telling rs) (s\<lparr>told := (told s)(r := True)\<rparr>)"
  have "lane_step s ?u" using Cons.prems(1) by (rule tells)
  with Cons.IH [of ?u] lane_inv_step [OF _ Cons.prems(2)] show ?case
    by (metis at_simps(14) converse_rtranclp_into_rtranclp fun_upd_same)
qed

text \<open>
  An operation that has claimed a seat can always come to its work: from every
  reachable state there are steps by which the readings let go of the lanes it waits for. The
  lanes, the look at \<open>busy\<close> and the order of the waits cannot lock each other out.
\<close>

theorem claimed_seat_can_be_worked_on:
  assumes "lane_reach s" "operation s p \<noteq> NoOperation"
  shows "\<exists>t. lane_steps s t \<and> operation t p = Working"
  using assms lane_reach_inv [OF assms(1)] telling_works waiting_works
  by (cases "operation s p") blast+

section \<open>A sweep that an operation interrupts\<close>

definition sample_sweep :: seat_runtime where
  "sample_sweep =
     look 0 Sweep (at_reading 0 (Looking Sweep) (hold Sweep (Some 0)
       (at_reading 0 (Entering Sweep False) new_runtime)))"

definition sample_claimed :: seat_runtime where
  "sample_claimed = at_operation 7 (Telling [0]) (sample_sweep\<lparr>busy := ''stopping''\<rparr>)"

lemma sample_sweep_reach: "lane_reach sample_sweep"
proof -
  let ?a = "at_reading 0 (Entering Sweep False) new_runtime"
  have a: "lane_reach ?a"
    by (rule goes_on [OF at_first arrives]) (simp add: new_runtime_def)
  have b: "lane_reach (at_reading 0 (Looking Sweep) (hold Sweep (Some 0) ?a))"
    by (rule goes_on [OF a locks [of _ _ _ False]]) (simp_all add: new_runtime_def)
  show ?thesis unfolding sample_sweep_def by (rule goes_on [OF b looks]) simp
qed

lemma sample_claimed_reach: "lane_reach sample_claimed"
proof -
  have "claim_seat 7 ''stopping'' sample_sweep = Some sample_claimed"
    by (simp add: claim_seat_def sample_claimed_def sample_sweep_def look_def new_runtime_def
        readings_def List.map_filter_def lanes_def)
  then show ?thesis
    by (intro goes_on [OF sample_sweep_reach claims [of _ 7 "''stopping''"]])
      (simp_all add: sample_sweep_def look_def new_runtime_def)
qed

lemma no_reading_during_an_operation_witness:
  "reading sample_claimed 0 = Reading Sweep \<and> operation sample_claimed 7 \<noteq> Working"
proof -
  have "reading sample_claimed 0 = Reading Sweep"
    by (simp add: sample_claimed_def sample_sweep_def look_def new_runtime_def)
  with no_reading_during_an_operation [OF sample_claimed_reach, of 7 0 Sweep] show ?thesis by blast
qed

lemma claimed_seat_can_be_worked_on_witness:
  "\<exists>t. lane_steps sample_claimed t \<and> operation t 7 = Working"
  by (rule claimed_seat_can_be_worked_on [OF sample_claimed_reach])
    (simp add: sample_claimed_def)

end
