(* ===== verification/Stream_Watch.thy ===== *)
theory Stream_Watch
  imports Strconv Filepath
begin

text \<open>
  What the daemon believes about the stream in a seat (internal/seat/manager.go and
  sunshinelog.go): the answers of the seat taken apart, the readings folded into a belief, the
  lines of Sunshine's log, and when the application of a client that left is closed.

  JSON is read by an argument, \<open>decode\<close>: what a text decodes to, if it does.
\<close>

section \<open>The answers of a seat\<close>

text \<open>\<open>parseUnitShow\<close>: the state of a unit and when its process started, by key.\<close>

fun unit_lines :: "string list \<Rightarrow> string \<times> string \<Rightarrow> string \<times> string" where
  "unit_lines [] acc = acc"
| "unit_lines (l # ls) (st, started) =
     unit_lines ls
       (case cut (trim_space l) ''='' of
          None \<Rightarrow> (st, started)
        | Some (k, v) \<Rightarrow>
            if k = ''ActiveState'' then (if v \<noteq> [] then v else st, started)
            else if k = ''ExecMainStartTimestampMonotonic''
            then (st, if v \<noteq> ''0'' then v else started)
            else (st, started))"

definition parse_unit_show :: "string \<Rightarrow> string \<times> string" where
  "parse_unit_show out' = unit_lines (split_on CHR 0x0A out') (''unknown'', [])"

fun unit_id_in :: "string list \<Rightarrow> string" where
  "unit_id_in [] = []"
| "unit_id_in (l # ls) =
     (case cut_prefix (trim_space l) ''Id='' of Some i \<Rightarrow> i | None \<Rightarrow> unit_id_in ls)"

definition unit_id :: "string \<Rightarrow> string" where
  "unit_id block = unit_id_in (split_on CHR 0x0A block)"

text \<open>
  \<open>streamState\<close> and \<open>parseStreamCheck\<close>. A session is the name of its application with the rest
  of what the file says.
\<close>

datatype stream_state = StreamUnknown | StreamIdle | StreamBusy

record session =
  app_name :: string
  described :: string

definition parse_stream_check ::
  "(string \<Rightarrow> session option) \<Rightarrow> string \<Rightarrow> session option \<times> stream_state" where
  "parse_stream_check decode out' =
     (let t = trim_space out';
          (answer, rest) = (case cut t [CHR 0x0A] of Some p \<Rightarrow> p | None \<Rightarrow> (t, []))
      in if trim_space answer = ''streaming''
         then (case decode (trim_space rest) of
                 None \<Rightarrow> (None, StreamBusy)
               | Some s \<Rightarrow> if app_name s = [] then (None, StreamBusy) else (Some s, StreamBusy))
         else if trim_space answer = ''idle'' then (None, StreamIdle)
         else (None, StreamUnknown))"

record session_reading =
  sway :: string
  sunshine :: string
  sunshine_started :: string
  output_size :: string
  session_read :: "session option"
  stream_read :: stream_state

definition mark_units :: string where "mark_units = ''@@polyseat-units@@''"
definition mark_output :: string where "mark_output = ''@@polyseat-output@@''"
definition mark_stream :: string where "mark_stream = ''@@polyseat-stream@@''"

text \<open>The text between two marks, every line with its line feed; a later part wins.\<close>

fun probe_parts ::
  "string list \<Rightarrow> string \<Rightarrow> string \<Rightarrow> (string \<times> string) list \<Rightarrow> (string \<times> string) list" where
  "probe_parts [] current section' parts =
     (if current = [] then parts else AList.update current section' parts)"
| "probe_parts (l # ls) current section' parts =
     (if trim_space l \<in> {mark_units, mark_output, mark_stream}
      then probe_parts ls (trim_space l) []
             (if current = [] then parts else AList.update current section' parts)
      else probe_parts ls current (section' @ l @ [CHR 0x0A]) parts)"

text \<open>\<open>strings.Split\<close> at blank lines.\<close>

fun split_blocks :: "string \<Rightarrow> string \<Rightarrow> string list" where
  "split_blocks acc [] = [rev acc]"
| "split_blocks acc [c] = [rev (c # acc)]"
| "split_blocks acc (c # d # cs) =
     (if c = CHR 0x0A \<and> d = CHR 0x0A then rev acc # split_blocks [] cs
      else split_blocks (c # acc) (d # cs))"

definition unknown_reading :: session_reading where
  "unknown_reading =
     \<lparr>sway = ''unknown'', sunshine = ''unknown'', sunshine_started = [], output_size = [],
      session_read = None, stream_read = StreamUnknown\<rparr>"

definition read_unit :: "string \<Rightarrow> session_reading \<Rightarrow> session_reading" where
  "read_unit block r =
     (case parse_unit_show block of (st, started) \<Rightarrow>
        if unit_id block = ''polyseat-sway.service'' then r\<lparr>sway := st\<rparr>
        else if unit_id block = ''polyseat-sunshine.service''
        then r\<lparr>sunshine := st, sunshine_started := started\<rparr>
        else r)"

text \<open>\<open>parseOutputs\<close>: the mode of the first output; the rate is in thousandths of a hertz.\<close>

definition parse_outputs :: "(string \<Rightarrow> (int \<times> int \<times> int) list option) \<Rightarrow> string \<Rightarrow> string" where
  "parse_outputs decode out' =
     (case decode (trim_space out') of
        Some ((w, h, refresh) # _) \<Rightarrow>
          if w = 0 \<or> h = 0 then []
          else format_int w @ ''x'' @ format_int h @ ''@''
               @ format_int (sgn refresh * (abs refresh div 1000)) @ ''Hz''
      | _ \<Rightarrow> [])"

definition parse_session_probe ::
  "(string \<Rightarrow> session option) \<Rightarrow> (string \<Rightarrow> (int \<times> int \<times> int) list option) \<Rightarrow> string
     \<Rightarrow> session_reading" where
  "parse_session_probe decode decode_outputs out' =
     (let parts = probe_parts (split_on CHR 0x0A out') [] [] [];
          part = (\<lambda>m. case map_of parts m of None \<Rightarrow> [] | Some t \<Rightarrow> t);
          r = fold read_unit (split_blocks [] (part mark_units)) unknown_reading;
          r = r\<lparr>output_size := parse_outputs decode_outputs (part mark_output)\<rparr>
      in case map_of parts mark_stream of
           None \<Rightarrow> r
         | Some t \<Rightarrow> (case parse_stream_check decode t of (s, st) \<Rightarrow>
             r\<lparr>session_read := s, stream_read := st\<rparr>))"

section \<open>The belief\<close>

text \<open>\<open>quiet\<close> is \<^term>\<open>None\<close> for the zero time. Times are those of the monotonic clock.\<close>

record belief =
  streaming :: bool
  unclear :: bool
  quiet :: "int option"
  stream_session :: "session option"

definition session_grace :: int where
  "session_grace = 45 * 1000000000"

definition no_belief :: belief where
  "no_belief = \<lparr>streaming = False, unclear = False, quiet = None, stream_session = None\<rparr>"

definition observe_stream ::
  "stream_state \<Rightarrow> session option \<Rightarrow> int \<Rightarrow> belief \<Rightarrow> belief \<times> bool" where
  "observe_stream st sess now b =
     (let b = b\<lparr>unclear := (st = StreamUnknown)\<rparr>
      in if st = StreamUnknown then (b, False)
         else if st = StreamBusy
         then (b\<lparr>quiet := None, streaming := True,
                 stream_session := (if sess = None then stream_session b else sess)\<rparr>, False)
         else if \<not> streaming b then (b, False)
         else case quiet b of
           None \<Rightarrow> (b\<lparr>quiet := Some now\<rparr>, False)
         | Some t \<Rightarrow>
             if now - t < session_grace then (b, False)
             else (b\<lparr>streaming := False, stream_session := None, quiet := None\<rparr>, True))"

text \<open>\<open>forgetStream\<close>: the container does not run.\<close>

definition forget_stream :: "belief \<Rightarrow> belief" where
  "forget_stream b = b\<lparr>streaming := False, unclear := False, quiet := None, stream_session := None\<rparr>"

text \<open>Sunshine's log said that a client connected.\<close>

definition client_connected :: "belief \<Rightarrow> belief" where
  "client_connected b = b\<lparr>streaming := True, quiet := None\<rparr>"

text \<open>What holds back everything that must not disturb a stream.\<close>

definition in_use :: "belief \<Rightarrow> bool" where
  "in_use b = (streaming b \<or> unclear b)"

text \<open>\<open>Streaming\<close>: the seats somebody may be connected to, sorted.\<close>

definition streaming_seats :: "(string \<times> belief) list \<Rightarrow> string set" where
  "streaming_seats m = {n. \<exists>b. (n, b) \<in> set m \<and> in_use b}"

section \<open>Sunshine's log\<close>

definition sunshine_connected :: string where "sunshine_connected = ''CLIENT CONNECTED''"
definition sunshine_disconnected :: string where "sunshine_disconnected = ''CLIENT DISCONNECTED''"

definition sunshine_line :: "string \<Rightarrow> string" where
  "sunshine_line l =
     (let l = trim_space l
      in if has_suffix l (''Info: '' @ sunshine_disconnected) then sunshine_disconnected
         else if has_suffix l (''Info: '' @ sunshine_connected) then sunshine_connected
         else [])"

text \<open>
  \<open>letGo\<close>: each round before the deadline finds whether the client is back, whether the seat is
  idle, and, asked once more, whether the client is back. \<^term>\<open>True\<close> means it was closed.
\<close>

fun let_go :: "(bool \<times> bool \<times> bool) list \<Rightarrow> bool" where
  "let_go [] = False"
| "let_go ((back, idle, back') # rounds) =
     (if back then False
      else if idle then \<not> back'
      else let_go rounds)"

text \<open>\<open>lineWriter\<close>: whole lines go on, and a rest longer than 64 KiB is dropped.\<close>

definition max_rest :: nat where "max_rest = 65536"

definition line_write :: "string \<Rightarrow> string \<Rightarrow> string list \<times> string" where
  "line_write buf b =
     (let ls = split_on CHR 0x0A (buf @ b); rest = last ls
      in (butlast ls, if max_rest < length rest then [] else rest))"

section \<open>What a seat that did not answer reads as\<close>

text \<open>Only the word itself makes a seat idle: nothing that is not understood does.\<close>

lemma idle_was_said:
  assumes "parse_stream_check decode out' = (s, StreamIdle)"
  shows "\<exists>answer. trim_space answer = ''idle''
    \<and> (trim_space out' = answer \<or> (\<exists>rest. cut (trim_space out') [CHR 0x0A] = Some (answer, rest)))"
  using assms
  by (auto simp: parse_stream_check_def Let_def split: option.splits if_splits prod.splits)

lemma nothing_read_is_unknown:
  "parse_session_probe decode decode_outputs [] = unknown_reading"
  if "decode_outputs [] = None"
  using that
  by (simp add: parse_session_probe_def unknown_reading_def read_unit_def parse_unit_show_def
      unit_id_def parse_outputs_def trim_space_def trim_right_space_def mark_units_def
      mark_output_def mark_stream_def cut_prefix_def cut.simps)

lemma closed_only_when_gone:
  "let_go rounds \<Longrightarrow> \<exists>pre rest. rounds = pre @ (False, True, False) # rest
     \<and> (\<forall>(here, idle, here') \<in> set pre. \<not> here \<and> \<not> idle)"
proof (induction rounds rule: let_go.induct)
  case (2 here idle here' rounds)
  show ?case
  proof (cases idle)
    case True
    with 2 show ?thesis by (intro exI [of _ "[]"] exI [of _ rounds]) (auto split: if_splits)
  next
    case False
    with 2 obtain pre rest where "rounds = pre @ (False, True, False) # rest"
      "\<forall>(here, idle, here') \<in> set pre. \<not> here \<and> \<not> idle" "\<not> here"
      by (auto split: if_splits)
    with False show ?thesis by (intro exI [of _ "(here, idle, here') # pre"] exI [of _ rest]) auto
  qed
qed simp

section \<open>When a seat counts as idle\<close>

text \<open>What the daemon learns of a seat, in the order it learns it.\<close>

datatype stream_event = Reads stream_state "session option" int | Stops | Connects

definition learn :: "stream_event \<Rightarrow> belief \<Rightarrow> belief" where
  "learn e b =
     (case e of
        Reads st sess now \<Rightarrow> fst (observe_stream st sess now b)
      | Stops \<Rightarrow> forget_stream b
      | Connects \<Rightarrow> client_connected b)"

definition watch :: "stream_event list \<Rightarrow> belief" where
  "watch es = fold learn es no_belief"

definition somebody :: "stream_event \<Rightarrow> bool" where
  "somebody e = (case e of Reads st _ _ \<Rightarrow> st = StreamBusy | Stops \<Rightarrow> False | Connects \<Rightarrow> True)"

definition silent :: "stream_event \<Rightarrow> bool" where
  "silent e = (case e of Reads st _ _ \<Rightarrow> st \<noteq> StreamBusy | _ \<Rightarrow> False)"

text \<open>
  Events that end a stream: the seat stopped, or it said idle twice, the grace period apart, and
  nobody was seen in between.
\<close>

definition ends_stream :: "stream_event list \<Rightarrow> bool" where
  "ends_stream es \<longleftrightarrow>
     Stops \<in> set es
     \<or> (\<exists>a s t mid s' t' c. es = a @ Reads StreamIdle s t # mid @ Reads StreamIdle s' t' # c
          \<and> session_grace \<le> t' - t \<and> (\<forall>e \<in> set mid. silent e))"

definition watch_inv :: "stream_event list \<Rightarrow> bool" where
  "watch_inv es \<longleftrightarrow>
     (\<not> streaming (watch es) \<longrightarrow>
        (\<forall>pre e post. es = pre @ e # post \<longrightarrow> somebody e \<longrightarrow> ends_stream post))
     \<and> (\<forall>t. quiet (watch es) = Some t \<longrightarrow>
          (\<exists>pre s post. es = pre @ Reads StreamIdle s t # post \<and> (\<forall>e \<in> set post. silent e)))"

lemma watch_snoc: "watch (es @ [e]) = learn e (watch es)"
  by (simp add: watch_def)

lemma ends_stream_snoc: "ends_stream es \<Longrightarrow> ends_stream (es @ [e])"
  by (fastforce simp: ends_stream_def)

lemma snoc_split:
  assumes "es @ [x] = pre @ e # post" "e \<noteq> x \<or> post \<noteq> []"
  obtains post' where "post = post' @ [x]" "es = pre @ e # post'"
proof (cases post rule: rev_cases)
  case Nil
  with assms show ?thesis by simp
next
  case (snoc ys y)
  with assms(1) that show ?thesis by simp
qed

text \<open>Somebody who was seen before the last silence began is followed by all of it.\<close>

lemma seen_before:
  assumes "pre @ e # post = p @ x # q" "e \<noteq> x" "e \<notin> set q"
  shows "\<exists>a. post = a @ x # q"
  using assms by (auto simp: append_eq_append_conv2 append_eq_Cons_conv Cons_eq_append_conv)

lemma watch_inv_snoc:
  assumes "watch_inv es"
  shows "watch_inv (es @ [x])"
proof -
  let ?b = "watch es"
  have old: "ends_stream post"
    if "\<not> streaming ?b" "es = pre @ e # post" "somebody e" for pre e post
    using assms that unfolding watch_inv_def by blast
  have q: "\<exists>pre s post. es = pre @ Reads StreamIdle s t # post \<and> (\<forall>e \<in> set post. silent e)"
    if "quiet ?b = Some t" for t
    using assms that unfolding watch_inv_def by blast
  have keeps: "\<exists>pre s post. es @ [x] = pre @ Reads StreamIdle s t # post \<and> (\<forall>e \<in> set post. silent e)"
    if qt: "quiet ?b = Some t" and sx: "silent x" for t
  proof -
    obtain pre s post where "es = pre @ Reads StreamIdle s t # post" "\<forall>e \<in> set post. silent e"
      using q [OF qt] by blast
    with sx show ?thesis
      by (intro exI [of _ pre] exI [of _ s] exI [of _ "post @ [x]"]) simp
  qed
  have later: "ends_stream post"
    if off: "\<not> streaming ?b" and sp: "es @ [x] = pre @ e # post" and so: "somebody e" "\<not> somebody x"
    for pre e post
  proof -
    from so have "e \<noteq> x" by auto
    with sp obtain post' where "post = post' @ [x]" "es = pre @ e # post'"
      by (metis snoc_split)
    with old [OF off _ so(1)] show ?thesis by (auto intro: ends_stream_snoc)
  qed
  show ?thesis
  proof (cases x)
    case (Reads st s now)
    show ?thesis
    proof (cases st)
      case StreamIdle
      have nx: "\<not> somebody x" "silent x" using Reads StreamIdle by (simp_all add: somebody_def silent_def)
      consider (off) "\<not> streaming ?b" | (first) "streaming ?b" "quiet ?b = None"
        | (early) t where "streaming ?b" "quiet ?b = Some t" "now - t < session_grace"
        | (over) t where "streaming ?b" "quiet ?b = Some t" "session_grace \<le> now - t"
        by (cases "quiet ?b") force+
      then show ?thesis
      proof cases
        case off
        then show ?thesis
          using Reads StreamIdle later nx keeps
          by (auto simp: watch_inv_def watch_snoc learn_def observe_stream_def)
      next
        case first
        then show ?thesis
          using Reads StreamIdle
          by (auto simp: watch_inv_def watch_snoc learn_def observe_stream_def intro: exI [of _ es])
      next
        case early
        then show ?thesis
          using Reads StreamIdle keeps nx
          by (auto simp: watch_inv_def watch_snoc learn_def observe_stream_def)
      next
        case over
        obtain p s' r where r: "es = p @ Reads StreamIdle s' t # r" "\<forall>e \<in> set r. silent e"
          using q [OF over(2)] by blast
        have "ends_stream post" if sp: "es @ [x] = pre @ e # post" and so: "somebody e" for pre e post
        proof -
          from sp so nx obtain post' where post: "post = post' @ [x]" "es = pre @ e # post'"
            by (metis snoc_split)
          have "e \<noteq> Reads StreamIdle s' t" "e \<notin> set r"
            using so r(2) by (auto simp: somebody_def silent_def split: stream_event.splits)
          then obtain a where "post' = a @ Reads StreamIdle s' t # r"
            using seen_before [of pre e post' p "Reads StreamIdle s' t" r] post(2) r(1) by auto
          with post(1) Reads StreamIdle over(3) r(2) show ?thesis
            unfolding ends_stream_def by (intro disjI2 exI [of _ a] exI [of _ "[]"]) auto
        qed
        then show ?thesis
          using Reads StreamIdle over
          by (auto simp: watch_inv_def watch_snoc learn_def observe_stream_def)
      qed
    next
      case StreamUnknown
      then have "\<not> somebody x" "silent x" using Reads by (simp_all add: somebody_def silent_def)
      then show ?thesis
        using Reads StreamUnknown later keeps
        by (auto simp: watch_inv_def watch_snoc learn_def observe_stream_def)
    next
      case StreamBusy
      then show ?thesis
        using Reads by (auto simp: watch_inv_def watch_snoc learn_def observe_stream_def Let_def)
    qed
  next
    case Stops
    have "ends_stream post" if sp: "es @ [Stops] = pre @ e # post" and so: "somebody e" for pre e post
    proof -
      from so have "e \<noteq> Stops" by (auto simp: somebody_def)
      with sp obtain post' where "post = post' @ [Stops]" by (metis snoc_split)
      then show ?thesis by (simp add: ends_stream_def)
    qed
    with Stops show ?thesis
      by (auto simp: watch_inv_def watch_snoc learn_def forget_stream_def)
  next
    case Connects
    then show ?thesis by (auto simp: watch_inv_def watch_snoc learn_def client_connected_def)
  qed
qed

lemma watch_inv: "watch_inv es"
proof (induction es rule: rev_induct)
  case Nil
  show ?case by (simp add: watch_inv_def watch_def no_belief_def)
qed (rule watch_inv_snoc)

lemma watch_append: "watch (es @ fs) = fold learn fs (watch es)"
  by (simp add: watch_def)

lemma unclear_stays:
  "unclear b \<Longrightarrow> \<forall>e \<in> set es. e = Connects \<or> (\<exists>s t. e = Reads StreamUnknown s t) \<Longrightarrow>
     unclear (fold learn es b)"
proof (induction es arbitrary: b)
  case (Cons e es)
  then have "unclear (learn e b)"
    by (auto simp: learn_def client_connected_def observe_stream_def)
  with Cons show ?case by simp
qed simp

text \<open>
  Property C21: a seat that may be disturbed is idle. Whenever the daemon takes a seat for one
  nobody uses, everybody it ever saw there has gone: after the last time somebody was seen, by
  the seat's sockets or in Sunshine's log, the seat stopped or said twice that it was idle, 45
  seconds apart or more, with nobody seen in between. And a reading that failed is no answer:
  after it the seat counts as in use until one succeeds or the seat stops.
\<close>

theorem idle_seat_has_been_silent:
  assumes "\<not> in_use (watch (pre @ e # post))"
  shows "(somebody e \<longrightarrow> ends_stream post)
    \<and> (e = Reads StreamUnknown s t \<longrightarrow>
         (\<exists>f \<in> set post. f = Stops \<or> (\<exists>st s' t'. f = Reads st s' t' \<and> st \<noteq> StreamUnknown)))"
proof (intro conjI impI)
  assume "somebody e"
  with assms watch_inv [of "pre @ e # post"] show "ends_stream post"
    by (auto simp: watch_inv_def in_use_def)
next
  assume e: "e = Reads StreamUnknown s t"
  show "\<exists>f \<in> set post. f = Stops \<or> (\<exists>st s' t'. f = Reads st s' t' \<and> st \<noteq> StreamUnknown)"
  proof (rule ccontr)
    assume none: "\<not> ?thesis"
    have "f = Connects \<or> (\<exists>s t. f = Reads StreamUnknown s t)" if "f \<in> set post" for f
      using none that by (cases f) auto
    moreover have "unclear (watch (pre @ [e]))"
      by (simp add: watch_snoc e learn_def observe_stream_def Let_def)
    ultimately have "unclear (fold learn post (watch (pre @ [e])))" by (intro unclear_stays) blast+
    moreover have "watch (pre @ e # post) = fold learn post (watch (pre @ [e]))"
      using watch_append [of "pre @ [e]" post] by simp
    ultimately show False using assms by (simp add: in_use_def)
  qed
qed

text \<open>Somebody plays, drops for twelve seconds, comes back, and leaves for a minute.\<close>

definition sample_evening :: "stream_event list" where
  "sample_evening =
     [Reads StreamBusy None 0, Reads StreamIdle None 10000000000, Reads StreamBusy None 22000000000,
      Reads StreamIdle None 30000000000, Reads StreamUnknown None 40000000000,
      Reads StreamIdle None 90000000000]"

lemma sample_evening_idle:
  "in_use (watch (butlast sample_evening))" "\<not> in_use (watch sample_evening)"
  by (simp_all add: sample_evening_def watch_def learn_def observe_stream_def no_belief_def in_use_def
      session_grace_def)

lemma idle_seat_has_been_silent_witness:
  "ends_stream (drop 3 sample_evening)"
proof -
  have "sample_evening = take 2 sample_evening @ Reads StreamBusy None 22000000000 # drop 3 sample_evening"
    by (simp add: sample_evening_def)
  then show ?thesis
    using idle_seat_has_been_silent [of "take 2 sample_evening" "Reads StreamBusy None 22000000000"
        "drop 3 sample_evening"] sample_evening_idle(2) by (simp add: somebody_def)
qed

end
