(* ===== verification/Records.thy ===== *)
theory Records
  imports Seat
begin

text \<open>
  The records of the seats under their lock (internal/seat/manager.go: \<open>createRecord\<close>,
  \<open>changeRecord\<close>, \<open>recordBuilt\<close>, \<open>Delete\<close>), the edits the interface makes to them
  (internal/api/server.go) and the pass over the seats an older generation built. Every
  operation holds \<open>recordMu\<close> from its read to its write, so each is one step; a build is two, the
  read of the record it starts from and the write of what it learned.
\<close>

definition generation :: int where "generation = 70"

text \<open>What a request may change; a field that is missing stays.\<close>

record seat_edit =
  e_label :: "string option"
  e_autostart :: "bool option"
  e_resolution :: "string option"
  e_address :: "string option"
  e_gateway :: "string option"
  e_library :: "bool option"
  e_ge_proton :: "bool option"
  e_host_access :: "bool option"
  e_pointer_speed :: "rat option"

definition over :: "'a option \<Rightarrow> 'a \<Rightarrow> 'a" where
  "over v d = (case v of None \<Rightarrow> d | Some x \<Rightarrow> x)"

definition apply_edit :: "seat_edit \<Rightarrow> seat \<Rightarrow> seat" where
  "apply_edit ed s =
     s\<lparr>label := over (e_label ed) (label s),
       autostart := over (e_autostart ed) (autostart s),
       resolution := over (e_resolution ed) (resolution s),
       address := over (e_address ed) (address s),
       gateway := over (e_gateway ed) (gateway s),
       library_on := over (e_library ed) (library_on s),
       no_ge_proton := over (map_option Not (e_ge_proton ed)) (no_ge_proton s),
       isolated := over (map_option Not (e_host_access ed)) (isolated s),
       pointer_speed := over (e_pointer_speed ed) (pointer_speed s)\<rparr>"

definition needs_provisioning :: "seat \<Rightarrow> seat \<Rightarrow> bool" where
  "needs_provisioning before after \<longleftrightarrow>
     address after \<noteq> address before \<or> gateway after \<noteq> gateway before
     \<or> resolution after \<noteq> resolution before"

datatype record_error = StoreError store_error | Invalid seat_error | AlreadyExists

definition stored ::
  "disk_files \<times> store_error option \<Rightarrow> 'a \<Rightarrow> disk_files \<times> (record_error + 'a)" where
  "stored r v = (case r of (fs, None) \<Rightarrow> (fs, Inr v) | (fs, Some e) \<Rightarrow> (fs, Inl (StoreError e)))"

text \<open>\<open>Create\<close> and \<open>createRecord\<close>: any record of that name that can be read is in the way.\<close>

definition create_record ::
  "store_faults \<Rightarrow> string \<Rightarrow> int \<Rightarrow> seat \<Rightarrow> disk_files \<Rightarrow> disk_files \<times> (record_error + unit)" where
  "create_record flt dir now s fs =
     (case validate s of
        Some e \<Rightarrow> (fs, Inl (Invalid e))
      | None \<Rightarrow>
          let s = s\<lparr>created_at := now, provisioned := 0\<rparr>
          in case get_seat flt dir fs (seat_name s) of
               Inr _ \<Rightarrow> (fs, Inl AlreadyExists)
             | Inl _ \<Rightarrow> stored (put_seat flt dir s fs) ())"

definition change_record ::
  "store_faults \<Rightarrow> string \<Rightarrow> string \<Rightarrow> seat_edit \<Rightarrow> disk_files
     \<Rightarrow> disk_files \<times> (record_error + seat \<times> seat)" where
  "change_record flt dir n ed fs =
     (case get_seat flt dir fs n of
        Inl e \<Rightarrow> (fs, Inl (StoreError e))
      | Inr before \<Rightarrow>
          let s = (apply_edit ed before)\<lparr>seat_name := n\<rparr>
          in case validate s of
               Some e \<Rightarrow> (fs, Inl (Invalid e))
             | None \<Rightarrow>
                 let s = (if needs_provisioning before s then s\<lparr>provisioned := 0\<rparr> else s)
                 in stored (put_seat flt dir s fs) (before, s))"

definition built_record :: "seat \<Rightarrow> int \<Rightarrow> seat \<Rightarrow> seat" where
  "built_record built uid current =
     (let c = current\<lparr>player_uid := uid\<rparr>
      in if needs_provisioning built c then c else c\<lparr>provisioned := generation\<rparr>)"

definition record_built ::
  "store_faults \<Rightarrow> string \<Rightarrow> string \<Rightarrow> seat \<Rightarrow> int \<Rightarrow> disk_files
     \<Rightarrow> disk_files \<times> (record_error + unit)" where
  "record_built flt dir n built uid fs =
     (case get_seat flt dir fs n of
        Inl e \<Rightarrow> (fs, Inl (StoreError e))
      | Inr current \<Rightarrow> stored (put_seat flt dir (built_record built uid current) fs) ())"

definition delete_record ::
  "store_faults \<Rightarrow> string \<Rightarrow> string \<Rightarrow> disk_files \<Rightarrow> disk_files \<times> (record_error + unit)" where
  "delete_record flt dir n fs = stored (delete_seat flt dir n fs) ()"

section \<open>The seats an older generation built\<close>

definition stale_seats :: "seat list \<Rightarrow> string list" where
  "stale_seats ss =
     map seat_name (filter (\<lambda>s. provisioned s \<noteq> 0 \<and> provisioned s \<noteq> generation) ss)"

text \<open>
  \<open>sweep\<close> over a world in which \<open>busy\<close> reads what a seat is in the middle of, \<open>wait\<close> lets two
  seconds pass and \<open>provision\<close> starts a run. The first wait ends after 5 minutes, 150 waits; the
  second has no end of its own, so a run that never ends leaves the pass waiting: \<^term>\<open>None\<close>.
\<close>

definition sweep_patience :: nat where "sweep_patience = 150"

fun await_idle :: "('w \<Rightarrow> string) \<Rightarrow> ('w \<Rightarrow> 'w) \<Rightarrow> nat \<Rightarrow> 'w \<Rightarrow> 'w" where
  "await_idle busy wait 0 w = w"
| "await_idle busy wait (Suc n) w = (if busy w \<noteq> [] then await_idle busy wait n (wait w) else w)"

partial_function (option) await_end :: "('w \<Rightarrow> string) \<Rightarrow> ('w \<Rightarrow> 'w) \<Rightarrow> 'w \<Rightarrow> 'w option" where
  "await_end busy wait w = (if busy w \<noteq> [] then await_end busy wait (wait w) else Some w)"

fun provision_sweep ::
  "(string \<Rightarrow> 'w \<Rightarrow> string) \<Rightarrow> (string \<Rightarrow> 'w \<Rightarrow> 'w \<times> bool) \<Rightarrow> ('w \<Rightarrow> 'w) \<Rightarrow> string list \<Rightarrow> 'w
     \<Rightarrow> (string \<times> bool) list \<Rightarrow> ('w \<times> (string \<times> bool) list) option" where
  "provision_sweep busy provision wait [] w notes = Some (w, notes)"
| "provision_sweep busy provision wait (n # ns) w notes =
     (let w1 = await_idle (busy n) wait sweep_patience w
      in if busy n w1 \<noteq> [] then provision_sweep busy provision wait ns w1 (notes @ [(n, False)])
         else case provision n w1 of
           (w2, False) \<Rightarrow> provision_sweep busy provision wait ns w2 (notes @ [(n, False)])
         | (w2, True) \<Rightarrow>
             (case await_end (busy n) wait w2 of
                None \<Rightarrow> None
              | Some w3 \<Rightarrow> provision_sweep busy provision wait ns w3 (notes @ [(n, True)])))"

section \<open>The records, step by step\<close>

datatype record_op =
  Creates store_faults int seat
| Edits store_faults string seat_edit
| Deletes store_faults string
| BuildStarts store_faults string
| BuildEnds store_faults string int
| BuildFails string

text \<open>
  The files, the record each build under way started from, and for every seat the record the last
  build that was written down was made of.
\<close>

record building =
  files :: disk_files
  under_way :: "string \<Rightarrow> seat option"
  last_built :: "string \<Rightarrow> seat option"

definition record_step :: "string \<Rightarrow> record_op \<Rightarrow> building \<Rightarrow> building" where
  "record_step dir rop b =
     (case rop of
        Creates flt now s \<Rightarrow> b\<lparr>files := fst (create_record flt dir now s (files b))\<rparr>
      | Edits flt n ed \<Rightarrow> b\<lparr>files := fst (change_record flt dir n ed (files b))\<rparr>
      | Deletes flt n \<Rightarrow> b\<lparr>files := fst (delete_record flt dir n (files b))\<rparr>
      | BuildStarts flt n \<Rightarrow>
          (case get_seat flt dir (files b) n of
             Inl _ \<Rightarrow> b
           | Inr s \<Rightarrow> b\<lparr>under_way := (under_way b)(n \<mapsto> s)\<rparr>)
      | BuildEnds flt n uid \<Rightarrow>
          (case under_way b n of
             None \<Rightarrow> b
           | Some built \<Rightarrow>
               (case record_built flt dir n built uid (files b) of
                  (fs, Inl _) \<Rightarrow> b\<lparr>files := fs, under_way := (under_way b)(n := None)\<rparr>
                | (fs, Inr _) \<Rightarrow>
                    b\<lparr>files := fs, under_way := (under_way b)(n := None),
                      last_built := (last_built b)(n \<mapsto> built)\<rparr>))
      | BuildFails n \<Rightarrow> b\<lparr>under_way := (under_way b)(n := None)\<rparr>)"

lemma put_records:
  assumes "clean_dir dir" "kept_records dir fs" "put_seat flt dir s fs = (fs', r)"
  shows "kept_records dir fs'"
    "records dir fs' =
       (if r = None then (records dir fs)(seat_name s \<mapsto> s\<lparr>schema := 1\<rparr>) else records dir fs)"
proof -
  have st: "store_step dir (PutOp flt s) fs = (fs', r)" using assms(3) by (simp add: store_step_def)
  show "kept_records dir fs'" using assms(1,2) st by (rule kept_step)
  show "records dir fs' =
      (if r = None then (records dir fs)(seat_name s \<mapsto> s\<lparr>schema := 1\<rparr>) else records dir fs)"
    using seats.step_done [OF conjI [OF assms(1,2)], of "PutOp flt s" fs'] st
      seats.step_refused [OF conjI [OF assms(1,2)], of "PutOp flt s" fs']
    by (cases r) (auto simp: store_effect_def)
qed

lemma delete_records:
  assumes "clean_dir dir" "kept_records dir fs" "delete_seat flt dir n fs = (fs', r)"
  shows "kept_records dir fs'"
    "records dir fs' = (if r = None then (records dir fs)(n := None) else records dir fs)"
proof -
  have st: "store_step dir (DeleteOp flt n) fs = (fs', r)" using assms(3) by (simp add: store_step_def)
  show "kept_records dir fs'" using assms(1,2) st by (rule kept_step)
  show "records dir fs' = (if r = None then (records dir fs)(n := None) else records dir fs)"
    using seats.step_done [OF conjI [OF assms(1,2)], of "DeleteOp flt n" fs'] st
      seats.step_refused [OF conjI [OF assms(1,2)], of "DeleteOp flt n" fs']
    by (cases r) (auto simp: store_effect_def)
qed

lemma got_record: "get_seat flt dir fs n = Inr s \<Longrightarrow> records dir fs n = Some s"
  by (auto simp: records_def get_seat_def load_seat_def split: sum.splits if_splits)

lemma stored_cases:
  "stored r v = (fs, Inr w) \<Longrightarrow> r = (fs, None) \<and> w = v"
  "stored r v = (fs, Inl e) \<Longrightarrow> \<exists>e'. r = (fs, Some e') \<and> e = StoreError e'"
  by (auto simp: stored_def split: prod.splits option.splits)

lemma needs_provisioning_cong [simp]:
  "needs_provisioning b (s\<lparr>schema := v\<rparr>) = needs_provisioning b s"
  "needs_provisioning b (s\<lparr>provisioned := p\<rparr>) = needs_provisioning b s"
  "needs_provisioning b (s\<lparr>player_uid := u\<rparr>) = needs_provisioning b s"
  "needs_provisioning b (s\<lparr>seat_name := n\<rparr>) = needs_provisioning b s"
  by (simp_all add: needs_provisioning_def)

lemma same_settings_trans:
  "\<not> needs_provisioning a b \<Longrightarrow> needs_provisioning l a = needs_provisioning l b"
  by (auto simp: needs_provisioning_def)

text \<open>What each operation writes, if it writes.\<close>

lemma fst_stored [simp]: "fst (stored r v) = fst r"
  by (simp add: stored_def split: prod.splits option.splits)

lemma created:
  assumes "fs' = fst (create_record flt dir now s fs)"
  shows "fs' = fs \<or> fs' = fst (put_seat flt dir (s\<lparr>created_at := now, provisioned := 0\<rparr>) fs)"
  using assms by (auto simp: create_record_def Let_def split: option.splits sum.splits)

lemma changed:
  assumes "fs' = fst (change_record flt dir n ed fs)"
  shows "fs' = fs \<or> (\<exists>before s. records dir fs n = Some before
    \<and> fs' = fst (put_seat flt dir s fs) \<and> seat_name s = n
    \<and> provisioned s = (if needs_provisioning before s then 0 else provisioned before))"
proof (cases "get_seat flt dir fs n")
  case (Inr before)
  let ?s = "(apply_edit ed before)\<lparr>seat_name := n\<rparr>"
  let ?t = "if needs_provisioning before ?s then ?s\<lparr>provisioned := 0\<rparr> else ?s"
  have "fs' = fs \<or> fs' = fst (put_seat flt dir ?t fs)"
    using assms Inr by (auto simp: change_record_def Let_def split: option.splits)
  moreover have "seat_name ?t = n"
    "provisioned ?t = (if needs_provisioning before ?t then 0 else provisioned before)"
    by (simp_all add: apply_edit_def)
  ultimately show ?thesis using got_record [OF Inr] by blast
qed (use assms in \<open>simp add: change_record_def\<close>)

lemma built_writes:
  assumes "record_built flt dir n built uid fs = (fs', r)"
  shows "fs' = fs \<and> (\<exists>e. r = Inl e) \<or> (\<exists>cur r'. records dir fs n = Some cur
    \<and> put_seat flt dir (built_record built uid cur) fs = (fs', r') \<and> (r' = None \<longleftrightarrow> r = Inr ()))"
proof (cases "get_seat flt dir fs n")
  case (Inr cur)
  obtain fs2 r' where "put_seat flt dir (built_record built uid cur) fs = (fs2, r')" by force
  with assms Inr got_record [OF Inr] show ?thesis
    by (auto simp: record_built_def stored_def split: option.splits)
qed (use assms in \<open>auto simp: record_built_def\<close>)

lemma built_record_facts:
  "seat_name (built_record built uid cur) = seat_name cur"
  "needs_provisioning b (built_record built uid cur) = needs_provisioning b cur"
  "provisioned (built_record built uid cur) =
     (if needs_provisioning built cur then provisioned cur else generation)"
  by (simp_all add: built_record_def Let_def)

section \<open>A seat that is marked current\<close>

definition built_inv :: "string \<Rightarrow> building \<Rightarrow> bool" where
  "built_inv dir b \<longleftrightarrow>
     kept_records dir (files b)
     \<and> (\<forall>n s. records dir (files b) n = Some s \<longrightarrow>
          (provisioned s = generation \<longrightarrow>
             (\<exists>l. last_built b n = Some l \<and> \<not> needs_provisioning l s))
          \<and> (\<forall>u. under_way b n = Some u \<longrightarrow> needs_provisioning u s \<longrightarrow> provisioned s \<noteq> generation))"

text \<open>
  What has to be seen of one write for the invariant: the record written is not marked current,
  or it is and its settings are those of the last build.
\<close>

definition fits :: "building \<Rightarrow> seat \<Rightarrow> bool" where
  "fits b s \<longleftrightarrow>
     (provisioned s = generation \<longrightarrow>
        (\<exists>l. last_built b (seat_name s) = Some l \<and> \<not> needs_provisioning l s)
        \<and> (\<forall>u. under_way b (seat_name s) = Some u \<longrightarrow> \<not> needs_provisioning u s))"

lemma fits_schema [simp]: "fits b (s\<lparr>schema := v\<rparr>) = fits b s"
  by (simp add: fits_def)

lemma built_inv_fits:
  assumes "clean_dir dir"
  shows "built_inv dir b \<longleftrightarrow>
    kept_records dir (files b) \<and> (\<forall>n s. records dir (files b) n = Some s \<longrightarrow> fits b s)"
  using records_named [OF assms] by (fastforce simp: built_inv_def fits_def)

lemma built_inv_put:
  assumes "clean_dir dir" "built_inv dir b" "put_seat flt dir s (files b) = (fs', r)"
    and "last_built b' = last_built b" "under_way b' = under_way b" "files b' = fs'" "fits b s"
  shows "built_inv dir b'"
proof -
  have k: "kept_records dir (files b)" "\<And>n t. records dir (files b) n = Some t \<Longrightarrow> fits b t"
    using assms(2) by (auto simp: built_inv_fits [OF assms(1)])
  have same: "fits b' t = fits b t" for t using assms(4,5) by (simp add: fits_def)
  note put = put_records [OF assms(1) k(1) assms(3)]
  have "fits b t" if "records dir fs' n = Some t" for n t
    using that put(2) k(2) [of n t] assms(7) by (auto split: if_splits)
  with put(1) assms(6) show ?thesis by (simp add: built_inv_fits [OF assms(1)] same)
qed

lemma built_inv_step:
  assumes "clean_dir dir" "built_inv dir b"
  shows "built_inv dir (record_step dir rop b)"
proof (cases rop)
  case (Creates flt now s)
  let ?b = "record_step dir rop b"
  have same: "last_built ?b = last_built b" "under_way ?b = under_way b"
    and w: "files ?b = fst (create_record flt dir now s (files b))"
    using Creates by (simp_all add: record_step_def)
  have "fits b (s\<lparr>created_at := now, provisioned := 0\<rparr>)" by (simp add: fits_def generation_def)
  with created [OF w] show ?thesis
    using built_inv_put [OF assms _ same, of flt "s\<lparr>created_at := now, provisioned := 0\<rparr>"] assms(2) same
    by (auto simp: built_inv_fits [OF assms(1)] fits_def) (metis prod.collapse)+
next
  case (Edits flt n ed)
  let ?b = "record_step dir rop b"
  have same: "last_built ?b = last_built b" "under_way ?b = under_way b"
    and w: "files ?b = fst (change_record flt dir n ed (files b))"
    using Edits by (simp_all add: record_step_def)
  from changed [OF w, of] show ?thesis
  proof
    assume "files ?b = files b"
    with same assms show ?thesis by (simp add: built_inv_def)
  next
    assume "\<exists>before s. records dir (files b) n = Some before
      \<and> files ?b = fst (put_seat flt dir s (files b)) \<and> seat_name s = n
      \<and> provisioned s = (if needs_provisioning before s then 0 else provisioned before)"
    then obtain before s where r: "records dir (files b) n = Some before"
      "files ?b = fst (put_seat flt dir s (files b))" "seat_name s = n"
      "provisioned s = (if needs_provisioning before s then 0 else provisioned before)" by blast
    have "fits b before" "seat_name before = n"
      using assms r(1) records_named [OF assms(1)] by (auto simp: built_inv_fits)
    then have "fits b s"
      using r(3,4) same_settings_trans [of before s]
      by (auto simp: fits_def generation_def split: if_splits)
    then show ?thesis
      using r(2) by (intro built_inv_put [OF assms prod.collapse [symmetric] same]) auto
  qed
next
  case (Deletes flt n)
  let ?b = "record_step dir rop b"
  obtain fs r where d: "delete_seat flt dir n (files b) = (fs, r)" by force
  then have b: "files ?b = fs" "last_built ?b = last_built b" "under_way ?b = under_way b"
    using Deletes by (simp_all add: record_step_def delete_record_def)
  have k: "kept_records dir (files b)" using assms(2) by (simp add: built_inv_def)
  show ?thesis
    using delete_records [OF assms(1) k d] assms(2) b
    by (auto simp: built_inv_fits [OF assms(1)] fits_def split: if_splits)
next
  case (BuildStarts flt n)
  show ?thesis
  proof (cases "get_seat flt dir (files b) n")
    case (Inl e)
    then show ?thesis using BuildStarts assms by (simp add: record_step_def)
  next
    case (Inr s)
    have "records dir (files b) n = Some s" using Inr by (rule got_record)
    moreover have "\<not> needs_provisioning s s" by (simp add: needs_provisioning_def)
    ultimately show ?thesis
      using BuildStarts Inr assms by (auto simp: record_step_def built_inv_def)
  qed
next
  case (BuildEnds flt n uid)
  show ?thesis
  proof (cases "under_way b n")
    case None
    then show ?thesis using BuildEnds assms by (simp add: record_step_def)
  next
    case (Some built)
    obtain fs r where r: "record_built flt dir n built uid (files b) = (fs, r)" by force
    let ?u = "(under_way b)(n := None)"
    have k: "kept_records dir (files b)" "\<And>n t. records dir (files b) n = Some t \<Longrightarrow> fits b t"
      using assms(2) by (auto simp: built_inv_fits [OF assms(1)])
    show ?thesis
    proof (cases r)
      case (Inl e)
      have b: "record_step dir rop b = b\<lparr>files := fs, under_way := ?u\<rparr>"
        using BuildEnds Some r Inl by (simp add: record_step_def)
      have "kept_records dir fs \<and> records dir fs = records dir (files b)"
        using built_writes [OF r, of] Inl k(1) put_records [OF assms(1) k(1)]
        by (auto split: if_splits) 
      with k(2) b show ?thesis by (auto simp: built_inv_fits [OF assms(1)] fits_def)
    next
      case (Inr u)
      have b: "record_step dir rop b =
          b\<lparr>files := fs, under_way := ?u, last_built := (last_built b)(n \<mapsto> built)\<rparr>"
        using BuildEnds Some r Inr by (simp add: record_step_def)
      obtain cur where c: "records dir (files b) n = Some cur"
        "put_seat flt dir (built_record built uid cur) (files b) = (fs, None)"
        using built_writes [OF r] Inr by auto
      note put = put_records [OF assms(1) k(1) c(2)]
      have cur: "fits b cur" "seat_name cur = n"
        using k c(1) records_named [OF assms(1)] by auto
      have new: "\<not> needs_provisioning built cur"
        if "provisioned (built_record built uid cur) = generation"
        using that cur Some by (auto simp: built_record_facts fits_def split: if_splits)
      have "fits (record_step dir rop b) t" if "records dir fs m = Some t" for m t
      proof (cases "m = n")
        case True
        then have "t = (built_record built uid cur)\<lparr>schema := 1\<rparr>"
          using that put(2) cur(2) by (simp add: built_record_facts)
        with new b cur(2) show ?thesis by (auto simp: fits_def built_record_facts)
      next
        case False
        then have "records dir (files b) m = Some t"
          using that put(2) cur(2) by (simp add: built_record_facts)
        moreover have "seat_name t = m" using calculation records_named [OF assms(1) k(1)] by blast
        ultimately show ?thesis using k(2) [of m t] False b by (simp add: fits_def)
      qed
      with put(1) b show ?thesis by (simp add: built_inv_fits [OF assms(1)])
    qed
  qed
next
  case (BuildFails n)
  then show ?thesis using assms by (auto simp: record_step_def built_inv_def)
qed

lemma built_inv_steps:
  "clean_dir dir \<Longrightarrow> built_inv dir b \<Longrightarrow> built_inv dir (fold (record_step dir) rops b)"
  by (induction rops arbitrary: b) (simp_all add: built_inv_step)

text \<open>
  Property C22: a seat that is marked current was built as it is. Whatever settings are saved
  while builds run, fail and finish, and whichever writes fail: once everything recorded before
  was true, a record that carries the current generation has the address, the gateway and the
  resolution of the record that the last finished build of this seat was made of.
\<close>

theorem current_seat_was_built_as_it_is:
  assumes "clean_dir dir" "kept_records dir fs"
    and "\<forall>n s. records dir fs n = Some s \<longrightarrow> provisioned s \<noteq> generation"
    and "b = fold (record_step dir) rops \<lparr>files = fs, under_way = (\<lambda>_. None), last_built = (\<lambda>_. None)\<rparr>"
    and "records dir (files b) n = Some s" "provisioned s = generation"
  shows "\<exists>l. last_built b n = Some l \<and> address l = address s \<and> gateway l = gateway s
    \<and> resolution l = resolution s"
proof -
  have "built_inv dir b"
    unfolding assms(4) using assms(2,3) by (intro built_inv_steps [OF assms(1)]) (auto simp: built_inv_def)
  with assms(5,6) show ?thesis by (fastforce simp: built_inv_def needs_provisioning_def)
qed

text \<open>
  And a build that finishes loses no save: of the record as it is then it changes the uid, the
  mark and the stamp of the layout.
\<close>

lemma build_loses_no_save:
  assumes "clean_dir dir" "kept_records dir fs" "record_built flt dir n built uid fs = (fs', r)"
    "records dir fs' m = Some s"
  obtains s0 where "records dir fs m = Some s0"
    "s = s0 \<or> s = s0\<lparr>player_uid := uid, provisioned := provisioned s, schema := 1\<rparr>"
proof -
  consider "fs' = fs" | cur r' where "records dir fs n = Some cur"
      "put_seat flt dir (built_record built uid cur) fs = (fs', r')"
    using built_writes [OF assms(3)] by blast
  then show thesis
  proof cases
    case 1
    with assms(4) that show thesis by blast
  next
    case 2
    have "seat_name cur = n" using assms(1,2) 2(1) by (rule records_named)
    with 2 assms(4) put_records [OF assms(1,2) 2(2)] that show thesis
      by (cases "m = n") (auto simp: built_record_facts built_record_def Let_def split: if_splits)
  qed
qed

section \<open>The pass comes to its end\<close>

lemma await_end_returns:
  assumes "busy ((wait ^^ k) w) = []"
  shows "\<exists>w'. await_end busy wait w = Some w' \<and> busy w' = []"
  using assms
proof (induction k arbitrary: w)
  case 0
  then show ?case by (simp add: await_end.simps)
next
  case (Suc k)
  show ?case
  proof (cases "busy w = []")
    case True
    then show ?thesis by (simp add: await_end.simps)
  next
    case False
    with Suc.IH [of "wait w"] Suc.prems show ?thesis
      by (subst await_end.simps) (simp add: funpow_swap1)
  qed
qed

lemma await_idle_bounded: "\<exists>k \<le> n. await_idle busy wait n w = (wait ^^ k) w"
proof (induction n arbitrary: w)
  case (Suc n)
  from Suc [of "wait w"] obtain k where "k \<le> n" "await_idle busy wait n (wait w) = (wait ^^ Suc k) w"
    by (auto simp: funpow_swap1)
  then show ?case by (cases "busy w = []") (auto intro: exI [of _ 0] exI [of _ "Suc k"])
qed simp

lemma provision_sweep_from:
  assumes "\<And>n w. \<exists>k. busy n ((wait ^^ k) w) = []"
  shows "\<exists>w' outcomes. provision_sweep busy provision wait ns w seen = Some (w', seen @ outcomes)
    \<and> map fst outcomes = ns"
proof (induction ns arbitrary: w seen)
  case (Cons n ns)
  let ?w1 = "await_idle (busy n) wait sweep_patience w"
  have on: "\<exists>w' outcomes. provision_sweep busy provision wait ns w0 (seen @ [(n, done')])
      = Some (w', seen @ outcomes) \<and> map fst outcomes = n # ns" for w0 done'
  proof -
    obtain w' os where "provision_sweep busy provision wait ns w0 (seen @ [(n, done')])
        = Some (w', (seen @ [(n, done')]) @ os)" "map fst os = ns"
      using Cons.IH by blast
    then show ?thesis by (intro exI [of _ w'] exI [of _ "(n, done') # os"]) simp
  qed
  obtain w2 ok where p: "provision n ?w1 = (w2, ok)" by force
  obtain k where "busy n ((wait ^^ k) w2) = []" using assms by blast
  then obtain w3 where "await_end (busy n) wait w2 = Some w3"
    using await_end_returns [where busy = "busy n"] by blast
  with p on show ?case by (cases ok) (simp_all add: Let_def)
qed simp


text \<open>Two seats whose runs take four seconds each; the second is busy for six when the pass comes.\<close>

definition countdown_busy :: "string \<Rightarrow> nat \<Rightarrow> string" where
  "countdown_busy n w = (if w = 0 then [] else ''provisioning'')"

lemma countdown_zero: "((\<lambda>w. w - Suc 0) ^^ k) w = w - k"
  by (induction k arbitrary: w) (simp_all add: funpow_swap1)


section \<open>A build that finishes after an edit\<close>

text \<open>
  The sample seat is built, its label is edited meanwhile, and the build is written down: the
  record is current, and it is the one that was built.
\<close>

definition no_edit :: seat_edit where
  "no_edit = \<lparr>e_label = None, e_autostart = None, e_resolution = None, e_address = None,
     e_gateway = None, e_library = None, e_ge_proton = None, e_host_access = None,
     e_pointer_speed = None\<rparr>"

definition sample_building :: building where
  "sample_building =
     fold (record_step sample_dir)
       [BuildStarts (\<lambda>_. False) ''vince'',
        Edits (\<lambda>_. False) ''vince'' (no_edit\<lparr>e_label := Some ''Attic''\<rparr>),
        BuildEnds (\<lambda>_. False) ''vince'' 1000]
       \<lparr>files = sample_files, under_way = (\<lambda>_. None), last_built = (\<lambda>_. None)\<rparr>"

definition current_sample :: seat where
  "current_sample =
     sample_record\<lparr>label := ''Attic'', player_uid := 1000, provisioned := generation, schema := 1\<rparr>"

lemma sample_building_current:
  "get_seat (\<lambda>_. False) sample_dir (files sample_building) ''vince'' = Inr current_sample"
  by code_simp

lemma sample_record_stale: "provisioned sample_record \<noteq> generation"
  by code_simp

lemma sample_never_current:
  "records sample_dir sample_files n = Some s \<Longrightarrow> provisioned s \<noteq> generation"
proof -
  assume "records sample_dir sample_files n = Some s"
  then obtain p where "map_of sample_files p = Some (Regular (Holds s))"
    by (auto simp: records_def get_seat_def load_seat_def
        split: sum.splits if_splits option.splits seat_file.splits fs_entry.splits)
  then have "(p, Regular (Holds s)) \<in> set sample_files" by (rule map_of_SomeD)
  then have "s = sample_record" by (simp add: sample_files_def)
  then show ?thesis by (simp add: sample_record_stale)
qed

lemma current_seat_was_built_as_it_is_witness:
  "\<exists>l. last_built sample_building ''vince'' = Some l \<and> address l = address current_sample
     \<and> gateway l = gateway current_sample \<and> resolution l = resolution current_sample"
  using current_seat_was_built_as_it_is [OF sample_dir_clean sample_kept _ sample_building_def
      got_record [OF sample_building_current]] sample_never_current
  by (simp add: current_sample_def)

end
