(* ===== verification/Seat_Life.thy ===== *)
theory Seat_Life
  imports Records
begin

text \<open>
  Starting, building, stopping and deleting a seat (internal/seat/manager.go and start.go), as
  programs: what is called, in which order, and what is done with the answer. Whatever is not the
  daemon's own (Incus, systemd in the seat, the file store) is what a call is answered with.
\<close>

section \<open>Programs of calls\<close>

datatype seat_state =
  StateAbsent | StateStopped | StateStarting | StateRunning | StateStopping | StateBuilding | StateError

datatype life_call =
    GetRecord | SetState seat_state | ReadBusy | ReadStatus
  | AwaitGpu | EnsureManagement | EnsureCard | ReadMounts | StartContainer | RecoverHost
  | UnitActive string | DeadlineReached | Sleep | ReadEncoders
  | StartBroker | StopBroker | ForgetStream | RefreshSession
  | FindUplink | EnsureSecrets | ProvisionerRun | RecordBuilt
  | WaitSystemd | ReadUid | WaitAddresses | WritePointerConfig | WriteLauncherDefaults
  | WriteSunshineConfig | WriteApps | DaemonReload | EnableAudio | RestartSway
  | StopSession | StopContainer | IsCancelled | KillContainer
  | DeleteContainer | DeleteRecord | DeleteLogin | ForgetInPool | ForgetInShares | DropRuntime
  | IsStreaming | IsRunning | UpdateStep string | UpdateFlatpaks | ForgetPublished | RecordFreshness

text \<open>An answer: an error, or none, with a yes or no or a text where one was asked for.\<close>

datatype reply = Bad | Good | Yes | No | Says string

datatype life_error =
  CallFails life_call | NoUplinkKnown | NoContainerYet | DidNotComeUp string | WasCancelled
| SomebodyStreams | NotRunningNow

datatype life = Return "life_error option" | Call life_call "reply \<Rightarrow> life"

primrec then_do :: "life \<Rightarrow> life \<Rightarrow> life" where
  "then_do (Return e) k = (case e of None \<Rightarrow> k | Some _ \<Rightarrow> Return e)"
| "then_do (Call a f) k = Call a (\<lambda>r. then_do (f r) k)"

definition must :: "life_call \<Rightarrow> life \<Rightarrow> life" where
  "must a k = Call a (\<lambda>r. if r = Bad then Return (Some (CallFails a)) else k)"

definition attempt :: "life_call \<Rightarrow> life \<Rightarrow> life" where
  "attempt a k = Call a (\<lambda>_. k)"

definition says :: "reply \<Rightarrow> string" where
  "says r = (case r of Says t \<Rightarrow> t | _ \<Rightarrow> [])"

section \<open>The operations\<close>

text \<open>
  \<open>waitUnit\<close>: a look at the clock, the unit and a second's sleep, again and again. The deadline is
  60 seconds off, so there are at most 60 rounds.
\<close>

fun wait_unit :: "nat \<Rightarrow> string \<Rightarrow> life \<Rightarrow> life" where
  "wait_unit 0 u k = Return (Some (DidNotComeUp u))"
| "wait_unit (Suc n) u k =
     Call DeadlineReached (\<lambda>r.
       if r = Yes then Return (Some (DidNotComeUp u))
       else Call (UnitActive u) (\<lambda>r.
         if r = Yes then k
         else Call Sleep (\<lambda>r. if r = Bad then Return (Some WasCancelled) else wait_unit n u k)))"

definition sway_unit :: string where "sway_unit = ''polyseat-sway.service''"
definition sunshine_unit :: string where "sunshine_unit = ''polyseat-sunshine.service''"

definition start_session :: life where
  "start_session =
     must GetRecord (must WaitSystemd (must ReadUid (attempt WaitAddresses (attempt WritePointerConfig
       (attempt WriteLauncherDefaults (must WriteSunshineConfig (attempt WriteApps (must DaemonReload
         (must EnableAudio (must RestartSway (wait_unit 60 sunshine_unit
           (attempt ReadEncoders (attempt StartBroker (attempt (SetState StateRunning) (Return None)
         ))))))))))))))"

definition start_container :: "life \<Rightarrow> life" where
  "start_container k =
     Call ReadMounts (\<lambda>legacy. Call StartContainer (\<lambda>r.
       if r \<noteq> Bad then k
       else if legacy = No then Return (Some (CallFails StartContainer))
       else Call RecoverHost (\<lambda>r.
         if r \<noteq> Yes then Return (Some (CallFails StartContainer))
         else must StartContainer k)))"

definition build_seat :: life where
  "build_seat =
     must GetRecord (Call FindUplink (\<lambda>r.
       if says r = [] then Return (Some NoUplinkKnown)
       else must EnsureSecrets (attempt (SetState StateBuilding) (attempt StopBroker
              (must ProvisionerRun (must RecordBuilt start_session))))))"

text \<open>What an operation does; \<open>operate\<close> sets the state when it fails.\<close>

primrec operated :: "life \<Rightarrow> life" where
  "operated (Return e) = (case e of None \<Rightarrow> Return None | Some _ \<Rightarrow> attempt (SetState StateError) (Return e))"
| "operated (Call a f) = Call a (\<lambda>r. operated (f r))"

definition provision_op :: life where
  "provision_op = operated (must AwaitGpu build_seat)"

definition start_op :: life where
  "start_op =
     must GetRecord (operated (attempt (SetState StateStarting) (must AwaitGpu (Call GetRecord (\<lambda>built.
       if built = Bad then Return (Some (CallFails GetRecord))
       else if built = No then build_seat
       else Call ReadStatus (\<lambda>r.
         if r = Bad then Return (Some (CallFails ReadStatus))
         else if says r = [] then Return (Some NoContainerYet)
         else if says r \<noteq> ''Running'' then
           attempt EnsureManagement (attempt EnsureCard (start_container start_session))
         else Call (UnitActive sway_unit) (\<lambda>sway.
           if sway \<noteq> Yes then start_session
           else Call (UnitActive sunshine_unit) (\<lambda>sunshine.
             if sunshine \<noteq> Yes then start_session
             else attempt StartBroker (attempt (SetState StateRunning) (Return None))))))))))"

definition halt_container :: life where
  "halt_container =
     attempt StopSession (Call StopContainer (\<lambda>r.
       if r \<noteq> Bad then Return None
       else Call IsCancelled (\<lambda>r.
         if r = Yes then Return (Some WasCancelled) else must KillContainer (Return None))))"

definition stop_op :: life where
  "stop_op =
     must GetRecord (operated (attempt (SetState StateStopping) (attempt StopBroker
       (Call ReadStatus (\<lambda>r.
         if r = Bad then Return (Some (CallFails ReadStatus))
         else if says r = [] \<or> says r = ''Stopped'' then attempt (SetState StateStopped) (Return None)
         else then_do halt_container (attempt (SetState StateStopped) (Return None)))))))"

definition delete_op :: "bool \<Rightarrow> life" where
  "delete_op keep =
     (let forget = must DeleteRecord (must DeleteLogin (attempt ForgetInPool (attempt ForgetInShares
                     (attempt DropRuntime (Return None)))))
      in must GetRecord (operated (attempt StopBroker (Call ReadStatus (\<lambda>r.
           if r = Bad then Return (Some (CallFails ReadStatus))
           else if says r \<noteq> [] \<and> \<not> keep then
             then_do (if says r = ''Running'' then halt_container else Return None)
               (must DeleteContainer forget)
           else forget)))))"

text \<open>\<open>UpdateSoftware\<close> (freshness.go): the steps of a provisioning run that bring software.\<close>

definition update_steps :: "string list" where
  "update_steps = [''packages'', ''sunshine'', ''mangohud shim'', ''stevia'', ''faugus'', ''heroic'']"

definition update_op :: life where
  "update_op =
     must GetRecord (operated (Call IsStreaming (\<lambda>r.
       if r = Yes then Return (Some SomebodyStreams)
       else Call IsRunning (\<lambda>r.
         if r \<noteq> Yes then Return (Some NotRunningNow)
         else must GetRecord (attempt StopBroker
           (foldr (\<lambda>u k. must (UpdateStep u) k) update_steps
             (attempt UpdateFlatpaks (attempt ForgetPublished
               (then_do start_session (attempt RecordFreshness (Return None)))))))))))"

text \<open>
  \<open>onLifecycle\<close> for an action of Incus, and a sweep as far as the container does not run.
\<close>

definition lifecycle_op :: "string \<Rightarrow> life" where
  "lifecycle_op act =
     (if act \<notin> {''instance-started'', ''instance-shutdown'', ''instance-stopped'', ''instance-deleted''}
      then Return None
      else Call GetRecord (\<lambda>r. if r = Bad then Return None
        else Call ReadBusy (\<lambda>r. if says r \<noteq> [] then Return None
          else if act = ''instance-started'' then attempt (SetState StateStarting) (Return None)
          else attempt StopBroker (attempt
                 (SetState (if act = ''instance-deleted'' then StateAbsent else StateStopped)) (Return None)))))"

definition sweep_op :: life where
  "sweep_op =
     Call ReadStatus (\<lambda>r.
       if r = Bad then Return None
       else if says r = ''Running'' then attempt RefreshSession (Return None)
       else attempt StopBroker (attempt ForgetStream
              (attempt (SetState (if says r = [] then StateAbsent else StateStopped)) (Return None))))"

text \<open>The seats that are started with the daemon.\<close>

definition autostarted :: "seat list \<Rightarrow> string list" where
  "autostarted ss = map seat_name (filter (\<lambda>s. autostart s \<and> provisioned s \<noteq> 0) ss)"

section \<open>Running a program\<close>

text \<open>
  The world answers each call as it likes, knowing everything that was called and answered
  before. A run is the list of the calls with their answers, the last one first, and the error.
\<close>

type_synonym history = "(life_call \<times> reply) list"

primrec run_life ::
  "(history \<Rightarrow> life_call \<Rightarrow> reply) \<Rightarrow> life \<Rightarrow> history \<Rightarrow> history \<times> life_error option" where
  "run_life world (Return e) h = (h, e)"
| "run_life world (Call a f) h = run_life world (f (world h a)) ((a, world h a) # h)"

text \<open>
  A program is checked by walking through all it can do: \<open>permit\<close> says which call may be made
  after a history, \<open>final\<close> how it may end.
\<close>

primrec checked ::
  "(history \<Rightarrow> life_call \<Rightarrow> bool) \<Rightarrow> (history \<Rightarrow> life_error option \<Rightarrow> bool) \<Rightarrow> life \<Rightarrow> history \<Rightarrow> bool" where
  "checked permit final (Return e) = (\<lambda>h. final h e)"
| "checked permit final (Call a f) = (\<lambda>h. permit h a \<and> (\<forall>r. checked permit final (f r) ((a, r) # h)))"

lemma checked_run:
  assumes "checked permit final p h" "run_life world p h = (h', e)"
  shows "final h' e
    \<and> (\<exists>m. h' = m @ h \<and> (\<forall>post a r pre. m = post @ (a, r) # pre \<longrightarrow> permit (pre @ h) a))"
  using assms
proof (induction p arbitrary: h)
  case (Return e)
  then show ?case by auto
next
  case (Call a f)
  let ?r = "world h a"
  have "checked permit final (f ?r) ((a, ?r) # h)" using Call.prems(1) by simp
  from Call.IH [OF rangeI this] Call.prems(2) obtain m where
    m: "final h' e" "h' = m @ (a, ?r) # h"
    "\<And>post b r pre. m = post @ (b, r) # pre \<Longrightarrow> permit (pre @ (a, ?r) # h) b"
    by auto
  have "permit (pre @ h) b" if "m @ [(a, ?r)] = post @ (b, r) # pre" for post b r pre
  proof (cases pre rule: rev_cases)
    case Nil
    with that Call.prems(1) show ?thesis by simp
  next
    case (snoc pre' x)
    with that m(3) [of post b r pre'] show ?thesis by simp
  qed
  with m(1,2) show ?case by (intro conjI exI [of _ "m @ [(a, ?r)]"]) auto
qed

lemma checked_mono:
  "checked permit final p h \<Longrightarrow> (\<And>h e. final h e \<Longrightarrow> final' h e) \<Longrightarrow> checked permit final' p h"
  by (induction p arbitrary: h) auto

lemma checked_then:
  assumes "checked permit (\<lambda>h e. case e of None \<Rightarrow> checked permit final k h | Some _ \<Rightarrow> final h e) p h"
  shows "checked permit final (then_do p k) h"
  using assms
proof (induction p arbitrary: h)
  case (Return e)
  then show ?case by (cases e) simp_all
next
  case (Call a f)
  then show ?case by simp
qed

lemma checked_operated:
  assumes "checked permit
    (\<lambda>h e. case e of None \<Rightarrow> final h None
       | Some _ \<Rightarrow> permit h (SetState StateError) \<and> (\<forall>r. final ((SetState StateError, r) # h) e)) p h"
  shows "checked permit final (operated p) h"
  using assms
proof (induction p arbitrary: h)
  case (Return e)
  then show ?case by (cases e) (simp_all add: attempt_def)
next
  case (Call a f)
  then show ?case by simp
qed

lemma checked_wait:
  assumes "\<And>h a. a \<in> {DeadlineReached, UnitActive u, Sleep} \<Longrightarrow> permit h a"
    and "\<And>h. checked permit final k ((UnitActive u, Yes) # h)" "\<And>h e. final h (Some e)"
  shows "checked permit final (wait_unit n u k) h"
  using assms by (induction n arbitrary: h) auto

lemma checked_must:
  "checked permit final (must a k) h \<longleftrightarrow>
     permit h a \<and> (\<forall>r. if r = Bad then final ((a, r) # h) (Some (CallFails a))
                       else checked permit final k ((a, r) # h))"
  by (auto simp: must_def)

lemma checked_attempt:
  "checked permit final (attempt a k) h \<longleftrightarrow> permit h a \<and> (\<forall>r. checked permit final k ((a, r) # h))"
  by (simp add: attempt_def)

section \<open>What holds during every operation\<close>

text \<open>Something happened, and nothing that undoes it has happened since.\<close>

primrec since :: "(life_call \<times> reply \<Rightarrow> bool) \<Rightarrow> (life_call \<Rightarrow> bool) \<Rightarrow> history \<Rightarrow> bool" where
  "since on off [] = False"
| "since on off (e # h) = (on e \<or> \<not> off (fst e) \<and> since on off h)"

lemma since_iff:
  "since on off h \<longleftrightarrow> (\<exists>y e x. h = y @ e # x \<and> on e \<and> (\<forall>z \<in> set y. \<not> off (fst z)))"
proof (induction h)
  case (Cons e h)
  show ?case
  proof
    assume "since on off (e # h)"
    then consider "on e" | "\<not> off (fst e)" "since on off h" by auto
    then show "\<exists>y d x. e # h = y @ d # x \<and> on d \<and> (\<forall>z \<in> set y. \<not> off (fst z))"
    proof cases
      case 1
      then show ?thesis by (intro exI [of _ "[]"] exI [of _ e] exI [of _ h]) simp
    next
      case 2
      with Cons obtain y d x where "h = y @ d # x" "on d" "\<forall>z \<in> set y. \<not> off (fst z)" by blast
      with 2 show ?thesis by (intro exI [of _ "e # y"] exI [of _ d] exI [of _ x]) simp
    qed
  next
    assume "\<exists>y d x. e # h = y @ d # x \<and> on d \<and> (\<forall>z \<in> set y. \<not> off (fst z))"
    then obtain y d x where d: "e # h = y @ d # x" "on d" "\<forall>z \<in> set y. \<not> off (fst z)" by blast
    show "since on off (e # h)"
    proof (cases y)
      case (Cons z ys)
      with d have "h = ys @ d # x" "z = e" "\<forall>z \<in> set ys. \<not> off (fst z)" by simp_all
      with d(2) Cons.IH have "since on off h" by blast
      with d(3) Cons \<open>z = e\<close> show ?thesis by simp
    qed (use d in simp)
  qed
qed simp

definition broker_gone :: "history \<Rightarrow> bool" where
  "broker_gone = since (\<lambda>e. fst e = StopBroker) (\<lambda>a. a = StartBroker)"

definition broker_up :: "history \<Rightarrow> bool" where
  "broker_up = since (\<lambda>e. fst e = StartBroker) (\<lambda>a. a = StopBroker)"

definition takes_down :: "life_call \<Rightarrow> bool" where
  "takes_down a \<longleftrightarrow>
     a \<in> {StopSession, StopContainer, KillContainer, DeleteContainer, ProvisionerRun}
     \<or> (case a of UpdateStep _ \<Rightarrow> True | _ \<Rightarrow> False)"

definition session_asked :: "history \<Rightarrow> bool" where
  "session_asked = since (\<lambda>e. fst e = StopSession) (\<lambda>a. a \<in> {RestartSway, StartContainer})"

definition session_up :: "history \<Rightarrow> bool" where
  "session_up = since (\<lambda>e. e = (UnitActive sunshine_unit, Yes)) (\<lambda>a. takes_down a \<or> a = RestartSway)"

definition in_state :: "seat_state \<Rightarrow> history \<Rightarrow> bool" where
  "in_state st = since (\<lambda>e. fst e = SetState st) (\<lambda>a. \<exists>t. a = SetState t \<and> t \<noteq> st)"

definition in_order :: "history \<Rightarrow> life_call \<Rightarrow> bool" where
  "in_order h a \<longleftrightarrow>
     (takes_down a \<longrightarrow> broker_gone h)
     \<and> (a = StopContainer \<longrightarrow> session_asked h)
     \<and> (a = StartBroker \<longrightarrow> session_up h)
     \<and> (a = SetState StateRunning \<longrightarrow> broker_up h \<and> session_up h)"

lemmas history_defs = in_order_def broker_gone_def broker_up_def takes_down_def session_asked_def
  session_up_def in_state_def

definition ends_in :: "seat_state \<Rightarrow> history \<Rightarrow> life_error option \<Rightarrow> bool" where
  "ends_in st h e \<longleftrightarrow>
     (case e of None \<Rightarrow> in_state st h
      | Some _ \<Rightarrow> in_state StateError h \<or> (\<forall>t r. (SetState t, r) \<notin> set h))"

lemmas checked_simps = checked_must checked_attempt

lemma session_checked:
  "checked in_order (\<lambda>h e. e = None \<longrightarrow> in_state StateRunning h) start_session h"
  by (auto simp: start_session_def checked_simps history_defs intro!: checked_wait)

lemma halt_checked:
  "broker_gone h \<Longrightarrow> checked in_order (\<lambda>h' e. broker_gone h') halt_container h"
  by (auto simp: halt_container_def checked_simps history_defs)

lemma build_checked:
  "checked in_order (\<lambda>h e. e = None \<longrightarrow> in_state StateRunning h) build_seat h"
  using session_checked by (auto simp: build_seat_def checked_simps history_defs)

lemma operated_checked:
  assumes "checked in_order (\<lambda>h e. e = None \<longrightarrow> in_state st h) p h"
  shows "checked in_order (ends_in st) (operated p) h"
proof (rule checked_operated)
  have "(\<lambda>h e. case e of None \<Rightarrow> ends_in st h None | Some x \<Rightarrow> in_order h (SetState StateError)
      \<and> (\<forall>r. ends_in st ((SetState StateError, r) # h) e)) = (\<lambda>h e. e = None \<longrightarrow> in_state st h)"
    by (intro ext) (auto simp: ends_in_def history_defs split: option.splits)
  with assms show "checked in_order (\<lambda>h e. case e of None \<Rightarrow> ends_in st h None
      | Some x \<Rightarrow> in_order h (SetState StateError)
          \<and> (\<forall>r. ends_in st ((SetState StateError, r) # h) e)) p h" by simp
qed

lemma start_container_checked:
  assumes "\<And>h. checked in_order final k h" "\<And>h e. final h (Some e)"
  shows "checked in_order final (start_container k) h"
  using assms by (auto simp: start_container_def checked_simps history_defs)

lemma start_op_checked: "checked in_order (ends_in StateRunning) start_op []"
proof -
  have s: "checked in_order (\<lambda>h e. e = None \<longrightarrow> in_state StateRunning h) (start_container start_session) h" for h
    using session_checked by (intro start_container_checked) auto
  have "checked in_order (\<lambda>h e. e = None \<longrightarrow> in_state StateRunning h)
      (attempt StartBroker (attempt (SetState StateRunning) (Return None)))
      ((UnitActive sunshine_unit, Yes) # h)" for h
    by (simp add: checked_simps history_defs)
  with s session_checked build_checked show ?thesis
    unfolding start_op_def
    by (auto simp: checked_simps in_order_def takes_down_def ends_in_def intro!: operated_checked)
qed

lemma provision_op_checked: "checked in_order (ends_in StateRunning) provision_op []"
  unfolding provision_op_def using build_checked
  by (intro operated_checked) (auto simp: checked_simps in_order_def takes_down_def)

lemma update_op_checked: "checked in_order (ends_in StateRunning) update_op []"
proof -
  have "checked in_order (\<lambda>h e. e = None \<longrightarrow> in_state StateRunning h)
      (then_do start_session (attempt RecordFreshness (Return None))) h" for h
    by (rule checked_then, rule checked_mono [OF session_checked])
      (auto simp: checked_simps history_defs split: option.splits)
  then show ?thesis
    unfolding update_op_def
    by (auto simp: update_steps_def checked_simps history_defs ends_in_def intro!: operated_checked)
qed

lemma stop_op_checked: "checked in_order (ends_in StateStopped) stop_op []"
proof -
  have "checked in_order (\<lambda>h e. e = None \<longrightarrow> in_state StateStopped h)
      (then_do halt_container (attempt (SetState StateStopped) (Return None))) h" if "broker_gone h" for h
    by (rule checked_then, rule checked_mono [OF halt_checked [OF that]])
      (auto simp: checked_simps history_defs split: option.splits)
  then show ?thesis
    unfolding stop_op_def
    by (auto simp: checked_simps history_defs ends_in_def intro!: operated_checked)
qed

lemma operated_any:
  "checked in_order (\<lambda>h e. True) p h \<Longrightarrow> checked in_order (\<lambda>h e. True) (operated p) h"
  by (rule checked_operated, erule checked_mono) (simp add: in_order_def takes_down_def split: option.splits)

lemma delete_op_checked: "checked in_order (\<lambda>h e. True) (delete_op keep) []"
proof -
  define forget where "forget = must DeleteRecord (must DeleteLogin (attempt ForgetInPool
    (attempt ForgetInShares (attempt DropRuntime (Return None)))))"
  have f: "checked in_order (\<lambda>h e. True) forget h" for h
    by (simp add: forget_def checked_simps in_order_def takes_down_def)
  have d: "checked in_order (\<lambda>h e. True) (must DeleteContainer forget) h" if "broker_gone h" for h
    using f that by (simp add: checked_must in_order_def)
  have hd: "checked in_order (\<lambda>h e. True) (then_do halt_container (must DeleteContainer forget)) h"
    if "broker_gone h" for h
    by (rule checked_then, rule checked_mono [OF halt_checked [OF that]]) (simp add: d split: option.splits)
  have body: "checked in_order (\<lambda>h e. True) (attempt StopBroker (Call ReadStatus (\<lambda>r.
      if r = Bad then Return (Some (CallFails ReadStatus))
      else if says r \<noteq> [] \<and> \<not> keep then
        then_do (if says r = ''Running'' then halt_container else Return None) (must DeleteContainer forget)
      else forget))) h" for h
    using f d hd by (simp add: checked_attempt in_order_def takes_down_def broker_gone_def)
  show ?thesis
    unfolding delete_op_def Let_def forget_def [symmetric]
    using operated_any [OF body] by (simp add: checked_must in_order_def takes_down_def)
qed

text \<open>
  Property C24: nothing that takes a seat down meets a broker that still talks to it. However the
  world answers, whenever an operation stops, kills or deletes the container, stops the session or
  hands the seat to the provisioner or to a step of it, the broker was stopped before and not started again since;
  the container is stopped only once its session has been asked to stop; and the broker is started
  only on a seat whose Sunshine was seen active and that nothing has taken down or restarted since.
\<close>

theorem broker_never_meets_a_stopping_seat:
  assumes "p \<in> {start_op, provision_op, update_op, stop_op, delete_op True, delete_op False}"
    and "run_life world p [] = (h, e)" "h = after @ (a, r) # earlier"
  shows "(a \<in> {StopSession, StopContainer, KillContainer, DeleteContainer, ProvisionerRun} \<union> range UpdateStep \<longrightarrow>
      (\<exists>y s x. earlier = y @ (StopBroker, s) # x \<and> (\<forall>z \<in> set y. fst z \<noteq> StartBroker)))
    \<and> (a = StopContainer \<longrightarrow> (\<exists>s. (StopSession, s) \<in> set earlier))
    \<and> (a = StartBroker \<longrightarrow>
      (\<exists>y x. earlier = y @ (UnitActive sunshine_unit, Yes) # x
        \<and> (\<forall>z \<in> set y. fst z \<notin> {StopSession, StopContainer, KillContainer, DeleteContainer,
              ProvisionerRun, RestartSway} \<union> range UpdateStep)))"
proof -
  obtain final where "checked in_order final p []"
    using assms(1) start_op_checked provision_op_checked update_op_checked stop_op_checked delete_op_checked by blast
  from checked_run [OF this assms(2)] assms(3) have o: "in_order earlier a" by auto
  show ?thesis
  proof (intro conjI impI)
    assume "a \<in> {StopSession, StopContainer, KillContainer, DeleteContainer, ProvisionerRun} \<union> range UpdateStep"
    with o have "broker_gone earlier" unfolding in_order_def takes_down_def by auto
    then show "\<exists>y s x. earlier = y @ (StopBroker, s) # x \<and> (\<forall>z \<in> set y. fst z \<noteq> StartBroker)"
      unfolding broker_gone_def since_iff by fastforce
  next
    assume "a = StopContainer"
    with o have "session_asked earlier" by (simp add: in_order_def)
    then show "\<exists>s. (StopSession, s) \<in> set earlier"
      unfolding session_asked_def since_iff by fastforce
  next
    assume "a = StartBroker"
    with o have "session_up earlier" by (simp add: in_order_def)
    then show "\<exists>y x. earlier = y @ (UnitActive sunshine_unit, Yes) # x
        \<and> (\<forall>z \<in> set y. fst z \<notin> {StopSession, StopContainer, KillContainer, DeleteContainer,
              ProvisionerRun, RestartSway} \<union> range UpdateStep)"
      unfolding session_up_def since_iff takes_down_def by fastforce
  qed
qed

text \<open>
  The state on the card is the truth about the last operation. A start or a build
  that succeeds leaves the seat marked running, a stop that succeeds leaves it stopped, one that
  fails leaves it marked as failed unless it never began; and a seat is marked running only with
  its broker up and its Sunshine seen active.
\<close>

theorem state_tells_how_it_ended:
  assumes "(p, st) \<in> {(start_op, StateRunning), (provision_op, StateRunning), (update_op, StateRunning),
      (stop_op, StateStopped)}"
    and "run_life world p [] = (h, e)"
  shows "(if e = None then in_state st h
       else in_state StateError h \<or> (\<forall>t r. (SetState t, r) \<notin> set h))
    \<and> (\<forall>after r earlier. h = after @ (SetState StateRunning, r) # earlier \<longrightarrow>
         broker_up earlier \<and> session_up earlier)"
proof -
  have "checked in_order (ends_in st) p []"
    using assms(1) start_op_checked provision_op_checked update_op_checked stop_op_checked by auto
  from checked_run [OF this assms(2)] have "ends_in st h e"
    "\<forall>after a r earlier. h = after @ (a, r) # earlier \<longrightarrow> in_order earlier a" by auto
  then show ?thesis by (auto simp: ends_in_def in_order_def split: option.splits)
qed

section \<open>A container that does not stop in time\<close>

definition slow_world :: "history \<Rightarrow> life_call \<Rightarrow> reply" where
  "slow_world h a =
     (if a = ReadStatus then Says ''Running'' else if a = StopContainer then Bad
      else if a = IsCancelled then No else Good)"

definition slow_stop :: history where
  "slow_stop =
     [(SetState StateStopped, Good), (KillContainer, Good), (IsCancelled, No), (StopContainer, Bad),
      (StopSession, Good), (ReadStatus, Says ''Running''), (StopBroker, Good),
      (SetState StateStopping, Good), (GetRecord, Good)]"

lemma slow_stop_run: "run_life slow_world stop_op [] = (slow_stop, None)"
  by (simp add: stop_op_def halt_container_def must_def attempt_def slow_world_def says_def slow_stop_def)

lemma broker_never_meets_a_stopping_seat_witness:
  "\<exists>y s x. drop 2 slow_stop = y @ (StopBroker, s) # x \<and> (\<forall>z \<in> set y. fst z \<noteq> StartBroker)"
  using broker_never_meets_a_stopping_seat [OF _ slow_stop_run, of
      "[(SetState StateStopped, Good)]" KillContainer Good "drop 2 slow_stop"]
  by (simp add: slow_stop_def)

lemma state_tells_how_it_ended_witness: "in_state StateStopped slow_stop"
  using state_tells_how_it_ended [OF _ slow_stop_run, of StateStopped] by simp

end
