(* ===== verification/Host_Locale.thy ===== *)
theory Host_Locale
  imports NetIP
begin

text \<open>
  The language, the clock and the keyboard a seat takes from its host
  (internal/seat/locale.go): what the host's files may say, and the scripts and the part of the
  sway configuration that are made of it. The files are arguments.
\<close>

section \<open>What a value may look like\<close>

definition is_alnum :: "char \<Rightarrow> bool" where
  "is_alnum c \<longleftrightarrow> (let n = (of_char c :: nat)
     in 48 \<le> n \<and> n \<le> 57 \<or> 65 \<le> n \<and> n \<le> 90 \<or> 97 \<le> n \<and> n \<le> 122)"

lemma alnum_consts [simp]:
  "\<not> is_alnum CHR ''.''" "\<not> is_alnum CHR ''@''" "\<not> is_alnum CHR ''/''" "\<not> is_alnum CHR ''_''"
  "\<not> is_alnum CHR ''{''" "\<not> is_alnum CHR ''}''" "\<not> is_alnum CHR 0x27" "\<not> is_alnum CHR 0x22"
  "\<not> is_alnum CHR '' ''" "\<not> is_alnum CHR 0x0A"
  by (simp_all add: is_alnum_def)

definition run_of :: "string \<Rightarrow> string \<Rightarrow> bool" where
  "run_of also' s \<longleftrightarrow> s \<noteq> [] \<and> list_all (\<lambda>c. is_alnum c \<or> c \<in> set also') s"

text \<open>
  \<open>localePattern\<close>, \<open>^[A-Za-z0-9_]+(\.[A-Za-z0-9-]+)?(@[A-Za-z0-9]+)?$\<close>: no part has the
  character that begins the next one, so the first of each is where it begins.
\<close>

definition locale_base_matches :: "string \<Rightarrow> bool" where
  "locale_base_matches s =
     (case cut s ''.'' of None \<Rightarrow> run_of ''_'' s | Some (a, c) \<Rightarrow> run_of ''_'' a \<and> run_of ''-'' c)"

definition locale_matches :: "string \<Rightarrow> bool" where
  "locale_matches s =
     (case cut s ''@'' of
        None \<Rightarrow> locale_base_matches s
      | Some (b, m) \<Rightarrow> locale_base_matches b \<and> run_of [] m)"

definition zone_matches :: "string \<Rightarrow> bool" where
  "zone_matches s = (length (split_on CHR ''/'' s) \<le> 3 \<and> list_all (run_of ''+_-'') (split_on CHR ''/'' s))"

definition xkb_matches :: "string \<Rightarrow> bool" where
  "xkb_matches s = run_of ''_,.:+-'' s"

definition unquote_pair :: "string \<Rightarrow> string" where
  "unquote_pair v =
     (if length v < 2 then v
      else if hd v = last v \<and> (hd v = CHR 0x22 \<or> hd v = CHR 0x27) then butlast (tl v)
      else v)"

section \<open>The host's files\<close>

fun locale_lines :: "string list \<Rightarrow> string" where
  "locale_lines [] = []"
| "locale_lines (l # ls) =
     (case cut_prefix (trim_space l) ''LANG='' of
        None \<Rightarrow> locale_lines ls
      | Some v \<Rightarrow>
          (let v = unquote_pair (trim_space v)
           in if v = [] \<or> v = ''C'' \<or> v = ''POSIX'' then []
              else if has_prefix v ''C.'' then []
              else if \<not> locale_matches v then []
              else v))"

definition parse_locale_conf :: "string \<Rightarrow> string" where
  "parse_locale_conf text = locale_lines (split_on CHR 0x0A text)"

definition locale_charmap :: "string \<Rightarrow> string" where
  "locale_charmap v = (case cut v ''.'' of Some (_, charmap) \<Rightarrow> charmap | None \<Rightarrow> ''UTF-8'')"

text \<open>\<open>parseLocaltime\<close>: what stands behind the first place that names the zone database.\<close>

definition parse_localtime :: "string \<Rightarrow> string" where
  "parse_localtime target =
     (case cut target ''/usr/share/zoneinfo/'' of
        None \<Rightarrow> []
      | Some (_, zone) \<Rightarrow>
          (let zone = trim_prefix (trim_prefix zone ''posix/'') ''right/''
           in if zone = [] \<or> zone = ''UTC'' \<or> zone = ''Etc/UTC'' \<or> \<not> zone_matches zone
              then [] else zone))"

record keyboard =
  layout :: string
  variant :: string
  model :: string
  options :: string

definition no_keyboard :: keyboard where
  "no_keyboard = \<lparr>layout = [], variant = [], model = [], options = []\<rparr>"

definition keyboard_line :: "string \<Rightarrow> keyboard \<Rightarrow> keyboard" where
  "keyboard_line l k =
     (case cut (trim_space l) ''='' of
        None \<Rightarrow> k
      | Some (name, v) \<Rightarrow>
          (let v = unquote_pair (trim_space v); name = trim_space name
           in if v = [] \<or> \<not> xkb_matches v then k
              else if name = ''XKBLAYOUT'' then k\<lparr>layout := v\<rparr>
              else if name = ''XKBVARIANT'' then k\<lparr>variant := v\<rparr>
              else if name = ''XKBMODEL'' then k\<lparr>model := v\<rparr>
              else if name = ''XKBOPTIONS'' then k\<lparr>options := v\<rparr>
              else k))"

definition parse_vconsole :: "string \<Rightarrow> keyboard" where
  "parse_vconsole text =
     (let k = fold keyboard_line (split_on CHR 0x0A text) no_keyboard
      in if layout k = [] then no_keyboard else k)"

section \<open>What is made of them\<close>

definition quoted :: "string \<Rightarrow> string" where
  "quoted s = CHR 0x27 # s @ [CHR 0x27]"

definition locale_script :: "string \<Rightarrow> string" where
  "locale_script v =
     (let cm = locale_charmap v in join [CHR 0x0A]
       [[], ''set -e'', [],
        ''if ! grep -q '' @ quoted (''^'' @ v @ '' '' @ cm @ ''$'') @ '' /etc/locale.gen; then'',
        ''    if grep -q '' @ quoted (''^#'' @ v @ '' '' @ cm @ ''$'') @ '' /etc/locale.gen; then'',
        ''        sed -i '' @ quoted (''s/^#'' @ v @ '' '' @ cm @ ''$/'' @ v @ '' '' @ cm @ ''/'')
          @ '' /etc/locale.gen'',
        ''    else'',
        ''        printf '' @ quoted (''%s %s'' @ [CHR 0x5C] @ ''n'') @ '' '' @ quoted v @ '' ''
          @ quoted cm @ '' >> /etc/locale.gen'',
        ''    fi'', [],
        ''    locale-gen'',
        ''fi'', [],
        ''printf '' @ quoted (''LANG=%s'' @ [CHR 0x5C] @ ''n'') @ '' '' @ quoted v
          @ '' > /etc/locale.conf'', [],
        ''systemctl --user --machine=player@ set-environment LANG='' @ quoted v @ '' || true'', []])"

definition timezone_script :: "string \<Rightarrow> string" where
  "timezone_script z =
     join [CHR 0x0A]
       [[], ''set -e'', [],
        ''ln -sfn /usr/share/zoneinfo/'' @ z @ '' /etc/localtime'',
        ''printf '' @ quoted (''%s'' @ [CHR 0x0A]) @ '' '' @ quoted z @ '' > /etc/timezone'', []]"

definition xkb_setting :: "string \<Rightarrow> string \<Rightarrow> string list" where
  "xkb_setting name v = (if v \<noteq> [] then [''    '' @ name @ '' '' @ v] else [])"

definition sway_comment :: "string list" where
  "sway_comment =
     [''# The keyboard this machine is set to. A seat is a screen attached to'',
      ''# it and the person typing is at its keyboard, so a seat left on the'',
      ''# xkb default puts a US layout under every key.'']"

definition sway_input :: "keyboard \<Rightarrow> string" where
  "sway_input k =
     (if layout k = [] then []
      else join [CHR 0x0A]
             (sway_comment @ [''input * {'', ''    xkb_layout '' @ layout k]
              @ xkb_setting ''xkb_variant'' (variant k) @ xkb_setting ''xkb_model'' (model k)
              @ xkb_setting ''xkb_options'' (options k) @ [''}'']) @ [CHR 0x0A])"

text \<open>
  \<open>stepLocale\<close> and \<open>setTimezone\<close>: the scripts that are run and the first error. \<open>sh\<close> is what a
  script answers.
\<close>

definition set_timezone :: "(string \<Rightarrow> 'e option) \<Rightarrow> string \<Rightarrow> string list \<times> 'e option" where
  "set_timezone sh zone =
     (if zone = [] then ([], None) else ([timezone_script zone], sh (timezone_script zone)))"

definition step_locale :: "(string \<Rightarrow> 'e option) \<Rightarrow> string \<Rightarrow> string \<Rightarrow> string list \<times> 'e option" where
  "step_locale sh loc zone =
     (if loc = [] then ([], None)
      else case sh (locale_script loc) of
        Some e \<Rightarrow> ([locale_script loc], Some e)
      | None \<Rightarrow> (case set_timezone sh zone of (scripts, e) \<Rightarrow> (locale_script loc # scripts, e)))"

lemma no_locale_no_clock: "fst (step_locale sh [] zone) = []"
  by (simp add: step_locale_def)

section \<open>The shell's words\<close>

text \<open>
  The part of the shell's grammar the scripts keep to: blanks end a word, line feeds and
  operators stand for themselves, and between two quotes everything is taken as it is. Any
  other character with a meaning to the shell is refused.
\<close>

definition word_char :: "char \<Rightarrow> bool" where
  "word_char c \<longleftrightarrow> is_alnum c \<or> c \<in> set ''-_/.=@+!,:''"

definition operator_char :: "char \<Rightarrow> bool" where
  "operator_char c \<longleftrightarrow> c \<in> set (CHR 0x0A # '';>|&<()'')"

fun sh_words :: "string option \<Rightarrow> bool \<Rightarrow> string \<Rightarrow> string list option" where
  "sh_words word True [] = None"
| "sh_words None False [] = Some []"
| "sh_words (Some w) False [] = Some [w]"
| "sh_words word True (c # cs) =
     (if c = CHR 0x27 then sh_words word False cs
      else sh_words (Some ((case word of None \<Rightarrow> [] | Some w \<Rightarrow> w) @ [c])) True cs)"
| "sh_words word False (c # cs) =
     (if c = CHR 0x27 then sh_words (Some (case word of None \<Rightarrow> [] | Some w \<Rightarrow> w)) True cs
      else if word_char c then sh_words (Some ((case word of None \<Rightarrow> [] | Some w \<Rightarrow> w) @ [c])) False cs
      else if c = CHR '' '' \<or> operator_char c
      then map_option (\<lambda>ws. (case word of None \<Rightarrow> [] | Some w \<Rightarrow> [w])
                            @ (if c = CHR '' '' then [] else [[c]]) @ ws) (sh_words None False cs)
      else None)"

lemma sh_words_quoted:
  "CHR 0x27 \<notin> set v \<Longrightarrow> sh_words (Some w) True (v @ s) = sh_words (Some (w @ v)) True s"
  by (induction v arbitrary: w) auto

lemma sh_words_plain:
  "list_all word_char v \<Longrightarrow> sh_words (Some w) False (v @ s) = sh_words (Some (w @ v)) False s"
  by (induction v arbitrary: w) (auto simp: word_char_def is_alnum_def)

lemma word_char_consts [simp]:
  "\<not> word_char CHR 0x27" "\<not> word_char CHR '' ''" "\<not> word_char CHR 0x0A"
  by (simp_all add: word_char_def is_alnum_def)

definition locale_words :: "string \<Rightarrow> string \<Rightarrow> string list" where
  "locale_words v cm =
   [[CHR 0x0A], ''set'', ''-e'', [CHR 0x0A], [CHR 0x0A],
    ''if'', ''!'', ''grep'', ''-q'', ''^'' @ v @ '' '' @ cm @ ''$'', ''/etc/locale.gen'',
      '';'', ''then'', [CHR 0x0A],
    ''if'', ''grep'', ''-q'', ''^#'' @ v @ '' '' @ cm @ ''$'', ''/etc/locale.gen'',
      '';'', ''then'', [CHR 0x0A],
    ''sed'', ''-i'', ''s/^#'' @ v @ '' '' @ cm @ ''$/'' @ v @ '' '' @ cm @ ''/'',
      ''/etc/locale.gen'', [CHR 0x0A],
    ''else'', [CHR 0x0A],
    ''printf'', ''%s %s'' @ [CHR 0x5C] @ ''n'', v, cm, ''>'', ''>'', ''/etc/locale.gen'',
      [CHR 0x0A],
    ''fi'', [CHR 0x0A], [CHR 0x0A],
    ''locale-gen'', [CHR 0x0A],
    ''fi'', [CHR 0x0A], [CHR 0x0A],
    ''printf'', ''LANG=%s'' @ [CHR 0x5C] @ ''n'', v, ''>'', ''/etc/locale.conf'', [CHR 0x0A], [CHR 0x0A],
    ''systemctl'', ''--user'', ''--machine=player@'', ''set-environment'', ''LANG='' @ v,
      ''|'', ''|'', ''true'', [CHR 0x0A]]"

definition timezone_words :: "string \<Rightarrow> string list" where
  "timezone_words z =
   [[CHR 0x0A], ''set'', ''-e'', [CHR 0x0A], [CHR 0x0A],
    ''ln'', ''-sfn'', ''/usr/share/zoneinfo/'' @ z, ''/etc/localtime'', [CHR 0x0A],
    ''printf'', ''%s'' @ [CHR 0x0A], z, ''>'', ''/etc/timezone'', [CHR 0x0A]]"

lemma locale_script_words:
  assumes "CHR 0x27 \<notin> set v" "CHR 0x27 \<notin> set (locale_charmap v)"
  shows "sh_words None False (locale_script v) = Some (locale_words v (locale_charmap v))"
  using assms
  by (simp add: locale_script_def locale_words_def Let_def quoted_def sh_words_quoted word_char_def operator_char_def
      is_alnum_def)

lemma timezone_script_words:
  assumes "list_all word_char z"
  shows "sh_words None False (timezone_script z) = Some (timezone_words z)"
proof -
  have "CHR 0x27 \<notin> set z" using assms by (auto simp: list_all_iff)
  with assms show ?thesis
    by (simp add: timezone_script_def timezone_words_def quoted_def sh_words_quoted sh_words_plain word_char_def operator_char_def
      is_alnum_def)
qed

section \<open>What comes out of the host's files\<close>

lemma run_of_append: "run_of a s \<Longrightarrow> list_all (\<lambda>c. is_alnum c \<or> c \<in> set a) s"
  by (simp add: run_of_def)

lemma cut_Some: "cut s sep = Some (a, b) \<Longrightarrow> s = a @ sep @ b"
proof (induction s arbitrary: a)
  case Nil
  then show ?case by (simp add: cut.simps [of "[]"] split: if_splits) (cases sep; simp)
next
  case (Cons c s)
  then show ?case
    by (auto simp: cut.simps [of "c # s"] has_prefix_iff split: if_splits)
qed

definition locale_chars :: "string \<Rightarrow> bool" where
  "locale_chars s \<longleftrightarrow> list_all (\<lambda>c. is_alnum c \<or> c \<in> set ''_.-@'') s"

lemma locale_matches_chars: "locale_matches s \<Longrightarrow> locale_chars s"
  by (auto simp: locale_matches_def locale_base_matches_def locale_chars_def run_of_def
      dest!: cut_Some split: option.splits elim!: list.pred_mono_strong)

text \<open>The recogniser accepts what the pattern describes.\<close>

lemma cut_single: "cut (c # cs) [d] = (if c = d then Some ([], cs) else map_option (\<lambda>(a, b). (c # a, b)) (cut cs [d]))"
  by (subst cut.simps) simp

lemma cut_single_Nil [simp]: "cut [] [d] = None"
  by (subst cut.simps) simp

lemma cut_single_append: "d \<notin> set a \<Longrightarrow> cut (a @ d # b) [d] = Some (a, b)"
  by (induction a) (auto simp: cut_single)

lemma cut_single_None: "cut s [d] = None \<longleftrightarrow> d \<notin> set s"
  by (induction s) (auto simp: cut_single)

definition optional :: "char \<Rightarrow> string \<Rightarrow> string \<Rightarrow> bool" where
  "optional d also' s \<longleftrightarrow> s = [] \<or> (\<exists>x. s = d # x \<and> run_of also' x)"

lemma locale_base_matches_iff:
  "locale_base_matches s \<longleftrightarrow> (\<exists>a c. s = a @ c \<and> run_of ''_'' a \<and> optional CHR ''.'' ''-'' c)"
proof
  assume l: "locale_base_matches s"
  show "\<exists>a c. s = a @ c \<and> run_of ''_'' a \<and> optional CHR ''.'' ''-'' c"
  proof (cases "cut s ''.''")
    case None
    with l show ?thesis by (intro exI [of _ s] exI [of _ "[]"]) (simp add: locale_base_matches_def optional_def)
  next
    case (Some p)
    obtain a c where p: "p = (a, c)" by force
    with l Some have "run_of ''_'' a" "run_of ''-'' c" by (simp_all add: locale_base_matches_def)
    with cut_Some [OF Some [unfolded p]] show ?thesis
      by (intro exI [of _ a] exI [of _ "CHR ''.'' # c"]) (simp add: optional_def)
  qed
next
  assume "\<exists>a c. s = a @ c \<and> run_of ''_'' a \<and> optional CHR ''.'' ''-'' c"
  then obtain a c where s: "s = a @ c" "run_of ''_'' a" "optional CHR ''.'' ''-'' c" by blast
  then have "CHR ''.'' \<notin> set a" by (auto simp: run_of_def list_all_iff)
  with s show "locale_base_matches s"
    using cut_single_None [of a "CHR ''.''"]
    by (auto simp: locale_base_matches_def optional_def cut_single_append)
qed

lemma locale_matches_iff:
  "locale_matches s \<longleftrightarrow>
     (\<exists>a c m. s = a @ c @ m \<and> run_of ''_'' a \<and> optional CHR ''.'' ''-'' c \<and> optional CHR ''@'' [] m)"
proof
  assume l: "locale_matches s"
  show "\<exists>a c m. s = a @ c @ m \<and> run_of ''_'' a \<and> optional CHR ''.'' ''-'' c \<and> optional CHR ''@'' [] m"
  proof (cases "cut s ''@''")
    case None
    with l obtain a c where "s = a @ c" "run_of ''_'' a" "optional CHR ''.'' ''-'' c"
      by (auto simp: locale_matches_def locale_base_matches_iff)
    then show ?thesis
      by (intro exI [of _ a] exI [of _ c] exI [of _ "[]"]) (simp add: optional_def [of "CHR ''@''"])
  next
    case (Some p)
    obtain b m where p: "p = (b, m)" by force
    with Some l obtain a c where "b = a @ c" "run_of ''_'' a" "optional CHR ''.'' ''-'' c" "run_of [] m"
      by (auto simp: locale_matches_def locale_base_matches_iff)
    with cut_Some [OF Some [unfolded p]] show ?thesis
      by (intro exI [of _ a] exI [of _ c] exI [of _ "CHR ''@'' # m"])
        (simp add: optional_def [of "CHR ''@''"])
  qed
next
  assume "\<exists>a c m. s = a @ c @ m \<and> run_of ''_'' a \<and> optional CHR ''.'' ''-'' c \<and> optional CHR ''@'' [] m"
  then obtain a c m where s: "s = (a @ c) @ m" "run_of ''_'' a" "optional CHR ''.'' ''-'' c"
    "optional CHR ''@'' [] m" by auto
  then have b: "CHR ''@'' \<notin> set (a @ c)"
    by (auto simp: run_of_def optional_def list_all_iff dest!: bspec [of _ _ "CHR ''@''"])
  have "locale_base_matches (a @ c)" using s(2,3) by (auto simp: locale_base_matches_iff)
  moreover have "cut (a @ c) ''@'' = None" using b cut_single_None by blast
  ultimately show "locale_matches s"
    using s(1,4) cut_single_append [OF b]
    by (auto simp: locale_matches_def optional_def)
qed

lemma locale_lines_ok: "locale_lines ls \<noteq> [] \<Longrightarrow> locale_matches (locale_lines ls)"
  by (induction ls) (auto simp: Let_def split: option.splits if_splits)

lemma parse_locale_conf_ok:
  assumes "parse_locale_conf text \<noteq> []"
  shows "locale_chars (parse_locale_conf text)" "locale_chars (locale_charmap (parse_locale_conf text))"
proof -
  show v: "locale_chars (parse_locale_conf text)"
    using assms locale_lines_ok by (simp add: parse_locale_conf_def locale_matches_chars)
  show "locale_chars (locale_charmap (parse_locale_conf text))"
  proof (cases "cut (parse_locale_conf text) ''.''")
    case None
    then show ?thesis by (simp add: locale_charmap_def locale_chars_def is_alnum_def)
  next
    case (Some p)
    with v cut_Some [of "parse_locale_conf text" "''.''" "fst p" "snd p"] show ?thesis
      by (auto simp: locale_charmap_def locale_chars_def split: prod.splits)
  qed
qed

lemma parse_localtime_ok:
  assumes "parse_localtime target \<noteq> []"
  shows "list_all word_char (parse_localtime target)"
proof -
  have m: "zone_matches (parse_localtime target)"
    using assms by (auto simp: parse_localtime_def Let_def split: option.splits if_splits)
  have "set (parse_localtime target)
      \<subseteq> insert CHR ''/'' (\<Union>w \<in> set (split_on CHR ''/'' (parse_localtime target)). set w)"
    by (rule set_split_on)
  with m show ?thesis
    by (fastforce simp: zone_matches_def run_of_def list_all_iff word_char_def)
qed

text \<open>Every setting of the keyboard is empty or one word.\<close>

definition xkb_word :: "string \<Rightarrow> bool" where
  "xkb_word v \<longleftrightarrow> list_all (\<lambda>c. is_alnum c \<or> c \<in> set ''_,.:+-'') v"

definition keyboard_ok :: "keyboard \<Rightarrow> bool" where
  "keyboard_ok k \<longleftrightarrow>
     xkb_word (layout k) \<and> xkb_word (variant k) \<and> xkb_word (model k) \<and> xkb_word (options k)"

lemma keyboard_line_ok: "keyboard_ok k \<Longrightarrow> keyboard_ok (keyboard_line l k)"
  by (auto simp: keyboard_ok_def keyboard_line_def xkb_word_def xkb_matches_def run_of_def Let_def
      split: option.splits)

lemma parse_vconsole_ok: "keyboard_ok (parse_vconsole text)"
proof -
  have "keyboard_ok (fold keyboard_line ls k)" if "keyboard_ok k" for ls k
    using that by (induction ls arbitrary: k) (simp_all add: keyboard_line_ok)
  moreover have "keyboard_ok no_keyboard" by (simp add: keyboard_ok_def no_keyboard_def xkb_word_def)
  ultimately show ?thesis by (simp add: parse_vconsole_def Let_def)
qed

lemma xkb_word_line: "xkb_word v \<Longrightarrow> CHR 0x0A \<notin> set v"
  by (auto simp: xkb_word_def list_all_iff)

definition keyboard_lines :: "keyboard \<Rightarrow> string list" where
  "keyboard_lines k =
     sway_comment @ [''input * {'', ''    xkb_layout '' @ layout k]
     @ xkb_setting ''xkb_variant'' (variant k) @ xkb_setting ''xkb_model'' (model k)
     @ xkb_setting ''xkb_options'' (options k) @ [''}'']"

lemma sway_input_lines:
  assumes "keyboard_ok k" "layout k \<noteq> []"
  shows "split_on CHR 0x0A (sway_input k) = keyboard_lines k @ [[]]"
proof -
  have "\<forall>w \<in> set (keyboard_lines k @ [[]]). CHR 0x0A \<notin> set w"
    using assms(1) by (auto simp: keyboard_lines_def keyboard_ok_def xkb_setting_def sway_comment_def
        dest: xkb_word_line)
  moreover have "sway_input k = join [CHR 0x0A] (keyboard_lines k @ [[]])"
    using assms(2) by (simp add: sway_input_def keyboard_lines_def join_snoc del: append_assoc)
  ultimately show ?thesis using split_on_join by simp
qed

text \<open>
  Property C26: nothing a file of the host says can become more than one word of a script or of
  the sway configuration. Whatever stands in locale.conf, at the end of the link to the zone and
  in vconsole.conf, the words the shell reads in the two scripts are the ones below, with the
  value, as one word or a part of one, in its places; and the input block is the lines below, each
  setting on its own line and without a brace or a blank.
\<close>

theorem host_values_stay_words:
  assumes "v = parse_locale_conf conf" "v \<noteq> []" "z = parse_localtime target" "z \<noteq> []"
    "k = parse_vconsole vconsole" "layout k \<noteq> []"
  shows "sh_words None False (locale_script v) = Some (locale_words v (locale_charmap v))
    \<and> sh_words None False (timezone_script z) = Some (timezone_words z)
    \<and> split_on CHR 0x0A (sway_input k) = keyboard_lines k @ [[]]
    \<and> (\<forall>w \<in> {layout k, variant k, model k, options k}. set w \<inter> set ''{} '' = {})"
proof -
  have quotes: "CHR 0x27 \<notin> set w" if "locale_chars w" for w
    using that by (auto simp: locale_chars_def list_all_iff)
  have "keyboard_ok k" using assms(5) parse_vconsole_ok by simp
  moreover have "\<forall>w \<in> {layout k, variant k, model k, options k}. set w \<inter> set ''{} '' = {}"
    using calculation by (auto simp: keyboard_ok_def xkb_word_def list_all_iff)
  ultimately show ?thesis
    using locale_script_words [of v] timezone_script_words [of z] sway_input_lines [of k]
      quotes parse_locale_conf_ok [of conf] parse_localtime_ok [of target] assms
    by auto
qed

lemma host_values_stay_words_witness:
  "sh_words None False (timezone_script ''Europe/Berlin'') = Some (timezone_words ''Europe/Berlin'')
   \<and> parse_locale_conf (''# set'' @ [CHR 0x0A] @ ''LANG=de_DE.UTF-8'') = ''de_DE.UTF-8''"
proof -
  let ?conf = "''# set'' @ [CHR 0x0A] @ ''LANG=de_DE.UTF-8''"
  let ?vc = "''KEYMAP=de'' @ [CHR 0x0A] @ ''XKBLAYOUT=de''"
  have v: "parse_locale_conf ?conf = ''de_DE.UTF-8''" by code_simp
  have z: "parse_localtime ''../usr/share/zoneinfo/Europe/Berlin'' = ''Europe/Berlin''" by code_simp
  have k: "layout (parse_vconsole ?vc) = ''de''" by code_simp
  show ?thesis
    using host_values_stay_words [OF v [symmetric] _ z [symmetric] _ refl, of ?vc] v k by simp
qed

section \<open>Values that are refused\<close>

lemma refused_values:
  "parse_locale_conf ''LANG=C.UTF-8'' = []"
  "parse_locale_conf (''LANG=de_DE; reboot'') = []"
  "parse_locale_conf (''LANG=de_DE'' @ [CHR 0x27]) = []"
  "parse_localtime ''/usr/share/zoneinfo/posix/UTC'' = []"
  "parse_localtime ''/usr/share/zoneinfo/a/b/c/d'' = []"
  "parse_localtime ''/usr/share/zoneinfo/a;b'' = []"
  "parse_vconsole (''XKBLAYOUT=de }'' @ [CHR 0x0A] @ ''XKBMODEL=pc105'') = no_keyboard"
  by code_simp+

end
