(* ===== verification/Drop.thy ===== *)
theory Drop
  imports Seat Incus
begin

text \<open>
  Files that are uploaded into a seat (internal/seat/files.go): what a path may look like, and
  \<open>Receive\<close> with both ways a file is written, over a tree of what is in the seat.

  The file API of Incus is modelled as it is documented: it follows links, except that the kind of
  a path is that of what stands there itself. Writing as the player is a script in the seat and
  an argument.
\<close>

section \<open>What a path may look like\<close>

fun utf8_valid :: "string \<Rightarrow> bool" where
  "utf8_valid [] = True"
| "utf8_valid (c # cs) =
     (let n = rune_len c cs
      in (n \<noteq> 1 \<or> (of_char c :: nat) < 128) \<and> utf8_valid (drop (n - 1) cs))"

text \<open>\<open>unicode.IsControl\<close>: U+0000 to U+001F and U+007F to U+009F.\<close>

fun has_control :: "string \<Rightarrow> bool" where
  "has_control [] = False"
| "has_control (c # cs) =
     (let n = rune_len c cs; b = (of_char c :: nat)
      in n = 1 \<and> (b < 32 \<or> b = 127)
         \<or> n = 2 \<and> b = 194 \<and> (case cs of d # _ \<Rightarrow> cont_byte 128 159 d | [] \<Rightarrow> False)
         \<or> has_control (drop (n - 1) cs))"

definition max_drop_segment :: nat where "max_drop_segment = 255"
definition max_drop_path :: nat where "max_drop_path = 4096"
definition max_drop_depth :: nat where "max_drop_depth = 64"

datatype drop_refusal =
  NoName | PathTooLong | NotText | IsAbsolute | TooDeep | EmptyFolderName | LeadsOut
| NameTooLong string | HasControls string | Hidden string

fun check_drop_parts :: "bool \<Rightarrow> string list \<Rightarrow> drop_refusal option" where
  "check_drop_parts first [] = None"
| "check_drop_parts first (p # ps) =
     (if p = [] then Some EmptyFolderName
      else if p = ''.'' \<or> p = ''..'' then Some LeadsOut
      else if max_drop_segment < length p then Some (NameTooLong p)
      else if has_control p then Some (HasControls p)
      else if first \<and> has_prefix p ''.'' then Some (Hidden p)
      else check_drop_parts False ps)"

definition validate_drop_path :: "string \<Rightarrow> drop_refusal + string" where
  "validate_drop_path rel =
     (if rel = [] then Inl NoName
      else if max_drop_path < length rel then Inl PathTooLong
      else if \<not> utf8_valid rel then Inl NotText
      else if has_prefix rel ''/'' then Inl IsAbsolute
      else let parts = split_on CHR ''/'' rel
           in if max_drop_depth < length parts then Inl TooDeep
              else case check_drop_parts True parts of
                Some e \<Rightarrow> Inl e
              | None \<Rightarrow> Inr (join ''/'' parts))"

definition drop_dir :: string where "drop_dir = ''/home/player/Downloads''"

section \<open>What is in a seat\<close>

text \<open>A path is the list of its components; a link is where it leads.\<close>

datatype seat_node = Folder | Plain string | Link "string list"

type_synonym seat_tree = "string list \<Rightarrow> seat_node option"

function follow :: "seat_tree \<Rightarrow> nat \<Rightarrow> string list \<Rightarrow> string list \<Rightarrow> string list option" where
  "follow t n at_path [] = Some at_path"
| "follow t n at_path (c # cs) =
     (case t (at_path @ [c]) of
        Some (Link target) \<Rightarrow> (case n of 0 \<Rightarrow> None | Suc m \<Rightarrow> follow t m [] (target @ cs))
      | _ \<Rightarrow> follow t n (at_path @ [c]) cs)"
  by pat_completeness auto
termination
  by (relation "measures [\<lambda>(t, n, a, cs). n, \<lambda>(t, n, a, cs). length cs]") auto

text \<open>The kernel gives up after 40 links.\<close>

definition resolve :: "seat_tree \<Rightarrow> string list \<Rightarrow> string list option" where
  "resolve t p = follow t 40 [] p"

definition parent_folder :: "seat_tree \<Rightarrow> string list \<Rightarrow> string list option" where
  "parent_folder t p =
     (case resolve t (butlast p) of
        None \<Rightarrow> None
      | Some d \<Rightarrow> if d = [] \<or> t d = Some Folder then Some d else None)"

definition parts_of :: "string \<Rightarrow> string list" where
  "parts_of p = split_on CHR ''/'' (trim_set ''/'' p)"

datatype drop_call = AskStatus nat | LookAt string | MakeAt string | PushTo string

datatype drop_error =
  SeatRecord store_error | NoUid | NoContainer | UploadBroken | NothingUploaded
| CallFailed drop_call | NotAFolder string string | Occupied string string
| SeatIs string | PlayerSays string

text \<open>\<open>FileType\<close>.\<close>

definition kind_of :: "seat_node option \<Rightarrow> string" where
  "kind_of n = (case n of None \<Rightarrow> [] | Some Folder \<Rightarrow> ''directory'' | Some (Plain _) \<Rightarrow> ''file''
     | Some (Link _) \<Rightarrow> ''symlink'')"

definition file_type :: "(drop_call \<Rightarrow> bool) \<Rightarrow> seat_tree \<Rightarrow> string \<Rightarrow> drop_error + string" where
  "file_type flt t p =
     (if flt (LookAt p) then Inl (CallFailed (LookAt p))
      else case resolve t (butlast (parts_of p)) of
        None \<Rightarrow> Inl (CallFailed (LookAt p))
      | Some d \<Rightarrow> Inr (kind_of (t (d @ [last (parts_of p)]))))"

text \<open>
  \<open>MakeDir\<close>: one call for each level. A refusal counts for the last one only, and not when it
  says that the folder exists.
\<close>

datatype create_answer = Created | Exists | Refused

definition create_folder :: "(drop_call \<Rightarrow> bool) \<Rightarrow> string \<Rightarrow> seat_tree \<Rightarrow> seat_tree \<times> create_answer" where
  "create_folder flt p t =
     (if flt (MakeAt p) then (t, Refused)
      else case parent_folder t (parts_of p) of
        None \<Rightarrow> (t, Refused)
      | Some d \<Rightarrow> (let q = d @ [last (parts_of p)]
                   in if t q = None then (t(q \<mapsto> Folder), Created) else (t, Exists)))"

fun create_levels ::
  "(drop_call \<Rightarrow> bool) \<Rightarrow> string list \<Rightarrow> seat_tree \<Rightarrow> create_answer \<Rightarrow> seat_tree \<times> create_answer" where
  "create_levels flt [] t answer = (t, answer)"
| "create_levels flt (p # ps) t answer =
     (case create_folder flt p t of (t', answer') \<Rightarrow> create_levels flt ps t' answer')"

definition make_folder ::
  "(drop_call \<Rightarrow> bool) \<Rightarrow> string \<Rightarrow> seat_tree \<Rightarrow> seat_tree \<times> drop_error option" where
  "make_folder flt p t =
     (case create_levels flt (dir_levels p) t Created of
        (t', Refused) \<Rightarrow> (t', Some (CallFailed (MakeAt p)))
      | (t', _) \<Rightarrow> (t', None))"

text \<open>
  \<open>PushStream\<close>: the file takes the place of the one that stands there. A call that fails may
  have written part of it, \<open>torn\<close>.
\<close>

definition push_file ::
  "(drop_call \<Rightarrow> bool) \<Rightarrow> (string \<Rightarrow> string option) \<Rightarrow> string \<Rightarrow> string \<Rightarrow> seat_tree
     \<Rightarrow> seat_tree \<times> drop_error option" where
  "push_file flt torn p body t =
     (case resolve t (parts_of p) of
        None \<Rightarrow> (t, Some (CallFailed (PushTo p)))
      | Some q \<Rightarrow>
          if t q = Some Folder \<or> q = [] \<or> parent_folder t q = None
          then (t, Some (CallFailed (PushTo p)))
          else if flt (PushTo p)
          then (case torn p of None \<Rightarrow> t | Some part \<Rightarrow> t(q \<mapsto> Plain part), Some (CallFailed (PushTo p)))
          else (t(q \<mapsto> Plain body), None))"

section \<open>Into a seat that is off\<close>

fun check_way ::
  "(drop_call \<Rightarrow> bool) \<Rightarrow> string list \<Rightarrow> string \<Rightarrow> string list \<Rightarrow> seat_tree
     \<Rightarrow> (seat_tree \<times> string list) \<times> drop_error option" where
  "check_way flt [] walked made t = ((t, made), None)"
| "check_way flt (p # ps) walked made t =
     (let walked = walked @ ''/'' @ p
      in if \<not> has_prefix (walked @ ''/'') ''/home/player/'' \<or> walked \<in> set made
         then check_way flt ps walked made t
         else case file_type flt t walked of
           Inl e \<Rightarrow> ((t, made), Some e)
         | Inr k \<Rightarrow>
             if k = ''directory'' then check_way flt ps walked (walked # made) t
             else if k = [] then
               (case make_folder flt walked t of
                  (t', Some e) \<Rightarrow> ((t', made), Some e)
                | (t', None) \<Rightarrow> check_way flt ps walked (walked # made) t')
             else ((t, made), Some (NotAFolder walked k)))"

definition drop_into_stopped ::
  "(drop_call \<Rightarrow> bool) \<Rightarrow> (string \<Rightarrow> string option) \<Rightarrow> string \<Rightarrow> string \<Rightarrow> string list \<Rightarrow> seat_tree
     \<Rightarrow> (seat_tree \<times> string list) \<times> drop_error option" where
  "drop_into_stopped flt torn dest body made t =
     (let dir = path_dir dest
      in case (if dir \<in> set made then ((t, made), None) else check_way flt (parts_of dir) [] made t) of
           ((t, made), Some e) \<Rightarrow> ((t, made), Some e)
         | ((t, made), None) \<Rightarrow>
             (case file_type flt t dest of
                Inl e \<Rightarrow> ((t, made), Some e)
              | Inr k \<Rightarrow>
                  if k \<noteq> [] \<and> k \<noteq> ''file'' then ((t, made), Some (Occupied dest k))
                  else case push_file flt torn dest body t of (t', e) \<Rightarrow> ((t', made), e)))"

section \<open>Receive\<close>

record upload =
  up_path :: string
  up_body :: string

record received =
  got_files :: nat
  got_bytes :: nat
  got_skipped :: "(string \<times> drop_refusal) list"

record seat_now =
  seat_tree :: seat_tree
  seat_status :: string

text \<open>
  \<open>changes n\<close> is what happens in the seat by itself before the \<open>n\<close>th time its state is asked for.
\<close>

record drop_world =
  changes :: "nat \<Rightarrow> seat_now \<Rightarrow> seat_now"
  call_fails :: "drop_call \<Rightarrow> bool"
  torn_file :: "string \<Rightarrow> string option"
  as_player :: "string \<Rightarrow> string \<Rightarrow> seat_now \<Rightarrow> seat_now \<times> string option"

definition write_one ::
  "drop_world \<Rightarrow> string \<Rightarrow> string \<Rightarrow> string list \<Rightarrow> seat_now
     \<Rightarrow> (seat_now \<times> string list) \<times> drop_error option" where
  "write_one w dest body made s =
     (if seat_status s = ''Running'' then
        (case as_player w dest body s of (s', e) \<Rightarrow> ((s', made), map_option PlayerSays e))
      else if seat_status s = ''Stopped'' then
        (case drop_into_stopped (call_fails w) (torn_file w) dest body made (seat_tree s) of
           ((t, made'), e) \<Rightarrow> ((s\<lparr>seat_tree := t\<rparr>, made'), e))
      else ((s, made), Some (SeatIs (to_lower (seat_status s)))))"

fun receive_each ::
  "drop_world \<Rightarrow> nat \<Rightarrow> (drop_error + upload) list \<Rightarrow> string list \<Rightarrow> received \<Rightarrow> seat_now
     \<Rightarrow> (seat_now \<times> received) \<times> drop_error option" where
  "receive_each w n [] made got s = ((s, got), None)"
| "receive_each w n (Inl e # ups) made got s = ((s, got), Some e)"
| "receive_each w n (Inr up # ups) made got s =
     (case validate_drop_path (up_path up) of
        Inl e \<Rightarrow>
          receive_each w n ups made (got\<lparr>got_skipped := got_skipped got @ [(up_path up, e)]\<rparr>) s
      | Inr rel \<Rightarrow>
          (let s = changes w n s
           in if call_fails w (AskStatus n) then ((s, got), Some (CallFailed (AskStatus n)))
              else case write_one w (drop_dir @ ''/'' @ rel) (up_body up) made s of
                ((s', made'), Some e) \<Rightarrow> ((s', got), Some e)
              | ((s', made'), None) \<Rightarrow>
                  receive_each w (Suc n) ups made'
                    (got\<lparr>got_files := Suc (got_files got),
                         got_bytes := got_bytes got + length (up_body up)\<rparr>) s'))"

definition nothing_received :: received where
  "nothing_received = \<lparr>got_files = 0, got_bytes = 0, got_skipped = []\<rparr>"

definition receive ::
  "drop_world \<Rightarrow> store_error + seat \<Rightarrow> (drop_error + upload) list \<Rightarrow> seat_now
     \<Rightarrow> (seat_now \<times> received) \<times> drop_error option" where
  "receive w rec' ups s =
     (case rec' of
        Inl e \<Rightarrow> ((s, nothing_received), Some (SeatRecord e))
      | Inr r \<Rightarrow>
          if player_uid r = 0 then ((s, nothing_received), Some NoUid)
          else let s = changes w 0 s
               in if call_fails w (AskStatus 0) then ((s, nothing_received), Some (CallFailed (AskStatus 0)))
                  else if seat_status s = [] then ((s, nothing_received), Some NoContainer)
                  else case receive_each w 1 ups [] nothing_received s of
                    ((s', got), Some e) \<Rightarrow> ((s', got), Some e)
                  | ((s', got), None) \<Rightarrow>
                      if got_files got = 0 \<and> got_skipped got = [] then ((s', got), Some NothingUploaded)
                      else ((s', got), None))"

section \<open>The paths the server is given\<close>

lemma parts_of_abs [simp]: "ps \<noteq> [] \<Longrightarrow> plain_parts ps \<Longrightarrow> parts_of (abs_path ps) = ps"
  by (simp add: parts_of_def trim_abs_path split_join)

lemma dir_levels_abs:
  assumes "ps \<noteq> []" "plain_parts ps"
  shows "dir_levels (abs_path ps) = map (\<lambda>i. abs_path (take (Suc i) ps)) [0..<length ps]"
proof -
  have "''/'' @ join ''/'' (take (Suc i) ps) = abs_path (take (Suc i) ps)" for i
    using assms(1) by (subst abs_path_join) auto
  then show ?thesis
    using assms by (simp add: dir_levels_def Let_def trim_abs_path split_join)
qed

section \<open>Folders that are folders\<close>

text \<open>No link stands on the way to a path, nor at it.\<close>

definition solid :: "seat_tree \<Rightarrow> string list \<Rightarrow> bool" where
  "solid t ps \<longleftrightarrow> (\<forall>k < length ps. t (take (Suc k) ps) = Some Folder)"

lemma solid_Nil [simp]: "solid t []"
  by (simp add: solid_def)

lemma solid_snoc [simp]: "solid t (ps @ [p]) \<longleftrightarrow> solid t ps \<and> t (ps @ [p]) = Some Folder"
  by (auto simp: solid_def less_Suc_eq all_conj_distrib)

lemma solid_prefix: "solid t (ps @ qs) \<Longrightarrow> solid t ps"
  by (induction qs rule: rev_induct) (simp_all flip: append_assoc)

lemma follow_solid: "solid t (a @ ps) \<Longrightarrow> follow t n a ps = Some (a @ ps)"
proof (induction ps arbitrary: a)
  case (Cons p ps)
  then have "t (a @ [p]) = Some Folder" using solid_prefix [of t "a @ [p]" ps] by simp
  with Cons show ?case by simp
qed simp

lemma resolve_solid: "solid t ps \<Longrightarrow> resolve t ps = Some ps"
  using follow_solid [of t "[]" ps 40] by (simp add: resolve_def)

lemma follow_append:
  assumes "solid t (a @ ps)"
  shows "follow t n a (ps @ qs) = follow t n (a @ ps) qs"
  using assms
proof (induction ps arbitrary: a)
  case (Cons p ps)
  then have "t (a @ [p]) = Some Folder" using solid_prefix [of t "a @ [p]" ps] by simp
  with Cons show ?case by simp
qed simp

lemma resolve_end:
  assumes "solid t ps" "\<And>l. t (ps @ [x]) \<noteq> Some (Link l)"
  shows "resolve t (ps @ [x]) = Some (ps @ [x])"
  using assms follow_append [of t "[]" ps 40 "[x]"]
  by (auto simp: resolve_def split: option.split seat_node.split)

lemma parent_solid: "solid t ps \<Longrightarrow> parent_folder t (ps @ [x]) = Some ps"
  by (cases ps rule: rev_cases) (auto simp: parent_folder_def resolve_solid butlast_append)

lemma file_type_solid:
  assumes "solid t ps" "plain_parts (ps @ [x])"
  shows "file_type flt t (abs_path (ps @ [x])) =
    (if flt (LookAt (abs_path (ps @ [x]))) then Inl (CallFailed (LookAt (abs_path (ps @ [x]))))
     else Inr (kind_of (t (ps @ [x]))))"
  using assms parts_of_abs [of "ps @ [x]"]
  by (simp add: file_type_def resolve_solid del: abs_path_simps)

lemma kind_of_simps [simp]:
  "kind_of n = [] \<longleftrightarrow> n = None" "kind_of n = ''directory'' \<longleftrightarrow> n = Some Folder"
  "kind_of n = ''file'' \<longleftrightarrow> (\<exists>b. n = Some (Plain b))"
  by (simp_all add: kind_of_def split: option.split seat_node.split)

text \<open>A level that is there stays as it is, whatever the server says.\<close>

lemma create_folder_there:
  assumes "solid t (ps @ [x])" "plain_parts (ps @ [x])"
  shows "fst (create_folder flt (abs_path (ps @ [x])) t) = t"
  using assms parts_of_abs [of "ps @ [x]"]
  by (simp add: create_folder_def parent_solid del: abs_path_simps)

lemma create_levels_there:
  assumes "solid t ps" "plain_parts ps" "\<forall>k \<in> set ks. k < length ps"
  shows "create_levels flt (map (\<lambda>i. abs_path (take (Suc i) ps)) ks @ rest) t answer =
     (if ks = [] then create_levels flt rest t answer
      else create_levels flt rest t (snd (create_folder flt (abs_path (take (Suc (last ks)) ps)) t)))"
  using assms(3)
proof (induction ks arbitrary: answer)
  case (Cons k ks)
  have split: "take (Suc k) ps = take k ps @ [ps ! k]" using Cons.prems by (simp add: take_Suc_conv_app_nth)
  have "solid t (take (Suc k) ps)" "plain_parts (take (Suc k) ps)"
    using assms(1,2) solid_prefix [of t "take (Suc k) ps" "drop (Suc k) ps"] plain_parts_take by auto
  then have "fst (create_folder flt (abs_path (take (Suc k) ps)) t) = t"
    unfolding split by (rule create_folder_there)
  then obtain answer' where "create_folder flt (abs_path (take (Suc k) ps)) t = (t, answer')"
    by (metis prod.collapse)
  with Cons show ?case by simp
qed simp

lemma make_folder_new:
  assumes "solid t ps" "plain_parts (ps @ [x])" "t (ps @ [x]) = None"
  shows "make_folder flt (abs_path (ps @ [x])) t =
    (if flt (MakeAt (abs_path (ps @ [x]))) then (t, Some (CallFailed (MakeAt (abs_path (ps @ [x])))))
     else (t(ps @ [x] \<mapsto> Folder), None))"
proof -
  let ?p = "abs_path (ps @ [x])"
  have "dir_levels ?p = map (\<lambda>i. abs_path (take (Suc i) ps)) [0..<length ps] @ [?p]"
    using dir_levels_abs [OF _ assms(2)] by (simp del: abs_path_simps)
  moreover have "create_folder flt ?p t =
      (if flt (MakeAt ?p) then (t, Refused) else (t(ps @ [x] \<mapsto> Folder), Created))"
    using assms parts_of_abs [of "ps @ [x]"]
    by (simp add: create_folder_def parent_solid del: abs_path_simps)
  moreover have "create_levels flt (map (\<lambda>i. abs_path (take (Suc i) ps)) [0..<length ps] @ [?p]) t Created
      = create_folder flt ?p t"
    using assms(1,2) create_levels_there [OF assms(1), of "[0..<length ps]" flt "[?p]" Created]
    by (auto split: prod.split)
  ultimately show ?thesis by (simp add: make_folder_def del: abs_path_simps)
qed

section \<open>What an upload may change\<close>

definition drop_parts :: "string list" where
  "drop_parts = [''home'', ''player'', ''Downloads'']"

definition on_the_way :: "string list \<Rightarrow> bool" where
  "on_the_way q \<longleftrightarrow> q = [''home'', ''player''] \<or> (\<exists>r. q = drop_parts @ r)"

text \<open>
  Folders are made in the home and below Downloads where nothing was, and the files of \<open>Q\<close> are
  written where nothing or a file was. Nothing else changes.
\<close>

definition confined :: "string list set \<Rightarrow> seat_tree \<Rightarrow> seat_tree \<Rightarrow> bool" where
  "confined Q t t' \<longleftrightarrow>
     (\<forall>q. t' q = t q
        \<or> t q = None \<and> t' q = Some Folder \<and> on_the_way q
        \<or> q \<in> Q \<and> (\<forall>b. t q \<noteq> Some Folder \<and> t q \<noteq> Some (Link b)) \<and> (\<exists>b. t' q = Some (Plain b)))"

lemma confined_refl [simp]: "confined Q t t"
  by (simp add: confined_def)

lemma confined_folder: "confined Q t t' \<Longrightarrow> t q = Some Folder \<Longrightarrow> t' q = Some Folder"
  unfolding confined_def by (metis option.distinct(1))

lemma confined_trans:
  assumes "confined Q t t1" "confined Q t1 t2"
  shows "confined Q t t2"
  unfolding confined_def
proof (intro allI)
  fix q
  have a: "t1 q = t q \<or> t q = None \<and> t1 q = Some Folder \<and> on_the_way q
    \<or> q \<in> Q \<and> (\<forall>b. t q \<noteq> Some Folder \<and> t q \<noteq> Some (Link b)) \<and> (\<exists>b. t1 q = Some (Plain b))"
    and b: "t2 q = t1 q \<or> t1 q = None \<and> t2 q = Some Folder \<and> on_the_way q
    \<or> q \<in> Q \<and> (\<forall>b. t1 q \<noteq> Some Folder \<and> t1 q \<noteq> Some (Link b)) \<and> (\<exists>b. t2 q = Some (Plain b))"
    using assms unfolding confined_def by blast+
  from a b show "t2 q = t q \<or> t q = None \<and> t2 q = Some Folder \<and> on_the_way q
    \<or> q \<in> Q \<and> (\<forall>b. t q \<noteq> Some Folder \<and> t q \<noteq> Some (Link b)) \<and> (\<exists>b. t2 q = Some (Plain b))"
    by (elim disjE conjE) simp_all
qed

lemma confined_mono: "confined Q t t' \<Longrightarrow> Q \<subseteq> Q' \<Longrightarrow> confined Q' t t'"
  unfolding confined_def by blast

lemma confined_solid: "confined Q t t' \<Longrightarrow> solid t ps \<Longrightarrow> solid t' ps"
  by (auto simp: solid_def dest: confined_folder)

definition made_ok :: "seat_tree \<Rightarrow> string list \<Rightarrow> bool" where
  "made_ok t made \<longleftrightarrow> (\<forall>m \<in> set made. \<exists>ps. m = abs_path ps \<and> ps \<noteq> [] \<and> plain_parts ps \<and> solid t ps)"

lemma made_ok_confined: "confined Q t t' \<Longrightarrow> made_ok t made \<Longrightarrow> made_ok t' made"
  unfolding made_ok_def by (metis confined_solid)

lemma made_ok_solid:
  "made_ok t made \<Longrightarrow> abs_path ps \<in> set made \<Longrightarrow> ps \<noteq> [] \<Longrightarrow> plain_parts ps \<Longrightarrow> solid t ps"
  unfolding made_ok_def by (metis parts_of_abs)

lemma made_ok_Cons:
  "made_ok t made \<Longrightarrow> ps \<noteq> [] \<Longrightarrow> plain_parts ps \<Longrightarrow> solid t ps \<Longrightarrow> made_ok t (abs_path ps # made)"
  by (auto simp: made_ok_def simp del: abs_path_simps)

lemma check_way_confined:
  assumes "check_way flt ps (abs_path a) made t = ((t', made'), e)"
    and "a @ ps = drop_parts @ r" "a \<noteq> []" "plain_parts (a @ ps)" "solid t a" "made_ok t made"
  shows "confined {} t t' \<and> made_ok t' made' \<and> (e = None \<longrightarrow> solid t' (a @ ps))"
  using assms
proof (induction ps arbitrary: a made t)
  case Nil
  then show ?case by simp
next
  case (Cons p ps)
  let ?w = "abs_path a @ ''/'' @ p"
  have w: "?w = abs_path (a @ [p])" by simp
  have whole: "(a @ [p]) @ ps = drop_parts @ r" "plain_parts ((a @ [p]) @ ps)" "a @ [p] \<noteq> []"
    using Cons.prems by simp_all
  have pl: "plain_parts (a @ [p])" "plain_parts ps" using Cons.prems(4) by simp_all
  have way: "on_the_way (a @ [p]) \<and> has_prefix (?w @ ''/'') ''/home/player/''"
  proof -
    obtain a1 where a: "a = ''home'' # a1" using Cons.prems(2,3) by (cases a) (auto simp: drop_parts_def)
    show ?thesis
    proof (cases a1)
      case Nil
      with a Cons.prems(2) show ?thesis by (simp add: drop_parts_def on_the_way_def)
    next
      case (Cons x a2)
      with a Cons.prems(2) have "x = ''player''" by (simp add: drop_parts_def)
      moreover have "\<exists>q. a @ [p] = drop_parts @ q"
        using a Cons whole(1) by (cases a2) (auto simp: drop_parts_def)
      ultimately show ?thesis using a Cons by (cases a2) (auto simp: on_the_way_def)
    qed
  qed
  have next_step: "?case"
    if "check_way flt ps (abs_path (a @ [p])) made2 t2 = ((t', made'), e)"
      "confined {} t t2" "made_ok t2 made2" "solid t2 (a @ [p])" for made2 t2
    using Cons.IH [OF that(1) whole(1) whole(3) whole(2) that(4,3)] confined_trans [OF that(2)] by simp
  show ?case
  proof (cases "?w \<in> set made")
    case True
    then have "solid t (a @ [p])" using Cons.prems(6) pl w made_ok_solid [of t made "a @ [p]"] by simp
    then show ?thesis
      using next_step [of made t] Cons.prems(1,6) True way w by (simp add: Let_def)
  next
    case False
    note ft = file_type_solid [OF Cons.prems(5) pl(1), of flt]
    show ?thesis
    proof (cases "flt (LookAt ?w)")
      case True
      then have "t' = t" "made' = made" "e \<noteq> None"
        using Cons.prems(1) False way ft w by (auto simp: Let_def)
      then show ?thesis using Cons.prems(6) by auto
    next
      case False
      then have kind: "file_type flt t ?w = Inr (kind_of (t (a @ [p])))" using ft w by simp
      consider (folder) "t (a @ [p]) = Some Folder" | (none) "t (a @ [p]) = None"
        | (other) "t (a @ [p]) \<noteq> None" "t (a @ [p]) \<noteq> Some Folder" by blast
      then show ?thesis
      proof cases
        case folder
        then have "solid t (a @ [p])" using Cons.prems(5) by simp
        with folder show ?thesis
          using next_step [of "?w # made" t] Cons.prems(1,6) \<open>?w \<notin> set made\<close> way kind w
            made_ok_Cons [of t made "a @ [p]"] pl
          by (simp add: Let_def)
      next
        case none
        note mk = make_folder_new [OF Cons.prems(5) pl(1) none, of flt]
        show ?thesis
        proof (cases "flt (MakeAt ?w)")
          case True
          then have "t' = t" "made' = made" "e \<noteq> None"
            using Cons.prems(1) \<open>?w \<notin> set made\<close> way kind none mk w by (auto simp: Let_def)
          then show ?thesis using Cons.prems(6) by auto
        next
          case False
          let ?t = "t(a @ [p] \<mapsto> Folder)"
          have c: "confined {} t ?t" using none way by (simp add: confined_def)
          then have s: "solid ?t (a @ [p])" using confined_solid [OF c Cons.prems(5)] by simp
          show ?thesis
            using next_step [of "?w # made" ?t] Cons.prems(1,6) \<open>?w \<notin> set made\<close> way kind w none mk False
              made_ok_Cons [of ?t made "a @ [p]"] pl c s made_ok_confined [OF c]
            by (simp add: Let_def)
        qed
      next
        case other
        then have "t' = t" "made' = made" "e \<noteq> None"
          using Cons.prems(1) \<open>?w \<notin> set made\<close> way kind by (auto simp: Let_def split: if_splits)
        then show ?thesis using Cons.prems(6) by auto
      qed
    qed
  qed
qed

section \<open>An accepted path\<close>

lemma check_drop_parts_ok:
  "check_drop_parts first ps = None \<Longrightarrow> \<forall>p \<in> set ps. CHR ''/'' \<notin> set p \<Longrightarrow> plain_parts ps"
  by (induction first ps rule: check_drop_parts.induct)
    (auto simp: component_name_def split: if_splits)

lemma validate_drop_path_ok:
  assumes "validate_drop_path rel = Inr out'"
  shows "out' = rel" "split_on CHR ''/'' out' \<noteq> []" "plain_parts (split_on CHR ''/'' out')"
    "drop_dir @ ''/'' @ out' = abs_path (drop_parts @ split_on CHR ''/'' out')"
proof -
  let ?ps = "split_on CHR ''/'' rel"
  have c: "check_drop_parts True ?ps = None" "out' = join ''/'' ?ps"
    using assms by (auto simp: validate_drop_path_def Let_def split: if_splits option.splits)
  show r: "out' = rel" using c(2) join_split_on [of "CHR ''/''" rel] by simp
  show "split_on CHR ''/'' out' \<noteq> []" by simp
  show "plain_parts (split_on CHR ''/'' out')" unfolding r using check_drop_parts_ok [OF c(1)] split_on_no_sep by blast
  have "abs_path ?ps = ''/'' @ rel"
    using abs_path_join [of ?ps] join_split_on [of "CHR ''/''" rel] by simp
  then show "drop_dir @ ''/'' @ out' = abs_path (drop_parts @ split_on CHR ''/'' out')"
    unfolding r by (simp add: drop_dir_def drop_parts_def)
qed

text \<open>One file written into a seat that is off.\<close>

lemma drop_into_stopped_confined:
  assumes "drop_into_stopped flt torn (abs_path (drop_parts @ ps)) body made t = ((t', made'), e)"
    and "ps \<noteq> []" "plain_parts ps" "t [''home''] = Some Folder" "made_ok t made"
  shows "confined {drop_parts @ ps} t t' \<and> made_ok t' made'
    \<and> (e = None \<longrightarrow> t' (drop_parts @ ps) = Some (Plain body))"
proof -
  obtain qs x where ps: "ps = qs @ [x]" using assms(2) by (cases ps rule: rev_cases) auto
  let ?d = "drop_parts @ qs" and ?q = "drop_parts @ ps"
  have dp: "plain_parts drop_parts" by (simp add: drop_parts_def component_name_def)
  then have pd: "plain_parts ?d" "component_name x" "plain_parts (?d @ [x])" "?q = ?d @ [x]" "?d \<noteq> []"
    using assms(3) ps by (simp_all add: drop_parts_def)
  have dir: "path_dir (abs_path ?q) = abs_path ?d" "parts_of (abs_path ?d) = ?d" "parts_of (abs_path ?q) = ?q"
    using path_dir_abs [OF pd(5,1,2)] parts_of_abs [OF pd(5,1)] parts_of_abs [of ?q] pd by (simp_all only:) simp_all
  define way where "way = (if abs_path ?d \<in> set made then ((t, made), None) else check_way flt ?d [] made t)"
  obtain t1 made1 e1 where w: "way = ((t1, made1), e1)" by (metis prod.collapse)
  have h: "confined {} t t1 \<and> made_ok t1 made1 \<and> (e1 = None \<longrightarrow> solid t1 ?d)"
  proof (cases "abs_path ?d \<in> set made")
    case True
    with w assms(5) pd(1,5) made_ok_solid show ?thesis by (auto simp: way_def)
  next
    case False
    let ?rest = "[''player'', ''Downloads''] @ qs"
    have "check_way flt ?d [] made t = check_way flt ?rest (abs_path [''home'']) made t"
      by (simp add: drop_parts_def)
    then have "check_way flt ?rest (abs_path [''home'']) made t = ((t1, made1), e1)"
      using w False by (simp add: way_def)
    moreover have "solid t [''home'']" using assms(4) solid_snoc [of t "[]"] by simp
    moreover have "[''home''] @ ?rest = drop_parts @ qs" by (simp add: drop_parts_def)
    ultimately show ?thesis
      using check_way_confined [of flt ?rest "[''home'']" made t t1 made1 e1 qs] pd(1) assms(5)
      by (simp add: drop_parts_def component_name_def del: check_way.simps)
  qed
  have run: "drop_into_stopped flt torn (abs_path ?q) body made t =
      (case ((t1, made1), e1) of
           ((t, made), Some e) \<Rightarrow> ((t, made), Some e)
         | ((t, made), None) \<Rightarrow>
             (case file_type flt t (abs_path ?q) of
                Inl e \<Rightarrow> ((t, made), Some e)
              | Inr k \<Rightarrow>
                  if k \<noteq> [] \<and> k \<noteq> ''file'' then ((t, made), Some (Occupied (abs_path ?q) k))
                  else case push_file flt torn (abs_path ?q) body t of (t', e) \<Rightarrow> ((t', made), e)))"
    unfolding drop_into_stopped_def Let_def dir w [unfolded way_def] ..
  show ?thesis
  proof (cases e1)
    case (Some err)
    then show ?thesis using run assms(1) h confined_mono by auto
  next
    case None
    then have s: "solid t1 ?d" using h by simp
    have ft: "file_type flt t1 (abs_path ?q) = (if flt (LookAt (abs_path ?q))
        then Inl (CallFailed (LookAt (abs_path ?q))) else Inr (kind_of (t1 ?q)))"
      using file_type_solid [OF s pd(3), of flt] unfolding pd(4) .
    show ?thesis
    proof (cases "flt (LookAt (abs_path ?q)) \<or> t1 ?q = Some Folder \<or> (\<exists>l. t1 ?q = Some (Link l))")
      case True
      then have "t' = t1" "made' = made1" "e \<noteq> None"
        using run assms(1) None ft by (auto split: if_splits)
      then show ?thesis using h confined_mono by auto
    next
      case False
      then have r: "resolve t1 ?q = Some ?q" using resolve_end [OF s, of x] pd(4) by simp
      have par: "parent_folder t1 ?q = Some ?d" using parent_solid [OF s] pd(4) by simp
      have free: "t1 ?q = None \<or> (\<exists>b. t1 ?q = Some (Plain b))"
        using False by (metis option.exhaust seat_node.exhaust)
      then have k: "kind_of (t1 ?q) = [] \<or> kind_of (t1 ?q) = ''file''" by auto
      have "push_file flt torn (abs_path ?q) body t1 = (t', e)" "made' = made1"
        using run assms(1) None ft k False by (auto split: prod.splits if_splits)
      then have "confined {?q} t1 t' \<and> (e = None \<longrightarrow> t' ?q = Some (Plain body))"
        using free False r par dir(3)
        by (auto simp: push_file_def confined_def split: if_splits option.splits)
      moreover have "confined {?q} t t1" using h confined_mono by blast
      ultimately show ?thesis
        using h confined_trans made_ok_confined \<open>made' = made1\<close> by blast
    qed
  qed
qed

section \<open>A whole upload\<close>

text \<open>The files of an upload whose names are accepted, where they go and what they hold.\<close>

fun accepted :: "(drop_error + upload) list \<Rightarrow> (string list \<times> string) list" where
  "accepted [] = []"
| "accepted (Inl e # ups) = accepted ups"
| "accepted (Inr up # ups) =
     (case validate_drop_path (up_path up) of
        Inl _ \<Rightarrow> accepted ups
      | Inr rel \<Rightarrow> (drop_parts @ split_on CHR ''/'' rel, up_body up) # accepted ups)"

lemma accepted_below: "(q, b) \<in> set (accepted ups) \<Longrightarrow> on_the_way q"
  by (induction ups rule: accepted.induct) (auto simp: on_the_way_def split: sum.splits)

lemma receive_each_confined:
  assumes "receive_each w n ups made got s = ((s', got'), e)"
    and "\<forall>n s. changes w n s = s" "seat_status s = ''Stopped''" "seat_tree s [''home''] = Some Folder"
    and "made_ok (seat_tree s) made"
  shows "confined (fst ` set (accepted ups)) (seat_tree s) (seat_tree s')
    \<and> (e = None \<longrightarrow>
         (\<forall>q b. map_of (rev (accepted ups)) q = Some b \<longrightarrow> seat_tree s' q = Some (Plain b))
         \<and> got_files got' = got_files got + length (accepted ups)
         \<and> got_bytes got' = got_bytes got + sum_list (map (length \<circ> snd) (accepted ups)))"
  using assms
proof (induction w n ups made got s rule: receive_each.induct)
  case (3 w n up ups made got s)
  show ?case
  proof (cases "validate_drop_path (up_path up)")
    case (Inl r)
    with 3 show ?thesis by simp
  next
    case (Inr rel)
    let ?ps = "split_on CHR ''/'' rel" and ?t = "seat_tree s"
    note ok = validate_drop_path_ok [OF Inr]
    have same: "changes w n s = s" using "3.prems"(2) by simp
    show ?thesis
    proof (cases "call_fails w (AskStatus n)")
      case True
      then show ?thesis using "3.prems"(1) Inr same by auto
    next
      case False
      obtain t1 made1 e1 where d:
        "drop_into_stopped (call_fails w) (torn_file w) (abs_path (drop_parts @ ?ps)) (up_body up) made ?t
           = ((t1, made1), e1)" by (metis prod.collapse)
      have one: "write_one w (drop_dir @ ''/'' @ rel) (up_body up) made s
          = ((s\<lparr>seat_tree := t1\<rparr>, made1), e1)"
        using d "3.prems"(3) unfolding ok(4) by (simp add: write_one_def)
      have c: "confined {drop_parts @ ?ps} ?t t1" "made_ok t1 made1"
        "e1 = None \<Longrightarrow> t1 (drop_parts @ ?ps) = Some (Plain (up_body up))"
        using drop_into_stopped_confined [OF d ok(2,3) "3.prems"(4,5)] by blast+
      have acc: "accepted (Inr up # ups) = (drop_parts @ ?ps, up_body up) # accepted ups" using Inr by simp
      show ?thesis
      proof (cases e1)
        case (Some err)
        then have "s' = s\<lparr>seat_tree := t1\<rparr>" "e \<noteq> None"
          using "3.prems"(1) Inr same False one by auto
        then show ?thesis using confined_mono [OF c(1), of "fst ` set (accepted (Inr up # ups))"] acc by auto
      next
        case None
        let ?got = "got\<lparr>got_files := Suc (got_files got), got_bytes := got_bytes got + length (up_body up)\<rparr>"
        let ?s = "s\<lparr>seat_tree := t1\<rparr>"
        have run: "receive_each w (Suc n) ups made1 ?got ?s = ((s', got'), e)"
          using "3.prems"(1) Inr same False one None by simp
        have home: "t1 [''home''] = Some Folder" using confined_folder [OF c(1) "3.prems"(4)] .
        have IH: "confined (fst ` set (accepted ups)) t1 (seat_tree s')
          \<and> (e = None \<longrightarrow>
             (\<forall>q b. map_of (rev (accepted ups)) q = Some b \<longrightarrow> seat_tree s' q = Some (Plain b))
             \<and> got_files got' = got_files ?got + length (accepted ups)
             \<and> got_bytes got' = got_bytes ?got + sum_list (map (length \<circ> snd) (accepted ups)))"
          using "3.IH"(2) [OF Inr] run one same False None "3.prems"(2,3) home c(2) by (auto simp: comp_def)
        have stays: "seat_tree s' q = Some (Plain b)"
          if "q \<notin> fst ` set (accepted ups)" "t1 q = Some (Plain b)" for q b
          using IH that unfolding confined_def by (metis option.distinct(1))
        have last_one: "seat_tree s' q = Some (Plain b)"
          if "map_of (rev (accepted ups) @ [(drop_parts @ ?ps, up_body up)]) q = Some b" "e = None" for q b
        proof (cases "map_of (rev (accepted ups)) q")
          case (Some b')
          with that IH show ?thesis by (simp add: map_add_Some_iff)
        next
          case None
          then have "q \<notin> fst ` set (accepted ups)" by (simp add: map_of_eq_None_iff)
          moreover have "q = drop_parts @ ?ps" "b = up_body up"
            using that(1) None by (auto simp: map_add_Some_iff split: if_splits)
          ultimately show ?thesis using stays c(3) \<open>e1 = None\<close> by blast
        qed
        have "confined (fst ` set (accepted (Inr up # ups))) ?t (seat_tree s')"
          using confined_trans [OF confined_mono [OF c(1)] confined_mono [OF conjunct1 [OF IH]],
              of "fst ` set (accepted (Inr up # ups))"] acc by auto
        then show ?thesis using IH acc last_one by (auto simp: comp_def)
      qed
    qed
  qed
qed auto

text \<open>
  Property C25: an upload into a seat that is off writes nothing but the files it carries and the
  folders they are in. Whatever links the player has left in the seat and whichever call fails,
  only folders in the home and below Downloads are added and only files at the accepted names
  written, where nothing or a file was; when the upload ends well every file is there with what
  was last sent under its name, and they are all counted.
\<close>

theorem upload_stays_in_downloads:
  assumes "\<forall>n s. changes w n s = s" "seat_status s = ''Stopped''"
    and "seat_tree s [''home''] = Some Folder"
    and "receive w rec' ups s = ((s', got), e)"
  shows "confined (fst ` set (accepted ups)) (seat_tree s) (seat_tree s')
    \<and> (\<forall>q. seat_tree s' q \<noteq> seat_tree s q \<longrightarrow> on_the_way q)
    \<and> (e = None \<longrightarrow>
         (\<forall>q b. map_of (rev (accepted ups)) q = Some b \<longrightarrow> seat_tree s' q = Some (Plain b))
         \<and> got_files got = length (accepted ups)
         \<and> got_bytes got = sum_list (map (length \<circ> snd) (accepted ups)))"
proof -
  have "confined (fst ` set (accepted ups)) (seat_tree s) (seat_tree s')
    \<and> (e = None \<longrightarrow>
         (\<forall>q b. map_of (rev (accepted ups)) q = Some b \<longrightarrow> seat_tree s' q = Some (Plain b))
         \<and> got_files got = length (accepted ups)
         \<and> got_bytes got = sum_list (map (length \<circ> snd) (accepted ups)))"
    using assms(4) receive_each_confined [of w 1 ups "[]" nothing_received s s' got] assms(1-3)
    by (auto simp: receive_def nothing_received_def made_ok_def Let_def
        split: sum.splits if_splits prod.splits option.splits)
  moreover have "on_the_way q" if "seat_tree s' q \<noteq> seat_tree s q" for q
    using calculation that accepted_below unfolding confined_def by fastforce
  ultimately show ?thesis by blast
qed

section \<open>A folder of saves, and a link\<close>

definition sample_tree :: seat_tree where
  "sample_tree = [
     [''etc''] \<mapsto> Folder, [''home''] \<mapsto> Folder, [''home'', ''player''] \<mapsto> Folder,
     drop_parts \<mapsto> Folder, drop_parts @ [''preload''] \<mapsto> Link [''etc'', ''ld.so.preload'']]"

definition sample_drop :: drop_world where
  "sample_drop =
     \<lparr>changes = (\<lambda>_ s. s), call_fails = (\<lambda>_. False), torn_file = (\<lambda>_. None),
      as_player = (\<lambda>_ _ s. (s, None))\<rparr>"

definition sample_uploads :: "(drop_error + upload) list" where
  "sample_uploads =
     [Inr \<lparr>up_path = ''saves/slot1'', up_body = ''one''\<rparr>,
      Inr \<lparr>up_path = ''../slot1'', up_body = ''out''\<rparr>,
      Inr \<lparr>up_path = ''saves/slot1'', up_body = ''three''\<rparr>,
      Inr \<lparr>up_path = ''preload'', up_body = ''evil''\<rparr>]"

abbreviation sample_off :: seat_now where
  "sample_off \<equiv> \<lparr>seat_tree = sample_tree, seat_status = ''Stopped''\<rparr>"

text \<open>The upload stops at the link, and the file behind it is not made.\<close>

lemma link_is_not_followed:
  "snd (receive sample_drop (Inr sample_record) sample_uploads sample_off)
     = Some (Occupied ''/home/player/Downloads/preload'' ''symlink'')"
  "seat_tree (fst (fst (receive sample_drop (Inr sample_record) sample_uploads sample_off)))
     [''etc'', ''ld.so.preload''] = None"
  by code_simp+

lemma upload_stays_in_downloads_witness:
  "seat_tree (fst (fst (receive sample_drop (Inr sample_record) (take 3 sample_uploads) sample_off)))
     (drop_parts @ [''saves'', ''slot1'']) = Some (Plain ''three'')
   \<and> got_files (snd (fst (receive sample_drop (Inr sample_record) (take 3 sample_uploads) sample_off))) = 2"
proof -
  let ?r = "receive sample_drop (Inr sample_record) (take 3 sample_uploads) sample_off"
  have e: "snd ?r = None" by code_simp
  have a: "map_of (rev (accepted (take 3 sample_uploads))) (drop_parts @ [''saves'', ''slot1'']) = Some ''three''"
    "length (accepted (take 3 sample_uploads)) = 2"
    by code_simp+
  have h: "seat_tree sample_off [''home''] = Some Folder" by code_simp
  have r: "?r = ((fst (fst ?r), snd (fst ?r)), snd ?r)" by simp
  show ?thesis
    using upload_stays_in_downloads [OF _ _ h r] a e by (simp add: sample_drop_def)
qed

text \<open>
  Nothing holds the seat off meanwhile. \<open>made\<close> outlives a start in between: a folder that was
  looked at, replaced by a link while the seat ran, is written through when it is off again.
\<close>

definition swapped_by_player :: "nat \<Rightarrow> seat_now \<Rightarrow> seat_now" where
  "swapped_by_player n s =
     (if n = 2 then s\<lparr>seat_tree := (seat_tree s)
        (drop_parts @ [''saves''] \<mapsto> Link [''etc''], drop_parts @ [''saves'', ''slot1''] := None)\<rparr>
      else s)"

lemma made_outlives_a_start:
  "seat_tree (fst (fst (receive (sample_drop\<lparr>changes := swapped_by_player\<rparr>) (Inr sample_record)
     [Inr \<lparr>up_path = ''saves/slot1'', up_body = ''one''\<rparr>,
      Inr \<lparr>up_path = ''saves/shadow'', up_body = ''evil''\<rparr>] sample_off)))
     [''etc'', ''shadow''] = Some (Plain ''evil'')"
  by code_simp

end
