(* ===== verification/Access.thy ===== *)
theory Access
  imports Seat Network
begin

text \<open>
  The login a seat's Sunshine asks for and the way to it (internal/seat/secrets.go and
  manager.go: \<open>ensureSecrets\<close>, \<open>SunshineCredentials\<close>, \<open>managementAddress\<close>,
  \<open>noManagementPath\<close>), and the ring of lines a seat's card shows (log.go).
\<close>

section \<open>The files\<close>

record secrets =
  sunshine_user :: string
  sunshine_password :: string

datatype secret_entry = HoldsLogin secrets | NotALogin

type_synonym secret_files = "(string \<times> secret_entry) list"

datatype secret_call =
  ReadSecret | MakeSecretDir | WriteSecret | RenameSecret | RemoveSecret | ReadRandom

datatype secret_error = BadName | SecretFails secret_call | NotSecrets

definition no_secrets :: secrets where
  "no_secrets = \<lparr>sunshine_user = [], sunshine_password = []\<rparr>"

definition secrets_path :: "string \<Rightarrow> string \<Rightarrow> secret_error + string" where
  "secrets_path dir name =
     (if check_name name \<noteq> None then Inl BadName
      else Inr (path_join [dir, ''..'', ''secrets'', name @ ''.json'']))"

definition get_secrets ::
  "(secret_call \<Rightarrow> bool) \<Rightarrow> string \<Rightarrow> string \<Rightarrow> secret_files \<Rightarrow> secret_error + secrets" where
  "get_secrets flt dir name fs =
     (case secrets_path dir name of
        Inl e \<Rightarrow> Inl e
      | Inr p \<Rightarrow>
          if flt ReadSecret then Inl (SecretFails ReadSecret)
          else case map_of fs p of
            None \<Rightarrow> Inr no_secrets
          | Some NotALogin \<Rightarrow> Inl NotSecrets
          | Some (HoldsLogin s) \<Rightarrow> Inr s)"

text \<open>A write that fails leaves part of a file under the temporary name.\<close>

definition put_secrets ::
  "(secret_call \<Rightarrow> bool) \<Rightarrow> string \<Rightarrow> string \<Rightarrow> secrets \<Rightarrow> secret_files
     \<Rightarrow> secret_files \<times> secret_error option" where
  "put_secrets flt dir name s fs =
     (case secrets_path dir name of
        Inl e \<Rightarrow> (fs, Some e)
      | Inr p \<Rightarrow>
          if flt MakeSecretDir then (fs, Some (SecretFails MakeSecretDir))
          else let tmp = p @ ''.tmp''
            in if flt WriteSecret
               then (AList.update tmp NotALogin fs, Some (SecretFails WriteSecret))
               else if flt RenameSecret
               then (AList.update tmp (HoldsLogin s) fs, Some (SecretFails RenameSecret))
               else (AList.update p (HoldsLogin s) (AList.delete tmp fs), None))"

definition delete_secrets ::
  "(secret_call \<Rightarrow> bool) \<Rightarrow> string \<Rightarrow> string \<Rightarrow> secret_files \<Rightarrow> secret_files \<times> secret_error option" where
  "delete_secrets flt dir name fs =
     (case secrets_path dir name of
        Inl e \<Rightarrow> (fs, Some e)
      | Inr p \<Rightarrow>
          if map_of fs p = None then (fs, None)
          else if flt RemoveSecret then (fs, Some (SecretFails RemoveSecret))
          else (AList.delete p fs, None))"

text \<open>\<open>ensureSecrets\<close>; \<open>random\<close> is what \<open>RandomPassword\<close> makes this time.\<close>

definition ensure_secrets ::
  "(secret_call \<Rightarrow> bool) \<Rightarrow> string \<Rightarrow> string \<Rightarrow> string \<Rightarrow> secret_files
     \<Rightarrow> secret_files \<times> (secret_error + secrets)" where
  "ensure_secrets flt random dir name fs =
     (case get_secrets flt dir name fs of
        Inl e \<Rightarrow> (fs, Inl e)
      | Inr s \<Rightarrow>
          if sunshine_user s \<noteq> [] \<and> sunshine_password s \<noteq> [] then (fs, Inr s)
          else if flt ReadRandom then (fs, Inl (SecretFails ReadRandom))
          else let s = \<lparr>sunshine_user = ''polyseat'', sunshine_password = random\<rparr>
               in case put_secrets flt dir name s fs of
                    (fs', Some e) \<Rightarrow> (fs', Inl e)
                  | (fs', None) \<Rightarrow> (fs', Inr s))"

section \<open>The way to a seat's Sunshine\<close>

type_synonym addresses = "(string \<times> string list) list"

definition address_on :: "addresses \<Rightarrow> string \<Rightarrow> string" where
  "address_on as iface = (case map_of as iface of Some (a # _) \<Rightarrow> a | _ \<Rightarrow> [])"

datatype access_error =
  SecretsFail secret_error | NoLoginYet | NotRunning | NoPath string bool

record sunshine_access =
  username :: string
  password :: string
  on_address :: "string option"

definition sunshine_credentials ::
  "secret_error + secrets \<Rightarrow> addresses \<Rightarrow> access_error + sunshine_access" where
  "sunshine_credentials got as =
     (case got of
        Inl e \<Rightarrow> Inl (SecretsFail e)
      | Inr s \<Rightarrow>
          if sunshine_user s = [] then Inl NoLoginYet
          else Inr \<lparr>username = sunshine_user s, password = sunshine_password s,
                    on_address = (if address_on as ''eth1'' = [] then None
                                  else Some (address_on as ''eth1''))\<rparr>)"

text \<open>\<open>NamedAddresses\<close>: the interfaces that hold something, sorted.\<close>

definition named_addresses :: "addresses \<Rightarrow> string" where
  "named_addresses as =
     (let names = sort (map fst (filter (\<lambda>(_, xs). xs \<noteq> []) as))
      in join '', '' (map (\<lambda>n. n @ '' '' @ join '' '' (case map_of as n of Some xs \<Rightarrow> xs | None \<Rightarrow> [])) names))"

text \<open>
  \<open>managementAddress\<close> asks the server only where the answer can matter; \<open>inst\<close> is what it would
  answer. \<open>noManagementPath\<close> says what the seat has instead, and whether its LAN interface is one
  the host cannot be reached over.
\<close>

definition management_address :: "addresses \<Rightarrow> devices option \<Rightarrow> string" where
  "management_address as inst =
     (if snd (management_path as None) \<noteq> [] then snd (management_path as None)
      else if addrs_on as lan_device_name = [] then []
      else case inst of None \<Rightarrow> [] | Some devs \<Rightarrow> snd (management_path as (Some devs)))"

definition no_management_path :: "bool \<Rightarrow> addresses \<Rightarrow> access_error" where
  "no_management_path running as =
     (if \<not> running then NotRunning else NoPath (named_addresses as) (addrs_on as lan_device_name \<noteq> []))"

section \<open>The ring of lines\<close>

record log_ring =
  ring_lines :: "string list"
  ring_max :: nat

definition new_log :: "nat \<Rightarrow> log_ring" where
  "new_log m = \<lparr>ring_lines = [], ring_max = m\<rparr>"

definition log_add :: "string \<Rightarrow> string \<Rightarrow> log_ring \<Rightarrow> log_ring" where
  "log_add stamp line r =
     (let ls = ring_lines r @ [stamp @ ''  '' @ line]
      in r\<lparr>ring_lines := (if ring_max r < length ls then drop (length ls - ring_max r) ls else ls)\<rparr>)"

definition log_lines :: "log_ring \<Rightarrow> string list" where
  "log_lines r = ring_lines r"

text \<open>The ring holds the last lines, in order, and no more than its size.\<close>

lemma ring_add:
  "ring_lines (log_add t l r)
     = drop (Suc (length (ring_lines r)) - ring_max r) (ring_lines r @ [t @ ''  '' @ l])"
  "ring_max (log_add t l r) = ring_max r"
  by (simp_all add: log_add_def Let_def)

lemma log_holds_the_last:
  "log_lines (fold (\<lambda>(t, l). log_add t l) ls (new_log m))
     = drop (length ls - m) (map (\<lambda>(t, l). t @ ''  '' @ l) ls)"
proof (induction ls rule: rev_induct)
  case (snoc x ls)
  have m: "ring_max (fold (\<lambda>(t, l). log_add t l) ls (new_log m)) = m"
    by (induction ls rule: rev_induct) (simp_all add: new_log_def ring_add split: prod.splits)
  obtain t l where x: "x = (t, l)" by force
  show ?case
    using snoc m by (cases "length ls < m") (auto simp: x log_lines_def ring_add Suc_diff_le)
qed (simp add: log_lines_def new_log_def)

section \<open>A login that lasts\<close>

lemma clean_parts_append:
  "''..'' \<notin> set out \<Longrightarrow> clean_parts True out (ps @ qs) = clean_parts True (rev (clean_parts True out ps)) qs"
  by (induction "True" out ps rule: clean_parts.induct) (auto split: list.splits)

lemma name_component:
  assumes "name_matches n"
  shows "component_name (n @ ''.json'')"
  using name_matches_chars [OF assms] by (auto simp: component_name_def list_all_iff append_eq_Cons_conv)

lemma secrets_path_at:
  assumes "clean_dir dir" "name_matches n"
  shows "secrets_path dir n = Inr (abs_path (butlast (path_parts dir) @ [''secrets'', n @ ''.json'']))"
proof -
  let ?d = "path_parts dir" and ?f = "n @ ''.json''"
  let ?j = "dir @ ''/../secrets/'' @ ?f"
  have d: "is_abs dir" "path_clean dir = dir" "dir \<noteq> ''/''" "dir \<noteq> []"
    using assms(1) by (auto simp: clean_dir_def is_abs_def)
  have f: "component_name ?f" by (rule name_component [OF assms(2)])
  have "?d \<noteq> []" using d by (auto simp: path_clean_def)
  then obtain ds x where dx: "?d = ds @ [x]" by (metis rev_exhaust)
  have x: "x \<noteq> ''..''" "''..'' \<notin> set ds" using path_parts_no_dotdot [OF d(1)] dx by auto
  have split: "split_on CHR ''/'' ?j = split_on CHR ''/'' dir @ [''..'', ''secrets'', ?f]"
  proof -
    have "CHR ''/'' \<notin> set ?f" using f by (simp add: component_name_def)
    then show ?thesis
      using split_on_snoc [of "CHR ''/''" ?f "dir @ ''/../secrets''"]
        split_on_snoc [of "CHR ''/''" "''secrets''" "dir @ ''/..''"]
        split_on_snoc [of "CHR ''/''" "''..''" dir] by simp
  qed
  have abs: "is_abs ?j" using d(1) is_abs_append by blast
  have "path_parts ?j = clean_parts True [] (split_on CHR ''/'' dir @ [''..'', ''secrets'', ?f])"
    unfolding path_parts_def split using abs by simp
  also have "\<dots> = ds @ [''secrets'', ?f]"
    using dx x f d(1) clean_parts_append [of "[]"] by (simp add: path_parts_def component_name_def)
  finally have "path_parts ?j = ds @ [''secrets'', ?f]" .
  then have "path_clean ?j = abs_path (ds @ [''secrets'', ?f])"
    using abs by (simp add: path_clean_def abs_path_join [of "ds @ _"] del: abs_path_simps)
  then have "path_join [dir, ''..'', ''secrets'', ?f] = abs_path (ds @ [''secrets'', ?f])"
    using d(4) by (simp add: path_join_def)
  then show ?thesis using assms(2) dx by (simp add: secrets_path_def check_name_def del: abs_path_simps)
qed

lemma secrets_path_bad: "\<not> name_matches n \<Longrightarrow> secrets_path dir n = Inl BadName"
  by (simp add: secrets_path_def check_name_def)

definition login_path :: "string \<Rightarrow> string \<Rightarrow> string" where
  "login_path dir n = abs_path (butlast (path_parts dir) @ [''secrets'']) @ ''/'' @ n @ ''.json''"

lemma secrets_path_Inr:
  "clean_dir dir \<Longrightarrow> secrets_path dir n = Inr p \<longleftrightarrow> name_matches n \<and> p = login_path dir n"
  by (cases "name_matches n") (auto simp: secrets_path_at secrets_path_bad login_path_def)

lemma login_path_apart:
  "login_path dir n = login_path dir m \<longleftrightarrow> n = m"
  "login_path dir n \<noteq> login_path dir m @ ''.tmp''" "login_path dir m @ ''.tmp'' \<noteq> login_path dir n"
proof -
  show "login_path dir n = login_path dir m \<longleftrightarrow> n = m" by (simp add: login_path_def)
  have "last (login_path dir n) = CHR ''n''" "last (login_path dir m @ ''.tmp'') = CHR ''p''"
    by (simp_all add: login_path_def)
  then show "login_path dir n \<noteq> login_path dir m @ ''.tmp''" by auto
  then show "login_path dir m @ ''.tmp'' \<noteq> login_path dir n" by metis
qed

text \<open>What is done to the logins while the daemon runs.\<close>

datatype secret_op = Ensures "secret_call \<Rightarrow> bool" string string | Forgets "secret_call \<Rightarrow> bool" string

definition secret_step :: "string \<Rightarrow> secret_op \<Rightarrow> secret_files \<Rightarrow> secret_files" where
  "secret_step dir sop fs =
     (case sop of
        Ensures flt random n \<Rightarrow> fst (ensure_secrets flt random dir n fs)
      | Forgets flt n \<Rightarrow> fst (delete_secrets flt dir n fs))"

definition login_at :: "string \<Rightarrow> string \<Rightarrow> secrets \<Rightarrow> secret_files \<Rightarrow> bool" where
  "login_at dir n s fs \<longleftrightarrow>
     name_matches n \<and> sunshine_user s \<noteq> [] \<and> sunshine_password s \<noteq> []
     \<and> map_of fs (login_path dir n) = Some (HoldsLogin s)"

lemma ensure_keeps:
  assumes "clean_dir dir" "login_at dir n s fs"
  shows "login_at dir n s (fst (ensure_secrets flt random dir m fs))"
proof (cases "m = n")
  case True
  with assms show ?thesis
    by (auto simp: ensure_secrets_def get_secrets_def login_at_def secrets_path_Inr Let_def
        split: sum.splits option.splits)
next
  case False
  then have "map_of (fst (put_secrets flt dir m s' fs)) (login_path dir n) = map_of fs (login_path dir n)" for s'
    using assms(1) login_path_apart(1) [of dir n m] login_path_apart(3) [of dir m n]
    by (auto simp: put_secrets_def secrets_path_Inr Let_def update_conv' delete_conv' split: sum.splits)
  with assms(2) show ?thesis
    by (auto simp: ensure_secrets_def login_at_def Let_def split: sum.splits prod.splits option.splits)
      (metis fst_conv)+
qed

lemma ensure_answers:
  assumes "clean_dir dir" "login_at dir n s fs"
  shows "ensure_secrets flt random dir n fs
    = (fs, if flt ReadSecret then Inl (SecretFails ReadSecret) else Inr s)"
  using assms by (auto simp: ensure_secrets_def get_secrets_def login_at_def secrets_path_at [OF assms(1)]
      login_path_def)

lemma forget_keeps:
  assumes "clean_dir dir" "login_at dir n s fs" "m \<noteq> n"
  shows "login_at dir n s (fst (delete_secrets flt dir m fs))"
  using assms login_path_apart(1) [of dir n m]
  by (auto simp: delete_secrets_def login_at_def secrets_path_Inr delete_conv' split: sum.splits)

lemma ensured_login:
  assumes "clean_dir dir" "ensure_secrets flt random dir n fs = (fs1, Inr s)" "random \<noteq> []"
  shows "login_at dir n s fs1"
  using assms
  by (auto simp: ensure_secrets_def get_secrets_def put_secrets_def login_at_def secrets_path_Inr Let_def
      no_secrets_def update_conv' split: sum.splits option.splits if_splits secret_entry.splits)

text \<open>
  A seat keeps its login. Once it has been handed one, every later build is handed
  the same, however often the container is built again, whichever reads and writes fail and
  whatever is done to the logins of other seats, until the seat itself is deleted.
\<close>

theorem login_survives:
  assumes "clean_dir dir" "ensure_secrets flt random dir n fs = (fs1, Inr s)" "random \<noteq> []"
    and "\<forall>g. Forgets g n \<notin> set sops"
  shows "ensure_secrets flt' random' dir n (fold (secret_step dir) sops fs1)
    = (fold (secret_step dir) sops fs1, if flt' ReadSecret then Inl (SecretFails ReadSecret) else Inr s)"
proof -
  have "login_at dir n s (fold (secret_step dir) sops fs2)" if "login_at dir n s fs2" for fs2
    using assms(4) that
  proof (induction sops arbitrary: fs2)
    case (Cons o1 sops)
    have "login_at dir n s (secret_step dir o1 fs2)"
      using Cons.prems ensure_keeps [OF assms(1)] forget_keeps [OF assms(1)]
      by (cases o1) (auto simp: secret_step_def)
    with Cons show ?case by simp
  qed simp
  with ensured_login [OF assms(1-3)] ensure_answers [OF assms(1)] show ?thesis by blast
qed

lemma login_survives_witness:
  "snd (ensure_secrets (\<lambda>_. False) ''later'' sample_dir ''vince''
     (fold (secret_step sample_dir)
       [Ensures (\<lambda>c. c = RenameSecret) ''x'' ''anna'', Forgets (\<lambda>_. False) ''anna'']
       (fst (ensure_secrets (\<lambda>_. False) ''s3cret'' sample_dir ''vince'' []))))
   = Inr \<lparr>sunshine_user = ''polyseat'', sunshine_password = ''s3cret''\<rparr>"
proof -
  let ?s = "\<lparr>sunshine_user = ''polyseat'', sunshine_password = ''s3cret''\<rparr>"
  have "snd (ensure_secrets (\<lambda>_. False) ''s3cret'' sample_dir ''vince'' []) = Inr ?s" by code_simp
  then have "ensure_secrets (\<lambda>_. False) ''s3cret'' sample_dir ''vince'' []
      = (fst (ensure_secrets (\<lambda>_. False) ''s3cret'' sample_dir ''vince'' []), Inr ?s)"
    by (metis prod.collapse)
  from login_survives [OF sample_dir_clean this, of
      "[Ensures (\<lambda>c. c = RenameSecret) ''x'' ''anna'', Forgets (\<lambda>_. False) ''anna'']" "\<lambda>_. False" "''later''"]
  show ?thesis by simp
qed

end
