(* ===== verification/Folder_Setup.thy ===== *)
theory Folder_Setup
  imports Private_Folder
begin

text \<open>
  Setup scripts of shared folders (internal/seat/foldersetup.go): what is written down when a
  folder arrives, what a person allows, and what then runs where. \<open>hash\<close> is the SHA-256 of a
  script in hexadecimal digits.
\<close>

section \<open>The memory\<close>

record setup_approval =
  script_sum :: string
  of_version :: folder

record setup_state =
  approved :: "(string \<times> setup_approval) list"
  pending :: "(string \<times> (string \<times> folder) list) list"

datatype setup_file = NoFile | BrokenFile | Stores setup_state

record folder_setups =
  memory :: setup_state
  kept :: setup_file

definition no_setups :: setup_state where
  "no_setups = \<lparr>approved = [], pending = []\<rparr>"

definition same_version :: "folder \<Rightarrow> folder \<Rightarrow> bool" where
  "same_version a b \<longleftrightarrow> f_bytes a = f_bytes b \<and> f_newest a = f_newest b"

definition open_setups :: "setup_file \<Rightarrow> folder_setups" where
  "open_setups f = \<lparr>memory = (case f of Stores st \<Rightarrow> st | _ \<Rightarrow> no_setups), kept = f\<rparr>"

text \<open>\<open>save\<close> puts a whole file in place or leaves the old one.\<close>

definition save_setups :: "bool \<Rightarrow> folder_setups \<Rightarrow> folder_setups" where
  "save_setups works s = (if works then s\<lparr>kept := Stores (memory s)\<rparr> else s)"

definition pending_at :: "setup_state \<Rightarrow> string \<Rightarrow> (string \<times> folder) list" where
  "pending_at st m = (case map_of (pending st) m of None \<Rightarrow> [] | Some fs \<Rightarrow> fs)"

definition expect :: "bool \<Rightarrow> string \<Rightarrow> string \<Rightarrow> folder \<Rightarrow> folder_setups \<Rightarrow> folder_setups \<times> bool" where
  "expect works m n v s =
     (let st = memory s;
          st' = st\<lparr>pending := AList.update m (AList.update n v (pending_at st m)) (pending st)\<rparr>
      in (save_setups works (s\<lparr>memory := st'\<rparr>),
          case map_of (approved st) n of None \<Rightarrow> False | Some a \<Rightarrow> same_version (of_version a) v))"

definition drop_run :: "bool \<Rightarrow> string \<Rightarrow> string \<Rightarrow> folder_setups \<Rightarrow> folder_setups" where
  "drop_run works m n s =
     (let st = memory s; fs = AList.delete n (pending_at st m)
      in if map_of (pending_at st m) n = None then s
         else save_setups works (s\<lparr>memory := st\<lparr>pending :=
           (if fs = [] then AList.delete m (pending st) else AList.update m fs (pending st))\<rparr>\<rparr>))"

definition forget_folder :: "bool \<Rightarrow> string \<Rightarrow> folder_setups \<Rightarrow> folder_setups" where
  "forget_folder works n s =
     (let st = memory s
      in save_setups works (s\<lparr>memory := st\<lparr>approved := AList.delete n (approved st),
           pending := filter (\<lambda>(_, fs). fs \<noteq> []) (map (\<lambda>(m, fs). (m, AList.delete n fs)) (pending st))\<rparr>\<rparr>))"

definition approve :: "bool \<Rightarrow> string \<Rightarrow> string \<Rightarrow> folder \<Rightarrow> folder_setups \<Rightarrow> folder_setups" where
  "approve works n digest v s =
     save_setups works (s\<lparr>memory := (memory s)\<lparr>approved :=
       AList.update n \<lparr>script_sum = digest, of_version = v\<rparr> (approved (memory s))\<rparr>\<rparr>)"

record waiting =
  w_member :: string
  w_folder :: string
  w_version :: folder

definition allowed_run :: "setup_state \<Rightarrow> string \<Rightarrow> folder \<Rightarrow> string option" where
  "allowed_run st n v =
     (case map_of (approved st) n of
        None \<Rightarrow> None
      | Some a \<Rightarrow> if same_version (of_version a) v then Some (script_sum a) else None)"

text \<open>\<open>due\<close>, with the hash each run was allowed with, sorted by member and folder.\<close>

definition due :: "setup_state \<Rightarrow> (waiting \<times> string) list" where
  "due st =
     sort_key (\<lambda>(w, _). w_member w) (sort_key (\<lambda>(w, _). w_folder w)
       (concat (map (\<lambda>(m, fs). List.map_filter (\<lambda>(n, v). map_option
          (\<lambda>h. (\<lparr>w_member = m, w_folder = n, w_version = v\<rparr>, h)) (allowed_run st n v)) fs) (pending st))))"

text \<open>\<open>unapproved\<close>: the members that wait for each folder, and \<open>isApproved\<close>.\<close>

definition unapproved :: "setup_state \<Rightarrow> string \<Rightarrow> string list" where
  "unapproved st n =
     sort (concat (map (\<lambda>(m, fs). map (\<lambda>_. m)
       (filter (\<lambda>(k, v). k = n \<and> allowed_run st k v = None) fs)) (pending st)))"

definition is_approved :: "setup_state \<Rightarrow> string \<Rightarrow> string \<Rightarrow> folder \<Rightarrow> bool" where
  "is_approved st n digest v = (allowed_run st n v = Some digest)"

section \<open>The scripts\<close>

definition folder_setup_max :: int where "folder_setup_max = 1048576"
definition min_owner_uid :: int where "min_owner_uid = 1000"

text \<open>What stands under the name of the script, itself and not what a link leads to.\<close>

datatype on_disk = Missing | NotPlain | PlainFile bool string

datatype setup_error =
  NoScript | NotAPlainFile | NotExecutable | TooLong nat | NoPoolFolder | Changed | SystemOwner | NoHome

definition read_setup :: "on_disk \<Rightarrow> setup_error + string" where
  "read_setup f =
     (case f of
        Missing \<Rightarrow> Inl NoScript
      | NotPlain \<Rightarrow> Inl NotAPlainFile
      | PlainFile x data \<Rightarrow>
          if \<not> x then Inl NotExecutable
          else if folder_setup_max < int (length data) then Inl (TooLong (length data))
          else Inr data)"

definition runnable :: "on_disk \<Rightarrow> bool" where
  "runnable f = (case f of PlainFile x _ \<Rightarrow> x | _ \<Rightarrow> False)"

definition setup_matches :: "(string \<Rightarrow> string) \<Rightarrow> on_disk \<Rightarrow> string \<Rightarrow> bool" where
  "setup_matches hash f digest = (case read_setup f of Inl _ \<Rightarrow> False | Inr data \<Rightarrow> hash data = digest)"

text \<open>\<open>ApproveFolderSetup\<close>: the pool's copy is read again, and its hash has to be the one named.\<close>

definition approve_setup ::
  "(string \<Rightarrow> string) \<Rightarrow> bool \<Rightarrow> folder option \<Rightarrow> on_disk \<Rightarrow> string \<Rightarrow> string \<Rightarrow> folder_setups
     \<Rightarrow> folder_setups \<times> setup_error option" where
  "approve_setup hash works version f n digest s =
     (case version of
        None \<Rightarrow> (s, Some NoPoolFolder)
      | Some v \<Rightarrow>
          (case read_setup f of
             Inl e \<Rightarrow> (s, Some e)
           | Inr data \<Rightarrow>
               if \<not> equal_fold_hex (hash data) (trim_space digest) then (s, Some Changed)
               else (approve works n (hash data) v s, None)))"

text \<open>
  \<open>noteDeliveries\<close> for one folder that was handed to a member: \<open>f\<close> is its script there and
  \<open>version\<close> what the pool has.
\<close>

definition note_delivery ::
  "bool \<Rightarrow> string \<Rightarrow> string \<Rightarrow> on_disk \<Rightarrow> folder option \<Rightarrow> folder_setups \<Rightarrow> folder_setups" where
  "note_delivery works m n f version s =
     (if \<not> runnable f then drop_run works m n s
      else case version of None \<Rightarrow> s | Some v \<Rightarrow> fst (expect works m n v s))"

text \<open>What \<open>runFolderSetup\<close> finds at a member when it comes to it.\<close>

record setup_place =
  is_host :: bool
  is_known :: bool
  is_up :: bool
  has_folders :: bool
  copy_of :: "string \<Rightarrow> on_disk"
  owner_uid :: int
  owner_home :: bool
  is_reached :: bool

text \<open>A script that ran, with what was in it, and the uid it ran as on the host.\<close>

datatype ran = Ran string string string "int option"

definition run_setup ::
  "(string \<Rightarrow> string) \<Rightarrow> bool \<Rightarrow> setup_place \<Rightarrow> waiting \<Rightarrow> string \<Rightarrow> folder_setups
     \<Rightarrow> folder_setups \<times> ran list \<times> bool" where
  "run_setup hash works p w digest s =
     (let m = w_member w; n = w_folder w; finished = drop_run works m n s
      in if \<not> is_known p then (if is_host p then s else finished, [], False)
         else if \<not> is_host p \<and> \<not> is_up p then (s, [], False)
         else if \<not> has_folders p then (s, [], False)
         else case read_setup (copy_of p n) of
           Inl _ \<Rightarrow> (finished, [], False)
         | Inr data \<Rightarrow>
             if hash data \<noteq> digest then (finished, [], False)
             else if is_host p then
               (if owner_uid p < min_owner_uid \<or> \<not> owner_home p then (finished, [], True)
                else (finished, [Ran m n data (Some (owner_uid p))], True))
             else if is_reached p then (finished, [Ran m n data None], True)
             else (s, [Ran m n data None], False))"

section \<open>The worker\<close>

text \<open>One round of \<open>settle\<close> over what is due, each run tried once, and the rounds.\<close>

fun settle_round ::
  "(string \<Rightarrow> string) \<Rightarrow> bool \<Rightarrow> (string \<Rightarrow> setup_place) \<Rightarrow> (waiting \<times> string) list \<Rightarrow> waiting list
     \<Rightarrow> folder_setups \<Rightarrow> folder_setups \<times> waiting list \<times> ran list \<times> bool" where
  "settle_round hash works places [] tried s = (s, tried, [], False)"
| "settle_round hash works places ((w, digest) # ws) tried s =
     (if w \<in> set tried then settle_round hash works places ws tried s
      else case run_setup hash works (places (w_member w)) w digest s of
        (s1, rs, did) \<Rightarrow>
          (case settle_round hash works places ws (w # tried) s1 of
             (s2, tried', rs', did') \<Rightarrow> (s2, tried', rs @ rs', did \<or> did')))"

definition waiting_runs :: "setup_state \<Rightarrow> nat" where
  "waiting_runs st = sum_list (map (length \<circ> snd) (pending st))"

fun settle ::
  "nat \<Rightarrow> (string \<Rightarrow> string) \<Rightarrow> bool \<Rightarrow> (string \<Rightarrow> setup_place) \<Rightarrow> waiting list \<Rightarrow> folder_setups
     \<Rightarrow> (folder_setups \<times> ran list) option" where
  "settle 0 hash works places tried s = None"
| "settle (Suc k) hash works places tried s =
     (case settle_round hash works places (due (memory s)) tried s of
        (s', tried', rs, did) \<Rightarrow>
          if \<not> did then Some (s', rs)
          else map_option (\<lambda>(s'', rs'). (s'', rs @ rs')) (settle k hash works places tried' s'))"

section \<open>The worker comes to its end\<close>

definition pending_runs :: "setup_state \<Rightarrow> waiting set" where
  "pending_runs st = {w. \<exists>fs. (w_member w, fs) \<in> set (pending st) \<and> (w_folder w, w_version w) \<in> set fs}"

definition pending_list :: "setup_state \<Rightarrow> waiting list" where
  "pending_list st =
     concat (map (\<lambda>(m, fs). map (\<lambda>(n, v). \<lparr>w_member = m, w_folder = n, w_version = v\<rparr>) fs) (pending st))"

lemma pending_runs_list: "pending_runs st = set (pending_list st)"
proof (rule set_eqI)
  fix w
  show "w \<in> pending_runs st \<longleftrightarrow> w \<in> set (pending_list st)"
  proof
    assume "w \<in> pending_runs st"
    then obtain fs where f: "(w_member w, fs) \<in> set (pending st)" "(w_folder w, w_version w) \<in> set fs"
      by (auto simp: pending_runs_def)
    have "w \<in> (\<lambda>(n, v). \<lparr>w_member = w_member w, w_folder = n, w_version = v\<rparr>) ` set fs"
      using f(2) by (intro image_eqI [of _ _ "(w_folder w, w_version w)"]) simp_all
    with f(1) show "w \<in> set (pending_list st)" by (force simp: pending_list_def)
  qed (auto simp: pending_runs_def pending_list_def)
qed

lemma pending_runs_finite: "finite (pending_runs st)"
  by (simp add: pending_runs_list)

lemma card_pending_runs: "card (pending_runs st) \<le> waiting_runs st"
proof -
  have "length (pending_list st) = waiting_runs st"
    by (auto simp: pending_list_def waiting_runs_def length_concat comp_def split_def)
  then show ?thesis using card_length [of "pending_list st"] by (simp add: pending_runs_list)
qed

lemma set_pending_at: "x \<in> set (pending_at st m) \<Longrightarrow> \<exists>fs. (m, fs) \<in> set (pending st) \<and> x \<in> set fs"
  using map_of_SomeD [of "pending st" m] by (cases "map_of (pending st) m") (auto simp: pending_at_def)

lemma pending_runs_update:
  assumes "set fs \<subseteq> X \<union> set (pending_at st m)"
  shows "pending_runs (st\<lparr>pending := AList.update m fs (pending st)\<rparr>)
    \<subseteq> pending_runs st \<union> {w. w_member w = m \<and> (w_folder w, w_version w) \<in> X}"
  using set_update_subset [of m fs "pending st"] assms set_pending_at [of _ st m]
  unfolding pending_runs_def by (auto dest!: subsetD)

lemma memory_save [simp]: "memory (save_setups works s) = memory s"
  by (simp add: save_setups_def)

lemma drop_run_shrinks:
  "pending_runs (memory (drop_run works m n s)) \<subseteq> pending_runs (memory s)"
  "approved (memory (drop_run works m n s)) = approved (memory s)"
proof -
  have "set (AList.delete n (pending_at (memory s) m)) \<subseteq> {} \<union> set (pending_at (memory s) m)"
    by (auto simp: AList.delete_eq)
  from pending_runs_update [OF this]
  show "pending_runs (memory (drop_run works m n s)) \<subseteq> pending_runs (memory s)"
    by (auto simp: drop_run_def Let_def pending_runs_def AList.delete_eq)
  show "approved (memory (drop_run works m n s)) = approved (memory s)"
    by (simp add: drop_run_def Let_def)
qed

lemma run_setup_cases:
  assumes "run_setup hash works p w digest s = (s', rs, did)"
  shows "(s' = s \<or> s' = drop_run works (w_member w) (w_folder w) s)
    \<and> (\<forall>r \<in> set rs. \<exists>data u. r = Ran (w_member w) (w_folder w) data u \<and> hash data = digest
          \<and> (\<forall>uid. u = Some uid \<longrightarrow> min_owner_uid \<le> uid))"
  using assms by (auto simp: run_setup_def Let_def split: if_splits sum.splits)

lemma due_pending:
  assumes "(w, digest) \<in> set (due st)"
  shows "w \<in> pending_runs st" "allowed_run st (w_folder w) (w_version w) = Some digest"
  using assms by (auto simp: due_def pending_runs_def List.map_filter_def split: option.splits)

lemma settle_round_does:
  assumes "settle_round hash works places ws tried s = (s', tried', rs, did)"
  shows "pending_runs (memory s') \<subseteq> pending_runs (memory s) \<and> approved (memory s') = approved (memory s)
    \<and> set tried \<subseteq> set tried' \<and> (did \<longrightarrow> (\<exists>w \<in> fst ` set ws. w \<notin> set tried \<and> w \<in> set tried'))
    \<and> (\<forall>r \<in> set rs. \<exists>(w, digest) \<in> set ws. \<exists>data u. r = Ran (w_member w) (w_folder w) data u
          \<and> hash data = digest \<and> (\<forall>uid. u = Some uid \<longrightarrow> min_owner_uid \<le> uid))"
  using assms
proof (induction ws arbitrary: tried s rs did)
  case (Cons x ws)
  obtain w digest where x: "x = (w, digest)" by force
  show ?case
  proof (cases "w \<in> set tried")
    case True
    then have "settle_round hash works places ws tried s = (s', tried', rs, did)" using Cons.prems x by simp
    from Cons.IH [OF this] show ?thesis by fastforce
  next
    case False
    obtain s1 rs1 d1 where r: "run_setup hash works (places (w_member w)) w digest s = (s1, rs1, d1)"
      by (metis prod_cases3)
    obtain s2 t2 rs2 d2 where q: "settle_round hash works places ws (w # tried) s1 = (s2, t2, rs2, d2)"
      by (metis prod_cases4)
    have res: "rs = rs1 @ rs2" and d: "s2 = s'" "t2 = tried'" using Cons.prems x False r q by simp_all
    note one = run_setup_cases [OF r] and rest = Cons.IH [OF q [unfolded d]]
    let ?ok = "\<lambda>r (w, digest). \<exists>data u. r = Ran (w_member w) (w_folder w) data u
      \<and> hash data = digest \<and> (\<forall>uid. u = Some uid \<longrightarrow> min_owner_uid \<le> uid)"
    have step: "pending_runs (memory s1) \<subseteq> pending_runs (memory s)" "approved (memory s1) = approved (memory s)"
      using conjunct1 [OF one] drop_run_shrinks by blast (metis conjunct1 [OF one] drop_run_shrinks(2))
    show ?thesis
    proof (intro conjI impI ballI)
      show "pending_runs (memory s') \<subseteq> pending_runs (memory s)" using step(1) rest by blast
      show "approved (memory s') = approved (memory s)" using step(2) rest by simp
      show "set tried \<subseteq> set tried'" using rest by simp
      show "\<exists>w \<in> fst ` set (x # ws). w \<notin> set tried \<and> w \<in> set tried'"
        using rest x False by (intro bexI [of _ w]) auto
      show "\<exists>y \<in> set (x # ws). ?ok r y" if "r \<in> set rs" for r
      proof (cases "r \<in> set rs1")
        case True
        then have "?ok r x" using conjunct2 [OF one] x by simp
        then show ?thesis by (intro bexI [of _ x]) simp_all
      next
        case False
        with that res have "r \<in> set rs2" by simp
        with rest obtain y where "y \<in> set ws" "?ok r y" by blast
        then show ?thesis by (intro bexI [of _ y]) simp_all
      qed
    qed
  qed
qed simp

lemma settle_enough:
  assumes "card (pending_runs (memory s) - set tried) < k"
  shows "settle k hash works places tried s \<noteq> None"
  using assms
proof (induction k arbitrary: tried s)
  case (Suc k)
  obtain s' tried' rs did where r: "settle_round hash works places (due (memory s)) tried s = (s', tried', rs, did)"
    by (metis prod_cases4)
  note sh = settle_round_does [OF r]
  show ?case
  proof (cases did)
    case True
    from sh True obtain x where "x \<in> set (due (memory s))" "fst x \<notin> set tried" "fst x \<in> set tried'" by blast
    then obtain w where w: "w \<in> pending_runs (memory s)" "w \<notin> set tried" "w \<in> set tried'"
      using due_pending(1) by (metis prod.collapse)
    have "pending_runs (memory s') - set tried' \<subset> pending_runs (memory s) - set tried"
      using sh w by blast
    then have "card (pending_runs (memory s') - set tried') < card (pending_runs (memory s) - set tried)"
      using pending_runs_finite by (intro psubset_card_mono) auto
    with Suc r show ?thesis by simp
  qed (use r in simp)
qed simp

lemma settle_returns: "settle (Suc (waiting_runs (memory s))) hash works places [] s \<noteq> None"
  by (rule settle_enough) (simp add: card_pending_runs less_Suc_eq_le)

lemma settle_more: "settle k hash works places tried s = Some r \<Longrightarrow> settle (Suc k) hash works places tried s = Some r"
proof (induction k arbitrary: tried s r)
  case (Suc k)
  obtain s1 t1 rs1 d1 where "settle_round hash works places (due (memory s)) tried s = (s1, t1, rs1, d1)"
    by (metis prod_cases4)
  with Suc show ?case by (auto simp del: settle.simps(2) simp: settle.simps(2) [of _ hash works places tried s])
qed simp

lemma settle_same: "j \<le> k \<Longrightarrow> settle j hash works places tried s = Some r \<Longrightarrow> settle k hash works places tried s = Some r"
  by (induction rule: dec_induct) (simp_all add: settle_more del: settle.simps)

section \<open>What ran was allowed\<close>

text \<open>What is done with the memory, in any order, and what can be told of it afterwards.\<close>

datatype setup_op =
    Deliver bool string string on_disk "folder option"
  | Allow bool "folder option" on_disk string string
  | TakeOut bool string
  | Settle bool "string \<Rightarrow> setup_place"
  | Restart

datatype setup_event = Arrived string string folder | Allowed string string folder | DidRun ran

definition setup_step ::
  "(string \<Rightarrow> string) \<Rightarrow> setup_op \<Rightarrow> folder_setups \<times> setup_event list \<Rightarrow> folder_setups \<times> setup_event list" where
  "setup_step hash sop x = (case x of (s, log) \<Rightarrow>
     (case sop of
        Deliver works m n f v \<Rightarrow>
          (note_delivery works m n f v s,
           log @ (case v of Some v \<Rightarrow> [Arrived m n v] | None \<Rightarrow> []))
      | Allow works v f n given \<Rightarrow>
          (case approve_setup hash works v f n given s of
             (s', None) \<Rightarrow> (s', log @ [Allowed n given (the v)])
           | (s', Some _) \<Rightarrow> (s', log))
      | TakeOut works n \<Rightarrow> (forget_folder works n s, log)
      | Settle works places \<Rightarrow>
          (case settle (Suc (waiting_runs (memory s))) hash works places [] s of
             Some (s', rs) \<Rightarrow> (s', log @ map DidRun rs)
           | None \<Rightarrow> (s, log))
      | Restart \<Rightarrow> (open_setups (kept s), log)))"

definition backed :: "setup_event list \<Rightarrow> setup_state \<Rightarrow> bool" where
  "backed log st \<longleftrightarrow>
     (\<forall>(n, a) \<in> set (approved st). \<exists>given.
        Allowed n given (of_version a) \<in> set log \<and> equal_fold_hex (script_sum a) (trim_space given))
     \<and> (\<forall>w \<in> pending_runs st. Arrived (w_member w) (w_folder w) (w_version w) \<in> set log)"

definition backed_file :: "setup_event list \<Rightarrow> setup_file \<Rightarrow> bool" where
  "backed_file log f = (case f of Stores st \<Rightarrow> backed log st | _ \<Rightarrow> True)"

lemma backed_more: "backed log st \<Longrightarrow> set log \<subseteq> set log' \<Longrightarrow> backed log' st"
  unfolding backed_def by fast

lemma backed_none [simp]: "backed log no_setups"
  by (simp add: backed_def no_setups_def pending_runs_def)

definition both_backed :: "setup_event list \<Rightarrow> folder_setups \<Rightarrow> bool" where
  "both_backed log s \<longleftrightarrow> backed log (memory s) \<and> backed_file log (kept s)"

lemma both_backed_more: "both_backed log s \<Longrightarrow> set log \<subseteq> set log' \<Longrightarrow> both_backed log' s"
  by (auto simp: both_backed_def backed_file_def intro: backed_more split: setup_file.splits)

lemma both_backed_save:
  "backed log (memory s) \<Longrightarrow> backed_file log (kept s) \<Longrightarrow> both_backed log (save_setups works s)"
  by (simp add: both_backed_def save_setups_def backed_file_def)

lemma both_backed_shrink:
  assumes "both_backed log s" "pending_runs st \<subseteq> pending_runs (memory s)"
    "set (approved st) \<subseteq> set (approved (memory s))"
  shows "both_backed log (save_setups works (s\<lparr>memory := st\<rparr>))"
proof (rule both_backed_save)
  show "backed log (memory (s\<lparr>memory := st\<rparr>))"
    using assms unfolding both_backed_def backed_def by simp blast
  show "backed_file log (kept (s\<lparr>memory := st\<rparr>))" using assms(1) by (simp add: both_backed_def)
qed

lemma both_backed_drop: "both_backed log s \<Longrightarrow> both_backed log (drop_run works m n s)"
  using both_backed_shrink [of log s _ works] drop_run_shrinks [of works m n s]
  by (auto simp: drop_run_def Let_def)

lemma both_backed_run:
  assumes "run_setup hash works p w digest s = (s', rs, did)" "both_backed log s"
  shows "both_backed log s'"
  using conjunct1 [OF run_setup_cases [OF assms(1)]] assms(2) both_backed_drop by auto

lemma both_backed_round:
  "settle_round hash works places ws tried s = (s', tried', rs, did) \<Longrightarrow> both_backed log s
     \<Longrightarrow> both_backed log s'"
proof (induction ws arbitrary: tried s rs did)
  case (Cons x ws)
  obtain w digest where x: "x = (w, digest)" by force
  show ?case
  proof (cases "w \<in> set tried")
    case True
    then show ?thesis using Cons x by simp
  next
    case False
    obtain s1 rs1 d1 where r: "run_setup hash works (places (w_member w)) w digest s = (s1, rs1, d1)"
      by (metis prod_cases3)
    obtain s2 t2 rs2 d2 where q: "settle_round hash works places ws (w # tried) s1 = (s2, t2, rs2, d2)"
      by (metis prod_cases4)
    have "s2 = s'" "t2 = tried'" using Cons.prems(1) x False r q by simp_all
    with Cons.IH [of "w # tried" s1] q both_backed_run [OF r Cons.prems(2)] show ?thesis by simp
  qed
qed simp

text \<open>What a script that runs goes back to.\<close>

definition lawful :: "(string \<Rightarrow> string) \<Rightarrow> setup_event list \<Rightarrow> ran \<Rightarrow> bool" where
  "lawful hash log r \<longleftrightarrow>
     (\<exists>m n data u given v v'. r = Ran m n data u
        \<and> Allowed n given v \<in> set log \<and> equal_fold_hex (hash data) (trim_space given)
        \<and> Arrived m n v' \<in> set log \<and> same_version v v'
        \<and> (\<forall>uid. u = Some uid \<longrightarrow> min_owner_uid \<le> uid))"

lemma settle_lawful:
  assumes "settle k hash works places tried s = Some (s', rs)" "both_backed log s"
  shows "both_backed log s' \<and> (\<forall>r \<in> set rs. lawful hash log r)"
  using assms
proof (induction k arbitrary: tried s rs)
  case (Suc k)
  obtain s1 t1 rs1 d1 where r: "settle_round hash works places (due (memory s)) tried s = (s1, t1, rs1, d1)"
    by (metis prod_cases4)
  note b = both_backed_round [OF r Suc.prems(2)]
  have one: "lawful hash log x" if x: "x \<in> set rs1" for x
  proof -
    from settle_round_does [OF r] x obtain w digest data u where
      w: "(w, digest) \<in> set (due (memory s))" "x = Ran (w_member w) (w_folder w) data u"
      "hash data = digest" "\<forall>uid. u = Some uid \<longrightarrow> min_owner_uid \<le> uid" by fastforce
    from due_pending [OF w(1)] obtain a where
      a: "map_of (approved (memory s)) (w_folder w) = Some a" "same_version (of_version a) (w_version w)"
        "script_sum a = digest" "w \<in> pending_runs (memory s)"
      by (auto simp: allowed_run_def split: option.splits if_splits)
    from a(1) have "(w_folder w, a) \<in> set (approved (memory s))" by (rule map_of_SomeD)
    with Suc.prems(2) obtain given where
      "Allowed (w_folder w) given (of_version a) \<in> set log" "equal_fold_hex (script_sum a) (trim_space given)"
      unfolding both_backed_def backed_def by blast
    moreover have "Arrived (w_member w) (w_folder w) (w_version w) \<in> set log"
      using Suc.prems(2) a(4) unfolding both_backed_def backed_def by blast
    ultimately show ?thesis
      unfolding lawful_def using w(2,4) a(2,3) w(3)
      by (intro exI [of _ "w_member w"] exI [of _ "w_folder w"] exI [of _ data] exI [of _ u]
          exI [of _ given] exI [of _ "of_version a"] exI [of _ "w_version w"]) simp
  qed
  show ?case
  proof (cases d1)
    case True
    with r Suc.prems(1) obtain rs2 where "settle k hash works places t1 s1 = Some (s', rs2)" "rs = rs1 @ rs2"
      by auto
    with Suc.IH b one show ?thesis by auto
  next
    case False
    with r Suc.prems(1) b one show ?thesis by auto
  qed
qed simp

lemma both_backed_expect:
  assumes "both_backed log s" "Arrived m n v \<in> set log"
  shows "both_backed log (fst (expect works m n v s))"
proof -
  let ?fs = "AList.update n v (pending_at (memory s) m)"
  let ?st = "memory s\<lparr>pending := AList.update m ?fs (pending (memory s))\<rparr>"
  have "pending_runs ?st \<subseteq> pending_runs (memory s) \<union> {w. w_member w = m \<and> (w_folder w, w_version w) \<in> {(n, v)}}"
    using set_update_subset [of n v] by (intro pending_runs_update) auto
  then have "backed log ?st" using assms unfolding both_backed_def backed_def by auto
  then show ?thesis
    using assms(1) both_backed_save [of log "s\<lparr>memory := ?st\<rparr>" works]
    by (simp add: expect_def Let_def both_backed_def)
qed

definition log_lawful :: "(string \<Rightarrow> string) \<Rightarrow> setup_event list \<Rightarrow> bool" where
  "log_lawful hash log \<longleftrightarrow> (\<forall>pre r post. log = pre @ DidRun r # post \<longrightarrow> lawful hash pre r)"

lemma lawful_more: "lawful hash log r \<Longrightarrow> set log \<subseteq> set log' \<Longrightarrow> lawful hash log' r"
  unfolding lawful_def by blast

lemma log_lawful_append:
  assumes "log_lawful hash log" "\<And>r. DidRun r \<in> set new \<Longrightarrow> lawful hash log r"
  shows "log_lawful hash (log @ new)"
  unfolding log_lawful_def
proof (intro allI impI)
  fix pre r post
  assume e: "log @ new = pre @ DidRun r # post"
  show "lawful hash pre r"
  proof (cases "length pre < length log")
    case True
    then have "take (Suc (length pre)) log = take (Suc (length pre)) (log @ new)" by simp
    also have "\<dots> = pre @ [DidRun r]" using e by simp
    finally obtain post' where "log = pre @ DidRun r # post'"
      by (metis append_Cons append_Nil append_assoc append_take_drop_id)
    with assms(1) show ?thesis by (auto simp: log_lawful_def)
  next
    case False
    with e obtain us where "pre = log @ us" "new = us @ DidRun r # post"
      by (auto simp: append_eq_append_conv2)
    with assms(2) [of r] show ?thesis by (auto intro: lawful_more)
  qed
qed

lemma setup_step_inv:
  assumes "both_backed (snd x) (fst x)" "log_lawful hash (snd x)"
  shows "both_backed (snd (setup_step hash sop x)) (fst (setup_step hash sop x))
    \<and> log_lawful hash (snd (setup_step hash sop x))"
proof -
  obtain s log where x: "x = (s, log)" by force
  have b: "both_backed log s" and l: "log_lawful hash log" using assms x by simp_all
  show ?thesis
  proof (cases sop)
    case (Deliver works m n f v)
    let ?log = "log @ (case v of Some v \<Rightarrow> [Arrived m n v] | None \<Rightarrow> [])"
    have "both_backed ?log s" using b by (rule both_backed_more) auto
    then have "both_backed ?log (note_delivery works m n f v s)"
      using both_backed_drop both_backed_expect [of ?log s m n]
      by (cases v) (auto simp: note_delivery_def)
    moreover have "log_lawful hash ?log" using l by (rule log_lawful_append) (auto split: option.splits)
    ultimately show ?thesis using Deliver x by (simp add: setup_step_def)
  next
    case (Allow works v f n given)
    show ?thesis
    proof (cases "approve_setup hash works v f n given s")
      case (Pair s' e)
      show ?thesis
      proof (cases e)
        case (Some err)
        then have "s' = s" using Pair by (auto simp: approve_setup_def split: option.splits sum.splits if_splits)
        with Some Pair Allow x b l show ?thesis by (simp add: setup_step_def)
      next
        case None
        with Pair obtain w data where v: "v = Some w" "equal_fold_hex (hash data) (trim_space given)"
          "s' = approve works n (hash data) w s"
          by (auto simp: approve_setup_def split: option.splits sum.splits if_splits)
        let ?log = "log @ [Allowed n given w]"
        let ?a = "\<lparr>script_sum = hash data, of_version = w\<rparr>"
        let ?st = "memory s\<lparr>approved := AList.update n ?a (approved (memory s))\<rparr>"
        have m: "both_backed ?log s" using b by (rule both_backed_more) auto
        have "\<exists>given'. Allowed k given' (of_version a) \<in> set ?log \<and> equal_fold_hex (script_sum a) (trim_space given')"
          if "(k, a) \<in> set (approved ?st)" for k a
        proof (cases "(k, a) = (n, ?a)")
          case True
          then show ?thesis using v(2) by (intro exI [of _ given]) simp
        next
          case False
          then have "(k, a) \<in> set (approved (memory s))"
            using that set_update_subset [of n ?a "approved (memory s)"] by auto
          then show ?thesis using m unfolding both_backed_def backed_def by blast
        qed
        moreover have "pending_runs ?st = pending_runs (memory s)" by (simp add: pending_runs_def)
        ultimately have "backed ?log ?st" using m unfolding both_backed_def backed_def by auto
        then have "both_backed ?log s'"
          using m v(3) both_backed_save [of ?log "s\<lparr>memory := ?st\<rparr>" works]
          by (simp add: approve_def both_backed_def)
        moreover have "log_lawful hash ?log" using l by (rule log_lawful_append) auto
        ultimately show ?thesis using Pair None Allow x v(1) by (simp add: setup_step_def)
      qed
    qed
  next
    case (TakeOut works n)
    have "both_backed log (forget_folder works n s)"
      using b unfolding forget_folder_def Let_def
      by (rule both_backed_shrink) (auto simp: pending_runs_def AList.delete_eq)
    with l TakeOut x show ?thesis by (simp add: setup_step_def)
  next
    case (Settle works places)
    obtain s' rs where r: "settle (Suc (waiting_runs (memory s))) hash works places [] s = Some (s', rs)"
      using settle_returns by fastforce
    have "both_backed (log @ map DidRun rs) s'" "\<forall>r \<in> set rs. lawful hash log r"
      using settle_lawful [OF r b] both_backed_more by auto
    moreover have "log_lawful hash (log @ map DidRun rs)"
      using l calculation(2) by (intro log_lawful_append) auto
    ultimately show ?thesis using Settle x r by (simp add: setup_step_def)
  next
    case Restart
    have "both_backed log (open_setups (kept s))"
      using b by (auto simp: both_backed_def open_setups_def backed_file_def split: setup_file.splits)
    with l Restart x show ?thesis by (simp add: setup_step_def)
  qed
qed


text \<open>
  The worker comes to its end. However many runs wait and whatever becomes of
  them, it returns within one round more than there are runs waiting, and has done then all that
  it would ever do.
\<close>

theorem settle_comes_to_its_end:
  "\<exists>r. \<forall>k. settle (Suc (waiting_runs (memory s)) + k) hash works places [] s = Some r"
proof -
  obtain r where "settle (Suc (waiting_runs (memory s))) hash works places [] s = Some r"
    using settle_returns by blast
  then show ?thesis by (intro exI [of _ r] allI) (rule settle_same, simp_all del: settle.simps)
qed

section \<open>A script that arrives, is allowed and is replaced\<close>

definition sample_place :: "on_disk \<Rightarrow> setup_place" where
  "sample_place f =
     \<lparr>is_host = False, is_known = True, is_up = True, has_folders = True, copy_of = (\<lambda>_. f),
      owner_uid = 0, owner_home = False, is_reached = True\<rparr>"

definition sample_version :: folder where
  "sample_version = \<lparr>f_name = ''Halo'', f_bytes = 10, f_newest = 5\<rparr>"

definition sample_setup_ops :: "setup_op list" where
  "sample_setup_ops =
     [Deliver True ''vince'' ''Halo'' (PlainFile True ''abcd'') (Some sample_version),
      Settle True (\<lambda>_. sample_place (PlainFile True ''abcd'')),
      Allow False (Some sample_version) (PlainFile True ''abcd'') ''Halo'' '' ABCD'',
      Settle True (\<lambda>_. sample_place (PlainFile True ''abcd''))]"

lemma sample_setup_log:
  "snd (fold (setup_step (\<lambda>d. d)) sample_setup_ops (open_setups NoFile, []))
     = [Arrived ''vince'' ''Halo'' sample_version, Allowed ''Halo'' '' ABCD'' sample_version,
        DidRun (Ran ''vince'' ''Halo'' ''abcd'' None)]"
  by code_simp


end
