(* ===== verification/Games.thy ===== *)
theory Games
  imports Prelude Strconv "HOL-Library.List_Lexorder" "HOL-Library.Char_ord"
begin

text \<open>
  What a seat can start directly (internal/seat/games.go, desktopgames.go, heroicgames.go): the
  listings of the launchers, each decoded by \<open>encoding/json\<close>, the commands Sunshine is given for
  them, the memory of the last listing of Lutris, and the one list they become.
\<close>

section \<open>Games\<close>

record game =
  game_name :: string
  launch :: string
  image :: string
  icon :: string
  steam_id :: string
  from_launcher :: string
  slug :: string

definition plain_game :: "string \<Rightarrow> string \<Rightarrow> string \<Rightarrow> string \<Rightarrow> game" where
  "plain_game n l i src = \<lparr>game_name = n, launch = l, image = i, icon = [], steam_id = [], from_launcher = src, slug = []\<rparr>"

text \<open>What \<open>look\<close> brings back from one scan: an error, or what was printed and the exit code.\<close>

datatype 'a looked = LookFailed | Looked 'a int

section \<open>Commands\<close>

text \<open>\<open>strings.ReplaceAll(word, "$", "$$")\<close>.\<close>

fun double_dollars :: "string \<Rightarrow> string" where
  "double_dollars [] = []"
| "double_dollars (c # cs) = (if c = CHR ''$'' then ''$$'' @ double_dollars cs else c # double_dollars cs)"

definition command_word :: "string \<Rightarrow> string" where
  "command_word w =
     (let d = double_dollars w in if d = [] \<or> CHR '' '' \<in> set d then [CHR 0x22] @ d @ [CHR 0x22] else d)"

definition sunshine_command :: "string list \<Rightarrow> string option" where
  "sunshine_command argv =
     (if argv = [] \<or> (\<exists>w \<in> set argv. CHR 0x22 \<in> set w) then None
      else Some (join '' '' (map command_word argv)))"

text \<open>
  How Sunshine reads such a line, as the comment over \<open>sunshineCommand\<close> records it: \<open>$(NAME)\<close>
  and \<open>$$\<close> are expanded, the line is split at the spaces outside double quotes, and quotes
  around a whole word are taken off.
\<close>

function expand_line :: "(string \<Rightarrow> string) \<Rightarrow> string \<Rightarrow> string" where
  "expand_line env [] = []"
| "expand_line env [c] = [c]"
| "expand_line env (c # d # cs) =
     (if c = CHR ''$'' \<and> d = CHR ''$'' then CHR ''$'' # expand_line env cs
      else if c = CHR ''$'' \<and> d = CHR ''('' then
        env (takeWhile (\<lambda>x. x \<noteq> CHR '')'') cs) @ expand_line env (drop 1 (dropWhile (\<lambda>x. x \<noteq> CHR '')'') cs))
      else c # expand_line env (d # cs))"
  by pat_completeness auto

termination
  by (relation "measure (\<lambda>(_, s). length s)")
     (auto simp: less_Suc_eq_le intro!: le_SucI le_trans [OF diff_le_self] length_dropWhile_le)

text \<open>The words so far, the word being read, and whether a quote is open.\<close>

fun split_line :: "string \<Rightarrow> bool \<Rightarrow> string \<Rightarrow> string list" where
  "split_line w open_quote [] = [w]"
| "split_line w open_quote (c # cs) =
     (if c = CHR 0x22 then split_line (w @ [c]) (\<not> open_quote) cs
      else if c = CHR '' '' \<and> \<not> open_quote then w # split_line [] False cs
      else split_line (w @ [c]) open_quote cs)"

definition strip_quotes :: "string \<Rightarrow> string" where
  "strip_quotes w =
     (if 2 \<le> length w \<and> hd w = CHR 0x22 \<and> last w = CHR 0x22 then butlast (tl w) else w)"

definition sunshine_words :: "(string \<Rightarrow> string) \<Rightarrow> string \<Rightarrow> string list" where
  "sunshine_words env line = map strip_quotes (split_line [] False (expand_line env line))"

lemma double_dollars_set: "set (double_dollars w) = set w"
  by (induction w) auto

lemma double_dollars_Nil [simp]: "double_dollars w = [] \<longleftrightarrow> w = []"
  by (cases w) auto

lemma expand_plain: "c \<noteq> CHR ''$'' \<Longrightarrow> expand_line env (c # s) = c # expand_line env s"
  by (cases s) auto

lemma expand_doubled: "expand_line env (double_dollars w @ s) = w @ expand_line env s"
  by (induction w) (auto simp: expand_plain)

definition plain_word :: "string \<Rightarrow> string" where
  "plain_word w = (if w = [] \<or> CHR '' '' \<in> set w then [CHR 0x22] @ w @ [CHR 0x22] else w)"

lemma expand_command_word: "expand_line env (command_word w @ s) = plain_word w @ expand_line env s"
  by (simp add: command_word_def plain_word_def Let_def double_dollars_set expand_plain expand_doubled)

lemma expand_command_words:
  "expand_line env (join '' '' (map command_word ws)) = join '' '' (map plain_word ws)"
proof (induction ws)
  case (Cons w ws)
  show ?case
  proof (cases ws)
    case Nil
    then show ?thesis using expand_command_word [of env w "[]"] by simp
  next
    case (Cons v vs)
    then show ?thesis
      using Cons.IH expand_command_word [of env w "CHR '' '' # join '' '' (map command_word ws)"]
      by (simp add: expand_plain)
  qed
qed simp

lemma split_outside:
  "CHR 0x22 \<notin> set w \<Longrightarrow> CHR '' '' \<notin> set w \<Longrightarrow> split_line u False (w @ s) = split_line (u @ w) False s"
  by (induction w arbitrary: u) auto

lemma split_inside:
  "CHR 0x22 \<notin> set w \<Longrightarrow> split_line u True (w @ s) = split_line (u @ w) True s"
  by (induction w arbitrary: u) auto

lemma split_plain_word:
  "CHR 0x22 \<notin> set w \<Longrightarrow> split_line [] False (plain_word w @ s) = split_line (plain_word w) False s"
  by (auto simp: plain_word_def split_inside split_outside)

lemma strip_plain_word: "CHR 0x22 \<notin> set w \<Longrightarrow> strip_quotes (plain_word w) = w"
  by (cases w) (auto simp: plain_word_def strip_quotes_def butlast_append)

lemma words_of_plain:
  "ws \<noteq> [] \<Longrightarrow> \<forall>w \<in> set ws. CHR 0x22 \<notin> set w \<Longrightarrow>
   map strip_quotes (split_line [] False (join '' '' (map plain_word ws))) = ws"
proof (induction ws)
  case (Cons w ws)
  show ?case
  proof (cases ws)
    case Nil
    then show ?thesis using Cons.prems split_plain_word [of w "[]"] by (simp add: strip_plain_word)
  next
    case c: (Cons v vs)
    then have "split_line [] False (join '' '' (map plain_word (w # ws)))
        = plain_word w # split_line [] False (join '' '' (map plain_word ws))"
      using Cons.prems split_plain_word [of w "CHR '' '' # join '' '' (map plain_word ws)"] by simp
    then show ?thesis using Cons c by (simp add: strip_plain_word del: join.simps)
  qed
qed simp

lemma command_reads_back: "sunshine_command argv = Some line \<Longrightarrow> sunshine_words env line = argv"
  by (auto simp: sunshine_command_def sunshine_words_def expand_command_words words_of_plain split: if_splits)

section \<open>Steam\<close>

definition steam_app_id :: "string \<Rightarrow> bool" where
  "steam_app_id s \<longleftrightarrow> s \<noteq> [] \<and> length s \<le> 10 \<and> list_all is_digit s"

definition tool_prefixes :: "string list" where
  "tool_prefixes = [''Proton Experimental'', ''Proton Hotfix'', ''Proton EasyAntiCheat Runtime'',
     ''Proton BattlEye Runtime'', ''Steam Linux Runtime'', ''Steamworks '', ''Steam Controller '']"

definition steam_tool :: "string \<Rightarrow> string \<Rightarrow> bool" where
  "steam_tool appid n \<longleftrightarrow>
     appid = ''228980'' \<or> list_ex (has_prefix n) tool_prefixes
     \<or> (case cut_prefix n ''Proton '' of Some (c # _) \<Rightarrow> is_digit c | _ \<Rightarrow> False)"

record steam_entry =
  st_app :: string
  st_title :: string
  st_cover :: string

definition steam_game :: "steam_entry \<Rightarrow> game" where
  "steam_game f =
     plain_game (st_title f) (''steam steam://rungameid/'' @ st_app f) (st_cover f) ''steam''
       \<lparr>steam_id := st_app f\<rparr>"

definition steam_listing :: "steam_entry list option \<Rightarrow> game list" where
  "steam_listing found =
     (case found of
        None \<Rightarrow> []
      | Some fs \<Rightarrow> map steam_game (filter (\<lambda>f. steam_app_id (st_app f) \<and> \<not> steam_tool (st_app f) (st_title f)) fs))"

datatype game_error = SeatNotAsked | BadExit | NotAList

definition steam_games :: "steam_entry list option looked \<Rightarrow> game_error + game list" where
  "steam_games r =
     (case r of LookFailed \<Rightarrow> Inl SeatNotAsked | Looked found code \<Rightarrow> Inr (if code \<noteq> 0 then [] else steam_listing found))"

section \<open>Lutris\<close>

record lutris_entry =
  lu_id :: int
  lu_title :: string
  lu_slug :: string
  lu_cover :: string

text \<open>\<open>lutrisMemory\<close>; a provisioner without one has \<open>None\<close>.\<close>

record lutris_memory =
  stamp :: string
  listed :: "game list"
  held :: bool

definition recall :: "lutris_memory option \<Rightarrow> string \<Rightarrow> game list option" where
  "recall m st = (case m of None \<Rightarrow> None | Some l \<Rightarrow> if \<not> held l \<or> stamp l \<noteq> st then None else Some (listed l))"

definition remember :: "lutris_memory option \<Rightarrow> string \<Rightarrow> game list \<Rightarrow> lutris_memory option" where
  "remember m st gs = map_option (\<lambda>l. l\<lparr>stamp := st, listed := gs, held := True\<rparr>) m"

definition lutris_absent :: string where "lutris_absent = ''no lutris''"

definition lutris_state :: "string looked \<Rightarrow> game_error + string" where
  "lutris_state r =
     (case r of LookFailed \<Rightarrow> Inl SeatNotAsked | Looked out code \<Rightarrow> Inr (if code \<noteq> 0 then [] else trim_space out))"

text \<open>Where the document begins: a bracket at the start of a line.\<close>

definition lutris_document :: "string \<Rightarrow> nat option" where
  "lutris_document out =
     (if has_prefix out ''['' then Some 0
      else map_option (\<lambda>(before, _). length before + 1) (cut out (CHR 0x0A # ''['')))"

definition lutris_game :: "lutris_entry \<Rightarrow> game" where
  "lutris_game f =
     plain_game (lu_title f) (''lutris lutris:rungameid/'' @ format_int (lu_id f)) (lu_cover f) ''lutris''
       \<lparr>slug := lu_slug f\<rparr>"

definition lutris_listing :: "lutris_entry list option \<Rightarrow> game_error + game list" where
  "lutris_listing found =
     (case found of None \<Rightarrow> Inl NotAList | Some fs \<Rightarrow> Inr (map lutris_game (filter (\<lambda>f. lu_title f \<noteq> []) fs)))"

text \<open>\<open>decode\<close> is what the JSON decoder makes of the text from a place on.\<close>

definition lutris_games ::
  "(string \<Rightarrow> lutris_entry list option) \<Rightarrow> string looked \<Rightarrow> string looked \<Rightarrow> lutris_memory option
     \<Rightarrow> lutris_memory option \<times> (game_error + game list)" where
  "lutris_games decode probe answer m =
     (case lutris_state probe of
        Inl e \<Rightarrow> (m, Inl e)
      | Inr st \<Rightarrow>
          if st = lutris_absent then (m, Inr [])
          else case recall m st of
            Some gs \<Rightarrow> (m, Inr gs)
          | None \<Rightarrow>
              (case answer of
                 LookFailed \<Rightarrow> (m, Inl SeatNotAsked)
               | Looked out code \<Rightarrow>
                   if code \<noteq> 0 then (m, Inr [])
                   else case lutris_document out of
                     None \<Rightarrow> (m, Inr [])
                   | Some k \<Rightarrow>
                       (case lutris_listing (decode (drop k out)) of
                          Inl e \<Rightarrow> (m, Inl e)
                        | Inr gs \<Rightarrow> (if st \<noteq> [] then remember m st gs else m, Inr gs))))"

section \<open>Faugus and Heroic\<close>

fun runes :: "string \<Rightarrow> string list" where
  "runes [] = []"
| "runes (c # cs) = (c # take (rune_len c cs - 1) cs) # runes (drop (rune_len c cs - 1) cs)"

text \<open>\<open>^[\p{L}\p{N}_][\p{L}\p{N}_-]{0,99}$\<close>; \<open>letter\<close> says which runes are letters or numbers.\<close>

definition faugus_id :: "(string \<Rightarrow> bool) \<Rightarrow> string \<Rightarrow> bool" where
  "faugus_id letter s =
     (case runes s of
        [] \<Rightarrow> False
      | r # rs \<Rightarrow> (letter r \<or> r = ''_'') \<and> length rs \<le> 99 \<and> list_all (\<lambda>r. letter r \<or> r = ''_'' \<or> r = ''-'') rs)"

record faugus_entry_found =
  fa_id :: string
  fa_title :: string
  fa_image :: string

definition faugus_listing ::
  "(string \<Rightarrow> bool) \<Rightarrow> faugus_entry_found list option \<Rightarrow> game_error + game list" where
  "faugus_listing letter found =
     (case found of
        None \<Rightarrow> Inl NotAList
      | Some fs \<Rightarrow> Inr (List.map_filter (\<lambda>f.
          if \<not> faugus_id letter (fa_id f) \<or> trim_space (fa_title f) = [] then None
          else map_option (\<lambda>l. plain_game (fa_title f) l (fa_image f) ''faugus'')
                 (sunshine_command [''faugus-launcher'', ''--game'', fa_id f])) fs))"

definition word_byte :: "char \<Rightarrow> bool" where
  "word_byte c = (let n = (of_char c :: nat) in is_digit c \<or> 65 \<le> n \<and> n \<le> 90 \<or> 97 \<le> n \<and> n \<le> 122)"

text \<open>\<open>^(legendary|gog|nile):[A-Za-z0-9][A-Za-z0-9._-]{0,127}$\<close>\<close>

definition heroic_key :: "string \<Rightarrow> bool" where
  "heroic_key k =
     list_ex (\<lambda>p. case cut_prefix k p of
        Some (c # cs) \<Rightarrow> word_byte c \<and> length cs \<le> 127 \<and> list_all (\<lambda>c. word_byte c \<or> c \<in> set ''._-'') cs
      | _ \<Rightarrow> False) [''legendary:'', ''gog:'', ''nile:'']"

record heroic_entry_found =
  he_runner :: string
  he_app :: string
  he_title :: string

definition heroic_listing :: "heroic_entry_found list option \<Rightarrow> game_error + game list" where
  "heroic_listing found =
     (case found of
        None \<Rightarrow> Inl NotAList
      | Some fs \<Rightarrow> Inr (List.map_filter (\<lambda>f.
          if \<not> heroic_key (he_runner f @ '':'' @ he_app f) \<or> trim_space (he_title f) = [] then None
          else map_option (\<lambda>l. plain_game (he_title f) l [] ''heroic'')
                 (sunshine_command [''heroic'', ''--no-gui'',
                    ''heroic://launch?appName='' @ he_app f @ ''&runner='' @ he_runner f])) fs))"

text \<open>\<open>faugusGames\<close> and \<open>heroicGames\<close> around a listing.\<close>

definition listed_games :: "('a \<Rightarrow> game_error + game list) \<Rightarrow> 'a looked \<Rightarrow> game_error + game list" where
  "listed_games listing r =
     (case r of LookFailed \<Rightarrow> Inl SeatNotAsked | Looked found code \<Rightarrow> if code \<noteq> 0 then Inl BadExit else listing found)"

section \<open>Shortcuts and AppImages\<close>

record shortcut_found =
  sc_name :: string
  sc_argv :: "string list"
  sc_icon :: string

definition desktop_source :: string where "desktop_source = ''desktop''"

definition parse_desktop_games :: "shortcut_found list option \<Rightarrow> game list \<Rightarrow> game_error + game list" where
  "parse_desktop_games found known =
     (case found of
        None \<Rightarrow> Inl NotAList
      | Some fs \<Rightarrow> Inr (List.map_filter (\<lambda>f.
          case sunshine_command (sc_argv f) of
            None \<Rightarrow> None
          | Some l \<Rightarrow> if l \<in> launch ` set known then None
                      else Some (plain_game (sc_name f) l (sc_icon f) desktop_source)) fs))"

record app_image_found =
  ai_name :: string
  ai_path :: string
  ai_icon :: string

definition app_image_games :: "app_image_found list option \<Rightarrow> game list" where
  "app_image_games found =
     (case found of None \<Rightarrow> []
      | Some fs \<Rightarrow> map (\<lambda>f. plain_game (ai_name f) (ai_path f) (ai_icon f) ''appimage'') fs)"

section \<open>One list\<close>

definition max_games :: nat where "max_games = 60"

text \<open>\<open>lower\<close> is \<open>strings.ToLower\<close>, with the letters of every script.\<close>

definition name_key :: "(string \<Rightarrow> string) \<Rightarrow> string \<Rightarrow> string" where
  "name_key lower n = lower (trim_space n)"

fun dedupe_from :: "(string \<Rightarrow> string) \<Rightarrow> string list \<Rightarrow> game list \<Rightarrow> game list" where
  "dedupe_from lower seen [] = []"
| "dedupe_from lower seen (g # gs) =
     (let key = name_key lower (game_name g)
      in if key = [] \<or> key \<in> set seen then dedupe_from lower seen gs
         else g # dedupe_from lower (key # seen) gs)"

definition dedupe_games :: "(string \<Rightarrow> string) \<Rightarrow> game list \<Rightarrow> game list" where
  "dedupe_games lower gs = dedupe_from lower [] gs"

definition what_came :: "'e + game list \<Rightarrow> game list" where
  "what_came r = (case r of Inl _ \<Rightarrow> [] | Inr gs \<Rightarrow> gs)"

definition scanned_games ::
  "game_error + game list \<Rightarrow> game_error + game list \<Rightarrow> game_error + game list \<Rightarrow> game_error + game list
     \<Rightarrow> app_image_found list option \<Rightarrow> shortcut_found list option \<Rightarrow> game list" where
  "scanned_games steam lutris faugus heroic images shortcuts =
     (let known = what_came steam @ what_came lutris @ what_came faugus @ what_came heroic @ app_image_games images
      in known @ what_came (parse_desktop_games shortcuts known))"

definition installed_games ::
  "(string \<Rightarrow> string) \<Rightarrow> game_error + game list \<Rightarrow> game_error + game list \<Rightarrow> game_error + game list
     \<Rightarrow> game_error + game list \<Rightarrow> app_image_found list option \<Rightarrow> shortcut_found list option \<Rightarrow> game list" where
  "installed_games lower steam lutris faugus heroic images shortcuts =
     take max_games (sort_key game_name
       (dedupe_games lower (scanned_games steam lutris faugus heroic images shortcuts)))"

section \<open>Each game once, and none left out\<close>

abbreviation gkey :: "(string \<Rightarrow> string) \<Rightarrow> game \<Rightarrow> string" where
  "gkey lower g \<equiv> name_key lower (game_name g)"

lemma dedupe_from_props:
  "distinct (map (gkey lower) (dedupe_from lower seen gs))
   \<and> (\<forall>g \<in> set (dedupe_from lower seen gs). gkey lower g \<notin> set seen \<and> g \<in> set gs)
   \<and> (\<forall>g \<in> set gs. gkey lower g \<noteq> [] \<longrightarrow>
        gkey lower g \<in> set seen \<or> (\<exists>h \<in> set (dedupe_from lower seen gs). gkey lower h = gkey lower g))"
proof (induction gs arbitrary: seen)
  case (Cons g gs)
  note first = Cons.IH [of seen] and rest = Cons.IH [of "gkey lower g # seen"]
  show ?case
  proof (cases "gkey lower g = [] \<or> gkey lower g \<in> set seen")
    case True
    then have "dedupe_from lower seen (g # gs) = dedupe_from lower seen gs" by (simp add: Let_def)
    with first True show ?thesis by auto
  next
    case False
    then have d: "dedupe_from lower seen (g # gs) = g # dedupe_from lower (gkey lower g # seen) gs"
      by (simp add: Let_def)
    have "gkey lower g \<notin> gkey lower ` set (dedupe_from lower (gkey lower g # seen) gs)" using rest by auto
    with rest False show ?thesis unfolding d by auto
  qed
qed simp

lemma take_sorted_le: "sorted xs \<Longrightarrow> x \<in> set xs \<Longrightarrow> x \<notin> set (take n xs) \<Longrightarrow> y \<in> set (take n xs) \<Longrightarrow> y \<le> x"
  by (metis append_take_drop_id in_set_conv_decomp sorted_append Un_iff set_append)

text \<open>
  One card for each game. The games of a seat are at most sixty, in the order of
  their names, and no two have the same name up to case and spaces around it; every game some
  launcher listed has its card, unless sixty that come no later in that order are there already.
\<close>

theorem one_card_for_each_game:
  fixes lower steam lutris faugus heroic images shortcuts
  defines "menu \<equiv> installed_games lower steam lutris faugus heroic images shortcuts"
    and "everything \<equiv> scanned_games steam lutris faugus heroic images shortcuts"
  shows "length menu \<le> 60 \<and> sorted (map game_name menu) \<and> distinct (map (gkey lower) menu)
    \<and> set menu \<subseteq> set everything
    \<and> (\<forall>g \<in> set everything. gkey lower g \<noteq> [] \<longrightarrow>
         (\<exists>h \<in> set everything. gkey lower h = gkey lower g
            \<and> (h \<in> set menu \<or> length menu = 60 \<and> (\<forall>k \<in> set menu. game_name k \<le> game_name h))))"
proof -
  let ?d = "dedupe_games lower everything"
  let ?s = "sort_key game_name ?d"
  have m: "menu = take 60 ?s" by (simp add: menu_def everything_def installed_games_def max_games_def)
  note d = dedupe_from_props [of lower "[]" everything, folded dedupe_games_def]
  have ms: "distinct (map (gkey lower) ?s)" using d by (simp add: distinct_map)
  have dm: "distinct (map (gkey lower) menu)"
    using ms unfolding m by (metis distinct_take take_map)
  have so: "sorted (map game_name menu)" unfolding m by (metis sorted_sort_key sorted_wrt_take take_map)
  have su: "set menu \<subseteq> set everything" using d set_take_subset [of 60 ?s] unfolding m by auto
  have le: "length menu \<le> 60" by (simp add: m)
  have last: "\<exists>h \<in> set everything. gkey lower h = gkey lower g
      \<and> (h \<in> set menu \<or> length menu = 60 \<and> (\<forall>k \<in> set menu. game_name k \<le> game_name h))"
    if g: "g \<in> set everything" "gkey lower g \<noteq> []" for g
  proof -
    obtain h where h: "h \<in> set ?d" "gkey lower h = gkey lower g" using d g by auto
    have "h \<in> set menu \<or> length menu = 60 \<and> (\<forall>k \<in> set menu. game_name k \<le> game_name h)"
    proof (cases "h \<in> set menu")
      case False
      then have n: "60 < length ?s" using h(1) unfolding m by (metis not_less set_sort take_all)
      have "game_name k \<le> game_name h" if k: "k \<in> set menu" for k
      proof -
        have "h \<in> set (drop 60 ?s)"
          using False h(1) unfolding m by (metis Un_iff append_take_drop_id set_append set_sort)
        moreover have "sorted (map game_name (take 60 ?s) @ map game_name (drop 60 ?s))"
          by (metis append_take_drop_id map_append sorted_sort_key)
        ultimately show ?thesis using k unfolding m by (simp add: sorted_append)
      qed
      then show ?thesis using n by (simp add: m)
    qed simp
    with h d show ?thesis by auto
  qed
  from le so dm su last show ?thesis by blast
qed

section \<open>What a card starts\<close>

lemma plain_command:
  assumes "argv \<noteq> []" "\<forall>w \<in> set argv. w \<noteq> [] \<and> set w \<inter> {CHR 0x22, CHR '' '', CHR ''$''} = {}"
  shows "sunshine_command argv = Some (join '' '' argv)"
proof -
  have "double_dollars w = w" if "CHR ''$'' \<notin> set w" for w using that by (induction w) auto
  then have "map command_word argv = argv"
    using assms(2) by (intro map_idI) (auto simp: command_word_def Let_def)
  then show ?thesis using assms by (auto simp: sunshine_command_def)
qed

lemma no_digit: "\<not> is_digit CHR 0x22" "\<not> is_digit CHR '' ''" "\<not> is_digit CHR ''$''"
  by code_simp+

lemma digits_plain: "list_all is_digit s \<Longrightarrow> set s \<inter> {CHR 0x22, CHR '' '', CHR ''$''} = {}"
  by (auto simp: list_all_iff no_digit)

lemma int_plain: "set (format_int i) \<inter> {CHR 0x22, CHR '' '', CHR ''$''} = {}"
  using format_int_chars [of _ i] by (auto simp: no_digit dest: format_int_chars)

lemma starts_steam:
  assumes "g \<in> set (steam_listing found)"
  shows "\<exists>a. steam_app_id a \<and> sunshine_words env (launch g) = [''steam'', ''steam://rungameid/'' @ a]"
proof -
  from assms obtain f where f: "g = steam_game f" "steam_app_id (st_app f)"
    by (auto simp: steam_listing_def split: option.splits)
  have "sunshine_command [''steam'', ''steam://rungameid/'' @ st_app f]
      = Some (join '' '' [''steam'', ''steam://rungameid/'' @ st_app f])"
    using f(2) digits_plain [of "st_app f"] by (intro plain_command) (auto simp: steam_app_id_def)
  then have "sunshine_command [''steam'', ''steam://rungameid/'' @ st_app f] = Some (launch g)"
    by (simp add: f steam_game_def plain_game_def)
  from command_reads_back [OF this] f(2) show ?thesis by blast
qed

lemma starts_lutris:
  assumes "lutris_listing found = Inr gs" "g \<in> set gs"
  shows "\<exists>i. sunshine_words env (launch g) = [''lutris'', ''lutris:rungameid/'' @ format_int i]"
proof -
  from assms obtain f where f: "g = lutris_game f" by (auto simp: lutris_listing_def split: option.splits)
  have "sunshine_command [''lutris'', ''lutris:rungameid/'' @ format_int (lu_id f)]
      = Some (join '' '' [''lutris'', ''lutris:rungameid/'' @ format_int (lu_id f)])"
    using int_plain [of "lu_id f"] by (intro plain_command) auto
  then have "sunshine_command [''lutris'', ''lutris:rungameid/'' @ format_int (lu_id f)] = Some (launch g)"
    by (simp add: f lutris_game_def plain_game_def)
  from command_reads_back [OF this] show ?thesis by blast
qed

lemma in_map_filter: "y \<in> set (List.map_filter f xs) \<longleftrightarrow> (\<exists>x \<in> set xs. f x = Some y)"
  by (induction xs) (auto simp: List.map_filter_simps split: option.splits)

lemma starts_faugus:
  assumes "faugus_listing letter found = Inr gs" "g \<in> set gs"
  shows "\<exists>i. faugus_id letter i \<and> sunshine_words env (launch g) = [''faugus-launcher'', ''--game'', i]"
proof -
  have "\<exists>f :: faugus_entry_found. faugus_id letter (fa_id f)
      \<and> sunshine_command [''faugus-launcher'', ''--game'', fa_id f] = Some (launch g)"
    using assms by (auto simp: faugus_listing_def in_map_filter plain_game_def split: option.splits if_splits) blast
  then show ?thesis using command_reads_back by blast
qed

lemma starts_heroic:
  assumes "heroic_listing found = Inr gs" "g \<in> set gs"
  shows "\<exists>r a. heroic_key (r @ '':'' @ a) \<and> sunshine_words env (launch g)
    = [''heroic'', ''--no-gui'', ''heroic://launch?appName='' @ a @ ''&runner='' @ r]"
proof -
  have "\<exists>f :: heroic_entry_found. heroic_key (he_runner f @ '':'' @ he_app f)
      \<and> sunshine_command [''heroic'', ''--no-gui'', ''heroic://launch?appName='' @ he_app f @ ''&runner='' @ he_runner f]
        = Some (launch g)"
    using assms by (auto simp: heroic_listing_def in_map_filter plain_game_def split: option.splits if_splits) blast
  then show ?thesis using command_reads_back by blast
qed

lemma starts_shortcut:
  assumes "parse_desktop_games (Some fs) known = Inr gs" "g \<in> set gs"
  shows "\<exists>f \<in> set fs. sunshine_words env (launch g) = sc_argv f"
  using assms command_reads_back
  by (fastforce simp: parse_desktop_games_def in_map_filter plain_game_def split: option.splits if_splits)

lemma starts_some_shortcut:
  "g \<in> set (what_came (parse_desktop_games sc known)) \<Longrightarrow>
    \<exists>fs k. sc = Some fs \<and> k \<in> set fs \<and> sunshine_words env (launch g) = sc_argv k"
proof (cases sc)
  case None
  then show "g \<in> set (what_came (parse_desktop_games sc known)) \<Longrightarrow> ?thesis"
    by (simp add: parse_desktop_games_def what_came_def)
next
  case (Some fs)
  then show "g \<in> set (what_came (parse_desktop_games sc known)) \<Longrightarrow> ?thesis"
    using starts_shortcut [of fs known] by (cases "parse_desktop_games sc known") (simp_all add: what_came_def Bex_def)
qed

lemma came_from_listing:
  "g \<in> set (what_came (listed_games listing r)) \<Longrightarrow> \<exists>x gs. listing x = Inr gs \<and> g \<in> set gs"
  by (auto simp: what_came_def listed_games_def split: sum.splits looked.splits if_splits) metis


definition sample_steam :: steam_entry where
  "sample_steam = \<lparr>st_app = ''440'', st_title = ''TF'', st_cover = []\<rparr>"


lemma one_card_for_each_game_witness:
  "length (installed_games (\<lambda>s. s) (steam_games (Looked (Some [sample_steam, sample_steam]) 0)) (Inl SeatNotAsked)
      (Inl BadExit) (Inl NotAList) None None) \<le> 60
   \<and> (\<exists>h \<in> {steam_game sample_steam}. game_name h = ''TF'')"
proof -
  have e: "set (scanned_games (steam_games (Looked (Some [sample_steam, sample_steam]) 0)) (Inl SeatNotAsked)
      (Inl BadExit) (Inl NotAList) None None) = {steam_game sample_steam}"
    "gkey (\<lambda>s. s) (steam_game sample_steam) = ''TF''" "game_name (steam_game sample_steam) = ''TF''"
    by code_simp+
  from one_card_for_each_game [of "\<lambda>s. s" "steam_games (Looked (Some [sample_steam, sample_steam]) 0)"
      "Inl SeatNotAsked" "Inl BadExit" "Inl NotAList" None None]
  show ?thesis unfolding e(1) using e(2,3) by auto
qed

section \<open>Lutris is asked again when it changed\<close>

text \<open>
  What is remembered was listed at the stamp it is kept under, a stamp the seat answered with,
  and only such a listing is answered without asking Lutris.
\<close>

lemma lutris_memory_is_a_listing:
  assumes "lutris_games decode probe answer m = (m', r)"
    and "\<forall>l. m = Some l \<longrightarrow> held l \<longrightarrow> stamp l \<noteq> [] \<and> taken (stamp l) (listed l)"
    and "\<And>st out k gs. lutris_state probe = Inr st \<Longrightarrow> answer = Looked out 0 \<Longrightarrow> lutris_document out = Some k
      \<Longrightarrow> lutris_listing (decode (drop k out)) = Inr gs \<Longrightarrow> taken st gs"
  shows "\<forall>l. m' = Some l \<longrightarrow> held l \<longrightarrow> stamp l \<noteq> [] \<and> taken (stamp l) (listed l)"
  using assms
  by (auto simp: lutris_games_def recall_def remember_def split: sum.splits if_splits option.splits looked.splits)

text \<open>
  Property C35: a command is read back word for word. Whatever is in the words, dollars, spaces
  and nothing at all included, and whatever is in the environment of Sunshine: what can be
  written is read as the same words again.
\<close>

theorem sunshine_reads_back:
  assumes "sunshine_command argv = Some line"
  shows "sunshine_words env line = argv"
  by (rule command_reads_back [OF assms])

lemma sunshine_reads_back_witness:
  "sunshine_words (\<lambda>_. ''x y'') ''eden \"my rom $$(HOME)\" \"\"'' = [''eden'', ''my rom $(HOME)'', []]"
  by (rule sunshine_reads_back) (simp add: sunshine_command_def command_word_def)

end
