(* ===== verification/App_List.thy ===== *)
theory App_List
  imports Games "HOL-Library.Multiset"
begin

text \<open>
  The list Moonlight shows (internal/seat/apps.go): reading it out of the seat whole or not at
  all, the entries Polyseat makes of the launchers and games that are installed, merging them
  with what somebody added by hand, and the question whether the file has to be written.
\<close>

section \<open>JSON\<close>

text \<open>
  A value as \<open>encoding/json\<close> reads it. \<open>JNum\<close> holds the digits the package prints for the
  number; the members of an object are in the order of the text, repeated keys included.
\<close>

datatype json =
    JNull
  | JBool bool
  | JNum string
  | JStr string
  | JArr "json list"
  | JObj "(string \<times> json) list"

text \<open>
  How a key is compared with the name of a field: letter case aside, with U+017F an \<open>s\<close> and
  U+212A a \<open>k\<close>.
\<close>

fun fold_key :: "string \<Rightarrow> string" where
  "fold_key [] = []"
| "fold_key (c # cs) =
     (if c = CHR 0xC5 \<and> has_prefix cs [CHR 0xBF] then CHR ''s'' # fold_key (drop 1 cs)
      else if c = CHR 0xE2 \<and> has_prefix cs [CHR 0x84, CHR 0xAA] then CHR ''k'' # fold_key (drop 2 cs)
      else lower_char c # fold_key cs)"

definition members :: "string \<Rightarrow> (string \<times> json) list \<Rightarrow> json list" where
  "members k ms = map snd (filter (\<lambda>(k', _). fold_key k' = k) ms)"

text \<open>Decoding into an object as \<open>map[string]any\<close> and printing it again: the last of several
  equal keys stands, and the keys are in order.\<close>

definition keep_last :: "(string \<times> 'a) list \<Rightarrow> (string \<times> 'a) list" where
  "keep_last ms = sort_key fst (fold (\<lambda>(k, v) m. AList.update k v m) ms [])"

primrec norm :: "json \<Rightarrow> json" where
  "norm JNull = JNull"
| "norm (JBool b) = JBool b"
| "norm (JNum n) = JNum n"
| "norm (JStr s) = JStr s"
| "norm (JArr xs) = JArr (map norm xs)"
| "norm (JObj ms) = JObj (keep_last (map (map_prod id norm) ms))"

section \<open>Entries\<close>

record list_app =
  app_name :: string
  detached :: "string list"
  prep_cmds :: "(string \<times> string) list"
  image_path :: string
  polyseat_mark :: bool

definition prep_json :: "string \<times> string \<Rightarrow> json" where
  "prep_json p = JObj ((''do'', JStr (fst p)) # (if snd p = [] then [] else [(''undo'', JStr (snd p))]))"

definition app_json :: "list_app \<Rightarrow> json" where
  "app_json a = JObj
     ([(''name'', JStr (app_name a))]
      @ (if detached a = [] then [] else [(''detached'', JArr (map JStr (detached a)))])
      @ (if prep_cmds a = [] then [] else [(''prep-cmd'', JArr (map prep_json (prep_cmds a)))])
      @ (if image_path a = [] then [] else [(''image-path'', JStr (image_path a))])
      @ [(''polyseat'', JBool (polyseat_mark a))])"

definition list_env :: "(string \<times> json) list" where
  "list_env =
     [(''LD_PRELOAD'', JStr ''/usr/$LIB/polyseat/mangohud/libMangoHud_shim.so''),
      (''MANGOHUD'', JStr ''1''),
      (''PATH'', JStr ''$(PATH):$(HOME)/.local/bin:$(HOME)/.local/share/flatpak/exports/bin'')]"

definition list_json :: "json list \<Rightarrow> json" where
  "list_json es = JObj [(''env'', JObj list_env), (''apps'', JArr es)]"

text \<open>\<open>json.Unmarshal\<close> into \<open>appList\<close>: the environment, \<open>None\<close> where it is nil, and the entries.\<close>

definition str_or_null :: "json \<Rightarrow> bool" where
  "str_or_null v = (case v of JStr _ \<Rightarrow> True | JNull \<Rightarrow> True | _ \<Rightarrow> False)"

definition env_value :: "json \<Rightarrow> bool" where
  "env_value v = (case v of JNull \<Rightarrow> True | JObj ms \<Rightarrow> list_all (str_or_null \<circ> snd) ms | _ \<Rightarrow> False)"

definition arr_or_null :: "json \<Rightarrow> bool" where
  "arr_or_null v = (case v of JNull \<Rightarrow> True | JArr _ \<Rightarrow> True | _ \<Rightarrow> False)"

definition text_of :: "json \<Rightarrow> string" where
  "text_of v = (case v of JStr s \<Rightarrow> s | _ \<Rightarrow> [])"

definition read_env :: "json \<Rightarrow> (string \<times> string) list option \<Rightarrow> (string \<times> string) list option" where
  "read_env v acc =
     (case v of
        JObj ms \<Rightarrow> Some (fold (\<lambda>(k, w) m. AList.update k (text_of w) m) ms (case acc of None \<Rightarrow> [] | Some m \<Rightarrow> m))
      | _ \<Rightarrow> None)"

definition read_apps :: "json \<Rightarrow> json list \<Rightarrow> json list" where
  "read_apps v acc = (case v of JArr es \<Rightarrow> es | _ \<Rightarrow> [])"

definition app_list_of :: "json \<Rightarrow> ((string \<times> string) list option \<times> json list) option" where
  "app_list_of j =
     (case j of
        JNull \<Rightarrow> Some (None, [])
      | JObj ms \<Rightarrow>
          if list_all env_value (members ''env'' ms) \<and> list_all arr_or_null (members ''apps'' ms)
          then Some (fold read_env (members ''env'' ms) None, fold read_apps (members ''apps'' ms) [])
          else None
      | _ \<Rightarrow> None)"

text \<open>\<open>head\<close>: an entry that does not decode is read as one with no name and no mark.\<close>

definition head_ok :: "(string \<times> json) list \<Rightarrow> bool" where
  "head_ok ms \<longleftrightarrow> list_all str_or_null (members ''name'' ms)
     \<and> list_all (\<lambda>v. case v of JBool _ \<Rightarrow> True | JNull \<Rightarrow> True | _ \<Rightarrow> False) (members ''polyseat'' ms)"

definition head_name :: "json \<Rightarrow> string" where
  "head_name e =
     (case e of
        JObj ms \<Rightarrow> if head_ok ms then fold (\<lambda>v n. case v of JStr s \<Rightarrow> s | _ \<Rightarrow> n) (members ''name'' ms) [] else []
      | _ \<Rightarrow> [])"

definition head_mark :: "json \<Rightarrow> bool" where
  "head_mark e =
     (case e of
        JObj ms \<Rightarrow> if head_ok ms then fold (\<lambda>v b. case v of JBool x \<Rightarrow> x | _ \<Rightarrow> b) (members ''polyseat'' ms) False else False
      | _ \<Rightarrow> False)"

section \<open>What is generated\<close>

record launcher =
  l_name :: string
  l_binary :: string
  l_flatpak :: string

definition launchers :: "launcher list" where
  "launchers =
     [\<lparr>l_name = ''Heroic'', l_binary = ''heroic'', l_flatpak = ''com.heroicgameslauncher.hgl''\<rparr>,
      \<lparr>l_name = ''Lutris'', l_binary = ''lutris'', l_flatpak = ''net.lutris.Lutris''\<rparr>,
      \<lparr>l_name = ''Faugus'', l_binary = ''faugus-launcher'', l_flatpak = ''io.github.Faugus.faugus-launcher''\<rparr>,
      \<lparr>l_name = ''Bottles'', l_binary = [], l_flatpak = ''com.usebottles.bottles''\<rparr>,
      \<lparr>l_name = ''itch'', l_binary = [], l_flatpak = ''io.itch.itch''\<rparr>,
      \<lparr>l_name = ''Prism Launcher'', l_binary = ''prismlauncher'', l_flatpak = ''org.prismlauncher.PrismLauncher''\<rparr>,
      \<lparr>l_name = ''RetroArch'', l_binary = ''retroarch'', l_flatpak = ''org.libretro.RetroArch''\<rparr>]"

record found_launcher =
  i_name :: string
  command :: string
  i_image :: string

definition tagged :: "string \<Rightarrow> string \<Rightarrow> string list" where
  "tagged tag out = List.map_filter (\<lambda>l. cut_prefix (trim_space l) tag) (split_on CHR 0x0A out)"

definition find_launcher :: "string list \<Rightarrow> string list \<Rightarrow> launcher \<Rightarrow> found_launcher option" where
  "find_launcher bins flatpaks l =
     (if l_binary l \<noteq> [] \<and> l_binary l \<in> set bins then Some \<lparr>i_name = l_name l, command = l_binary l, i_image = []\<rparr>
      else if l_flatpak l \<noteq> [] \<and> l_flatpak l \<in> set flatpaks
      then Some \<lparr>i_name = l_name l, command = ''flatpak run '' @ l_flatpak l, i_image = []\<rparr>
      else None)"

text \<open>\<open>icons\<close> is what the icon scan answered, a missing name being the empty path.\<close>

definition installed_launchers :: "string looked \<Rightarrow> (string \<Rightarrow> string) option \<Rightarrow> found_launcher list option" where
  "installed_launchers r icons =
     (case r of
        LookFailed \<Rightarrow> None
      | Looked out _ \<Rightarrow> Some (sort_key i_name
          (map (\<lambda>i. case icons of None \<Rightarrow> i | Some f \<Rightarrow> i\<lparr>i_image := f (i_name i)\<rparr>)
             (List.map_filter (find_launcher (tagged ''bin:'' out) (tagged ''flatpak:'' out)) launchers))))"

definition show_launcher :: string where "show_launcher = ''/usr/local/bin/polyseat-launcher show''"
definition hide_launcher :: string where "hide_launcher = ''/usr/local/bin/polyseat-launcher hide''"
definition to_gamescope :: string where "to_gamescope = ''/usr/local/bin/polyseat-workspace 2''"
definition to_desktop :: string where "to_desktop = ''/usr/local/bin/polyseat-workspace 1''"

definition fixed_apps :: "list_app list" where
  "fixed_apps =
     [\<lparr>app_name = ''Desktop'', detached = [''setsid /usr/local/bin/polyseat-steam refresh''],
       prep_cmds = [(to_desktop, []), (show_launcher, [])], image_path = ''desktop.png'', polyseat_mark = True\<rparr>,
      \<lparr>app_name = ''Steam Big Picture'', detached = [''setsid /usr/local/bin/polyseat-steam bigpicture''],
       prep_cmds = [(to_gamescope, to_desktop), (hide_launcher, [])], image_path = ''steam.png'', polyseat_mark = True\<rparr>]"

definition launch_app :: "string \<Rightarrow> string \<Rightarrow> string \<Rightarrow> list_app" where
  "launch_app n l i = \<lparr>app_name = n, detached = [''setsid '' @ l], prep_cmds = [(hide_launcher, [])],
     image_path = i, polyseat_mark = True\<rparr>"

fun add_apps :: "(string \<Rightarrow> string) \<Rightarrow> string list \<Rightarrow> (string \<times> string \<times> string) list \<Rightarrow> list_app list" where
  "add_apps lower taken [] = []"
| "add_apps lower taken ((n, l, i) # xs) =
     (let key = name_key lower n
      in if key = [] \<or> key \<in> set taken then add_apps lower taken xs
         else launch_app n l i # add_apps lower (key # taken) xs)"

definition polyseat_apps :: "(string \<Rightarrow> string) \<Rightarrow> found_launcher list \<Rightarrow> game list \<Rightarrow> list_app list" where
  "polyseat_apps lower ls gs =
     fixed_apps @ add_apps lower [''steam big picture'', ''desktop'']
       (map (\<lambda>l. (i_name l, command l, i_image l)) ls @ map (\<lambda>g. (game_name g, launch g, image g)) gs)"

section \<open>Merging\<close>

definition stock_apps :: "string list" where "stock_apps = [''Low Res Desktop'']"

text \<open>The old file: \<open>None\<close> where there is none, or what is there is no JSON.\<close>

definition old_entries :: "json option \<Rightarrow> json list" where
  "old_entries f = (case f of None \<Rightarrow> [] | Some j \<Rightarrow> (case app_list_of j of None \<Rightarrow> [] | Some (_, es) \<Rightarrow> es))"

definition merge_apps :: "list_app list \<Rightarrow> json option \<Rightarrow> json list \<times> nat" where
  "merge_apps ours f =
     (let es = old_entries f;
          keep = (if list_ex head_mark es
                  then filter (\<lambda>e. \<not> (head_name e = [] \<or> head_mark e
                         \<or> head_name e \<in> set (map app_name ours @ stock_apps))) es
                  else [])
      in (map app_json ours @ keep, length keep))"

text \<open>\<open>canonicalApps\<close>: the environment and the entries, their arrangement aside.\<close>

definition canonical_entry :: "json \<Rightarrow> json option" where
  "canonical_entry e = (case e of JNull \<Rightarrow> Some JNull | JObj _ \<Rightarrow> Some (norm e) | _ \<Rightarrow> None)"

definition canonical_apps :: "json option \<Rightarrow> ((string \<times> string) list option \<times> json multiset) option" where
  "canonical_apps f =
     (case f of
        None \<Rightarrow> None
      | Some j \<Rightarrow>
          (case app_list_of j of
             None \<Rightarrow> None
           | Some (e, es) \<Rightarrow>
               if list_ex (\<lambda>e. canonical_entry e = None) es then None
               else Some (map_option (sort_key fst) e, mset (List.map_filter canonical_entry es))))"

definition same_app_list :: "json option \<Rightarrow> json option \<Rightarrow> bool" where
  "same_app_list a b =
     (case canonical_apps a of
        None \<Rightarrow> False
      | Some x \<Rightarrow> (case canonical_apps b of None \<Rightarrow> False | Some y \<Rightarrow> x = y))"

section \<open>Writing the list\<close>

datatype apps_error = NoLaunchers | NotRead | NotWritten

text \<open>
  One call of \<open>WriteApps\<close> once the player's uid is known: what the seat has, the cards, what
  reading the old file brought, and whether the write in the end works. The new file, and the
  names with the word whether it changed.
\<close>

definition write_apps ::
  "(string \<Rightarrow> string) \<Rightarrow> found_launcher list option \<Rightarrow> game list \<Rightarrow> (string \<Rightarrow> string) \<Rightarrow> json option option \<Rightarrow> bool
     \<Rightarrow> json option \<Rightarrow> json option \<times> (apps_error + string list \<times> bool)" where
  "write_apps lower found games art old works f =
     (case found of
        None \<Rightarrow> (f, Inl NoLaunchers)
      | Some ls \<Rightarrow>
          let ours = polyseat_apps lower (map (\<lambda>l. l\<lparr>i_image := art (i_name l)\<rparr>) ls)
                       (map (\<lambda>g. g\<lparr>image := art (game_name g)\<rparr>) games);
              names = map app_name ours
          in (case old of
                None \<Rightarrow> (f, Inl NotRead)
              | Some existing \<Rightarrow>
                  let new = Some (list_json (fst (merge_apps ours existing)))
                  in if same_app_list new existing then (f, Inr (names, False))
                     else if works then (new, Inr (names, True))
                     else (f, Inl NotWritten)))"

section \<open>Reading the list whole\<close>

record capped =
  buf :: string
  past_limit :: bool

definition capped_write :: "nat \<Rightarrow> string \<Rightarrow> capped \<Rightarrow> capped" where
  "capped_write limit p b =
     (if limit - length (buf b) < length p
      then \<lparr>buf = buf b @ take (limit - length (buf b)) p, past_limit = True\<rparr>
      else b\<lparr>buf := buf b @ p\<rparr>)"

definition capped_all :: "nat \<Rightarrow> string list \<Rightarrow> capped" where
  "capped_all limit ps = fold (capped_write limit) ps \<lparr>buf = [], past_limit = False\<rparr>"

lemma capped_all_is:
  "buf (capped_all limit ps) = take limit (concat ps)
   \<and> past_limit (capped_all limit ps) = (limit < length (concat ps))"
proof (induction ps rule: rev_induct)
  case (snoc p ps)
  then show ?case by (auto simp: capped_all_def capped_write_def)
qed (simp add: capped_all_def)

definition apps_limit :: nat where "apps_limit = 4194304"
definition apps_absent :: int where "apps_absent = 3"

datatype read_failure = ExecFailed | ReadFailed int | NoAppList

text \<open>\<open>appsAnswer\<close>: \<open>Inr None\<close> where there is no file.\<close>

definition apps_answer :: "string \<Rightarrow> int \<Rightarrow> bool \<Rightarrow> read_failure + string option" where
  "apps_answer out code failed =
     (if failed then Inl ExecFailed
      else if code = apps_absent then Inr None
      else if code \<noteq> 0 then Inl (ReadFailed code)
      else if apps_limit < length out then Inl NoAppList
      else Inr (Some out))"

text \<open>\<open>readAppsFile\<close>: what is printed comes in pieces into a buffer one byte longer than the limit.\<close>

definition read_apps_file :: "string list \<Rightarrow> int \<Rightarrow> bool \<Rightarrow> read_failure + string option" where
  "read_apps_file printed code failed = apps_answer (buf (capped_all (Suc apps_limit) printed)) code failed"

text \<open>Where the seat printed the first bytes of the file, as it does when it exits with 0, the answer
  is the whole file or an error, in whatever pieces they came.\<close>

lemma list_is_read_whole:
  assumes "concat printed = take (Suc apps_limit) content"
  shows "read_apps_file printed 0 False = (if apps_limit < length content then Inl NoAppList else Inr (Some content))"
  using assms
  by (auto simp: read_apps_file_def apps_answer_def capped_all_is apps_absent_def min_def)

section \<open>The entries of a generated list\<close>

lemma app_list_of_list_json: "app_list_of (list_json es) = Some (Some (map (map_prod id text_of) list_env), es)"
proof -
  have "members ''env'' [(''env'', JObj list_env), (''apps'', JArr es)] = [JObj list_env]"
    "members ''apps'' [(''env'', JObj list_env), (''apps'', JArr es)] = [JArr es]"
    by (simp_all add: members_def lower_char_def)
  then show ?thesis
    by (simp add: app_list_of_def list_json_def env_value_def arr_or_null_def read_apps_def read_env_def
        list_env_def str_or_null_def)
qed

lemma old_entries_list_json [simp]: "old_entries (Some (list_json es)) = es"
  by (simp add: old_entries_def app_list_of_list_json)

lemma members_app_json:
  "app_json a = JObj ms \<Longrightarrow> members ''name'' ms = [JStr (app_name a)] \<and> members ''polyseat'' ms = [JBool (polyseat_mark a)]"
  by (auto simp: app_json_def members_def lower_char_def)

lemma head_app_json [simp]:
  "head_name (app_json a) = app_name a" "head_mark (app_json a) = polyseat_mark a"
proof -
  obtain ms where ms: "app_json a = JObj ms" by (simp add: app_json_def)
  note m = members_app_json [OF ms]
  show "head_name (app_json a) = app_name a" "head_mark (app_json a) = polyseat_mark a"
    unfolding ms head_name_def head_mark_def by (simp_all add: m head_ok_def str_or_null_def)
qed

lemma polyseat_apps_marked: "a \<in> set (polyseat_apps lower ls gs) \<Longrightarrow> polyseat_mark a"
proof -
  have "b \<in> set (add_apps lower taken xs) \<Longrightarrow> polyseat_mark b" for b taken xs
    by (induction lower taken xs rule: add_apps.induct) (auto simp: Let_def launch_app_def split: if_splits)
  then show "a \<in> set (polyseat_apps lower ls gs) \<Longrightarrow> polyseat_mark a"
    by (auto simp: polyseat_apps_def fixed_apps_def)
qed

lemma polyseat_apps_exist: "polyseat_apps lower ls gs \<noteq> []"
  by (simp add: polyseat_apps_def fixed_apps_def)

definition hand_made :: "list_app list \<Rightarrow> json option \<Rightarrow> json list" where
  "hand_made ours f = drop (length ours) (fst (merge_apps ours f))"

lemma merge_is: "fst (merge_apps ours f) = map app_json ours @ hand_made ours f"
  by (simp add: hand_made_def merge_apps_def Let_def)

lemma in_hand_made:
  "e \<in> set (hand_made ours f) \<longleftrightarrow>
     list_ex head_mark (old_entries f) \<and> e \<in> set (old_entries f) \<and> head_name e \<noteq> [] \<and> \<not> head_mark e
     \<and> head_name e \<notin> set (map app_name ours) \<and> head_name e \<notin> set stock_apps"
  by (auto simp: hand_made_def merge_apps_def Let_def)

lemma merge_again:
  assumes "ours \<noteq> []" "\<forall>a \<in> set ours. polyseat_mark a"
  shows "merge_apps ours (Some (list_json (fst (merge_apps ours f)))) = (fst (merge_apps ours f), length (hand_made ours f))"
proof -
  have m: "list_ex head_mark (map app_json ours @ hand_made ours f)"
    using assms by (cases ours) auto
  have "filter (\<lambda>e. \<not> (head_name e = [] \<or> head_mark e \<or> head_name e \<in> set (map app_name ours @ stock_apps)))
      (map app_json ours @ hand_made ours f) = hand_made ours f"
    using assms(2) by (auto simp: filter_map filter_id_conv in_hand_made intro!: filter_False)
  with m show ?thesis by (simp add: merge_apps_def [of ours "Some _"] merge_is Let_def)
qed

lemma canonical_merge: "\<not> list_ex (\<lambda>e. canonical_entry e = None) (fst (merge_apps ours f))"
proof -
  have "canonical_entry e \<noteq> None" if "head_name e \<noteq> []" for e
    using that by (cases e) (auto simp: canonical_entry_def head_name_def)
  then show ?thesis
    by (auto simp: list_ex_iff merge_is in_hand_made canonical_entry_def app_json_def)
qed

lemma same_merge: "same_app_list (Some (list_json (fst (merge_apps ours f)))) (Some (list_json (fst (merge_apps ours f))))"
  using canonical_merge [of ours f] by (simp add: same_app_list_def canonical_apps_def app_list_of_list_json)

lemma same_app_list_sym: "same_app_list a b \<Longrightarrow> same_app_list b a"
  by (auto simp: same_app_list_def split: option.splits)

definition generated :: "(string \<Rightarrow> string) \<Rightarrow> found_launcher list \<Rightarrow> game list \<Rightarrow> (string \<Rightarrow> string) \<Rightarrow> list_app list" where
  "generated lower ls games art = polyseat_apps lower (map (\<lambda>l. l\<lparr>i_image := art (i_name l)\<rparr>) ls)
     (map (\<lambda>g. g\<lparr>image := art (game_name g)\<rparr>) games)"

lemma write_apps_generated:
  "write_apps lower (Some ls) games art (Some existing) works f =
     (let ours = generated lower ls games art; new = Some (list_json (fst (merge_apps ours existing)))
      in if same_app_list new existing then (f, Inr (map app_name ours, False))
         else if works then (new, Inr (map app_name ours, True)) else (f, Inl NotWritten))"
  by (simp add: write_apps_def generated_def Let_def)

lemma pass_settles:
  assumes "write_apps lower (Some ls) games art (Some f) works f = (f1, Inr (ns, c))"
  shows "write_apps lower (Some ls) games art (Some f1) works' f1 = (f1, Inr (ns, False))
    \<and> same_app_list f1 (Some (list_json (map app_json (generated lower ls games art)
        @ hand_made (generated lower ls games art) f)))"
proof -
  let ?ours = "generated lower ls games art"
  let ?new = "Some (list_json (fst (merge_apps ?ours f)))"
  have g: "?ours \<noteq> []" "\<forall>a \<in> set ?ours. polyseat_mark a"
    using polyseat_apps_exist polyseat_apps_marked by (auto simp: generated_def)
  show ?thesis
  proof (cases "same_app_list ?new f")
    case True
    then show ?thesis using assms same_app_list_sym [OF True] by (simp add: write_apps_generated Let_def merge_is)
  next
    case False
    with assms have f1: "f1 = ?new" "ns = map app_name ?ours"
      by (auto simp: write_apps_generated Let_def split: if_splits)
    then show ?thesis
      using merge_again [OF g, of f] same_merge [of ?ours f] by (simp add: write_apps_generated Let_def merge_is [symmetric])
  qed
qed

section \<open>What Moonlight offers\<close>

lemma add_apps_props:
  "distinct (map (name_key lower \<circ> app_name) (add_apps lower taken xs))
   \<and> (\<forall>a \<in> set (add_apps lower taken xs). name_key lower (app_name a) \<notin> set taken)
   \<and> (\<forall>(n, l, i) \<in> set xs. name_key lower n \<noteq> [] \<longrightarrow>
        name_key lower n \<in> set taken \<or> (\<exists>a \<in> set (add_apps lower taken xs). name_key lower (app_name a) = name_key lower n))"
proof (induction xs arbitrary: taken)
  case (Cons x xs)
  obtain n l i where x: "x = (n, l, i)" by (cases x)
  note first = Cons.IH [of taken] and rest = Cons.IH [of "name_key lower n # taken"]
  show ?case
  proof (cases "name_key lower n = [] \<or> name_key lower n \<in> set taken")
    case True
    then have "add_apps lower taken (x # xs) = add_apps lower taken xs" by (simp add: x Let_def)
    with first True show ?thesis by (auto simp: x)
  next
    case False
    then have d: "add_apps lower taken (x # xs) = launch_app n l i # add_apps lower (name_key lower n # taken) xs"
      by (simp add: x Let_def)
    have "app_name (launch_app n l i) = n" by (simp add: launch_app_def)
    moreover have "name_key lower n \<notin> (name_key lower \<circ> app_name) ` set (add_apps lower (name_key lower n # taken) xs)"
      using rest by auto
    ultimately show ?thesis using rest False unfolding d by (auto simp: x)
  qed
qed simp

lemma name_key_fixed:
  assumes "lower ''Desktop'' = ''desktop''" "lower ''Steam Big Picture'' = ''steam big picture''"
  shows "map (name_key lower \<circ> app_name) fixed_apps = [''desktop'', ''steam big picture'']"
proof -
  have "trim_space ''Desktop'' = ''Desktop''" "trim_space ''Steam Big Picture'' = ''Steam Big Picture''"
    by code_simp+
  with assms show ?thesis by (simp add: fixed_apps_def name_key_def)
qed

lemma distinct_map_append:
  "distinct (map g xs) \<Longrightarrow> distinct (map g ys) \<Longrightarrow> g ` set xs = K \<Longrightarrow> \<forall>y \<in> set ys. g y \<notin> K \<Longrightarrow>
   distinct (map g (xs @ ys))"
  by (auto simp: disjoint_iff) (metis imageI)

lemma key_in_image:
  "k \<in> K \<or> (\<exists>a \<in> S. (g \<circ> h) a = k) \<Longrightarrow> (g \<circ> h) ` T = K \<Longrightarrow> k \<in> (g \<circ> h) ` T \<or> k \<in> (g \<circ> h) ` S"
  by (metis imageI)

lemma in_fst: "x \<in> fst ` set xs \<Longrightarrow> \<exists>y z. (x, y, z) \<in> set xs"
  by force

lemma polyseat_apps_props:
  assumes "lower ''Desktop'' = ''desktop''" "lower ''Steam Big Picture'' = ''steam big picture''"
  shows "distinct (map (name_key lower \<circ> app_name) (polyseat_apps lower ls gs))"
    and "n \<in> i_name ` set ls \<union> game_name ` set gs \<Longrightarrow> name_key lower n \<noteq> [] \<Longrightarrow>
      \<exists>a \<in> set (polyseat_apps lower ls gs). name_key lower (app_name a) = name_key lower n"
proof -
  let ?xs = "map (\<lambda>l. (i_name l, command l, i_image l)) ls @ map (\<lambda>g. (game_name g, launch g, image g)) gs"
  note p = add_apps_props [of lower "[''steam big picture'', ''desktop'']" ?xs]
  note k = name_key_fixed [OF assms]
  have f: "(name_key lower \<circ> app_name) ` set fixed_apps = {''desktop'', ''steam big picture''}"
    using arg_cong [OF k, of set] by simp
  show "distinct (map (name_key lower \<circ> app_name) (polyseat_apps lower ls gs))"
    unfolding polyseat_apps_def
  proof (rule distinct_map_append [OF _ _ f])
    show "distinct (map (name_key lower \<circ> app_name) fixed_apps)" unfolding k by simp
    show "distinct (map (name_key lower \<circ> app_name) (add_apps lower [''steam big picture'', ''desktop''] ?xs))"
      by (rule conjunct1 [OF p])
    show "\<forall>a \<in> set (add_apps lower [''steam big picture'', ''desktop''] ?xs).
        (name_key lower \<circ> app_name) a \<notin> {''desktop'', ''steam big picture''}"
      using conjunct1 [OF conjunct2 [OF p]] unfolding comp_def set_simps by blast
  qed
  assume n: "n \<in> i_name ` set ls \<union> game_name ` set gs" "name_key lower n \<noteq> []"
  have "n \<in> fst ` set ?xs" using n(1) by (simp add: image_image image_Un)
  from in_fst [OF this] obtain l i where m: "(n, l, i) \<in> set ?xs" by (elim exE)
  have "name_key lower n \<in> {''desktop'', ''steam big picture''}
      \<or> (\<exists>a \<in> set (add_apps lower [''steam big picture'', ''desktop''] ?xs). (name_key lower \<circ> app_name) a = name_key lower n)"
    using bspec [OF conjunct2 [OF conjunct2 [OF p]] m] n(2) unfolding prod.case set_simps comp_apply by blast
  from key_in_image [OF this f]
  have "name_key lower n \<in> (name_key lower \<circ> app_name) ` set (polyseat_apps lower ls gs)"
    unfolding polyseat_apps_def set_append image_Un by (elim disjE) (rule UnI1, assumption, rule UnI2, assumption)
  then show "\<exists>a \<in> set (polyseat_apps lower ls gs). name_key lower (app_name a) = name_key lower n"
    by (auto simp: image_iff)
qed

lemma generated_props:
  assumes "lower ''Desktop'' = ''desktop''" "lower ''Steam Big Picture'' = ''steam big picture''"
  shows "distinct (map (name_key lower \<circ> app_name) (generated lower ls gs art))"
    and "n \<in> i_name ` set ls \<union> game_name ` set gs \<Longrightarrow> name_key lower n \<noteq> [] \<Longrightarrow>
      \<exists>a \<in> set (generated lower ls gs art). name_key lower (app_name a) = name_key lower n"
proof -
  let ?ls = "map (\<lambda>l. l\<lparr>i_image := art (i_name l)\<rparr>) ls" and ?gs = "map (\<lambda>g. g\<lparr>image := art (game_name g)\<rparr>) gs"
  show "distinct (map (name_key lower \<circ> app_name) (generated lower ls gs art))"
    unfolding generated_def by (rule polyseat_apps_props(1) [OF assms])
  have "i_name ` set ?ls \<union> game_name ` set ?gs = i_name ` set ls \<union> game_name ` set gs"
    by (simp add: image_image)
  then show "n \<in> i_name ` set ls \<union> game_name ` set gs \<Longrightarrow> name_key lower n \<noteq> [] \<Longrightarrow>
      \<exists>a \<in> set (generated lower ls gs art). name_key lower (app_name a) = name_key lower n"
    using polyseat_apps_props(2) [OF assms, of n ?ls ?gs] by (simp add: generated_def)
qed


section \<open>What was added by hand stays\<close>

text \<open>
  What happens to the file: a pass, with everything that may come of it, or somebody's edit, here
  one that takes nothing away.
\<close>

datatype list_event =
    Pass "found_launcher list option" "game list" "string \<Rightarrow> string" bool bool
  | Edited "json option"

definition list_step :: "(string \<Rightarrow> string) \<Rightarrow> list_event \<Rightarrow> json option \<Rightarrow> json option" where
  "list_step lower ev f =
     (case ev of
        Pass found games art readable works \<Rightarrow>
          fst (write_apps lower found games art (if readable then Some f else None) works f)
      | Edited f' \<Rightarrow> if set (old_entries f) \<subseteq> set (old_entries f') then f' else f)"

definition never_generated :: "(string \<Rightarrow> string) \<Rightarrow> string \<Rightarrow> list_event list \<Rightarrow> bool" where
  "never_generated lower n evs \<longleftrightarrow>
     list_all (\<lambda>ev. case ev of Pass (Some ls) games art _ _ \<Rightarrow> n \<notin> app_name ` set (generated lower ls games art)
                     | _ \<Rightarrow> True) evs"

definition hand_entry :: "json \<Rightarrow> json option \<Rightarrow> bool" where
  "hand_entry e f \<longleftrightarrow> e \<in> set (old_entries f) \<and> \<not> head_mark e \<and> head_name e \<noteq> []
     \<and> head_name e \<notin> set stock_apps \<and> list_ex head_mark (old_entries f)"

lemma hand_entry_step:
  assumes "hand_entry e f" "never_generated lower (head_name e) [ev]"
  shows "hand_entry e (list_step lower ev f)"
proof (cases ev)
  case (Edited f')
  then show ?thesis using assms(1) by (auto simp: list_step_def hand_entry_def list_ex_iff)
next
  case (Pass found games art readable works)
  show ?thesis
  proof (cases "\<exists>ls. found = Some ls \<and> readable")
    case False
    then show ?thesis using assms(1) Pass
      by (cases found) (auto simp: list_step_def write_apps_def Let_def)
  next
    case True
    then obtain ls where found: "found = Some ls" "readable" by blast
    let ?ours = "generated lower ls games art"
    have g: "?ours \<noteq> []" "\<forall>a \<in> set ?ours. polyseat_mark a"
      using polyseat_apps_exist polyseat_apps_marked by (auto simp: generated_def)
    have "e \<in> set (hand_made ?ours f)"
      using assms found Pass by (auto simp: in_hand_made hand_entry_def never_generated_def)
    moreover have "list_ex head_mark (map app_json ?ours)" using g by (cases ?ours) auto
    ultimately have "hand_entry e (Some (list_json (fst (merge_apps ?ours f))))"
      by (simp add: hand_entry_def merge_is in_hand_made)
    then show ?thesis using assms(1) found Pass by (simp add: list_step_def write_apps_generated Let_def)
  qed
qed


definition sample_hand :: json where
  "sample_hand = JObj [(''name'', JStr ''Kodi''), (''cmd'', JStr ''kodi'')]"

definition sample_list :: "json option" where
  "sample_list = Some (list_json (map app_json fixed_apps @ [sample_hand]))"



end
