(* ===== verification/App_Refresh.thy ===== *)
theory App_Refresh
  imports App_List
begin

text \<open>
  When the list of Moonlight is rebuilt and when Sunshine is told of it (internal/seat/software.go:
  \<open>refreshApps\<close>, \<open>refreshAppsWhenNobodyIsStreaming\<close>; manager.go: the part of \<open>refreshSession\<close> and
  \<open>sessionEnded\<close> about it). Telling Sunshine ends the stream that is going, so it waits for the
  end of one; the file and the list Sunshine has loaded are kept apart here.
\<close>

section \<open>State and steps\<close>

text \<open>\<open>apps_checked\<close> is in seconds, \<open>None\<close> for the zero time.\<close>

record list_state =
  disk :: "json option"
  loaded :: "json option"
  apps_pending :: bool
  reload_pending :: bool
  apps_checked :: "int option"

definition apps_interval :: int where "apps_interval = 60"

definition apps_due :: "int \<Rightarrow> list_state \<Rightarrow> bool" where
  "apps_due now s = (case apps_checked s of None \<Rightarrow> True | Some t \<Rightarrow> apps_interval \<le> now - t)"

text \<open>
  What a rebuild meets: what is installed, whether the old list can be read and the new one
  written, whether somebody streams when it comes to telling, and whether Sunshine is told.
\<close>

record rebuild =
  rb_found :: "found_launcher list option"
  rb_games :: "game list"
  rb_art :: "string \<Rightarrow> string"
  rb_readable :: bool
  rb_works :: bool
  rb_streaming :: bool
  rb_told :: bool

definition refresh_apps :: "(string \<Rightarrow> string) \<Rightarrow> rebuild \<Rightarrow> list_state \<Rightarrow> list_state" where
  "refresh_apps lower rb s =
     (case write_apps lower (rb_found rb) (rb_games rb) (rb_art rb)
             (if rb_readable rb then Some (disk s) else None) (rb_works rb) (disk s) of
        (f, Inl _) \<Rightarrow> s\<lparr>disk := f\<rparr>
      | (f, Inr (names, changed)) \<Rightarrow>
          let s1 = s\<lparr>disk := f\<rparr>
          in if \<not> changed \<and> \<not> reload_pending s then s1
             else if rb_streaming rb then s1\<lparr>reload_pending := True\<rparr>
             else if rb_told rb then s1\<lparr>loaded := f, reload_pending := False\<rparr>
             else s1\<lparr>reload_pending := True\<rparr>)"

text \<open>The words the sweep has for the list: whether it starts a rebuild, if the lane is free.\<close>

definition sweep_apps :: "int \<Rightarrow> bool \<Rightarrow> bool \<Rightarrow> bool \<Rightarrow> list_state \<Rightarrow> list_state \<times> bool" where
  "sweep_apps now up busy free s =
     (if \<not> up then (s, False)
      else let due = apps_due now s;
               s1 = (if due \<and> busy then s\<lparr>apps_pending := True\<rparr> else s);
               s2 = (if due \<and> \<not> busy then s1\<lparr>apps_checked := Some now\<rparr> else s1)
           in (s2, due \<and> \<not> busy \<and> free))"

definition list_session_ended :: "int \<Rightarrow> bool \<Rightarrow> bool \<Rightarrow> list_state \<Rightarrow> list_state \<times> bool" where
  "list_session_ended now streaming free s =
     (if streaming then (s, False)
      else let owing = apps_pending s \<or> reload_pending s;
               s1 = s\<lparr>apps_pending := False\<rparr>;
               s2 = (if owing then s1\<lparr>apps_checked := Some now\<rparr> else s1)
           in if owing \<and> \<not> free then (s2\<lparr>apps_checked := None\<rparr>, False) else (s2, owing))"

text \<open>\<open>refreshAppsWhenNobodyIsStreaming\<close>, after software was changed from the page.\<close>

definition refresh_when_idle :: "(string \<Rightarrow> string) \<Rightarrow> bool \<Rightarrow> rebuild \<Rightarrow> list_state \<Rightarrow> list_state" where
  "refresh_when_idle lower busy rb s = (if busy then s\<lparr>apps_pending := True\<rparr> else refresh_apps lower rb s)"

text \<open>The list as a start of the session writes it, before Sunshine is there to read it.\<close>

definition list_at_start :: "(string \<Rightarrow> string) \<Rightarrow> rebuild \<Rightarrow> list_state \<Rightarrow> list_state" where
  "list_at_start lower rb s =
     (let f = fst (write_apps lower (rb_found rb) (rb_games rb) (rb_art rb)
                (if rb_readable rb then Some (disk s) else None) (rb_works rb) (disk s))
      in s\<lparr>disk := f, loaded := f\<rparr>)"

section \<open>What is not loaded is owed\<close>

text \<open>
  A rebuild may run whenever its lane is free, whoever asked for it. \<open>HandEdit\<close> is Sunshine's own
  page, which writes the file and loads it, and \<open>SunshineAgain\<close> a Sunshine that starts again.
\<close>

datatype list_op =
    Sweep int bool bool bool
  | Rebuild rebuild
  | SoftwareChanged bool rebuild
  | StreamOver int bool bool
  | SeatStarts rebuild
  | HandEdit "json option"
  | SunshineAgain

definition list_op_step :: "(string \<Rightarrow> string) \<Rightarrow> list_op \<Rightarrow> list_state \<Rightarrow> list_state" where
  "list_op_step lower lop s =
     (case lop of
        Sweep now up busy free \<Rightarrow> fst (sweep_apps now up busy free s)
      | Rebuild rb \<Rightarrow> refresh_apps lower rb s
      | SoftwareChanged busy rb \<Rightarrow> refresh_when_idle lower busy rb s
      | StreamOver now streaming free \<Rightarrow> fst (list_session_ended now streaming free s)
      | SeatStarts rb \<Rightarrow> list_at_start lower rb s
      | HandEdit f \<Rightarrow> s\<lparr>disk := f, loaded := f\<rparr>
      | SunshineAgain \<Rightarrow> s\<lparr>loaded := disk s\<rparr>)"

lemma write_apps_unchanged:
  assumes "write_apps lower found games art old works f = (f', r)" "f' \<noteq> f"
  shows "\<exists>ns. r = Inr (ns, True)"
  using assms by (auto simp: write_apps_def Let_def split: option.splits if_splits)

lemma refresh_owed:
  assumes "loaded s \<noteq> disk s \<longrightarrow> reload_pending s"
  shows "loaded (refresh_apps lower rb s) \<noteq> disk (refresh_apps lower rb s) \<longrightarrow> reload_pending (refresh_apps lower rb s)"
proof -
  obtain f r where w: "write_apps lower (rb_found rb) (rb_games rb) (rb_art rb)
      (if rb_readable rb then Some (disk s) else None) (rb_works rb) (disk s) = (f, r)" by force
  show ?thesis
  proof (cases r)
    case (Inl e)
    then have "f = disk s" using write_apps_unchanged [OF w] by blast
    then show ?thesis using w Inl assms by (simp add: refresh_apps_def)
  next
    case (Inr x)
    obtain ns c where x: "x = (ns, c)" by force
    have "\<not> c \<Longrightarrow> f = disk s" using write_apps_unchanged [OF w] Inr x by blast
    then show ?thesis using w Inr x assms by (auto simp: refresh_apps_def Let_def)
  qed
qed

lemma list_op_owed:
  "(loaded s \<noteq> disk s \<longrightarrow> reload_pending s) \<Longrightarrow>
   loaded (list_op_step lower lop s) \<noteq> disk (list_op_step lower lop s) \<longrightarrow> reload_pending (list_op_step lower lop s)"
  using refresh_owed [of s lower]
  by (cases lop) (auto simp: list_op_step_def sweep_apps_def refresh_when_idle_def list_session_ended_def
      list_at_start_def Let_def)


text \<open>Sunshine is told by a rebuild only right after an answer that nobody streams.\<close>

lemma told_only_when_idle:
  "loaded (refresh_apps lower rb s) \<noteq> loaded s \<Longrightarrow> \<not> rb_streaming rb"
  by (auto simp: refresh_apps_def Let_def split: prod.splits sum.splits if_splits)

section \<open>What is owed is paid\<close>

lemma due_after_busy_end:
  assumes "list_session_ended now False free s = (s', started)" "apps_pending s \<or> reload_pending s"
  shows "started \<or> (\<forall>now'. apps_due now' s')"
  using assms by (auto simp: list_session_ended_def apps_due_def Let_def split: if_splits)


definition sample_rebuild :: rebuild where
  "sample_rebuild = \<lparr>rb_found = Some [], rb_games = [], rb_art = (\<lambda>_. []), rb_readable = True, rb_works = True,
     rb_streaming = False, rb_told = True\<rparr>"



end
