(* ===== verification/Share_Book.thy ===== *)
theory Share_Book
  imports Prelude "HOL-Library.List_Lexorder" "HOL-Library.Char_ord"
begin

text \<open>
  Carrying the entries of a launcher between the members of the library
  (internal/seat/share.go): the recipes that are learned, what was written where, who is owed a
  look, and the rounds. What a recipe says is the launcher's own; what a helper answers in a
  member is an argument.
\<close>

section \<open>The memory\<close>

record 'b recipe =
  author :: string
  body :: 'b

text \<open>An entry as a helper reports it; \<open>e_recipe\<close> is what its recipe says, if it passes the checks.\<close>

record 'b share_entry =
  e_key :: string
  e_title :: string
  e_folder :: string
  e_home :: string
  e_written :: bool
  e_recipe :: "'b option"

record 'b share_state =
  recipes :: "(string \<times> 'b recipe) list"
  registered :: "(string \<times> (string \<times> string) list) list"

datatype 'b share_file = NoShares | BrokenShares | Shares "'b share_state"

record 'b share_book =
  book :: "'b share_state"
  on_file :: "'b share_file"
  everyone :: bool
  stale :: "string list"
  host_stamp :: string

definition no_shares :: "'b share_state" where
  "no_shares = \<lparr>recipes = [], registered = []\<rparr>"

definition stored_shares :: "'b share_file \<Rightarrow> 'b share_state" where
  "stored_shares f = (case f of Shares st \<Rightarrow> st | _ \<Rightarrow> no_shares)"

definition open_shares :: "'b share_file \<Rightarrow> 'b share_book" where
  "open_shares f = \<lparr>book = stored_shares f, on_file = f, everyone = True, stale = [], host_stamp = []\<rparr>"

text \<open>\<open>save\<close> puts a whole file in place or leaves the old one.\<close>

definition save_shares :: "bool \<Rightarrow> 'b share_book \<Rightarrow> 'b share_book" where
  "save_shares works s = (if works then s\<lparr>on_file := Shares (book s)\<rparr> else s)"

definition given_to :: "'b share_state \<Rightarrow> string \<Rightarrow> (string \<times> string) list" where
  "given_to st m = (case map_of (registered st) m of None \<Rightarrow> [] | Some fs \<Rightarrow> fs)"

definition mark_all :: "'b share_book \<Rightarrow> 'b share_book" where
  "mark_all s = s\<lparr>everyone := True\<rparr>"

definition owed :: "string list \<Rightarrow> 'b share_book \<Rightarrow> 'b share_book \<times> string list" where
  "owed ms s =
     (let st = (if everyone s then List.union ms (stale s) else stale s);
          st' = filter (\<lambda>m. m \<in> set ms) st
      in (s\<lparr>everyone := False, stale := st'\<rparr>, st'))"

definition looked_at :: "string \<Rightarrow> 'b share_book \<Rightarrow> 'b share_book" where
  "looked_at m s = s\<lparr>stale := removeAll m (stale s)\<rparr>"

definition forget_recipe :: "bool \<Rightarrow> string \<Rightarrow> 'b share_book \<Rightarrow> 'b share_book" where
  "forget_recipe works n s =
     save_shares works (s\<lparr>book := (book s)\<lparr>recipes := AList.delete n (recipes (book s))\<rparr>, everyone := True\<rparr>)"

definition forget_member :: "bool \<Rightarrow> string \<Rightarrow> 'b share_book \<Rightarrow> 'b share_book" where
  "forget_member works m s =
     save_shares works (s\<lparr>book := (book s)\<lparr>registered := AList.delete m (registered (book s)),
         recipes := map (\<lambda>(n, r). (n, if author r = m then r\<lparr>author := []\<rparr> else r)) (recipes (book s))\<rparr>,
       stale := removeAll m (stale s), everyone := True\<rparr>)"

section \<open>Learning\<close>

definition learn_entry ::
  "string \<Rightarrow> (string \<Rightarrow> bool) \<Rightarrow> 'b share_entry \<Rightarrow> (string \<times> 'b recipe) list \<times> bool
     \<Rightarrow> (string \<times> 'b recipe) list \<times> bool" where
  "learn_entry m pooled e rc =
     (if e_written e \<or> e_folder e = [] \<or> \<not> pooled (e_folder e) then rc
      else case e_recipe e of
        None \<Rightarrow> rc
      | Some b \<Rightarrow>
          let r = \<lparr>author = m, body = b\<rparr>; have_one = map_of (fst rc) (e_folder e)
          in if (case have_one of None \<Rightarrow> False | Some h \<Rightarrow> author h \<noteq> [] \<and> author h \<noteq> m) then rc
             else if have_one = Some r then rc
             else (AList.update (e_folder e) r (fst rc), True))"

definition own_folders :: "'b share_entry list \<Rightarrow> string list" where
  "own_folders es = map e_folder (filter (\<lambda>e. e_folder e \<noteq> [] \<and> \<not> e_written e) es)"

definition learn ::
  "bool \<Rightarrow> string \<Rightarrow> 'b share_entry list \<Rightarrow> (string \<Rightarrow> bool) \<Rightarrow> 'b share_book \<Rightarrow> 'b share_book" where
  "learn works m es pooled s =
     (let (rs, changed) = fold (learn_entry m pooled) es (recipes (book s), False);
          kept = filter (\<lambda>(n, r). \<not> (author r = m \<and> n \<notin> set (own_folders es))) rs;
          withdrawn = (length kept < length rs);
          s' = s\<lparr>book := (book s)\<lparr>recipes := kept\<rparr>, everyone := everyone s \<or> withdrawn\<rparr>
      in if changed \<or> withdrawn then save_shares works s' else s')"

definition put_down ::
  "bool \<Rightarrow> string \<Rightarrow> string \<Rightarrow> string \<Rightarrow> 'b share_book \<Rightarrow> 'b share_book" where
  "put_down works m n w s =
     save_shares works (s\<lparr>book := (book s)\<lparr>registered :=
       AList.update m (AList.update n w (given_to (book s) m)) (registered (book s))\<rparr>\<rparr>)"

definition put_away :: "bool \<Rightarrow> string \<Rightarrow> string \<Rightarrow> 'b share_book \<Rightarrow> 'b share_book" where
  "put_away works m n s =
     (let fs = AList.delete n (given_to (book s) m)
      in save_shares works (s\<lparr>book := (book s)\<lparr>registered :=
           (if fs = [] then AList.delete m (registered (book s)) else AList.update m fs (registered (book s)))\<rparr>\<rparr>))"

section \<open>One member\<close>

datatype share_answer = CallFailed | Answered string string

text \<open>
  What a round finds at a member: the directories below its shared one, which of them have a
  setup script that can run, whether it can be asked, what its scan says, and what the helper
  answers to the two calls.
\<close>

datatype 'b share_scan = ScanFailed | NoLauncher | Scanned "'b share_entry list"

record 'b share_place =
  p_name :: string
  p_dirs :: "string list option"
  p_setup :: "string \<Rightarrow> bool"
  p_reached :: bool
  p_scan :: "'b share_scan"
  p_unregister :: "string \<Rightarrow> string \<Rightarrow> share_answer"
  p_register :: "string \<Rightarrow> 'b recipe \<Rightarrow> share_answer"

datatype 'b share_event =
    Saw string "'b share_entry list"
  | Wrote string string "'b recipe" string
  | Dropped string string
  | MemberGone string

fun take_back ::
  "(string \<Rightarrow> string \<Rightarrow> bool) \<Rightarrow> 'b share_place \<Rightarrow> string list \<Rightarrow> (string \<Rightarrow> bool) \<Rightarrow> (string \<times> string) list
     \<Rightarrow> 'b share_book \<Rightarrow> 'b share_book \<times> 'b share_event list \<times> bool" where
  "take_back works p dirs wanted [] s = (s, [], True)"
| "take_back works p dirs wanted ((n, w) # fs) s =
     (if n \<in> set dirs \<and> wanted n then take_back works p dirs wanted fs s
      else if w \<noteq> [] \<and> p_unregister p n w = CallFailed then
        (case take_back works p dirs wanted fs s of (s', evs, _) \<Rightarrow> (s', evs, False))
      else case take_back works p dirs wanted fs (put_away (works (p_name p) n) (p_name p) n s) of
        (s', evs, ok) \<Rightarrow> (s', Dropped (p_name p) n # evs, ok))"

fun give ::
  "(string \<Rightarrow> string \<Rightarrow> bool) \<Rightarrow> 'b share_place \<Rightarrow> (string \<times> 'b recipe) list \<Rightarrow> string list \<Rightarrow> string list
     \<Rightarrow> string list \<Rightarrow> 'b share_book \<Rightarrow> 'b share_book \<times> 'b share_event list \<times> bool" where
  "give works p rs covered given [] s = (s, [], True)"
| "give works p rs covered given (n # ns) s =
     (case map_of rs n of
        None \<Rightarrow> give works p rs covered given ns s
      | Some r \<Rightarrow>
          if author r = p_name p \<or> n \<in> set covered \<or> n \<in> set given \<or> p_setup p n
          then give works p rs covered given ns s
          else case p_register p n r of
            CallFailed \<Rightarrow> (case give works p rs covered given ns s of (s', evs, _) \<Rightarrow> (s', evs, False))
          | Answered status w \<Rightarrow>
              let s1 = (if status = ''added'' then put_down (works (p_name p) n) (p_name p) n w s
                        else if status = ''present'' \<or> status = ''taken'' then put_down (works (p_name p) n) (p_name p) n [] s
                        else s)
              in case give works p rs covered given ns s1 of
                   (s', evs, ok) \<Rightarrow>
                     (s', Wrote (p_name p) n r status # evs, ok \<and> status \<noteq> ''absent'' \<and> status \<noteq> ''busy''))"

definition share_member ::
  "(string \<Rightarrow> string \<Rightarrow> bool) \<Rightarrow> 'b share_place \<Rightarrow> 'b share_entry list \<Rightarrow> (string \<times> 'b recipe) list
     \<Rightarrow> 'b share_book \<Rightarrow> 'b share_book \<times> 'b share_event list \<times> bool" where
  "share_member works p es rs s =
     (case p_dirs p of
        None \<Rightarrow> (s, [], False)
      | Some dirs \<Rightarrow>
          let given = given_to (book s) (p_name p);
              covered = filter (\<lambda>n. n \<noteq> []) (map e_folder es)
          in case take_back works p dirs (\<lambda>n. map_of rs n \<noteq> None) given s of
               (s1, evs1, ok1) \<Rightarrow>
                 (case give works p rs covered (map fst given) (sort (remdups dirs)) s1 of
                    (s2, evs2, ok2) \<Rightarrow> (s2, evs1 @ evs2, ok1 \<and> ok2)))"

section \<open>Rounds\<close>

definition stamp_host :: "string option \<Rightarrow> 'b share_book \<Rightarrow> 'b share_book" where
  "stamp_host st s =
     (case st of None \<Rightarrow> s
      | Some x \<Rightarrow> if x \<noteq> host_stamp s then s\<lparr>host_stamp := x, everyone := True\<rparr> else s)"

fun scan_members ::
  "(string \<Rightarrow> string \<Rightarrow> bool) \<Rightarrow> (string \<Rightarrow> bool) \<Rightarrow> string list \<Rightarrow> 'b share_place list \<Rightarrow> 'b share_book
     \<Rightarrow> 'b share_book \<times> 'b share_event list \<times> ('b share_place \<times> 'b share_entry list) list" where
  "scan_members works pooled due [] s = (s, [], [])"
| "scan_members works pooled due (p # ps) s =
     (case (if p_name p \<in> set due \<and> p_reached p then p_scan p else NoLauncher) of
        Scanned es \<Rightarrow>
          (case scan_members works pooled due ps (learn (works (p_name p) []) (p_name p) es pooled s) of
             (s', evs, scans) \<Rightarrow> (s', Saw (p_name p) es # evs, (p, es) # scans))
      | _ \<Rightarrow> scan_members works pooled due ps s)"

fun give_members ::
  "(string \<Rightarrow> string \<Rightarrow> bool) \<Rightarrow> (string \<times> 'b recipe) list \<Rightarrow> ('b share_place \<times> 'b share_entry list) list
     \<Rightarrow> 'b share_book \<Rightarrow> 'b share_book \<times> 'b share_event list" where
  "give_members works rs [] s = (s, [])"
| "give_members works rs ((p, es) # xs) s =
     (case share_member works p es rs s of
        (s1, evs, ok) \<Rightarrow>
          (case give_members works rs xs (if ok then looked_at (p_name p) s1 else s1) of
             (s2, evs') \<Rightarrow> (s2, evs @ evs')))"

definition share_round ::
  "(string \<Rightarrow> string \<Rightarrow> bool) \<Rightarrow> (string \<Rightarrow> bool) \<Rightarrow> string option \<Rightarrow> 'b share_place list \<Rightarrow> 'b share_book
     \<Rightarrow> 'b share_book \<times> 'b share_event list" where
  "share_round works pooled stamp ps s =
     (case owed (map p_name ps) (stamp_host stamp s) of
        (s1, due) \<Rightarrow>
          if due = [] then (s1, [])
          else case scan_members works pooled due ps s1 of
            (s2, evs, scans) \<Rightarrow>
              (case give_members works (recipes (book s2)) scans s2 of (s3, evs') \<Rightarrow> (s3, evs @ evs')))"

section \<open>Whatever happens\<close>

datatype 'b share_op =
    Round "string \<Rightarrow> string \<Rightarrow> bool" "string \<Rightarrow> bool" "string option" "'b share_place list"
  | FolderGone bool string
  | SeatDeleted bool string
  | FolderMoved
  | DaemonAgain

definition share_step ::
  "'b share_op \<Rightarrow> 'b share_book \<times> 'b share_event list \<Rightarrow> 'b share_book \<times> 'b share_event list" where
  "share_step sop x =
     (case x of (s, log) \<Rightarrow>
        (case sop of
           Round works pooled stamp ps \<Rightarrow> (case share_round works pooled stamp ps s of (s', evs) \<Rightarrow> (s', log @ evs))
         | FolderGone works n \<Rightarrow> (forget_recipe works n s, log)
         | SeatDeleted works m \<Rightarrow> (forget_member works m s, log @ [MemberGone m])
         | FolderMoved \<Rightarrow> (mark_all s, log)
         | DaemonAgain \<Rightarrow> (open_shares (on_file s), log)))"

section \<open>Where recipes come from\<close>

definition sourced :: "'b share_event list \<Rightarrow> string \<Rightarrow> 'b recipe \<Rightarrow> bool" where
  "sourced log n r \<longleftrightarrow> (\<exists>m es e. Saw m es \<in> set log \<and> e \<in> set es \<and> \<not> e_written e \<and> e_folder e = n
     \<and> e_recipe e = Some (body r) \<and> (author r = m \<or> author r = []))"

definition sourced_all :: "'b share_event list \<Rightarrow> (string \<times> 'b recipe) list \<Rightarrow> bool" where
  "sourced_all log rs \<longleftrightarrow> (\<forall>(n, r) \<in> set rs. sourced log n r)"

lemma sourced_more: "sourced log n r \<Longrightarrow> set log \<subseteq> set log' \<Longrightarrow> sourced log' n r"
  unfolding sourced_def by blast

lemma sourced_all_more: "sourced_all log rs \<Longrightarrow> set log \<subseteq> set log' \<Longrightarrow> sourced_all log' rs"
  unfolding sourced_all_def using sourced_more by blast

lemma sourced_all_subset: "sourced_all log rs \<Longrightarrow> set rs' \<subseteq> set rs \<Longrightarrow> sourced_all log rs'"
  unfolding sourced_all_def by blast

definition book_sourced :: "'b share_event list \<Rightarrow> 'b share_book \<Rightarrow> bool" where
  "book_sourced log s \<longleftrightarrow> sourced_all log (recipes (book s)) \<and> sourced_all log (recipes (stored_shares (on_file s)))"

lemma book_sourced_more: "book_sourced log s \<Longrightarrow> set log \<subseteq> set log' \<Longrightarrow> book_sourced log' s"
  unfolding book_sourced_def using sourced_all_more by blast

lemma book_sourced_save:
  "sourced_all log (recipes (book s)) \<Longrightarrow> sourced_all log (recipes (stored_shares (on_file s))) \<Longrightarrow>
   book_sourced log (save_shares works s)"
  by (simp add: book_sourced_def save_shares_def stored_shares_def)

lemma learn_entries_sourced:
  assumes "sourced_all log (fst rc)" "\<forall>e \<in> set es. \<exists>all. Saw m all \<in> set log \<and> e \<in> set all"
  shows "sourced_all log (fst (fold (learn_entry m pooled) es rc))"
  using assms
proof (induction es arbitrary: rc)
  case (Cons e es)
  have "sourced_all log (fst (learn_entry m pooled e rc))"
  proof (cases "e_recipe e")
    case (Some b)
    have "sourced log (e_folder e) \<lparr>author = m, body = b\<rparr>" if "\<not> e_written e"
      using that Cons.prems(2) Some by (force simp: sourced_def)
    then show ?thesis
      using Cons.prems(1) Some set_update_subset [of "e_folder e" "\<lparr>author = m, body = b\<rparr>" "fst rc"]
      by (auto simp: learn_entry_def Let_def sourced_all_def)
  qed (use Cons.prems in \<open>simp add: learn_entry_def\<close>)
  with Cons show ?case by simp
qed simp

lemma learn_sourced:
  assumes "book_sourced log s" "Saw m es \<in> set log"
  shows "book_sourced log (learn works m es pooled s)"
proof -
  obtain rs changed where f: "fold (learn_entry m pooled) es (recipes (book s), False) = (rs, changed)"
    by force
  have "sourced_all log rs"
    using learn_entries_sourced [of log "(recipes (book s), False)" es m pooled] assms f
    by (auto simp: book_sourced_def)
  then have "sourced_all log (filter (\<lambda>(n, r). \<not> (author r = m \<and> n \<notin> set (own_folders es))) rs)"
    by (rule sourced_all_subset) auto
  then show ?thesis using assms(1) f
    by (simp add: learn_def Let_def book_sourced_def save_shares_def stored_shares_def)
qed

lemma put_sourced:
  "book_sourced log s \<Longrightarrow> book_sourced log (put_down works m n w s)"
  "book_sourced log s \<Longrightarrow> book_sourced log (put_away works m n s)"
  by (auto simp: book_sourced_def put_down_def put_away_def save_shares_def stored_shares_def Let_def)

text \<open>Every event of a log is judged by those before it.\<close>

fun judged :: "('e list \<Rightarrow> 'e \<Rightarrow> bool) \<Rightarrow> 'e list \<Rightarrow> 'e list \<Rightarrow> bool" where
  "judged Q pre [] = True"
| "judged Q pre (ev # evs) = (Q pre ev \<and> judged Q (pre @ [ev]) evs)"

lemma judged_append [simp]: "judged Q pre (xs @ ys) \<longleftrightarrow> judged Q pre xs \<and> judged Q (pre @ xs) ys"
  by (induction xs arbitrary: pre) auto

lemma judgedD: "judged Q [] (pre @ ev # post) \<Longrightarrow> Q pre ev"
  by simp

definition fair_write :: "'b share_event list \<Rightarrow> 'b share_event \<Rightarrow> bool" where
  "fair_write log ev = (case ev of Wrote m n r _ \<Rightarrow> author r \<noteq> m \<and> sourced log n r | _ \<Rightarrow> True)"

lemma fair_write_simps [simp]:
  "fair_write log (Wrote m n r st) \<longleftrightarrow> author r \<noteq> m \<and> sourced log n r"
  "fair_write log (Saw m es)" "fair_write log (Dropped m n)" "fair_write log (MemberGone m)"
  by (simp_all add: fair_write_def)

lemma take_back_sourced:
  "take_back works p dirs wanted fs s = (s', evs, ok) \<Longrightarrow> book_sourced log s \<Longrightarrow>
   book_sourced log s' \<and> (\<forall>pre. judged fair_write pre evs)"
proof (induction fs arbitrary: s evs ok)
  case (Cons f fs)
  obtain n w where f: "f = (n, w)" by (cases f)
  show ?case
  proof (cases "n \<in> set dirs \<and> wanted n")
    case True
    then show ?thesis using Cons f by simp
  next
    case False
    show ?thesis
    proof (cases "w \<noteq> [] \<and> p_unregister p n w = CallFailed")
      case True
      then obtain ok' where "take_back works p dirs wanted fs s = (s', evs, ok')"
        using Cons.prems(1) False f by (auto split: prod.splits)
      then show ?thesis using Cons by blast
    next
      case fine: False
      then obtain evs' where t: "take_back works p dirs wanted fs (put_away (works (p_name p) n) (p_name p) n s) = (s', evs', ok)"
        "evs = Dropped (p_name p) n # evs'"
        using Cons.prems(1) False f by (auto split: prod.splits)
      from Cons.IH [OF t(1) put_sourced(2) [OF Cons.prems(2)]] show ?thesis
        by (simp add: t(2))
    qed
  qed
qed simp

lemma give_sourced:
  "give works p rs covered given ns s = (s', evs, ok) \<Longrightarrow> book_sourced log s \<Longrightarrow> sourced_all log rs \<Longrightarrow>
   book_sourced log s' \<and> (\<forall>pre. set log \<subseteq> set pre \<longrightarrow> judged fair_write pre evs)"
proof (induction ns arbitrary: s s' evs ok)
  case (Cons n ns)
  show ?case
  proof (cases "map_of rs n")
    case None
    then show ?thesis using Cons by simp
  next
    case (Some r)
    show ?thesis
    proof (cases "author r = p_name p \<or> n \<in> set covered \<or> n \<in> set given \<or> p_setup p n")
      case True
      then show ?thesis using Cons Some by simp
    next
      case False
      show ?thesis
      proof (cases "p_register p n r")
        case CallFailed
        then obtain ok' where "give works p rs covered given ns s = (s', evs, ok')"
          using Cons.prems(1) Some False by (auto split: prod.splits)
        then show ?thesis using Cons by blast
      next
        case (Answered status w)
        let ?s1 = "if status = ''added'' then put_down (works (p_name p) n) (p_name p) n w s
            else if status = ''present'' \<or> status = ''taken'' then put_down (works (p_name p) n) (p_name p) n [] s else s"
        obtain s2 evs' ok' where g: "give works p rs covered given ns ?s1 = (s2, evs', ok')"
          by (cases "give works p rs covered given ns ?s1")
        have e: "s' = s2" "evs = Wrote (p_name p) n r status # evs'"
          using Cons.prems(1) Some False Answered g by (simp_all add: Let_def)
        have b: "book_sourced log ?s1" using put_sourced(1) [OF Cons.prems(2)] Cons.prems(2) by simp
        have "sourced log n r" using Cons.prems(3) map_of_SomeD [OF Some] by (auto simp: sourced_all_def)
        moreover note ih = Cons.IH [OF g b Cons.prems(3)]
        moreover have "judged fair_write (pre @ [Wrote (p_name p) n r status]) evs'" if "set log \<subseteq> set pre" for pre
          using conjunct2 [OF ih, rule_format, of "pre @ [Wrote (p_name p) n r status]"] that by auto
        ultimately show ?thesis using False unfolding e by (auto intro: sourced_more)
      qed
    qed
  qed
qed simp

lemma member_sourced:
  assumes "share_member works p es rs s = (s', evs, ok)" "book_sourced log s" "sourced_all log rs"
  shows "book_sourced log s' \<and> judged fair_write log evs"
proof (cases "p_dirs p")
  case None
  then show ?thesis using assms by (simp add: share_member_def)
next
  case (Some dirs)
  then obtain s1 evs1 ok1 evs2 ok2 where t:
    "take_back works p dirs (\<lambda>n. map_of rs n \<noteq> None) (given_to (book s) (p_name p)) s = (s1, evs1, ok1)"
    "give works p rs (filter (\<lambda>n. n \<noteq> []) (map e_folder es)) (map fst (given_to (book s) (p_name p)))
       (sort (remdups dirs)) s1 = (s', evs2, ok2)" "evs = evs1 @ evs2"
    using assms(1) by (auto simp: share_member_def Let_def split: prod.splits)
  from take_back_sourced [OF t(1) assms(2)] have a: "book_sourced log s1" "judged fair_write log evs1" by auto
  from give_sourced [OF t(2) a(1) assms(3)] a(2) show ?thesis by (simp add: t(3))
qed

lemma scan_members_sourced:
  "scan_members works pooled due ps s = (s', evs, scans) \<Longrightarrow> book_sourced log s \<Longrightarrow>
   book_sourced (log @ evs) s' \<and> judged fair_write log evs"
proof (induction ps arbitrary: s evs scans log)
  case (Cons p ps)
  show ?case
  proof (cases "if p_name p \<in> set due \<and> p_reached p then p_scan p else NoLauncher")
    case (Scanned es)
    then obtain evs' scans' where c:
      "scan_members works pooled due ps (learn (works (p_name p) []) (p_name p) es pooled s) = (s', evs', scans')"
      "evs = Saw (p_name p) es # evs'"
      using Cons.prems(1) by (auto split: prod.splits)
    have "book_sourced (log @ [Saw (p_name p) es]) (learn (works (p_name p) []) (p_name p) es pooled s)"
      by (rule learn_sourced) (use book_sourced_more [OF Cons.prems(2), of "log @ [Saw (p_name p) es]"] in auto)
    from Cons.IH [OF c(1) this] show ?thesis by (simp add: c(2))
  qed (use Cons in auto)
qed simp

lemma give_members_sourced:
  "give_members works rs xs s = (s', evs) \<Longrightarrow> book_sourced log s \<Longrightarrow> sourced_all log rs \<Longrightarrow>
   book_sourced (log @ evs) s' \<and> judged fair_write log evs"
proof (induction xs arbitrary: s evs log)
  case (Cons x xs)
  obtain p es where x: "x = (p, es)" by (cases x)
  obtain s1 evs1 ok where m: "share_member works p es rs s = (s1, evs1, ok)" by (cases "share_member works p es rs s")
  obtain evs2 where r: "give_members works rs xs (if ok then looked_at (p_name p) s1 else s1) = (s', evs2)"
    "evs = evs1 @ evs2"
    using Cons.prems(1) x m by (auto split: prod.splits)
  from member_sourced [OF m Cons.prems(2,3)] have a: "book_sourced log s1" "judged fair_write log evs1" by auto
  have "book_sourced (log @ evs1) (if ok then looked_at (p_name p) s1 else s1)"
    using book_sourced_more [OF a(1), of "log @ evs1"] by (auto simp: book_sourced_def looked_at_def)
  from Cons.IH [OF r(1) this sourced_all_more [OF Cons.prems(3)]] a(2) show ?case by (simp add: r(2))
qed (simp add: book_sourced_def)

lemma share_round_sourced:
  assumes "share_round works pooled stamp ps s = (s', evs)" "book_sourced log s"
  shows "book_sourced (log @ evs) s' \<and> judged fair_write log evs"
proof -
  obtain s1 due where o: "owed (map p_name ps) (stamp_host stamp s) = (s1, due)" by force
  have b1: "book_sourced log s1"
    using assms(2) o by (auto simp: book_sourced_def owed_def stamp_host_def Let_def split: option.splits if_splits)
  show ?thesis
  proof (cases "due = []")
    case True
    with assms(1) o b1 show ?thesis by (simp add: share_round_def book_sourced_def)
  next
    case False
    obtain s2 evs1 scans where c: "scan_members works pooled due ps s1 = (s2, evs1, scans)" by (cases "scan_members works pooled due ps s1")
    obtain evs2 where g: "give_members works (recipes (book s2)) scans s2 = (s', evs2)" "evs = evs1 @ evs2"
      using assms(1) o c False by (auto simp: share_round_def split: prod.splits)
    from scan_members_sourced [OF c b1] have a: "book_sourced (log @ evs1) s2" "judged fair_write log evs1" by auto
    then have "sourced_all (log @ evs1) (recipes (book s2))" by (simp add: book_sourced_def)
    from give_members_sourced [OF g(1) a(1) this] a(2) show ?thesis by (simp add: g(2))
  qed
qed

lemma share_step_sourced:
  assumes "book_sourced (snd x) (fst x)" "judged fair_write [] (snd x)"
  shows "book_sourced (snd (share_step sop x)) (fst (share_step sop x)) \<and> judged fair_write [] (snd (share_step sop x))"
proof -
  obtain s log where x: "x = (s, log)" by force
  have b: "book_sourced log s" "judged fair_write [] log" using assms x by simp_all
  show ?thesis
  proof (cases sop)
    case (Round works pooled stamp ps)
    obtain s' evs where r: "share_round works pooled stamp ps s = (s', evs)" by force
    from share_round_sourced [OF r b(1)] b(2) r Round x show ?thesis by (simp add: share_step_def)
  next
    case (FolderGone works n)
    have "sourced_all log (AList.delete n (recipes (book s)))"
      using b(1) by (auto simp: book_sourced_def AList.delete_eq intro: sourced_all_subset)
    then show ?thesis using b FolderGone x
      by (simp add: share_step_def forget_recipe_def book_sourced_def save_shares_def stored_shares_def)
  next
    case (SeatDeleted works m)
    have "sourced_all log (map (\<lambda>(n, r). (n, if author r = m then r\<lparr>author := []\<rparr> else r)) (recipes (book s)))"
      using b(1) by (fastforce simp: book_sourced_def sourced_all_def sourced_def)
    then have "book_sourced log (forget_member works m s)"
      using b(1) by (simp add: forget_member_def book_sourced_def save_shares_def stored_shares_def)
    then show ?thesis using b(2) SeatDeleted x book_sourced_more [of log _ "log @ [MemberGone m]"]
      by (auto simp: share_step_def)
  next
    case FolderMoved
    with b x show ?thesis by (simp add: share_step_def mark_all_def book_sourced_def)
  next
    case DaemonAgain
    with b x show ?thesis by (simp add: share_step_def open_shares_def book_sourced_def)
  qed
qed

text \<open>
  Property C28: an entry is only carried on from somebody's own. Whatever is installed, moved and
  deleted, whichever writes of the record fail and however often the daemon starts again: what is
  written into a member's launcher is a recipe for that folder that was seen before in a
  launcher, in an entry no daemon wrote, and never one of the member's own.
\<close>

theorem entries_come_from_somebodys_own:
  assumes "fold share_step sops (open_shares NoShares, []) = (s, log)"
    and "log = pre @ Wrote m n r status # post"
  shows "author r \<noteq> m \<and> (\<exists>m' es e. Saw m' es \<in> set pre \<and> e \<in> set es \<and> \<not> e_written e \<and> e_folder e = n
    \<and> e_recipe e = Some (body r) \<and> (author r = m' \<or> author r = []))"
proof -
  have "book_sourced (snd x) (fst x) \<Longrightarrow> judged fair_write [] (snd x) \<Longrightarrow>
      judged fair_write [] (snd (fold share_step sops x))" for x
  proof (induction sops arbitrary: x)
    case (Cons sop sops)
    then show ?case using share_step_sourced [of x sop] by simp
  qed simp
  from this [of "(open_shares NoShares, [])"] assms(1) have "judged fair_write [] log"
    by (simp add: book_sourced_def open_shares_def stored_shares_def no_shares_def sourced_all_def)
  then have "fair_write pre (Wrote m n r status)" unfolding assms(2) by (rule judgedD)
  then show ?thesis by (simp add: sourced_def)
qed

section \<open>Written once\<close>

text \<open>Whether the last thing that happened to a folder at a member is that its entry was added.\<close>

definition has_entry :: "string \<Rightarrow> string \<Rightarrow> 'b share_event \<Rightarrow> bool \<Rightarrow> bool" where
  "has_entry m n ev before =
     (case ev of
        Wrote m' n' _ status \<Rightarrow> if m' = m \<and> n' = n \<and> status = ''added'' then True else before
      | Dropped m' n' \<Rightarrow> if m' = m \<and> n' = n then False else before
      | MemberGone m' \<Rightarrow> if m' = m then False else before
      | Saw _ _ \<Rightarrow> before)"

definition entry_added :: "'b share_event list \<Rightarrow> string \<Rightarrow> string \<Rightarrow> bool" where
  "entry_added log m n = fold (has_entry m n) log False"

lemma entry_added_simps [simp]:
  "entry_added [] m n = False"
  "entry_added (log @ [Wrote m' n' r st]) m n = (m' = m \<and> n' = n \<and> st = ''added'' \<or> entry_added log m n)"
  "entry_added (log @ [Dropped m' n']) m n = (\<not> (m' = m \<and> n' = n) \<and> entry_added log m n)"
  "entry_added (log @ [MemberGone m']) m n = (m' \<noteq> m \<and> entry_added log m n)"
  "entry_added (log @ [Saw m' es]) m n = entry_added log m n"
  by (auto simp: entry_added_def has_entry_def)

definition known_folders :: "'b share_book \<Rightarrow> string \<Rightarrow> string set" where
  "known_folders s m = fst ` set (given_to (book s) m)"

text \<open>What was added is on record, and the file says what the memory does.\<close>

definition on_record :: "'b share_event list \<Rightarrow> 'b share_book \<Rightarrow> bool" where
  "on_record log s \<longleftrightarrow> stored_shares (on_file s) = book s \<and> (\<forall>m n. entry_added log m n \<longrightarrow> n \<in> known_folders s m)"

definition new_write :: "'b share_event list \<Rightarrow> 'b share_event \<Rightarrow> bool" where
  "new_write log ev = (case ev of Wrote m n _ _ \<Rightarrow> \<not> entry_added log m n | _ \<Rightarrow> True)"

lemma new_write_simps [simp]:
  "new_write log (Wrote m n r st) \<longleftrightarrow> \<not> entry_added log m n"
  "new_write log (Saw m es)" "new_write log (Dropped m n)" "new_write log (MemberGone m)"
  by (simp_all add: new_write_def)

lemma save_in_step [simp]: "stored_shares (on_file (save_shares True s)) = book (save_shares True s)"
  by (simp add: save_shares_def stored_shares_def)

lemma book_save [simp]: "book (save_shares works s) = book s"
  by (simp add: save_shares_def)

lemma known_put_down [simp]:
  "known_folders (put_down works m n w s) m' = (if m' = m then insert n (known_folders s m) else known_folders s m')"
  by (auto simp: known_folders_def put_down_def given_to_def update_conv' dom_update AList.update_keys image_iff
      split: option.splits)

lemma known_put_away [simp]:
  "known_folders (put_away works m n s) m' = (if m' = m then known_folders s m - {n} else known_folders s m')"
proof -
  have "fst ` set (AList.delete n xs) = fst ` set xs - {n}" for xs :: "(string \<times> string) list"
    by (auto simp: AList.delete_eq)
  moreover have "a = n" if "AList.delete n xs = []" "(a, b) \<in> set xs" for a b and xs :: "(string \<times> string) list"
    using that by (auto simp: AList.delete_eq filter_empty_conv)
  ultimately show ?thesis
    by (auto simp: known_folders_def put_away_def given_to_def Let_def update_conv' delete_conv' split: option.splits)
qed

lemma put_in_step [simp]:
  "stored_shares (on_file (put_down True m n w s)) = book (put_down True m n w s)"
  "stored_shares (on_file (put_away True m n s)) = book (put_away True m n s)"
  by (simp_all add: put_down_def put_away_def Let_def)

abbreviation saved :: "string \<Rightarrow> string \<Rightarrow> bool" where
  "saved \<equiv> \<lambda>_ _. True"

lemma take_back_recorded:
  "take_back saved p dirs wanted fs s = (s', evs, ok) \<Longrightarrow> on_record log s \<Longrightarrow>
   on_record (log @ evs) s' \<and> judged new_write log evs \<and> known_folders s' (p_name p) \<subseteq> known_folders s (p_name p)"
proof (induction fs arbitrary: s evs ok log)
  case (Cons f fs)
  obtain n w where f: "f = (n, w)" by (cases f)
  show ?case
  proof (cases "n \<in> set dirs \<and> wanted n")
    case True
    then show ?thesis using Cons f by simp
  next
    case False
    show ?thesis
    proof (cases "w \<noteq> [] \<and> p_unregister p n w = CallFailed")
      case True
      then obtain ok' where "take_back saved p dirs wanted fs s = (s', evs, ok')"
        using Cons.prems(1) False f by (auto split: prod.splits)
      then show ?thesis using Cons by blast
    next
      case fine: False
      let ?s = "put_away True (p_name p) n s"
      obtain evs' where t: "take_back saved p dirs wanted fs ?s = (s', evs', ok)" "evs = Dropped (p_name p) n # evs'"
        using Cons.prems(1) False f fine by (auto split: prod.splits)
      have "on_record (log @ [Dropped (p_name p) n]) ?s"
        using Cons.prems(2) by (auto simp: on_record_def)
      from Cons.IH [OF t(1) this] show ?thesis by (auto simp: t(2))
    qed
  qed
qed simp

lemma give_recorded:
  "give saved p rs covered given ns s = (s', evs, ok) \<Longrightarrow> on_record log s \<Longrightarrow> distinct ns \<Longrightarrow>
   known_folders s (p_name p) \<inter> set ns \<subseteq> set given \<Longrightarrow> on_record (log @ evs) s' \<and> judged new_write log evs"
proof (induction ns arbitrary: s s' evs ok log)
  case (Cons n ns)
  have k0: "known_folders s (p_name p) \<inter> set ns \<subseteq> set given" and d: "distinct ns"
    using Cons.prems(3,4) by auto
  note skip = Cons.IH [OF _ Cons.prems(2) d k0]
  show ?case
  proof (cases "map_of rs n")
    case None
    then show ?thesis using Cons.prems(1) skip by simp
  next
    case (Some r)
    show ?thesis
    proof (cases "author r = p_name p \<or> n \<in> set covered \<or> n \<in> set given \<or> p_setup p n")
      case True
      then show ?thesis using Cons.prems(1) Some skip by simp
    next
      case False
      show ?thesis
      proof (cases "p_register p n r")
        case CallFailed
        then obtain ok' where "give saved p rs covered given ns s = (s', evs, ok')"
          using Cons.prems(1) Some False by (auto split: prod.splits)
        then show ?thesis by (rule skip)
      next
        case (Answered status w)
        let ?s1 = "if status = ''added'' then put_down True (p_name p) n w s
            else if status = ''present'' \<or> status = ''taken'' then put_down True (p_name p) n [] s else s"
        obtain s2 evs' ok' where g: "give saved p rs covered given ns ?s1 = (s2, evs', ok')"
          by (cases "give saved p rs covered given ns ?s1")
        have e: "s' = s2" "evs = Wrote (p_name p) n r status # evs'"
          using Cons.prems(1) Some False Answered g by (simp_all add: Let_def)
        have q: "\<not> entry_added log (p_name p) n"
          using Cons.prems(2,4) False by (auto simp: on_record_def)
        have b: "on_record (log @ [Wrote (p_name p) n r status]) ?s1"
          using Cons.prems(2) by (auto simp: on_record_def)
        have k: "known_folders ?s1 (p_name p) \<inter> set ns \<subseteq> set given"
          using Cons.prems(3,4) by auto
        from Cons.IH [OF g b _ k] Cons.prems(3) q show ?thesis by (simp add: e)
      qed
    qed
  qed
qed simp

lemma member_recorded:
  assumes "share_member saved p es rs s = (s', evs, ok)" "on_record log s"
  shows "on_record (log @ evs) s' \<and> judged new_write log evs"
proof (cases "p_dirs p")
  case None
  then show ?thesis using assms by (simp add: share_member_def)
next
  case (Some dirs)
  then obtain s1 evs1 ok1 evs2 ok2 where t:
    "take_back saved p dirs (\<lambda>n. map_of rs n \<noteq> None) (given_to (book s) (p_name p)) s = (s1, evs1, ok1)"
    "give saved p rs (filter (\<lambda>n. n \<noteq> []) (map e_folder es)) (map fst (given_to (book s) (p_name p)))
       (sort (remdups dirs)) s1 = (s', evs2, ok2)" "evs = evs1 @ evs2"
    using assms(1) by (auto simp: share_member_def Let_def split: prod.splits)
  from take_back_recorded [OF t(1) assms(2)] have a: "on_record (log @ evs1) s1" "judged new_write log evs1"
    "known_folders s1 (p_name p) \<subseteq> known_folders s (p_name p)" by auto
  have "known_folders s1 (p_name p) \<inter> set (sort (remdups dirs)) \<subseteq> set (map fst (given_to (book s) (p_name p)))"
    using a(3) by (auto simp: known_folders_def)
  from give_recorded [OF t(2) a(1) _ this] a(2) show ?thesis by (simp add: t(3))
qed

lemma learn_recorded:
  assumes "on_record log s"
  shows "on_record (log @ [Saw m es]) (learn True m es pooled s)"
proof -
  have u: "\<not> snd (fold (learn_entry m pooled) es (rs, c)) \<Longrightarrow> fst (fold (learn_entry m pooled) es (rs, c)) = rs \<and> \<not> c"
    for rs c
  proof (induction es arbitrary: rs c)
    case (Cons e es)
    obtain rs' c' where l: "learn_entry m pooled e (rs, c) = (rs', c')" by force
    from Cons l have "fst (fold (learn_entry m pooled) es (rs', c')) = rs' \<and> \<not> c'" by auto
    moreover have "rs' = rs \<and> c' = c \<or> c'"
      using l by (auto simp: learn_entry_def Let_def split: if_splits option.splits)
    ultimately show ?case using l by auto
  qed simp
  obtain rs changed where f: "fold (learn_entry m pooled) es (recipes (book s), False) = (rs, changed)"
    by force
  have same: "filter P rs = rs" if "\<not> length (filter P rs) < length rs" for P
    using that length_filter_less [of _ rs P] by (auto simp: filter_id_conv)
  let ?kept = "filter (\<lambda>(n, r). \<not> (author r = m \<and> n \<notin> set (own_folders es))) rs"
  have "stored_shares (on_file (learn True m es pooled s)) = book (learn True m es pooled s)"
  proof (cases "changed \<or> length ?kept < length rs")
    case True
    then show ?thesis using f by (simp add: learn_def Let_def)
  next
    case False
    then have "?kept = rs" "rs = recipes (book s)"
      using same [of "\<lambda>(n, r). \<not> (author r = m \<and> n \<notin> set (own_folders es))"] u [of "recipes (book s)" False] f by simp_all
    then have "book (learn True m es pooled s) = book s" "on_file (learn True m es pooled s) = on_file s"
      using f False unfolding learn_def Let_def f prod.case by simp_all
    then show ?thesis using assms by (simp add: on_record_def)
  qed
  moreover have "known_folders (learn True m es pooled s) m' = known_folders s m'" for m'
    using f by (simp add: learn_def Let_def known_folders_def given_to_def)
  ultimately show ?thesis using assms by (simp add: on_record_def)
qed

lemma scan_members_recorded:
  "scan_members saved pooled due ps s = (s', evs, scans) \<Longrightarrow> on_record log s \<Longrightarrow>
   on_record (log @ evs) s' \<and> judged new_write log evs"
proof (induction ps arbitrary: s evs scans log)
  case (Cons p ps)
  show ?case
  proof (cases "if p_name p \<in> set due \<and> p_reached p then p_scan p else NoLauncher")
    case (Scanned es)
    then obtain evs' scans' where c:
      "scan_members saved pooled due ps (learn True (p_name p) es pooled s) = (s', evs', scans')"
      "evs = Saw (p_name p) es # evs'"
      using Cons.prems(1) by (auto split: prod.splits)
    from Cons.IH [OF c(1) learn_recorded [OF Cons.prems(2)]] show ?thesis by (simp add: c(2))
  qed (use Cons in auto)
qed simp

lemma give_members_recorded:
  "give_members saved rs xs s = (s', evs) \<Longrightarrow> on_record log s \<Longrightarrow>
   on_record (log @ evs) s' \<and> judged new_write log evs"
proof (induction xs arbitrary: s evs log)
  case (Cons x xs)
  obtain p es where x: "x = (p, es)" by (cases x)
  obtain s1 evs1 ok where m: "share_member saved p es rs s = (s1, evs1, ok)" by (cases "share_member saved p es rs s")
  obtain evs2 where r: "give_members saved rs xs (if ok then looked_at (p_name p) s1 else s1) = (s', evs2)"
    "evs = evs1 @ evs2"
    using Cons.prems(1) x m by (auto split: prod.splits)
  from member_recorded [OF m Cons.prems(2)] have a: "on_record (log @ evs1) s1" "judged new_write log evs1" by auto
  have "on_record (log @ evs1) (if ok then looked_at (p_name p) s1 else s1)"
    using a(1) by (simp add: on_record_def looked_at_def known_folders_def)
  from Cons.IH [OF r(1) this] a(2) show ?case by (simp add: r(2))
qed simp

lemma share_round_recorded:
  assumes "share_round saved pooled stamp ps s = (s', evs)" "on_record log s"
  shows "on_record (log @ evs) s' \<and> judged new_write log evs"
proof -
  obtain s1 due where o: "owed (map p_name ps) (stamp_host stamp s) = (s1, due)" by force
  have b1: "on_record log s1"
    using assms(2) o by (auto simp: on_record_def known_folders_def owed_def stamp_host_def Let_def
        split: option.splits if_splits)
  show ?thesis
  proof (cases "due = []")
    case True
    with assms(1) o b1 show ?thesis by (simp add: share_round_def)
  next
    case False
    obtain s2 evs1 scans where c: "scan_members saved pooled due ps s1 = (s2, evs1, scans)"
      by (cases "scan_members saved pooled due ps s1")
    obtain evs2 where g: "give_members saved (recipes (book s2)) scans s2 = (s', evs2)" "evs = evs1 @ evs2"
      using assms(1) o c False by (auto simp: share_round_def split: prod.splits)
    from scan_members_recorded [OF c b1] give_members_recorded [OF g(1), of "log @ evs1"] show ?thesis by (simp add: g(2))
  qed
qed

definition writes_work :: "'b share_op \<Rightarrow> bool" where
  "writes_work sop = (case sop of Round works _ _ _ \<Rightarrow> works = saved | FolderGone works _ \<Rightarrow> works
     | SeatDeleted works _ \<Rightarrow> works | _ \<Rightarrow> True)"

lemma share_step_recorded:
  assumes "on_record (snd x) (fst x)" "judged new_write [] (snd x)" "writes_work sop"
  shows "on_record (snd (share_step sop x)) (fst (share_step sop x)) \<and> judged new_write [] (snd (share_step sop x))"
proof -
  obtain s log where x: "x = (s, log)" by force
  have b: "on_record log s" "judged new_write [] log" using assms x by simp_all
  show ?thesis
  proof (cases sop)
    case (Round works pooled stamp ps)
    then have w: "works = saved" using assms(3) by (simp add: writes_work_def)
    obtain s' evs where r: "share_round saved pooled stamp ps s = (s', evs)" by force
    from share_round_recorded [OF r b(1)] b(2) r Round x w show ?thesis by (simp add: share_step_def)
  next
    case (FolderGone works n)
    then show ?thesis using assms(3) b x
      by (simp add: share_step_def forget_recipe_def on_record_def writes_work_def known_folders_def given_to_def)
  next
    case (SeatDeleted works m)
    have "known_folders (forget_member True m s) m' = (if m' = m then {} else known_folders s m')" for m'
      by (simp add: known_folders_def forget_member_def given_to_def delete_conv')
    then show ?thesis using SeatDeleted assms(3) b x
      by (auto simp: share_step_def on_record_def writes_work_def forget_member_def split: if_splits)
  next
    case FolderMoved
    with b x show ?thesis by (simp add: share_step_def mark_all_def on_record_def known_folders_def)
  next
    case DaemonAgain
    with b x show ?thesis by (simp add: share_step_def open_shares_def on_record_def known_folders_def)
  qed
qed


section \<open>A game that is carried\<close>

definition sample_entry :: "nat share_entry" where
  "sample_entry = \<lparr>e_key = ''halo'', e_title = ''Halo'', e_folder = ''Halo'', e_home = [], e_written = False,
     e_recipe = Some 7\<rparr>"

definition sample_share :: "string \<Rightarrow> nat share_entry list \<Rightarrow> nat share_place" where
  "sample_share m es = \<lparr>p_name = m, p_dirs = Some [''Halo''], p_setup = (\<lambda>_. False), p_reached = True,
     p_scan = Scanned es, p_unregister = (\<lambda>_ _. Answered ''removed'' []), p_register = (\<lambda>n _. Answered ''added'' n)\<rparr>"

definition sample_rounds :: "nat share_op list" where
  "sample_rounds =
     [Round saved (\<lambda>_. True) None [sample_share ''ann'' [sample_entry], sample_share ''bob'' []], DaemonAgain,
      Round saved (\<lambda>_. True) None [sample_share ''ann'' [sample_entry], sample_share ''bob'' []]]"

lemma sample_share_log:
  "snd (fold share_step sample_rounds (open_shares NoShares, []))
     = [Saw ''ann'' [sample_entry], Saw ''bob'' []]
       @ Wrote ''bob'' ''Halo'' \<lparr>author = ''ann'', body = 7\<rparr> ''added'' # [Saw ''ann'' [sample_entry], Saw ''bob'' []]"
  by code_simp

lemma entries_come_from_somebodys_own_witness:
  "\<exists>e :: nat share_entry. \<not> e_written e \<and> e_folder e = ''Halo'' \<and> e_recipe e = Some 7"
proof -
  have r: "fold share_step sample_rounds (open_shares NoShares, [])
      = (fst (fold share_step sample_rounds (open_shares NoShares, [])), snd (fold share_step sample_rounds (open_shares NoShares, [])))"
    by simp
  from entries_come_from_somebodys_own [OF r sample_share_log] show ?thesis by auto
qed


end
