(* ===== verification/Software.thy ===== *)
theory Software
  imports Host_Locale Games Filepath
begin

text \<open>
  What is installed into a seat from the page (internal/seat/software.go and appimage.go): which
  names are accepted, what the answers of flatpak are read as, and the two installations as
  sequences of commands run in the seat.
\<close>

section \<open>Names\<close>

text \<open>\<open>^[A-Za-z][A-Za-z0-9_-]*(\.[A-Za-z][A-Za-z0-9_-]*){2,}$\<close>\<close>

definition id_part :: "string \<Rightarrow> bool" where
  "id_part p = (case p of [] \<Rightarrow> False
     | c # cs \<Rightarrow> is_alnum c \<and> \<not> is_digit c \<and> list_all (\<lambda>c. is_alnum c \<or> c \<in> set ''_-'') cs)"

definition flatpak_id :: "string \<Rightarrow> bool" where
  "flatpak_id s \<longleftrightarrow> (let ps = split_on CHR ''.'' s in 3 \<le> length ps \<and> list_all id_part ps)"

datatype software_error =
  NoAppId | IdTooLong | NoAddress | AddressTooLong | NotAnAddress | NotHttps | NoServer | NotAName
| SearchTooLong | SearchLines | NoSeat | NotAsked | CommandFailed string

definition validate_app_id :: "string \<Rightarrow> software_error option" where
  "validate_app_id s = (if \<not> flatpak_id s then Some NoAppId else if 255 < length s then Some IdTooLong else None)"

text \<open>\<open>^[A-Za-z0-9_+][A-Za-z0-9._+-]{0,119}$\<close>\<close>

definition safe_byte :: "char \<Rightarrow> bool" where
  "safe_byte c \<longleftrightarrow> is_alnum c \<or> c \<in> set ''._+-''"

definition app_image_name :: "string \<Rightarrow> bool" where
  "app_image_name s = (case s of [] \<Rightarrow> False
     | c # cs \<Rightarrow> (is_alnum c \<or> c \<in> set ''_+'') \<and> length cs \<le> 119 \<and> list_all safe_byte cs)"

definition validate_app_image_file :: "string \<Rightarrow> software_error option" where
  "validate_app_image_file f = (if \<not> app_image_name f then Some NotAName else None)"

text \<open>\<open>path.Ext\<close>: from the last dot after the last slash.\<close>

definition path_ext :: "string \<Rightarrow> string" where
  "path_ext s =
     (let r = takeWhile (\<lambda>c. c \<noteq> CHR ''/'') (rev s)
      in if CHR ''.'' \<in> set r then CHR ''.'' # rev (takeWhile (\<lambda>c. c \<noteq> CHR ''.'') r) else [])"

definition safe_rune :: "string \<Rightarrow> char" where
  "safe_rune r = (case r of [c] \<Rightarrow> if safe_byte c then c else CHR ''-'' | _ \<Rightarrow> CHR ''-'')"

definition is_app_image_ext :: "string \<Rightarrow> bool" where
  "is_app_image_ext e \<longleftrightarrow> map lower_char e = ''.appimage''"

definition named_app_image :: "string \<Rightarrow> string" where
  "named_app_image n =
     (let out = trim_left_set ''.-'' (map safe_rune (runes n));
          out = (if out = [] then ''download'' else out);
          out = (if is_app_image_ext (path_ext out) then out else out @ ''.AppImage'')
      in if 120 < length out then take 111 out @ drop (length out - 9) out else out)"

definition safe_app_image_name :: "string \<Rightarrow> string" where
  "safe_app_image_name n =
     (if app_image_name (named_app_image n) then named_app_image n else ''download.AppImage'')"

record web_address =
  scheme :: string
  host :: string
  url_path :: string

text \<open>\<open>parse\<close> is \<open>url.Parse\<close>.\<close>

definition validate_app_image_url ::
  "(string \<Rightarrow> web_address option) \<Rightarrow> string \<Rightarrow> software_error + string" where
  "validate_app_image_url parse raw =
     (let u = trim_space raw
      in if u = [] then Inl NoAddress
         else if 2000 < length u then Inl AddressTooLong
         else case parse u of
           None \<Rightarrow> Inl NotAnAddress
         | Some a \<Rightarrow>
             if scheme a \<noteq> ''https'' then Inl NotHttps
             else if host a = [] then Inl NoServer
             else Inr (safe_app_image_name (path_base (url_path a))))"

section \<open>What flatpak says\<close>

record catalog_entry =
  cat_id :: string
  cat_name :: string
  cat_summary :: string

record installed_flatpak =
  fp_id :: string
  fp_name :: string
  fp_size :: string

definition trim_cr :: "string \<Rightarrow> string" where
  "trim_cr l = trim_right_set [CHR 0x0D] l"

definition flatpak_lines :: "string \<Rightarrow> string list list" where
  "flatpak_lines out =
     map (\<lambda>l. split_on CHR 0x09 (trim_cr l)) (filter (\<lambda>l. trim_space (trim_cr l) \<noteq> []) (split_on CHR 0x0A out))"

definition installed_flatpaks :: "string \<Rightarrow> installed_flatpak list" where
  "installed_flatpaks out =
     map (\<lambda>fs. \<lparr>fp_id = hd fs, fp_name = (if 1 < length fs \<and> fs ! 1 \<noteq> [] then fs ! 1 else hd fs),
               fp_size = (if 2 < length fs then fs ! 2 else [])\<rparr>)
       (filter (\<lambda>fs. fs \<noteq> [] \<and> hd fs \<noteq> []) (flatpak_lines out))"

definition search_results :: nat where "search_results = 25"

definition search_entry :: "string list \<Rightarrow> catalog_entry option" where
  "search_entry fs =
     (if length fs < 3 then None
      else let i = trim_space (fs ! 2); n = trim_space (fs ! 0)
           in if validate_app_id i \<noteq> None then None
              else Some \<lparr>cat_id = i, cat_name = (if n = [] then i else n), cat_summary = trim_space (fs ! 1)\<rparr>)"

definition parse_search :: "string \<Rightarrow> catalog_entry list" where
  "parse_search out = take search_results (List.map_filter search_entry (flatpak_lines out))"

text \<open>An answer of a command in a seat: none, or what it printed and its code.\<close>

definition search_software ::
  "bool \<Rightarrow> string looked \<Rightarrow> string \<Rightarrow> software_error + catalog_entry list" where
  "search_software known answer term =
     (let t = trim_space term
      in if t = [] then Inr []
         else if 100 < length t then Inl SearchTooLong
         else if contains_any t [CHR 0x0A, CHR 0x0D, CHR 0x09] then Inl SearchLines
         else if \<not> known then Inl NoSeat
         else case answer of
           LookFailed \<Rightarrow> Inl NotAsked
         | Looked out code \<Rightarrow> Inr (if code \<noteq> 0 then [] else parse_search out))"

section \<open>Commands in the seat\<close>

text \<open>
  What an operation runs in the seat, in order, each with its answer: the exit code, or none where
  it could not be run. The arguments are those after the user and the home.
\<close>

type_synonym ran_command = "string list \<times> int option"

definition app_image_dir :: string where "app_image_dir = ''/home/player/Applications''"
definition download_part :: string where "download_part = app_image_dir @ ''/.polyseat-download.part''"
definition max_app_image :: int where "max_app_image = 6442450944"

definition make_dir_command :: "string list" where
  "make_dir_command = [''install'', ''-d'', ''-m'', ''0755'', app_image_dir]"

definition curl_command :: "string \<Rightarrow> string list" where
  "curl_command raw = [''curl'', ''-fL'', ''-#'', ''--proto'', ''=https'', ''--proto-redir'', ''=https'',
     ''--max-filesize'', format_int max_app_image, ''--max-time'', ''7200'', ''-o'', download_part, ''--'', raw]"

definition probe_command :: "string list" where
  "probe_command = [''python3'', ''-I'', ''-c'', ''probe'', download_part]"

definition place_script :: "string \<Rightarrow> string" where
  "place_script file = (let dest = app_image_dir @ ''/'' @ file
     in ''mv -f '' @ download_part @ '' '' @ dest @ '' && chmod 0755 '' @ dest)"

definition place_command :: "string \<Rightarrow> string list" where
  "place_command file = [''sh'', ''-c'', place_script file]"

definition drop_part_command :: "string list" where
  "drop_part_command = [''rm'', ''-f'', ''--'', download_part]"

text \<open>\<open>InstallAppImage\<close> up to the new list; \<open>answer\<close> knows the commands run before.\<close>

definition install_app_image ::
  "(string \<Rightarrow> web_address option) \<Rightarrow> bool \<Rightarrow> (ran_command list \<Rightarrow> string list \<Rightarrow> int option) \<Rightarrow> string
     \<Rightarrow> ran_command list \<times> software_error option" where
  "install_app_image parse known answer raw =
     (case validate_app_image_url parse raw of
        Inl e \<Rightarrow> ([], Some e)
      | Inr file \<Rightarrow>
          if \<not> known then ([], Some NoSeat)
          else
            let run = (\<lambda>h c. h @ [(c, answer h c)]); code = (\<lambda>h c. answer h c);
                h1 = run [] make_dir_command; h2 = run h1 (curl_command raw); h3 = run h2 probe_command;
                h4 = run h3 (place_command file)
            in if code [] make_dir_command = None then (h1, Some NotAsked)
               else if code [] make_dir_command \<noteq> Some 0 then (h1, Some (CommandFailed ''install''))
               else if code h1 (curl_command raw) = None then (h2, Some NotAsked)
               else if code h1 (curl_command raw) \<noteq> Some 0 then (run h2 drop_part_command, Some (CommandFailed ''curl''))
               else if code h2 probe_command = None then (h3, Some NotAsked)
               else if code h2 probe_command \<noteq> Some 0 then (run h3 drop_part_command, Some (CommandFailed ''probe''))
               else if code h3 (place_command file) = None then (h4, Some NotAsked)
               else if code h3 (place_command file) \<noteq> Some 0 then (h4, Some (CommandFailed ''mv''))
               else (h4, None))"

definition remove_app_image_command :: "string \<Rightarrow> string list" where
  "remove_app_image_command file =
     (let cache = ''/home/player/.cache/polyseat/appimage/'' @ file
      in [''rm'', ''-f'', app_image_dir @ ''/'' @ file, cache @ ''.json'', cache @ ''.png''])"

definition remove_app_image ::
  "bool \<Rightarrow> (string list \<Rightarrow> int option) \<Rightarrow> string \<Rightarrow> ran_command list \<times> software_error option" where
  "remove_app_image known answer file =
     (case validate_app_image_file file of
        Some e \<Rightarrow> ([], Some e)
      | None \<Rightarrow>
          if \<not> known then ([], Some NoSeat)
          else let c = remove_app_image_command file in
            ([(c, answer c)],
             case answer c of None \<Rightarrow> Some NotAsked
             | Some code \<Rightarrow> if code \<noteq> 0 then Some (CommandFailed ''rm'') else None))"

text \<open>The line \<open>script\<close> hands to a shell, which is the one place a name is part of one.\<close>

definition install_line :: "string \<Rightarrow> string" where
  "install_line i = ''flatpak install --user --assumeyes flathub '' @ i"

definition install_software ::
  "bool \<Rightarrow> (string list \<Rightarrow> int option) \<Rightarrow> string \<Rightarrow> ran_command list \<times> software_error option" where
  "install_software known answer i =
     (case validate_app_id i of
        Some e \<Rightarrow> ([], Some e)
      | None \<Rightarrow>
          if \<not> known then ([], Some NoSeat)
          else let c = [''script'', ''-qec'', install_line i, ''/dev/null''] in
            ([(c, answer c)],
             case answer c of None \<Rightarrow> Some NotAsked
             | Some code \<Rightarrow> if code \<noteq> 0 then Some (CommandFailed ''flatpak'') else None))"

definition remove_software ::
  "bool \<Rightarrow> (string list \<Rightarrow> int option) \<Rightarrow> string \<Rightarrow> ran_command list \<times> software_error option" where
  "remove_software known answer i =
     (case validate_app_id i of
        Some e \<Rightarrow> ([], Some e)
      | None \<Rightarrow>
          if \<not> known then ([], Some NoSeat)
          else let c = [''flatpak'', ''uninstall'', ''--user'', ''--assumeyes'', ''--noninteractive'', i];
                   u = [''flatpak'', ''uninstall'', ''--user'', ''--unused'', ''--assumeyes'', ''--noninteractive'']
            in case answer c of
                 None \<Rightarrow> ([(c, None)], Some NotAsked)
               | Some code \<Rightarrow> if code \<noteq> 0 then ([(c, Some code)], Some (CommandFailed ''flatpak''))
                              else ([(c, Some code), (u, answer u)], None))"

section \<open>A name is one word\<close>

lemma split_on_covers: "x \<in> set s \<Longrightarrow> x = c \<or> (\<exists>p \<in> set (split_on c s). x \<in> set p)"
  by (induction s) (auto split: list.splits)

lemma alnum_word: "is_alnum c \<Longrightarrow> word_char c"
  by (simp add: word_char_def)

lemma flatpak_id_word:
  assumes "flatpak_id i"
  shows "list_all word_char i"
proof -
  have "word_char x" if x: "x \<in> set i" for x
  proof (cases "x = CHR ''.''")
    case False
    then obtain p where p: "p \<in> set (split_on CHR ''.'' i)" "x \<in> set p" using split_on_covers [OF x] by blast
    then have "id_part p" using assms by (auto simp: flatpak_id_def Let_def list_all_iff)
    then show ?thesis using p(2) by (auto simp: id_part_def list_all_iff word_char_def split: list.splits)
  qed (simp add: word_char_def)
  then show ?thesis by (simp add: list_all_iff)
qed

lemma sh_last_word: "list_all word_char v \<Longrightarrow> v \<noteq> [] \<Longrightarrow> sh_words None False v = Some [v]"
  using sh_words_plain [of "tl v" "[hd v]" "[]"] by (cases v) (auto simp: word_char_def is_alnum_def)

lemma sh_next_word:
  "list_all word_char v \<Longrightarrow> v \<noteq> [] \<Longrightarrow>
   sh_words None False (v @ CHR '' '' # s) = map_option (\<lambda>ws. v # ws) (sh_words None False s)"
  using sh_words_plain [of "tl v" "[hd v]" "CHR '' '' # s"]
  by (cases v) (auto simp: word_char_def is_alnum_def operator_char_def)

definition plain :: "string \<Rightarrow> bool" where "plain v \<longleftrightarrow> v \<noteq> [] \<and> list_all word_char v"

lemma sh_plain_words:
  "list_all plain ws \<Longrightarrow> ws \<noteq> [] \<Longrightarrow> sh_words None False (join '' '' ws) = Some ws"
proof (induction ws)
  case (Cons w ws)
  then show ?case
    by (cases ws) (auto simp: plain_def sh_last_word sh_next_word)
qed simp

lemma install_line_words:
  assumes "validate_app_id i = None"
  shows "sh_words None False (install_line i) = Some [''flatpak'', ''install'', ''--user'', ''--assumeyes'', ''flathub'', i]"
proof -
  have i: "flatpak_id i" using assms by (auto simp: validate_app_id_def split: if_splits)
  then have "i \<noteq> []" by (auto simp: flatpak_id_def)
  then have "list_all plain [''flatpak'', ''install'', ''--user'', ''--assumeyes'', ''flathub'', i]"
    using flatpak_id_word [OF i] by (simp add: plain_def word_char_def is_alnum_def)
  from sh_plain_words [OF this] show ?thesis by (simp add: install_line_def)
qed

section \<open>The name of an AppImage\<close>

definition good_start :: "string \<Rightarrow> bool" where
  "good_start s \<longleftrightarrow> s \<noteq> [] \<and> (is_alnum (hd s) \<or> hd s \<in> set ''_+'') \<and> list_all safe_byte s"

lemma app_image_name_iff: "app_image_name s \<longleftrightarrow> good_start s \<and> length s \<le> 120"
  by (cases s) (auto simp: app_image_name_def good_start_def safe_byte_def)

lemma take_to: "d \<in> set r \<Longrightarrow> \<exists>rest. r = takeWhile (\<lambda>c. c \<noteq> d) r @ d # rest"
  by (induction r) auto

lemma path_ext_suffix:
  assumes "path_ext s \<noteq> []"
  shows "\<exists>p. s = p @ path_ext s"
proof -
  let ?r = "takeWhile (\<lambda>c. c \<noteq> CHR ''/'') (rev s)" and ?rest' = "dropWhile (\<lambda>c. c \<noteq> CHR ''/'') (rev s)"
  let ?e = "takeWhile (\<lambda>c. c \<noteq> CHR ''.'') ?r"
  have d: "CHR ''.'' \<in> set ?r"
  proof (rule ccontr)
    assume "CHR ''.'' \<notin> set ?r"
    with assms show False by (simp only: path_ext_def Let_def if_False)
  qed
  then obtain rest where "?r = ?e @ CHR ''.'' # rest" using take_to by metis
  then have "rev s = (?e @ CHR ''.'' # rest) @ ?rest'" by (metis takeWhile_dropWhile_id)
  then have "rev (rev s) = rev ((?e @ CHR ''.'' # rest) @ ?rest')" by (rule arg_cong)
  then have "s = (rev ?rest' @ rev rest) @ CHR ''.'' # rev ?e" by simp
  moreover have "path_ext s = CHR ''.'' # rev ?e" using d by (simp only: path_ext_def Let_def if_True)
  ultimately show ?thesis by metis
qed

definition ends_as_app_image :: "string \<Rightarrow> bool" where
  "ends_as_app_image s \<longleftrightarrow> 9 \<le> length s \<and> map lower_char (drop (length s - 9) s) = ''.appimage''"

lemma ext_ends:
  assumes "is_app_image_ext (path_ext s)"
  shows "ends_as_app_image s"
proof -
  have e: "map lower_char (path_ext s) = ''.appimage''" using assms by (simp add: is_app_image_ext_def)
  from arg_cong [OF e, of length] have n: "length (path_ext s) = 9" by simp
  then have "path_ext s \<noteq> []" by auto
  then obtain p where p: "s = p @ path_ext s" using path_ext_suffix by blast
  then have "length s = length p + 9" using n by (metis length_append)
  moreover from this p have "drop (length s - 9) s = path_ext s" by (metis add_diff_cancel_right' append_eq_conv_conj)
  ultimately show ?thesis using e by (simp add: ends_as_app_image_def)
qed

lemma safe_runes: "list_all safe_byte (map safe_rune rs)"
  by (auto simp: list_all_iff safe_rune_def safe_byte_def split: list.splits)

lemma trimmed_start:
  assumes "list_all safe_byte s" "trim_left_set ''.-'' s \<noteq> []"
  shows "good_start (trim_left_set ''.-'' s)"
proof -
  have "hd (trim_left_set ''.-'' s) \<notin> set ''.-''"
    using hd_dropWhile [of "\<lambda>c. c \<in> set ''.-''" s] assms(2) unfolding trim_left_set_def by blast
  moreover have "set (trim_left_set ''.-'' s) \<subseteq> set s" unfolding trim_left_set_def by (auto dest: set_dropWhileD)
  ultimately show ?thesis using assms
    by (cases "trim_left_set ''.-'' s") (auto simp: good_start_def list_all_iff safe_byte_def)
qed

lemma good_start_append: "good_start s \<Longrightarrow> list_all safe_byte t \<Longrightarrow> good_start (s @ t)"
  by (auto simp: good_start_def)

lemma named_app_image_good: "app_image_name (named_app_image n) \<and> ends_as_app_image (named_app_image n)"
proof -
  let ?o0 = "trim_left_set ''.-'' (map safe_rune (runes n))"
  let ?o1 = "if ?o0 = [] then ''download'' else ?o0"
  let ?o2 = "if is_app_image_ext (path_ext ?o1) then ?o1 else ?o1 @ ''.AppImage''"
  let ?o3 = "if 120 < length ?o2 then take 111 ?o2 @ drop (length ?o2 - 9) ?o2 else ?o2"
  have n: "named_app_image n = ?o3" by (simp only: named_app_image_def Let_def)
  have "good_start ''download''" by code_simp
  then have g1: "good_start ?o1" using trimmed_start [OF safe_runes] by simp
  have "list_all safe_byte ''.AppImage''" by code_simp
  then have g2: "good_start ?o2" using g1 good_start_append by (cases "is_app_image_ext (path_ext ?o1)") (simp_all only: if_True if_False)
  have "map lower_char ''.AppImage'' = ''.appimage''" by code_simp
  then have "ends_as_app_image (?o1 @ ''.AppImage'')" by (simp add: ends_as_app_image_def)
  then have e2: "ends_as_app_image ?o2"
    using ext_ends by (cases "is_app_image_ext (path_ext ?o1)") (simp_all only: if_True if_False)
  have cut: "good_start (take 111 o2 @ drop (length o2 - 9) o2) \<and> length (take 111 o2 @ drop (length o2 - 9) o2) = 120
      \<and> drop 111 (take 111 o2 @ drop (length o2 - 9) o2) = drop (length o2 - 9) o2"
    if "good_start o2" "120 < length o2" for o2
  proof -
    have "take 111 o2 \<noteq> []" using that by auto
    then have "hd (take 111 o2) = hd o2" by (metis append_take_drop_id hd_append2)
    then show ?thesis using that
      by (auto simp: good_start_def list_all_iff dest: in_set_takeD in_set_dropD)
  qed
  show ?thesis
  proof (cases "120 < length ?o2")
    case True
    from cut [OF g2 True] e2 True show ?thesis unfolding n app_image_name_iff ends_as_app_image_def by auto
  next
    case False
    with g2 e2 show ?thesis unfolding n app_image_name_iff by auto
  qed
qed

text \<open>So the way out for a name that is refused after all is never taken.\<close>

lemma safe_app_image_name_is: "safe_app_image_name n = named_app_image n"
  using named_app_image_good [of n] by (simp add: safe_app_image_name_def)

lemma good_start_word: "good_start s \<Longrightarrow> plain s"
  unfolding good_start_def plain_def list_all_iff safe_byte_def word_char_def by auto

lemma plain_append: "plain s \<Longrightarrow> plain t \<Longrightarrow> plain (s @ t)"
  by (simp add: plain_def)

lemma sh_next_plain:
  "plain v \<Longrightarrow> sh_words None False (v @ CHR '' '' # s) = map_option (\<lambda>ws. v # ws) (sh_words None False s)"
  by (simp add: plain_def sh_next_word)

lemma place_script_words:
  assumes "app_image_name file"
  shows "sh_words None False (place_script file)
    = Some [''mv'', ''-f'', download_part, app_image_dir @ ''/'' @ file, [CHR ''&''], [CHR ''&''], ''chmod'', ''0755'',
        app_image_dir @ ''/'' @ file]"
proof -
  let ?dest = "app_image_dir @ ''/'' @ file"
  have c: "plain ''mv''" "plain ''-f''" "plain download_part" "plain (app_image_dir @ ''/'')" "plain ''chmod''" "plain ''0755''"
    by code_simp+
  have "plain file" using assms by (simp add: app_image_name_iff good_start_word)
  then have d: "plain ?dest" using plain_append [OF c(4)] by simp
  have tail: "sh_words None False (join '' '' [''chmod'', ''0755'', ?dest]) = Some [''chmod'', ''0755'', ?dest]"
    using c d by (intro sh_plain_words) simp_all
  let ?rest = "CHR ''&'' # CHR ''&'' # CHR '' '' # join '' '' [''chmod'', ''0755'', ?dest]"
  have rest: "sh_words None False ?rest = Some [[CHR ''&''], [CHR ''&''], ''chmod'', ''0755'', ?dest]"
    using tail by (simp add: word_char_def is_alnum_def operator_char_def)
  have s: "place_script file = ''mv'' @ CHR '' '' # (''-f'' @ CHR '' '' # (download_part @ CHR '' '' # (?dest @ CHR '' '' # ?rest)))"
    by (simp add: place_script_def Let_def)
  show ?thesis
    unfolding s sh_next_plain [OF c(1)] sh_next_plain [OF c(2)] sh_next_plain [OF c(3)] sh_next_plain [OF d] rest by simp
qed

text \<open>
  Property C36: no name becomes a command. The two places where a name from the page is part of a
  line a shell reads: an application id that is accepted is one word of the line that installs
  it, and whatever the address of an AppImage was, the line that puts the file in place names
  two files and nothing else.
\<close>

theorem no_name_becomes_a_command:
  assumes "validate_app_id i = None" "validate_app_image_url parse raw = Inr file"
  shows "sh_words None False (install_line i)
      = Some [''flatpak'', ''install'', ''--user'', ''--assumeyes'', ''flathub'', i]
    \<and> sh_words None False (place_script file)
      = Some [''mv'', ''-f'', download_part, app_image_dir @ ''/'' @ file, [CHR ''&''], [CHR ''&''], ''chmod'', ''0755'',
          app_image_dir @ ''/'' @ file]"
proof -
  have "app_image_name file"
    using assms(2) named_app_image_good
    by (auto simp: validate_app_image_url_def Let_def safe_app_image_name_is split: if_splits option.splits)
  then show ?thesis using install_line_words [OF assms(1)] place_script_words by blast
qed

lemma no_name_becomes_a_command_witness:
  "sh_words None False (install_line ''io.itch.itch'')
     = Some [''flatpak'', ''install'', ''--user'', ''--assumeyes'', ''flathub'', ''io.itch.itch'']"
proof -
  have i: "validate_app_id ''io.itch.itch'' = None" by code_simp
  have u: "validate_app_image_url (\<lambda>_. Some \<lparr>scheme = ''https'', host = ''h'', url_path = ''/a b;c''\<rparr>) ''x'' = Inr ''a-b-c.AppImage''"
    by code_simp
  from no_name_becomes_a_command [OF i u] show ?thesis by blast
qed

text \<open>
  The name of an AppImage is accepted again. Whatever an address ends in, the name
  that is made of it ends as the name of an AppImage does and is one that the page may hand back,
  so every file that was put there can be taken away again.
\<close>

theorem safe_name_is_accepted:
  "validate_app_image_file (safe_app_image_name n) = None \<and> ends_as_app_image (safe_app_image_name n)"
  using named_app_image_good [of n] by (simp add: validate_app_image_file_def safe_app_image_name_is)

section \<open>What is put in place was looked at\<close>

lemma twice:
  assumes "g @ m @ g = f @ m @ f"
  shows "g = f"
proof -
  have "length g = length f" using arg_cong [OF assms, of length] by simp
  with assms show ?thesis by simp
qed

text \<open>
  Only what was downloaded whole and looked at is put in place. However the seat
  answers, the file is moved to its name only after the download and the look at it both ended
  well; a download that failed and a file that is no AppImage are removed again, and the move is
  the last thing that happens.
\<close>

theorem only_probed_files_are_placed:
  assumes "install_app_image parse known answer raw = (cmds, e)"
  shows "(\<forall>file code. (place_command file, code) \<in> set cmds \<longrightarrow>
      (\<exists>before. cmds = before @ [(place_command file, code)] \<and> (curl_command raw, Some 0) \<in> set before
         \<and> (probe_command, Some 0) \<in> set before \<and> app_image_name file))
    \<and> (e \<in> {Some (CommandFailed ''curl''), Some (CommandFailed ''probe'')} \<longrightarrow> fst (last cmds) = drop_part_command)"
proof (cases "validate_app_image_url parse raw")
  case (Inl x)
  then show ?thesis using assms
    by (auto simp: install_app_image_def validate_app_image_url_def Let_def split: if_splits option.splits)
next
  case (Inr f)
  then have f: "app_image_name f"
    using named_app_image_good
    by (auto simp: validate_app_image_url_def Let_def safe_app_image_name_is split: if_splits option.splits)
  have ne: "place_command g \<noteq> make_dir_command" "place_command g \<noteq> curl_command raw"
    "place_command g \<noteq> probe_command" "place_command g \<noteq> drop_part_command" for g
    by (simp_all add: place_command_def make_dir_command_def curl_command_def probe_command_def drop_part_command_def)
  have inj: "place_command g = place_command f \<longleftrightarrow> g = f" for g
    using twice [of g "'' && chmod 0755 '' @ app_image_dir @ ''/''" f]
    by (auto simp: place_command_def place_script_def Let_def)
  show ?thesis
    using assms ne f
    by (auto simp: install_app_image_def Inr Let_def inj split: if_splits)
qed

lemma only_probed_files_are_placed_witness:
  "\<exists>before. [(make_dir_command, Some 0), (curl_command ''u'', Some 0), (probe_command, Some 0),
        (place_command ''a.AppImage'', Some 0)] = before @ [(place_command ''a.AppImage'', Some 0)]
     \<and> (probe_command, Some 0) \<in> set before"
proof -
  have v: "validate_app_image_url (\<lambda>_. Some \<lparr>scheme = ''https'', host = ''h'', url_path = ''/a.AppImage''\<rparr>) ''u''
      = Inr ''a.AppImage''"
    by code_simp
  have r: "install_app_image (\<lambda>_. Some \<lparr>scheme = ''https'', host = ''h'', url_path = ''/a.AppImage''\<rparr>) True (\<lambda>_ _. Some 0) ''u''
      = ([(make_dir_command, Some 0), (curl_command ''u'', Some 0), (probe_command, Some 0),
          (place_command ''a.AppImage'', Some 0)], None)"
    by (simp add: install_app_image_def v Let_def)
  from only_probed_files_are_placed [OF r] show ?thesis by fastforce
qed

end
