(* ===== verification/Freshness.thy ===== *)
theory Freshness
  imports Software Seat_Life
begin

text \<open>
  What a seat is behind on (internal/seat/freshness.go): the reading of a seat and the line that
  is made of it, the one question to GitHub that serves all seats, the pass over the seats, the
  button, and what an update of the software may touch.
\<close>

section \<open>A reading\<close>

record freshness =
  f_sunshine :: string
  f_latest :: string
  f_upstream :: string
  f_packages :: nat
  f_package_names :: "string list"
  f_flatpaks :: nat
  f_flatpak_names :: "string list"
  f_checked :: "int option"   \<comment> \<open>none is the zero time\<close>
  f_problem :: string

definition unread :: freshness where
  "unread = \<lparr>f_sunshine = [], f_latest = [], f_upstream = [], f_packages = 0, f_package_names = [],
     f_flatpaks = 0, f_flatpak_names = [], f_checked = None, f_problem = []\<rparr>"

definition sunshine_behind :: "freshness \<Rightarrow> bool" where
  "sunshine_behind f \<longleftrightarrow> f_sunshine f \<noteq> [] \<and> f_latest f \<noteq> [] \<and> f_sunshine f \<noteq> f_latest f"

definition behind :: "freshness \<Rightarrow> bool" where
  "behind f \<longleftrightarrow> sunshine_behind f \<or> 0 < f_packages f \<or> 0 < f_flatpaks f"

definition names_shown :: nat where "names_shown = 5"

text \<open>A leading v is dropped, and what follows the last dash unless nothing stands before it.\<close>

definition normalise_version :: "string \<Rightarrow> string" where
  "normalise_version s =
     (let v = trim_prefix (trim_space s) ''v''
      in case dropWhile (\<lambda>c. c \<noteq> CHR ''-'') (rev v) of _ # x # xs \<Rightarrow> rev (x # xs) | _ \<Rightarrow> v)"

definition installed_sunshine :: "string \<Rightarrow> string" where
  "installed_sunshine out =
     (case str_fields (trim_space out) of
        n # v # _ \<Rightarrow> if n = ''sunshine'' then normalise_version v else []
      | _ \<Rightarrow> [])"

definition pending_updates :: "string \<Rightarrow> nat \<times> string list" where
  "pending_updates out =
     (let ls = filter (\<lambda>fs. fs \<noteq> []) (map str_fields (split_on CHR 0x0A out))
      in (length ls, take names_shown (map hd ls)))"

definition flatpak_updates :: "string \<Rightarrow> nat \<times> string list" where
  "flatpak_updates out =
     (let ids = filter flatpak_id (map trim_space (split_on CHR 0x0A out))
      in (length ids, take names_shown ids))"

definition last_lines :: "string \<Rightarrow> nat \<Rightarrow> string" where
  "last_lines s n =
     (let ls = split_on CHR 0x0A (trim_right_set [CHR 0x0A] s)
      in join ''; '' (if n < length ls then drop (length ls - n) ls else ls))"

definition sync_problem :: "string \<Rightarrow> string" where
  "sync_problem out =
     (let said = trim_space (last_lines out 1)
      in if said = [] then ''the package mirrors could not be reached from this seat''
         else ''the package list could not be refreshed: '' @ said)"

text \<open>The answer of a command in the seat: an error, or what it printed and its code.\<close>

type_synonym told = "string + string \<times> int"

definition flatpak_patience :: string where "flatpak_patience = ''25''"

definition pending_flatpaks :: "told \<Rightarrow> nat \<times> string list \<times> string" where
  "pending_flatpaks a =
     (case a of
        Inl e \<Rightarrow> (0, [], ''the seat could not be asked about flatpaks: '' @ e)
      | Inr (out, code) \<Rightarrow>
          if code = 124 then (0, [], ''Flathub did not answer within '' @ flatpak_patience @ '' seconds'')
          else if code \<noteq> 0 then (0, [], ''the flatpak updates could not be listed: '' @ trim_space (last_lines out 1))
          else (fst (flatpak_updates out), snd (flatpak_updates out), []))"

definition not_asked :: "string \<Rightarrow> string" where
  "not_asked e = ''the seat could not be asked: '' @ e"

text \<open>
  \<open>Freshness\<close>: \<open>installed\<close> answers pacman -Q, \<open>sync\<close> the script that counts what waits; \<open>pin\<close> is
  the release every seat gets and \<open>upstream\<close> what is published, as far as that is known.
\<close>

definition freshness_of :: "string \<Rightarrow> int \<Rightarrow> told \<Rightarrow> string \<Rightarrow> told \<Rightarrow> told \<Rightarrow> freshness" where
  "freshness_of pin now installed upstream sync flats =
     (let f = unread\<lparr>f_checked := Some now\<rparr> in
      case installed of
        Inl e \<Rightarrow> f\<lparr>f_problem := not_asked e\<rparr>
      | Inr (out, code) \<Rightarrow>
          let f = f\<lparr>f_sunshine := (if code = 0 then installed_sunshine out else []),
                    f_latest := pin, f_upstream := upstream\<rparr>;
              f = (case sync of
                     Inl e \<Rightarrow> f\<lparr>f_problem := not_asked e\<rparr>
                   | Inr (out, code) \<Rightarrow>
                       if code = 3 then f\<lparr>f_problem := sync_problem out\<rparr>
                       else if code \<noteq> 0
                       then f\<lparr>f_problem := ''pacman answered '' @ format_int code @ '' when asked what is waiting''\<rparr>
                       else f\<lparr>f_packages := fst (pending_updates out),
                              f_package_names := snd (pending_updates out)\<rparr>)
          in case pending_flatpaks flats of (count, names, problem) \<Rightarrow>
               f\<lparr>f_flatpaks := count, f_flatpak_names := names,
                 f_problem := (if f_problem f = [] then problem else f_problem f)\<rparr>)"

text \<open>The line on the card.\<close>

definition counted_as :: "nat \<Rightarrow> string \<Rightarrow> string list" where
  "counted_as n what =
     (if n = 1 then [''1 '' @ what] else if 1 < n then [format_int (int n) @ '' '' @ what @ ''s''] else [])"

definition summary :: "freshness \<Rightarrow> string" where
  "summary f = join '', ''
     ((if sunshine_behind f then [''Sunshine '' @ f_sunshine f @ '' to '' @ f_latest f] else [])
      @ counted_as (f_packages f) ''package'' @ counted_as (f_flatpaks f) ''flatpak'')"

section \<open>What a reading claims\<close>

lemma join_empty: "join s xs = [] \<longleftrightarrow> (\<forall>x \<in> set xs. x = []) \<and> (s = [] \<or> length xs \<le> 1)"
proof (induction xs)
  case (Cons x xs)
  then show ?case by (cases xs) auto
qed simp

text \<open>A card says something exactly where there is something to install.\<close>

lemma summary_says_behind: "summary f = [] \<longleftrightarrow> \<not> behind f"
  by (auto simp: summary_def join_empty behind_def counted_as_def)

text \<open>The release and the package of it are the same version.\<close>

lemma dash_ends:
  "CHR ''-'' \<notin> set rel \<Longrightarrow> dropWhile (\<lambda>c. c \<noteq> CHR ''-'') (rev (v @ CHR ''-'' # rel)) = CHR ''-'' # rev v"
  by (simp add: dropWhile_append)

lemma package_is_release:
  assumes "v \<noteq> []" "CHR ''-'' \<notin> set v" "CHR ''-'' \<notin> set rel" "hd v \<noteq> CHR ''v''"
    and "trim_space (''v'' @ v) = ''v'' @ v" "trim_space (v @ CHR ''-'' # rel) = v @ CHR ''-'' # rel"
  shows "normalise_version (v @ CHR ''-'' # rel) = v \<and> normalise_version (''v'' @ v) = v"
proof -
  obtain x xs where v: "rev v = x # xs" using assms(1) by (cases "rev v") auto
  have "trim_prefix (v @ CHR ''-'' # rel) ''v'' = v @ CHR ''-'' # rel"
    using assms(1,4) by (cases v) (auto simp: trim_prefix_def)
  then have "normalise_version (v @ CHR ''-'' # rel) = v"
    unfolding normalise_version_def assms(6) Let_def using dash_ends [OF assms(3), of v] v
    by (metis list.simps(5) rev_rev_ident)
  moreover have t: "trim_prefix (''v'' @ v) ''v'' = v" by (simp add: trim_prefix_def)
  have d: "dropWhile (\<lambda>c. c \<noteq> CHR ''-'') (rev v) = []" using assms(2) by auto
  have "normalise_version (''v'' @ v) = v" unfolding normalise_version_def assms(5) Let_def t d by simp
  ultimately show ?thesis by blast
qed

lemma counted_updates:
  "0 < fst (pending_updates out) \<Longrightarrow> \<exists>l \<in> set (split_on CHR 0x0A out). str_fields l \<noteq> []"
  by (auto simp: pending_updates_def Let_def filter_empty_conv)

lemma counted_flatpaks:
  "0 < fst (flatpak_updates out) \<Longrightarrow> \<exists>l \<in> set (split_on CHR 0x0A out). flatpak_id (trim_space l)"
  by (auto simp: flatpak_updates_def Let_def filter_empty_conv)

lemma read_version:
  "installed_sunshine out \<noteq> [] \<Longrightarrow> \<exists>v rest. str_fields (trim_space out) = ''sunshine'' # v # rest
     \<and> installed_sunshine out = normalise_version v"
  by (auto simp: installed_sunshine_def split: list.splits if_splits)

text \<open>
  A seat is said to be behind only on evidence. Whatever the answers are, a reading
  that offers a Sunshine comes from a pacman that named sunshine with another version, one that
  counts packages from a finished sync that listed some, one that counts flatpaks from a list with
  an application in it; and a reading without a problem comes from three answers that all ended
  well, so that nothing waiting is not the same as not knowing.
\<close>

theorem behind_on_evidence:
  assumes f_is: "f = freshness_of pin now installed upstream sync flats"
  shows "(sunshine_behind f \<longrightarrow> (\<exists>out v rest. installed = Inr (out, 0)
        \<and> str_fields (trim_space out) = ''sunshine'' # v # rest \<and> normalise_version v \<noteq> pin))
    \<and> (0 < f_packages f \<longrightarrow> (\<exists>out l. sync = Inr (out, 0) \<and> l \<in> set (split_on CHR 0x0A out) \<and> str_fields l \<noteq> []))
    \<and> (0 < f_flatpaks f \<longrightarrow> (\<exists>out l. flats = Inr (out, 0) \<and> l \<in> set (split_on CHR 0x0A out)
        \<and> flatpak_id (trim_space l)))
    \<and> (f_problem f = [] \<longrightarrow> (\<exists>out1 c out2 out3. installed = Inr (out1, c) \<and> sync = Inr (out2, 0)
        \<and> flats = Inr (out3, 0) \<and> f_packages f = fst (pending_updates out2)
        \<and> f_flatpaks f = fst (flatpak_updates out3)))
    \<and> (summary f \<noteq> [] \<longleftrightarrow> behind f)"
proof (cases installed)
  case (Inl e)
  then show ?thesis
    by (auto simp: f_is freshness_of_def Let_def unread_def sunshine_behind_def behind_def not_asked_def summary_says_behind)
next
  case (Inr a)
  obtain out code where a: "installed = Inr (out, code)" using Inr by (cases a) auto
  let ?counts = "case sync of Inl _ \<Rightarrow> 0 | Inr (o2, c2) \<Rightarrow> if c2 = 0 then fst (pending_updates o2) else 0"
  have s: "f_sunshine f = (if code = 0 then installed_sunshine out else [])" "f_latest f = pin"
    "f_packages f = ?counts" "f_flatpaks f = fst (pending_flatpaks flats)"
    by (auto simp: f_is freshness_of_def a Let_def unread_def split: sum.splits prod.splits)
  have p: "f_problem f = [] \<Longrightarrow> (\<exists>o2. sync = Inr (o2, 0)) \<and> snd (snd (pending_flatpaks flats)) = []"
    by (auto simp: f_is freshness_of_def a Let_def unread_def not_asked_def sync_problem_def
        split: sum.splits prod.splits if_splits)
  have flat: "fst (pending_flatpaks flats) = fst (flatpak_updates o3)" if "flats = Inr (o3, 0)" for o3
    using that by (simp add: pending_flatpaks_def)
  have flat0: "\<exists>o3. flats = Inr (o3, 0)" if "0 < fst (pending_flatpaks flats) \<or> snd (snd (pending_flatpaks flats)) = []"
    using that by (auto simp: pending_flatpaks_def split: sum.splits prod.splits if_splits)
  have "\<exists>out v rest. installed = Inr (out, 0) \<and> str_fields (trim_space out) = ''sunshine'' # v # rest
      \<and> normalise_version v \<noteq> pin" if "sunshine_behind f"
    using that read_version [of out] unfolding sunshine_behind_def s a by (auto split: if_splits)
  moreover have "\<exists>out l. sync = Inr (out, 0) \<and> l \<in> set (split_on CHR 0x0A out) \<and> str_fields l \<noteq> []" if "0 < f_packages f"
  proof (cases sync)
    case (Inr b)
    with that counted_updates [of "fst b"] show ?thesis unfolding s
      by (cases b) (auto split: if_splits)
  qed (use that s in simp)
  moreover have "\<exists>out l. flats = Inr (out, 0) \<and> l \<in> set (split_on CHR 0x0A out) \<and> flatpak_id (trim_space l)"
    if "0 < f_flatpaks f"
    using that flat flat0 counted_flatpaks unfolding s by (metis)
  moreover have "\<exists>out1 c out2 out3. installed = Inr (out1, c) \<and> sync = Inr (out2, 0) \<and> flats = Inr (out3, 0)
      \<and> f_packages f = fst (pending_updates out2) \<and> f_flatpaks f = fst (flatpak_updates out3)" if "f_problem f = []"
    using p [OF that] flat flat0 a unfolding s by auto
  ultimately show ?thesis using summary_says_behind by blast
qed

lemma behind_on_evidence_witness:
  "\<exists>out v rest. (Inr (''sunshine v1-1'', 0) :: told) = Inr (out, 0)
     \<and> str_fields (trim_space out) = ''sunshine'' # v # rest \<and> normalise_version v \<noteq> ''2''"
proof -
  have "sunshine_behind (freshness_of ''2'' 0 (Inr (''sunshine v1-1'', 0)) [] (Inr ([], 0)) (Inr ([], 0)))"
    by code_simp
  with behind_on_evidence [OF refl, of "''2''" 0 "Inr (''sunshine v1-1'', 0)" "[]" "Inr ([], 0)" "Inr ([], 0)"]
  show ?thesis by blast
qed

section \<open>One question to GitHub\<close>

record published =
  pub_version :: string
  pub_asked :: "int option"
  pub_failed :: bool

definition nothing_published :: published where
  "nothing_published = \<lparr>pub_version = [], pub_asked = None, pub_failed = False\<rparr>"

definition sunshine_ask :: int where "sunshine_ask = 6 * 60 * 60"

text \<open>
  \<open>latest\<close>, at one moment and, where it asks, with the answer at a later one; the answer, and
  whether it asked.
\<close>

definition latest :: "int \<Rightarrow> int \<Rightarrow> string option \<Rightarrow> published \<Rightarrow> published \<times> string option \<times> bool" where
  "latest now later answer c =
     (let told = (\<lambda>c. if pub_failed c then None else Some (pub_version c)) in
      case pub_asked c of
        Some t \<Rightarrow> if now - t < sunshine_ask then (c, told c, False)
                  else let c' = \<lparr>pub_version = (case answer of None \<Rightarrow> [] | Some v \<Rightarrow> v), pub_asked = Some later,
                                 pub_failed = (answer = None)\<rparr> in (c', told c', True)
      | None \<Rightarrow> let c' = \<lparr>pub_version = (case answer of None \<Rightarrow> [] | Some v \<Rightarrow> v), pub_asked = Some later,
                          pub_failed = (answer = None)\<rparr> in (c', told c', True))"

definition forget_published :: "published \<Rightarrow> published" where
  "forget_published c = c\<lparr>pub_asked := None\<rparr>"

definition upstream_sunshine :: "string option \<Rightarrow> string" where
  "upstream_sunshine answer = (case answer of None \<Rightarrow> [] | Some v \<Rightarrow> v)"

datatype cache_op = Look int int "string option" | Forget

datatype cache_event = AskedGitHub int int "string option" | Answered "string option" | Forgotten

definition cache_step :: "cache_op \<Rightarrow> published \<Rightarrow> published \<times> cache_event list" where
  "cache_step q c =
     (case q of
        Forget \<Rightarrow> (forget_published c, [Forgotten])
      | Look now later answer \<Rightarrow>
          (case latest now later answer c of (c', r, asked) \<Rightarrow>
             (c', (if asked then [AskedGitHub now later answer] else []) @ [Answered r])))"

fun cache_run :: "cache_op list \<Rightarrow> published \<Rightarrow> cache_event list" where
  "cache_run [] c = []"
| "cache_run (q # qs) c = (case cache_step q c of (c', es) \<Rightarrow> es @ cache_run qs c')"

definition is_asking :: "cache_event \<Rightarrow> bool" where
  "is_asking e = (case e of AskedGitHub _ _ _ \<Rightarrow> True | Forgotten \<Rightarrow> True | _ \<Rightarrow> False)"

text \<open>What the last question and its answer were, if nobody has thrown them away since.\<close>

definition answer_held :: "int \<Rightarrow> string option \<Rightarrow> published \<Rightarrow> bool" where
  "answer_held later answer c \<longleftrightarrow> pub_asked c = Some later \<and> pub_failed c = (answer = None)
     \<and> pub_version c = upstream_sunshine answer"

lemma held_answers:
  assumes "answer_held t a c" "cache_run qs c = ys @ e # zs" "list_all (\<lambda>e. \<not> is_asking e) ys"
  shows "(\<forall>y \<in> set ys. y = Answered a) \<and> (e = Answered a \<or> e = Forgotten
    \<or> (\<exists>now later b. e = AskedGitHub now later b \<and> sunshine_ask \<le> now - t))"
  using assms
proof (induction qs arbitrary: c ys)
  case (Cons q qs)
  show ?case
  proof (cases q)
    case Forget
    with Cons.prems show ?thesis
      by (cases ys) (auto simp: cache_step_def is_asking_def)
  next
    case (Look now later b)
    show ?thesis
    proof (cases "now - t < sunshine_ask")
      case True
      with Cons.prems(1,2) Look have r: "Answered a # cache_run qs c = ys @ e # zs"
        by (cases a) (auto simp: cache_step_def latest_def answer_held_def Let_def upstream_sunshine_def)
      show ?thesis
      proof (cases ys)
        case Nil
        with r show ?thesis by simp
      next
        case (Cons y ys')
        with r have "cache_run qs c = ys' @ e # zs" "y = Answered a" by auto
        with Cons.IH [OF Cons.prems(1)] Cons.prems(3) Cons show ?thesis by auto
      qed
    next
      case False
      have "\<exists>rest. cache_run (q # qs) c = AskedGitHub now later b # rest" using Cons.prems(1) Look False
        by (simp add: cache_step_def latest_def answer_held_def Let_def)
      with Cons.prems(2) obtain rest where "AskedGitHub now later b # rest = ys @ e # zs" by auto
      with False Cons.prems(3) show ?thesis
        by (cases ys) (auto simp: is_asking_def)
    qed
  qed
qed simp

text \<open>
  One question to GitHub serves every seat. After a question, whatever was asked of the cache,
  every answer until the next question or the button is the answer to it, a failure as well; and
  the next question, unless the button was pressed, comes six hours after the answer at the
  earliest.
\<close>

theorem one_question_serves_all:
  assumes "cache_run qs c = xs @ AskedGitHub now later answer # ys @ e # zs" "list_all (\<lambda>e. \<not> is_asking e) ys"
  shows "(\<forall>y \<in> set ys. y = Answered answer) \<and> (e = Answered answer \<or> e = Forgotten
    \<or> (\<exists>now' later' b. e = AskedGitHub now' later' b \<and> sunshine_ask \<le> now' - later))"
  using assms
proof (induction qs arbitrary: c xs)
  case (Cons q qs)
  obtain c' es where st: "cache_step q c = (c', es)" by (cases "cache_step q c") auto
  with Cons.prems(1) have r: "es @ cache_run qs c' = xs @ AskedGitHub now later answer # ys @ e # zs" by simp
  show ?case
  proof (cases "length es \<le> length xs")
    case True
    with r have "cache_run qs c' = drop (length es) xs @ AskedGitHub now later answer # ys @ e # zs"
      by (auto simp: append_eq_append_conv2 append_eq_conv_conj)
    from Cons.IH [OF this Cons.prems(2)] show ?thesis .
  next
    case False
    then have "AskedGitHub now later answer \<in> set es"
      using r by (metis append_eq_append_conv2 in_set_conv_decomp length_append le_add1 nth_append nth_append_length nth_mem not_le)
    with st have es: "es = [AskedGitHub now later answer, Answered answer]" and h: "answer_held later answer c'"
      by (auto simp: cache_step_def latest_def answer_held_def Let_def upstream_sunshine_def
          split: cache_op.splits option.splits if_splits)
    have "xs = []"
    proof (cases xs)
      case (Cons x xs')
      with False es have "xs' = []" by (cases xs') simp_all
      with r es Cons show ?thesis by simp
    qed
    with r es have "Answered answer # cache_run qs c' = ys @ e # zs" by simp
    then show ?thesis
    proof (cases ys)
      case (Cons y ys')
      with \<open>Answered answer # cache_run qs c' = ys @ e # zs\<close> have "cache_run qs c' = ys' @ e # zs" "y = Answered answer" by auto
      with held_answers [OF h] Cons \<open>list_all (\<lambda>e. \<not> is_asking e) ys\<close> show ?thesis by auto
    qed simp
  qed
qed simp

lemma one_question_serves_all_witness:
  "\<exists>now' later' b. AskedGitHub 21601 21602 (Some ''2'') = AskedGitHub now' later' b \<and> sunshine_ask \<le> now' - 1"
proof -
  have "cache_run [Look 0 1 None, Look 100 101 (Some ''1''), Look 21601 21602 (Some ''2'')] nothing_published
      = [] @ AskedGitHub 0 1 None # [Answered None, Answered None] @ AskedGitHub 21601 21602 (Some ''2'') # [Answered (Some ''2'')]"
    by code_simp
  moreover have "list_all (\<lambda>e. \<not> is_asking e) [Answered None, Answered None]" by (simp add: is_asking_def)
  ultimately show ?thesis using one_question_serves_all by fastforce
qed

section \<open>Asking the seats\<close>

record card =
  card_reading :: freshness
  card_asked :: "int option"

definition blank_card :: card where
  "blank_card = \<lparr>card_reading = unread, card_asked = None\<rparr>"

type_synonym cards = "string \<Rightarrow> card"

text \<open>\<open>record\<close>: the cards, and the line for the log.\<close>

definition record_reading :: "int \<Rightarrow> string \<Rightarrow> freshness \<Rightarrow> cards \<Rightarrow> cards \<times> string list" where
  "record_reading now name f cs =
     (cs(name := \<lparr>card_reading = f, card_asked = Some now\<rparr>),
      if behind f \<and> summary f \<noteq> summary (card_reading (cs name))
      then [''this seat is behind: '' @ summary f] else [])"

definition fresh_interval :: int where "fresh_interval = 6 * 60 * 60"

definition reading_due :: "int \<Rightarrow> card \<Rightarrow> bool" where
  "reading_due now k = (case card_asked k of None \<Rightarrow> True | Some t \<Rightarrow> fresh_interval \<le> now - t)"

text \<open>What the pass finds when it comes to a seat.\<close>

record turn =
  t_ended :: bool        \<comment> \<open>the pass was told to stop\<close>
  t_running :: bool
  t_now :: int
  t_lane :: bool         \<comment> \<open>the seat let the pass into its asking lane\<close>
  t_reading :: freshness
  t_done :: int

definition ask_in_turn :: "string \<Rightarrow> turn \<Rightarrow> cards \<Rightarrow> cards \<times> string list" where
  "ask_in_turn name t cs = (if t_lane t then record_reading (t_done t) name (t_reading t) cs else (cs, []))"

fun update_freshness :: "string list \<Rightarrow> (string \<times> turn) list \<Rightarrow> cards \<Rightarrow> cards \<times> string list" where
  "update_freshness streaming [] cs = (cs, [])"
| "update_freshness streaming ((name, t) # ts) cs =
     (if t_ended t then (cs, [])
      else if name \<in> set streaming \<or> \<not> t_running t \<or> \<not> reading_due (t_now t) (cs name)
      then update_freshness streaming ts cs
      else case ask_in_turn name t cs of (cs', l) \<Rightarrow>
        case update_freshness streaming ts cs' of (cs'', ls) \<Rightarrow> (cs'', l @ ls))"

datatype check_error = NotASeat | SeatIsBusy | SeatIsOff

text \<open>\<open>CheckFreshness\<close>: refusals come before anything is stored or thrown away.\<close>

definition check_freshness ::
  "bool \<Rightarrow> bool \<Rightarrow> bool \<Rightarrow> (published \<Rightarrow> freshness) \<Rightarrow> int \<Rightarrow> string \<Rightarrow> cards \<times> published
     \<Rightarrow> (cards \<times> published) \<times> (check_error + freshness)" where
  "check_freshness known lane running look now name s =
     (if \<not> known then (s, Inl NotASeat)
      else if \<not> lane then (s, Inl SeatIsBusy)
      else if \<not> running then (s, Inl SeatIsOff)
      else let c = forget_published (snd s); f = look c
           in ((fst (record_reading now name f (fst s)), c), Inr f))"

lemma refused_check_stores_nothing:
  "check_freshness known lane running look now name s = (s', Inl e) \<Longrightarrow> s' = s"
  by (auto simp: check_freshness_def Let_def split: if_splits)

text \<open>A turn that leads to a reading.\<close>

definition asks :: "string list \<Rightarrow> string \<Rightarrow> turn \<Rightarrow> card \<Rightarrow> bool" where
  "asks streaming name t k \<longleftrightarrow>
     name \<notin> set streaming \<and> t_running t \<and> reading_due (t_now t) k \<and> t_lane t"

lemma pass_step:
  "\<not> t_ended t \<Longrightarrow> fst (update_freshness streaming ((name, t) # ts) cs)
     = fst (update_freshness streaming ts
         (if asks streaming name t (cs name)
          then cs(name := \<lparr>card_reading = t_reading t, card_asked = Some (t_done t)\<rparr>) else cs))"
  by (auto simp: asks_def ask_in_turn_def record_reading_def split: prod.splits)

lemma pass_ended: "t_ended t \<Longrightarrow> update_freshness streaming ((name, t) # ts) cs = (cs, [])"
  by simp

declare update_freshness.simps(2) [simp del]

lemma pass_leaves_others:
  "name \<notin> fst ` set ts \<Longrightarrow> fst (update_freshness streaming ts cs) name = cs name"
proof (induction ts arbitrary: cs)
  case (Cons a ts)
  then show ?case by (cases a; cases "t_ended (snd a)") (auto simp: pass_step pass_ended)
qed simp

text \<open>
  The pass asks who is due and nobody else. It writes a reading on the card of a seat
  exactly when it came to the seat, the seat ran with nobody streaming from it, let the pass in,
  and had not been asked for six hours; every other card stays as it is, that of a seat that is
  off with the reading it had.
\<close>

theorem pass_asks_who_is_due:
  assumes "distinct (map fst ts)" "(name, t) \<in> set ts" "\<forall>u \<in> snd ` set ts. \<not> t_ended u"
  shows "fst (update_freshness streaming ts cs) name =
    (if asks streaming name t (cs name) then \<lparr>card_reading = t_reading t, card_asked = Some (t_done t)\<rparr>
     else cs name)"
  using assms
proof (induction ts arbitrary: cs)
  case (Cons a ts)
  obtain n u where a: "a = (n, u)" by (cases a)
  let ?cs = "if asks streaming n u (cs n)
    then cs(n := \<lparr>card_reading = t_reading u, card_asked = Some (t_done u)\<rparr>) else cs"
  have st: "fst (update_freshness streaming (a # ts) cs) = fst (update_freshness streaming ts ?cs)"
    unfolding a using Cons.prems(3) a by (intro pass_step) simp
  show ?case
  proof (cases "name = n")
    case True
    with Cons.prems(1,2) a have "name \<notin> fst ` set ts" "u = t" by force+
    with True show ?thesis unfolding st by (auto simp: pass_leaves_others)
  next
    case False
    have "(name, t) \<in> set ts" using Cons.prems(2) False unfolding a by simp
    moreover have "distinct (map fst ts)" using Cons.prems(1) by simp
    moreover have "\<forall>u \<in> snd ` set ts. \<not> t_ended u" using Cons.prems(3) by simp
    ultimately have "fst (update_freshness streaming ts ?cs) name
      = (if asks streaming name t (?cs name) then \<lparr>card_reading = t_reading t, card_asked = Some (t_done t)\<rparr>
         else ?cs name)" by (intro Cons.IH)
    moreover have "?cs name = cs name" using False by simp
    ultimately show ?thesis unfolding st by (simp only:)
  qed
qed simp

section \<open>An update and who is playing\<close>

text \<open>When an update may make each call, and how it may end.\<close>

definition update_permits :: "history \<Rightarrow> life_call \<Rightarrow> bool" where
  "update_permits h a \<longleftrightarrow>
     (a \<in> {GetRecord, IsStreaming, IsRunning, SetState StateError}
      \<or> (\<exists>r. r \<noteq> Yes \<and> (IsStreaming, r) \<in> set h) \<and> (IsRunning, Yes) \<in> set h)
     \<and> (a \<in> {RestartSway, StartBroker, RecordFreshness} \<longrightarrow>
          (\<forall>u \<in> set update_steps. \<exists>r. r \<noteq> Bad \<and> (UpdateStep u, r) \<in> set h))"

definition update_concludes :: "history \<Rightarrow> life_error option \<Rightarrow> bool" where
  "update_concludes h e \<longleftrightarrow> (e = None \<longrightarrow> (\<exists>r h'. h = (RecordFreshness, r) # h'))"

lemma checked_all:
  assumes "\<And>m a. permit (m @ h) a" "\<And>m e. final (m @ h) e"
  shows "checked permit final p h"
  using assms
proof (induction p arbitrary: h)
  case (Return e)
  from Return(2) [of "[]"] show ?case by simp
next
  case (Call a f)
  have "checked permit final (f r) ((a, r) # h)" for r
  proof (rule Call.IH [OF rangeI])
    fix m b e
    show "permit (m @ (a, r) # h) b" "final (m @ (a, r) # h) e"
      using Call.prems(1) [of "m @ [(a, r)]" b] Call.prems(2) [of "m @ [(a, r)]" e] by simp_all
  qed
  with Call.prems(1) [of "[]" a] show ?case by simp
qed

definition steps_done :: "history \<Rightarrow> bool" where
  "steps_done h \<longleftrightarrow> (\<exists>r. r \<noteq> Yes \<and> (IsStreaming, r) \<in> set h) \<and> (IsRunning, Yes) \<in> set h
     \<and> (\<forall>u \<in> set update_steps. \<exists>r. r \<noteq> Bad \<and> (UpdateStep u, r) \<in> set h)"

lemma steps_done_keeps: "steps_done h \<Longrightarrow> steps_done (m @ h)"
  by (fastforce simp: steps_done_def)

lemma steps_done_permits: "steps_done h \<Longrightarrow> update_permits h a"
  by (simp add: steps_done_def update_permits_def)

lemma update_rest_checked:
  assumes "steps_done h"
  shows "checked update_permits update_concludes
    (then_do start_session (attempt RecordFreshness (Return None))) h"
proof (rule checked_then, rule checked_mono)
  show "checked update_permits (\<lambda>h e. steps_done h) start_session h"
    using steps_done_keeps [OF assms] by (intro checked_all steps_done_permits)
next
  fix h' e
  assume "steps_done h'"
  then show "case e of None \<Rightarrow> checked update_permits update_concludes (attempt RecordFreshness (Return None)) h'
      | Some _ \<Rightarrow> update_concludes h' e"
    by (auto simp: checked_attempt steps_done_permits update_concludes_def split: option.splits)
qed

lemma all_steps:
  "(\<forall>u \<in> set update_steps. P u) \<longleftrightarrow>
     P ''packages'' \<and> P ''sunshine'' \<and> P ''mangohud shim'' \<and> P ''stevia'' \<and> P ''faugus'' \<and> P ''heroic''"
  by (simp add: update_steps_def)

lemma update_op_permits: "checked update_permits update_concludes update_op []"
proof -
  have inner: "checked update_permits update_concludes (Call IsStreaming (\<lambda>r.
       if r = Yes then Return (Some SomebodyStreams)
       else Call IsRunning (\<lambda>r.
         if r \<noteq> Yes then Return (Some NotRunningNow)
         else must GetRecord (attempt StopBroker
           (foldr (\<lambda>u k. must (UpdateStep u) k) update_steps
             (attempt UpdateFlatpaks (attempt ForgetPublished
               (then_do start_session (attempt RecordFreshness (Return None)))))))))) h" for h
    unfolding update_steps_def
    by (auto simp: checked_simps intro!: update_rest_checked)
      (auto simp: update_permits_def update_concludes_def steps_done_def all_steps)
  show ?thesis
    unfolding update_op_def checked_must
    using checked_operated [OF checked_mono [OF inner]]
    by (auto simp: update_permits_def update_concludes_def split: option.splits)
qed

text \<open>
  Property C38: an update never meets somebody who is playing. Whatever the answers are, an update
  touches the seat, its broker first, only after the seat was seen to run with nobody streaming; a
  refused one has asked and done nothing else; the session is restarted, and the broker started
  again, only when every step has ended well; and an update that succeeds ends with a new reading of
  the seat, so that the card does not go on saying what was waiting before.
\<close>

theorem update_spares_the_stream:
  assumes "run_life world update_op [] = (h, e)"
  shows "(\<forall>after a r earlier. h = after @ (a, r) # earlier \<longrightarrow>
        (a \<notin> {GetRecord, IsStreaming, IsRunning, SetState StateError} \<longrightarrow>
          (\<exists>s. s \<noteq> Yes \<and> (IsStreaming, s) \<in> set earlier) \<and> (IsRunning, Yes) \<in> set earlier)
        \<and> (a \<in> {RestartSway, StartBroker, RecordFreshness} \<longrightarrow>
          (\<forall>u \<in> set update_steps. \<exists>s. s \<noteq> Bad \<and> (UpdateStep u, s) \<in> set earlier)))
    \<and> (e = None \<longrightarrow> (\<exists>r earlier. h = (RecordFreshness, r) # earlier))"
proof -
  from checked_run [OF update_op_permits assms] have "update_concludes h e"
    and p: "\<And>after a r earlier. h = after @ (a, r) # earlier \<Longrightarrow> update_permits earlier a"
    by auto
  then show ?thesis using p unfolding update_permits_def update_concludes_def by blast
qed

text \<open>An update that goes well.\<close>

definition nobody_plays :: "history \<Rightarrow> life_call \<Rightarrow> reply" where
  "nobody_plays h a = (if a = IsRunning \<or> a = UnitActive sunshine_unit then Yes else if a = IsStreaming then No else Good)"

lemma update_spares_the_stream_witness:
  "\<exists>r earlier. fst (run_life nobody_plays update_op []) = (RecordFreshness, r) # earlier"
proof -
  have "snd (run_life nobody_plays update_op []) = None"
    by (simp add: update_op_def update_steps_def start_session_def must_def attempt_def nobody_plays_def
        numeral_eq_Suc)
  then have "run_life nobody_plays update_op [] = (fst (run_life nobody_plays update_op []), None)"
    by (metis prod.collapse)
  from update_spares_the_stream [OF this] show ?thesis by blast
qed

end
