(* ===== verification/Page.thy ===== *)
theory Page
  imports Guard Auth_Store Config
begin

text \<open>
  The page as whoever knocks meets it (internal/api/server.go and host.go): which handler a
  request reaches, the four that answer without a session, and the password that is asked for a
  second time. A request that was let through is one step here; what the handlers behind the
  session do with the manager is elsewhere, and reaching one is an event.
\<close>

section \<open>What a request brings\<close>

text \<open>
  Beside the request: the segments of its path, unescaped as \<open>ServeMux\<close> compares them, and whether
  the path is one it does not redirect; the session cookie; where the connection comes from; the
  clock, and what the random source and the disk would answer.
\<close>

record visit =
  v_request :: request
  v_path :: "string list"
  v_clean :: bool
  v_cookie :: "string option"
  v_source :: string
  v_now :: int
  v_nonce :: "nat list"
  v_random :: randomness
  v_faults :: faults

record host_request =
  h_password :: string
  h_account :: string
  h_seats :: bool
  h_library :: bool
  h_undo :: bool
  h_confirm :: string

definition no_host_request :: host_request where
  "no_host_request = \<lparr>h_password = [], h_account = [], h_seats = False, h_library = False, h_undo = False, h_confirm = []\<rparr>"

text \<open>
  What is not the program's: argon2, HMAC, and what a JSON body says to a struct with the given text
  fields. A field that a body does not name is empty.
\<close>

record means =
  derive :: id_key
  hmac :: mac
  decode :: "string list \<Rightarrow> string \<Rightarrow> (string \<Rightarrow> string) option"
  decode_host :: "string \<Rightarrow> host_request option"

record server =
  s_store :: store
  s_limiter :: limiter

datatype action =
    GetState | Events | ChangePassword | CreateSeat | ProvisionStale | ApplyUpdate | CheckUpdate
  | RestartDaemon | PrepareHost | RemoveHost | BridgeUplink | UpdateSeat | DeleteSeat | SeatLog
  | PairedClients | SunshineAccess | PendingPairings | PairDevice | DiscardPairing | Unpair
  | GetSoftware | SearchSoftware | InstallSoftware | RemoveSoftware | InstallAppImage
  | RemoveAppImage | UploadFiles | GetLibrary | SyncLibrary | ImportLibrary | UnwatchLibrary
  | RemoveTitle | OfferTitle | ReadmitTitle | AllowFolderSetup | ShareLutrisGame | ShareFaugusGame
  | ShareHeroicGame | SeatAction | Setup | Login | Logout | Session | SetupState

text \<open>
  What happens on the way: a password compared with the stored one, a session handed out, a
  handler behind the session that comes to its work, with what stands for the wildcards.
\<close>

datatype page_event = Guessed bool | Opened string | Reached action "string list" host_request

type_synonym served = "server \<times> nat \<times> page_event list"

section \<open>Routes\<close>

datatype segment = Lit string | Wild

definition match_segment :: "segment \<Rightarrow> string \<Rightarrow> bool" where
  "match_segment p s = (case p of Lit l \<Rightarrow> s = l | Wild \<Rightarrow> s \<noteq> [])"

type_synonym route = "string \<times> segment list \<times> action"

text \<open>A route for GET answers HEAD too.\<close>

definition match_route :: "route \<Rightarrow> string \<Rightarrow> string list \<Rightarrow> bool" where
  "match_route r m path = (case r of (m', ps, a) \<Rightarrow>
     (m' = m \<or> m' = ''GET'' \<and> m = ''HEAD'') \<and> list_all2 match_segment ps path)"

definition wild_values :: "segment list \<Rightarrow> string list \<Rightarrow> string list" where
  "wild_values ps path = map snd (filter (\<lambda>(p, s). p = Wild) (zip ps path))"

definition find_route :: "route list \<Rightarrow> string \<Rightarrow> string list \<Rightarrow> (action \<times> string list) option" where
  "find_route rs m path =
     (case filter (\<lambda>r. match_route r m path) rs of
        [] \<Rightarrow> None
      | (_, ps, a) # _ \<Rightarrow> Some (a, wild_values ps path))"

definition api :: "string list \<Rightarrow> segment list" where
  "api xs = Lit ''api'' # map (\<lambda>x. if x = ''*'' then Wild else Lit x) xs"

definition open_routes :: "route list" where
  "open_routes =
     [(''POST'', api [''setup''], Setup), (''POST'', api [''login''], Login),
      (''POST'', api [''logout''], Logout), (''GET'', api [''session''], Session)]"

definition guarded_routes :: "route list" where
  "guarded_routes =
     [(''GET'', api [''state''], GetState),
      (''GET'', api [''events''], Events),
      (''POST'', api [''password''], ChangePassword),
      (''POST'', api [''seats''], CreateSeat),
      (''POST'', api [''provision-stale''], ProvisionStale),
      (''POST'', api [''update''], ApplyUpdate),
      (''POST'', api [''update'', ''check''], CheckUpdate),
      (''POST'', api [''restart''], RestartDaemon),
      (''POST'', api [''prepare''], PrepareHost),
      (''POST'', api [''uninstall''], RemoveHost),
      (''POST'', api [''lan-bridge''], BridgeUplink),
      (''PATCH'', api [''seats'', ''*''], UpdateSeat),
      (''DELETE'', api [''seats'', ''*''], DeleteSeat),
      (''GET'', api [''seats'', ''*'', ''log''], SeatLog),
      (''GET'', api [''seats'', ''*'', ''clients''], PairedClients),
      (''GET'', api [''seats'', ''*'', ''sunshine''], SunshineAccess),
      (''GET'', api [''seats'', ''*'', ''pending''], PendingPairings),
      (''POST'', api [''seats'', ''*'', ''pair''], PairDevice),
      (''POST'', api [''seats'', ''*'', ''pending'', ''discard''], DiscardPairing),
      (''POST'', api [''seats'', ''*'', ''unpair''], Unpair),
      (''GET'', api [''seats'', ''*'', ''software''], GetSoftware),
      (''GET'', api [''seats'', ''*'', ''software'', ''search''], SearchSoftware),
      (''POST'', api [''seats'', ''*'', ''software''], InstallSoftware),
      (''DELETE'', api [''seats'', ''*'', ''software'', ''*''], RemoveSoftware),
      (''POST'', api [''seats'', ''*'', ''appimages''], InstallAppImage),
      (''DELETE'', api [''seats'', ''*'', ''appimages'', ''*''], RemoveAppImage),
      (''POST'', api [''seats'', ''*'', ''files''], UploadFiles),
      (''GET'', api [''library''], GetLibrary),
      (''POST'', api [''library'', ''sync''], SyncLibrary),
      (''POST'', api [''library'', ''import''], ImportLibrary),
      (''POST'', api [''library'', ''unwatch''], UnwatchLibrary),
      (''DELETE'', api [''library'', ''*''], RemoveTitle),
      (''POST'', api [''library'', ''*'', ''offer'', ''*''], OfferTitle),
      (''POST'', api [''library'', ''readmit'', ''*''], ReadmitTitle),
      (''POST'', api [''library'', ''setups'', ''*''], AllowFolderSetup),
      (''POST'', api [''library'', ''share'', ''*''], ShareLutrisGame),
      (''POST'', api [''library'', ''share-faugus'', ''*''], ShareFaugusGame),
      (''POST'', api [''library'', ''share-heroic'', ''*''], ShareHeroicGame),
      (''POST'', api [''seats'', ''*'', ''*''], SeatAction)]"

text \<open>The page of a daemon that does not reach Incus.\<close>

definition setup_routes :: "route list" where
  "setup_routes =
     [(''GET'', api [''state''], SetupState), (''POST'', api [''password''], ChangePassword),
      (''POST'', api [''prepare''], PrepareHost), (''POST'', api [''restart''], RestartDaemon),
      (''POST'', api [''uninstall''], RemoveHost)]"

text \<open>
  \<open>ServeMux\<close> takes the most specific pattern. These lists put it first: where two patterns can
  match one request, the earlier has a literal wherever the later has one.
\<close>

definition can_meet :: "route \<Rightarrow> route \<Rightarrow> bool" where
  "can_meet r r' = (case (r, r') of ((m, ps, _), (m', ps', _)) \<Rightarrow>
     m = m' \<and> list_all2 (\<lambda>p q. p = Wild \<or> q = Wild \<or> p = q) ps ps')"

definition as_special :: "route \<Rightarrow> route \<Rightarrow> bool" where
  "as_special r r' = (case (r, r') of ((_, ps, _), (_, ps', _)) \<Rightarrow> list_all2 (\<lambda>p q. q = Wild \<or> p = q) ps ps')"

fun special_first :: "route list \<Rightarrow> bool" where
  "special_first [] = True"
| "special_first (r # rs) = (list_all (\<lambda>r'. can_meet r r' \<longrightarrow> as_special r r') rs \<and> special_first rs)"

lemma routes_special_first:
  "special_first open_routes \<and> special_first guarded_routes \<and> special_first setup_routes"
  by code_simp

text \<open>What a request gets that has no route: another method may have one.\<close>

definition no_route :: "route list \<Rightarrow> string list \<Rightarrow> nat" where
  "no_route rs path = (if list_ex (\<lambda>(m, ps, a). list_all2 match_segment ps path) rs then 405 else 404)"

section \<open>Handlers\<close>

definition refusal_status :: "refusal \<Rightarrow> nat" where
  "refusal_status x =
     (case x of Forbidden \<Rightarrow> 403 | UnsupportedMediaType \<Rightarrow> 415 | TooLargeBody \<Rightarrow> 413 | BadRequest \<Rightarrow> 400)"

definition issued :: "means \<Rightarrow> visit \<Rightarrow> server \<Rightarrow> string" where
  "issued c v s = issue (hmac c) (v_now v) (v_nonce v) (s_store s)"

definition login_fields :: "string list" where
  "login_fields = [''username'', ''password'']"

definition setup_fields :: "string list" where
  "setup_fields = [''username'', ''password'', ''confirm'']"

definition password_fields :: "string list" where
  "password_fields = [''username'', ''current'', ''new'', ''confirm'']"

text \<open>\<open>login\<close>; none where \<open>Attempt\<close> would fail.\<close>

definition login :: "means \<Rightarrow> visit \<Rightarrow> server \<Rightarrow> served option" where
  "login c v s =
     (case attempt (v_now v) (v_source v) (s_limiter s) of
        None \<Rightarrow> None
      | Some (tab, ok, wait) \<Rightarrow>
          let s = s\<lparr>s_limiter := tab\<rparr> in
          if \<not> ok then Some (s, 429, [])
          else case decode c login_fields (body (v_request v)) of
            None \<Rightarrow> Some (s, 400, [])
          | Some f \<Rightarrow>
              if \<not> check (derive c) (f ''username'') (f ''password'') (s_store s)
              then Some (s, 401, [Guessed False])
              else let s = s\<lparr>s_limiter := succeeded (v_source v) (s_limiter s)\<rparr>
                   in Some (s, 200, [Guessed True, Opened (issued c v s)]))"

definition set_up :: "means \<Rightarrow> visit \<Rightarrow> server \<Rightarrow> served" where
  "set_up c v s =
     (if \<not> needs_setup (s_store s) then (s, 409, [])
      else case decode c setup_fields (body (v_request v)) of
        None \<Rightarrow> (s, 400, [])
      | Some f \<Rightarrow>
          if f ''password'' \<noteq> f ''confirm'' then (s, 400, [])
          else
            let user = trim_space (f ''username''); user = (if user = [] then ''admin'' else user)
            in case claim (derive c) (v_faults v) (v_random v) (v_now v) user (f ''password'') (s_store s) of
                 (st, Some e) \<Rightarrow> (s\<lparr>s_store := st\<rparr>, 400, [])
               | (st, None) \<Rightarrow> let s = s\<lparr>s_store := st\<rparr> in (s, 200, [Opened (issued c v s)]))"

definition change_password :: "means \<Rightarrow> visit \<Rightarrow> server \<Rightarrow> served option" where
  "change_password c v s =
     (case decode c password_fields (body (v_request v)) of
        None \<Rightarrow> Some (s, 400, [])
      | Some f \<Rightarrow>
        (case attempt (v_now v) (v_source v) (s_limiter s) of
           None \<Rightarrow> None
         | Some (tab, ok, wait) \<Rightarrow>
             let s = s\<lparr>s_limiter := tab\<rparr> in
             if \<not> ok then Some (s, 429, [])
             else if \<not> check (derive c) (username (creds (s_store s))) (f ''current'') (s_store s)
             then Some (s, 401, [Guessed False])
             else
               let s = s\<lparr>s_limiter := succeeded (v_source v) (s_limiter s)\<rparr>
               in if f ''new'' \<noteq> f ''confirm'' then Some (s, 400, [Guessed True])
                  else
                    let user = (if f ''username'' = [] then username (creds (s_store s)) else f ''username'')
                    in case set_password (derive c) (v_faults v) (v_random v) (v_now v) user (f ''new'') (s_store s) of
                         (st, Some e) \<Rightarrow> Some (s\<lparr>s_store := st\<rparr>, 400, [Guessed True])
                       | (st, None) \<Rightarrow> let s = s\<lparr>s_store := st\<rparr>
                                        in Some (s, 200, [Guessed True, Opened (issued c v s)])))"

text \<open>\<open>confirmPassword\<close>: whether the request may go on.\<close>

definition confirm_password :: "means \<Rightarrow> bool \<Rightarrow> visit \<Rightarrow> server \<Rightarrow> (server \<times> bool \<times> page_event list) option" where
  "confirm_password c needed v s =
     (if \<not> needed then Some (s, True, [])
      else case attempt (v_now v) (v_source v) (s_limiter s) of
        None \<Rightarrow> None
      | Some (tab, ok, wait) \<Rightarrow>
          let s = s\<lparr>s_limiter := tab\<rparr> in
          if \<not> ok then Some (s, False, [])
          else case decode c [''password''] (body (v_request v)) of
            None \<Rightarrow> Some (s, False, [])
          | Some f \<Rightarrow>
              if \<not> check (derive c) (username (creds (s_store s))) (f ''password'') (s_store s)
              then Some (s, False, [Guessed False])
              else Some (s\<lparr>s_limiter := succeeded (v_source v) (s_limiter s)\<rparr>, True, [Guessed True]))"

definition host_request_of :: "means \<Rightarrow> visit \<Rightarrow> host_request option" where
  "host_request_of c v =
     (if trim_space (body (v_request v)) = [] then Some no_host_request else decode_host c (body (v_request v)))"

text \<open>
  Those that act on the host: allowed by the configuration, asked for in a body that parses where
  one is read, and with the password typed again where it is needed.
\<close>

definition confirmed_action ::
  "means \<Rightarrow> bool \<Rightarrow> bool \<Rightarrow> bool \<Rightarrow> action \<Rightarrow> visit \<Rightarrow> server \<Rightarrow> served option" where
  "confirmed_action c allowed reads needed a v s =
     (if \<not> allowed then Some (s, 403, [])
      else case (if reads then host_request_of c v else Some no_host_request) of
        None \<Rightarrow> Some (s, 400, [])
      | Some h \<Rightarrow>
        (case confirm_password c needed v s of
           None \<Rightarrow> None
         | Some (s, ok, es) \<Rightarrow>
             if \<not> ok then Some (s, 401, es)
             else if a = RemoveHost \<and> h_seats h \<and> h_confirm h \<noteq> ''remove'' then Some (s, 400, es)
             else Some (s, 202, es @ [Reached a [] h])))"

definition behind_session :: "means \<Rightarrow> config \<Rightarrow> action \<Rightarrow> string list \<Rightarrow> visit \<Rightarrow> server \<Rightarrow> served option" where
  "behind_session c cfg a ws v s =
     (if a = ChangePassword then change_password c v s
      else if a = RestartDaemon then confirmed_action c (web_update cfg) False False a v s
      else if a = ApplyUpdate then confirmed_action c (web_update cfg) False (update_needs_password cfg) a v s
      else if a = PrepareHost then confirmed_action c (web_update cfg) True (update_needs_password cfg) a v s
      else if a = RemoveHost then confirmed_action c (web_uninstall cfg) True True a v s
      else if a = BridgeUplink then confirmed_action c (web_lan_bridge cfg) True True a v s
      else Some (s, 200, [Reached a ws no_host_request]))"

definition without_session :: "means \<Rightarrow> action \<Rightarrow> visit \<Rightarrow> server \<Rightarrow> served option" where
  "without_session c a v s =
     (case a of Login \<Rightarrow> login c v s | Setup \<Rightarrow> Some (set_up c v s) | _ \<Rightarrow> Some (s, 200, []))"

text \<open>\<open>requireSession\<close>.\<close>

definition has_session :: "means \<Rightarrow> visit \<Rightarrow> server \<Rightarrow> bool" where
  "has_session c v s =
     (case v_cookie v of None \<Rightarrow> False | Some t \<Rightarrow> valid (hmac c) (v_now v) t (s_store s))"

text \<open>A request: the guard, the router, the session, the handler.\<close>

definition serve :: "means \<Rightarrow> config \<Rightarrow> bool \<Rightarrow> visit \<Rightarrow> server \<Rightarrow> served option" where
  "serve c cfg ready v s =
     (case requests (v_request v) of
        Refused x \<Rightarrow> Some (s, refusal_status x, [])
      | Handled r \<Rightarrow>
          if \<not> v_clean v \<or> v_path v = [''api''] then Some (s, 301, [])
          else let v = v\<lparr>v_request := r\<rparr>; m = http_method r in
            case find_route open_routes m (v_path v) of
              Some (a, _) \<Rightarrow> without_session c a v s
            | None \<Rightarrow>
                if v_path v = [] \<or> hd (v_path v) \<noteq> ''api'' then Some (s, 200, [])
                else if \<not> has_session c v s then Some (s, 401, [])
                else let rs = (if ready then guarded_routes else setup_routes) in
                  case find_route rs m (v_path v) of
                  None \<Rightarrow> Some (s, no_route rs (v_path v), [])
                | Some (a, ws) \<Rightarrow> behind_session c cfg a ws v s)"

section \<open>One handler at a time\<close>

text \<open>
  What any handler does with the limiter and with passwords: it takes an attempt or it does not,
  and compares a password only where it has been let through.
\<close>

definition is_guess :: "page_event \<Rightarrow> bool" where
  "is_guess e = (case e of Guessed _ \<Rightarrow> True | _ \<Rightarrow> False)"

definition guess_counted :: "visit \<Rightarrow> server \<Rightarrow> served \<Rightarrow> bool" where
  "guess_counted v s r = (case r of (s', st, es) \<Rightarrow>
     s_limiter s' = s_limiter s \<and> \<not> list_ex is_guess es
     \<or> (\<exists>tab ok w. attempt (v_now v) (v_source v) (s_limiter s) = Some (tab, ok, w)
        \<and> (Guessed True \<notin> set es \<and> s_limiter s' = tab \<and> (list_ex is_guess es \<longrightarrow> ok)
           \<or> Guessed True \<in> set es \<and> Guessed False \<notin> set es \<and> ok \<and> s_limiter s' = succeeded (v_source v) tab)))"

text \<open>The right password was in the body.\<close>

definition knew_password :: "means \<Rightarrow> visit \<Rightarrow> server \<Rightarrow> bool" where
  "knew_password c v s \<longleftrightarrow> (\<exists>fs f user field. decode c fs (body (v_request v)) = Some f
     \<and> check (derive c) user (f field) (s_store s))"

definition well_served :: "means \<Rightarrow> visit \<Rightarrow> server \<Rightarrow> served \<Rightarrow> bool" where
  "well_served c v s r = (case r of (s', st, es) \<Rightarrow>
     (Guessed True \<in> set es \<longrightarrow> knew_password c v s)
     \<and> (\<forall>t. Opened t \<in> set es \<longrightarrow> t = issue (hmac c) (v_now v) (v_nonce v) (s_store s')))"

lemmas page_defs = guess_counted_def well_served_def is_guess_def issued_def Let_def

lemma login_served:
  assumes "login c v s = Some (s', st, es)"
  shows "guess_counted v s (s', st, es)" "well_served c v s (s', st, es)"
    "s_store s' = s_store s" "Reached a ws h \<notin> set es" "Opened t \<in> set es \<Longrightarrow> Guessed True \<in> set es"
proof -
  show "guess_counted v s (s', st, es)" "s_store s' = s_store s" "Reached a ws h \<notin> set es"
    "Opened t \<in> set es \<Longrightarrow> Guessed True \<in> set es"
    using assms by (auto simp: login_def page_defs split: option.splits prod.splits if_splits)
  show "well_served c v s (s', st, es)"
    using assms by (fastforce simp: login_def page_defs knew_password_def split: option.splits prod.splits if_splits)
qed

lemma set_up_served:
  assumes "set_up c v s = (s', st, es)"
  shows "guess_counted v s (s', st, es)" "well_served c v s (s', st, es)"
    "s_store s' \<noteq> s_store s \<Longrightarrow> needs_setup (s_store s)" "Reached a ws h \<notin> set es"
    "Opened t \<in> set es \<Longrightarrow> needs_setup (s_store s)"
  using assms by (auto simp: set_up_def page_defs split: option.splits prod.splits if_splits)

lemma change_password_served:
  assumes "change_password c v s = Some (s', st, es)"
  shows "guess_counted v s (s', st, es)" "well_served c v s (s', st, es)"
    "s_store s' \<noteq> s_store s \<Longrightarrow> Guessed True \<in> set es" "Reached a ws h \<notin> set es"
    "Opened t \<in> set es \<Longrightarrow> Guessed True \<in> set es"
proof -
  show "guess_counted v s (s', st, es)" "s_store s' \<noteq> s_store s \<Longrightarrow> Guessed True \<in> set es" "Reached a ws h \<notin> set es"
    "Opened t \<in> set es \<Longrightarrow> Guessed True \<in> set es"
    using assms by (auto simp: change_password_def page_defs split: option.splits prod.splits if_splits)
  show "well_served c v s (s', st, es)"
    using assms by (fastforce simp: change_password_def page_defs knew_password_def split: option.splits prod.splits if_splits)
qed

lemma confirm_password_served:
  assumes "confirm_password c needed v s = Some (s', ok, es)"
  shows "guess_counted v s (s', st, es)" "well_served c v s (s', st, es)" "s_store s' = s_store s"
    "ok \<Longrightarrow> needed \<Longrightarrow> Guessed True \<in> set es" "Reached a ws h \<notin> set es" "Opened t \<notin> set es"
proof -
  show "guess_counted v s (s', st, es)" "s_store s' = s_store s"
    "ok \<Longrightarrow> needed \<Longrightarrow> Guessed True \<in> set es" "Reached a ws h \<notin> set es" "Opened t \<notin> set es"
    using assms by (auto simp: confirm_password_def page_defs split: option.splits prod.splits if_splits)
  show "well_served c v s (s', st, es)"
    using assms by (fastforce simp: confirm_password_def page_defs knew_password_def split: option.splits prod.splits if_splits)
qed

lemma append_reached:
  "guess_counted v s (s', st, es @ [Reached a ws h]) = guess_counted v s (s', st, es)"
  "well_served c v s (s', st, es @ [Reached a ws h]) = well_served c v s (s', st, es)"
  by (simp_all add: guess_counted_def well_served_def is_guess_def)

lemma quiet_served: "guess_counted v s (s, st, []) \<and> well_served c v s (s, st, [])"
  by (simp add: guess_counted_def well_served_def)

lemma reached_quiet: "guess_counted v s (s, st, [Reached a ws h]) \<and> well_served c v s (s, st, [Reached a ws h])"
  by (simp add: guess_counted_def well_served_def is_guess_def)

lemma confirmed_action_served:
  assumes "confirmed_action c allowed reads needed a v s = Some (s', st, es)"
  shows "guess_counted v s (s', st, es) \<and> well_served c v s (s', st, es) \<and> s_store s' = s_store s
    \<and> (\<forall>t. Opened t \<notin> set es)
    \<and> (\<forall>b ws h. Reached b ws h \<in> set es \<longrightarrow> b = a \<and> allowed \<and> (needed \<longrightarrow> Guessed True \<in> set es)
         \<and> (a = RemoveHost \<and> h_seats h \<longrightarrow> h_confirm h = ''remove''))"
proof (cases "\<not> allowed \<or> (reads \<and> host_request_of c v = None)")
  case True
  have "s' = s \<and> es = []" using True assms by (cases allowed) (auto simp: confirmed_action_def)
  then show ?thesis using quiet_served [of v s st c] by simp
next
  case False
  then obtain h where h: "(if reads then host_request_of c v else Some no_host_request) = Some h" "allowed" by (cases reads) auto
  with assms obtain s2 ok es2 where p: "confirm_password c needed v s = Some (s2, ok, es2)"
    by (auto simp: confirmed_action_def split: option.splits)
  have "s' = s2 \<and> (es = es2 \<or> es = es2 @ [Reached a [] h] \<and> ok
      \<and> (a = RemoveHost \<and> h_seats h \<longrightarrow> h_confirm h = ''remove''))"
    using assms h p by (auto simp: confirmed_action_def split: if_splits)
  with confirm_password_served [OF p] h(2) show ?thesis by (auto simp: append_reached)
qed

definition asked_again :: "config \<Rightarrow> action \<Rightarrow> bool" where
  "asked_again cfg a \<longleftrightarrow>
     a \<in> {RemoveHost, BridgeUplink, ChangePassword} \<or> a \<in> {ApplyUpdate, PrepareHost} \<and> update_needs_password cfg"

definition allowed_here :: "config \<Rightarrow> action \<Rightarrow> bool" where
  "allowed_here cfg a \<longleftrightarrow>
     (a \<in> {ApplyUpdate, PrepareHost, RestartDaemon} \<longrightarrow> web_update cfg) \<and> (a = RemoveHost \<longrightarrow> web_uninstall cfg)
     \<and> (a = BridgeUplink \<longrightarrow> web_lan_bridge cfg)"

lemma behind_session_served:
  assumes "behind_session c cfg a ws v s = Some (s', st, es)"
  shows "guess_counted v s (s', st, es) \<and> well_served c v s (s', st, es)
    \<and> (s_store s' \<noteq> s_store s \<or> (\<exists>t. Opened t \<in> set es) \<longrightarrow> Guessed True \<in> set es)
    \<and> (\<forall>b xs h. Reached b xs h \<in> set es \<longrightarrow> b = a \<and> allowed_here cfg b \<and> (asked_again cfg b \<longrightarrow> Guessed True \<in> set es)
         \<and> (b = RemoveHost \<and> h_seats h \<longrightarrow> h_confirm h = ''remove''))"
proof -
  consider "a = ChangePassword" | "a = ApplyUpdate" | "a = PrepareHost" | "a = RemoveHost" | "a = BridgeUplink"
    | "a = RestartDaemon"
    | "a \<notin> {ChangePassword, ApplyUpdate, PrepareHost, RemoveHost, BridgeUplink, RestartDaemon}" by blast
  then show ?thesis
  proof cases
    case 1
    with assms have "change_password c v s = Some (s', st, es)" by (simp add: behind_session_def)
    from change_password_served [OF this] show ?thesis by blast
  next
    case 2
    with assms have "confirmed_action c (web_update cfg) False (update_needs_password cfg) a v s = Some (s', st, es)"
      by (simp add: behind_session_def)
    from confirmed_action_served [OF this] 2 show ?thesis by (auto simp: asked_again_def allowed_here_def)
  next
    case 3
    with assms have "confirmed_action c (web_update cfg) True (update_needs_password cfg) a v s = Some (s', st, es)"
      by (simp add: behind_session_def)
    from confirmed_action_served [OF this] 3 show ?thesis by (auto simp: asked_again_def allowed_here_def)
  next
    case 4
    with assms have "confirmed_action c (web_uninstall cfg) True True a v s = Some (s', st, es)"
      by (simp add: behind_session_def)
    from confirmed_action_served [OF this] 4 show ?thesis by (auto simp: asked_again_def allowed_here_def)
  next
    case 5
    with assms have "confirmed_action c (web_lan_bridge cfg) True True a v s = Some (s', st, es)"
      by (simp add: behind_session_def)
    from confirmed_action_served [OF this] 5 show ?thesis by (auto simp: asked_again_def allowed_here_def)
  next
    case 6
    with assms have "confirmed_action c (web_update cfg) False False a v s = Some (s', st, es)"
      by (simp add: behind_session_def)
    from confirmed_action_served [OF this] 6 show ?thesis by (auto simp: asked_again_def allowed_here_def)
  next
    case 7
    with assms have "s' = s" "es = [Reached a ws no_host_request]" by (auto simp: behind_session_def)
    with 7 reached_quiet [of v s st a ws no_host_request c] show ?thesis by (auto simp: asked_again_def allowed_here_def)
  qed
qed

lemma without_session_served:
  assumes "without_session c a v s = Some (s', st, es)"
  shows "guess_counted v s (s', st, es) \<and> well_served c v s (s', st, es)
    \<and> (s_store s' \<noteq> s_store s \<longrightarrow> needs_setup (s_store s))
    \<and> ((\<exists>t. Opened t \<in> set es) \<longrightarrow> needs_setup (s_store s) \<or> Guessed True \<in> set es)
    \<and> (\<forall>b ws h. Reached b ws h \<notin> set es)"
proof -
  consider "a = Login" | "a = Setup" | "a \<notin> {Login, Setup}" by blast
  then show ?thesis
  proof cases
    case 1
    with assms have "login c v s = Some (s', st, es)" by (simp add: without_session_def)
    from login_served [OF this] show ?thesis by auto
  next
    case 2
    with assms have "set_up c v s = (s', st, es)" by (simp add: without_session_def)
    from set_up_served [OF this] show ?thesis by auto
  next
    case 3
    with assms have "s' = s" "es = []" by (auto simp: without_session_def split: action.splits)
    with quiet_served [of v s st c] show ?thesis by auto
  qed
qed

lemma serve_cases:
  assumes "serve c cfg ready v s = Some r"
  obtains st where "r = (s, st, [])"
    | a where "requests (v_request v) = Handled (v_request v)" "without_session c a v s = Some r"
    | a ws where "requests (v_request v) = Handled (v_request v)" "has_session c v s"
        "behind_session c cfg a ws v s = Some r"
proof (cases "requests (v_request v)")
  case (Refused x)
  with assms that(1) show thesis by (auto simp: serve_def)
next
  case (Handled q)
  then have q: "q = v_request v" using handled_here by blast
  have "v\<lparr>v_request := v_request v\<rparr> = v" by simp
  with assms Handled q that show thesis
    by (auto simp: serve_def Let_def split: if_splits option.splits prod.splits)
qed

text \<open>
  Property C16: nothing behind the session is reached without it. Whatever a request carries, a
  handler behind the session comes to its work only for a request this page made, with a session
  cookie that holds; what acts on the host only where the configuration allows it, and the
  removal, the bridge and, where the configuration says so, an update or a preparation only when
  the right password came with the request; deleting the seats needs its word as well. The
  password changes, and a session is handed out, only on a machine nobody has claimed or to
  somebody who sent the right password; a session that holds is what a changed one needs besides.
\<close>

theorem nothing_without_a_session:
  assumes "serve c cfg ready v s = Some (s', st, es)"
  shows "(Reached a ws h \<in> set es \<longrightarrow>
      has_session c v s \<and> \<not> cross_site (v_request v) \<and> allowed_here cfg a
      \<and> (asked_again cfg a \<longrightarrow> knew_password c v s) \<and> (a = RemoveHost \<and> h_seats h \<longrightarrow> h_confirm h = ''remove''))
    \<and> (s_store s' \<noteq> s_store s \<longrightarrow> \<not> cross_site (v_request v)
      \<and> (needs_setup (s_store s) \<or> has_session c v s \<and> knew_password c v s))
    \<and> (Opened t \<in> set es \<longrightarrow> t = issue (hmac c) (v_now v) (v_nonce v) (s_store s')
      \<and> (needs_setup (s_store s) \<or> knew_password c v s))"
  using assms
proof (cases rule: serve_cases)
  case (1 st)
  then show ?thesis by simp
next
  case (2 a)
  with without_session_served [of c a v s s' st es] handled_here [OF 2(1)] show ?thesis
    by (auto simp: well_served_def)
next
  case (3 a ws)
  with behind_session_served [of c cfg a ws v s s' st es] handled_here [OF 3(1)] show ?thesis
    by (auto simp: well_served_def)
qed

definition page_visit :: "string \<Rightarrow> string list \<Rightarrow> string \<Rightarrow> int \<Rightarrow> visit" where
  "page_visit m path b now =
     \<lparr>v_request = sample_login\<lparr>http_method := m, url_path := ''/'' @ join ''/'' path, body := b\<rparr>, v_path = path, v_clean = True,
      v_cookie = Some ''1000:bm9uY2U.bWFj'', v_source = ''10.0.0.9'', v_now = now, v_nonce = [7],
      v_random = plain_random, v_faults = (\<lambda>_. False)\<rparr>"

text \<open>Every body says the same to everybody, and one password is right.\<close>

definition toy_means :: means where
  "toy_means =
     \<lparr>derive = (\<lambda>p _ _ _ _ _. p), hmac = (\<lambda>k p. map of_char k),
      decode = (\<lambda>fs b. Some (\<lambda>x. if x = ''username'' then ''anna'' else b)),
      decode_host = (\<lambda>b. Some (no_host_request\<lparr>h_seats := True, h_confirm := ''remove''\<rparr>))\<rparr>"

definition claimed_server :: server where
  "claimed_server =
     \<lparr>s_store = \<lparr>creds = no_credentials\<lparr>username := ''anna'', pw_hash := ''right'', session_key := ''key''\<rparr>,
        disk = \<lparr>cred_file = Missing, temp_files = 0\<rparr>\<rparr>, s_limiter = []\<rparr>"

lemma cookie_aside:
  "v_request (v\<lparr>v_cookie := t\<rparr>) = v_request v" "v_source (v\<lparr>v_cookie := t\<rparr>) = v_source v"
  "v_now (v\<lparr>v_cookie := t\<rparr>) = v_now v"
  by simp_all

lemma other_cookie:
  "confirm_password c needed (v\<lparr>v_cookie := t\<rparr>) s = confirm_password c needed v s"
  "host_request_of c (v\<lparr>v_cookie := t\<rparr>) = host_request_of c v"
  unfolding confirm_password_def host_request_of_def cookie_aside by (rule refl)+

lemma nothing_without_a_session_witness:
  "asked_again default_config RemoveHost \<and>
   knew_password toy_means (page_visit ''POST'' [''api'', ''uninstall''] ''right'' 1
       \<lparr>v_cookie := Some (issue (hmac toy_means) 0 [7] (s_store claimed_server))\<rparr>) claimed_server"
proof -
  let ?v = "page_visit ''POST'' [''api'', ''uninstall''] ''right'' 1
       \<lparr>v_cookie := Some (issue (hmac toy_means) 0 [7] (s_store claimed_server))\<rparr>"
  let ?h = "no_host_request\<lparr>h_seats := True, h_confirm := ''remove''\<rparr>"
  have ok: "has_session toy_means ?v claimed_server"
    by (simp add: has_session_def page_visit_def claimed_server_def toy_means_def valid_issue in_int64_def unix_def
        session_ttl_def second_def)
  have r: "requests (v_request ?v) = Handled (v_request ?v)"
    by (simp add: page_visit_def requests_def same_origin_def safe_method_def media_type_def is_upload_def
        sample_login_def auth_paths_def read_body_def max_auth_body_def max_body_def)
  have f: "find_route open_routes ''POST'' [''api'', ''uninstall''] = None"
    "find_route guarded_routes ''POST'' [''api'', ''uninstall''] = Some (RemoveHost, [])" by code_simp+
  have "case behind_session toy_means default_config RemoveHost [] (page_visit ''POST'' [''api'', ''uninstall''] ''right'' 1)
      claimed_server of None \<Rightarrow> False | Some (s', st, es) \<Rightarrow> es = [Guessed True, Reached RemoveHost [] ?h]"
    by code_simp
  moreover have "behind_session toy_means default_config RemoveHost [] ?v claimed_server
      = behind_session toy_means default_config RemoveHost [] (page_visit ''POST'' [''api'', ''uninstall''] ''right'' 1) claimed_server"
    unfolding behind_session_def confirmed_action_def other_cookie by (simp only: action.distinct if_True if_False)
  ultimately obtain s' st where b: "behind_session toy_means default_config RemoveHost [] ?v claimed_server
      = Some (s', st, [Guessed True, Reached RemoveHost [] ?h])"
    by (auto split: option.splits)
  have v: "v_clean ?v" "v_path ?v = [''api'', ''uninstall'']" "http_method (v_request ?v) = ''POST''"
    by (simp_all add: page_visit_def)
  have "?v\<lparr>v_request := v_request ?v\<rparr> = ?v" by simp
  then have s: "serve toy_means default_config True ?v claimed_server
      = Some (s', st, [Guessed True, Reached RemoveHost [] ?h])"
    using ok r f b v by (simp add: serve_def Let_def)
  have "asked_again default_config RemoveHost" by (simp add: asked_again_def)
  with nothing_without_a_session [OF s, of RemoveHost "[]" "no_host_request\<lparr>h_seats := True, h_confirm := ''remove''\<rparr>"]
  show ?thesis by simp
qed

section \<open>Guessing\<close>

fun serve_all :: "means \<Rightarrow> config \<Rightarrow> bool \<Rightarrow> visit list \<Rightarrow> server \<Rightarrow> (server \<times> page_event list) option" where
  "serve_all c cfg ready [] s = Some (s, [])"
| "serve_all c cfg ready (v # vs) s =
     (case serve c cfg ready v s of
        None \<Rightarrow> None
      | Some (s', st, es) \<Rightarrow>
          (case serve_all c cfg ready vs s' of None \<Rightarrow> None | Some (s'', es') \<Rightarrow> Some (s'', es @ es')))"

lemma confirm_password_total:
  "attempt (v_now v) (v_source v) (s_limiter s) \<noteq> None \<Longrightarrow> confirm_password c needed v s \<noteq> None"
  by (auto simp: confirm_password_def Let_def split: option.splits prod.splits)

lemma confirmed_action_total:
  assumes "attempt (v_now v) (v_source v) (s_limiter s) \<noteq> None"
  shows "confirmed_action c allowed reads needed a v s \<noteq> None"
proof -
  obtain s2 ok es where "confirm_password c needed v s = Some (s2, ok, es)"
    using confirm_password_total [OF assms, of c needed] by (cases "confirm_password c needed v s") auto
  then show ?thesis by (auto simp: confirmed_action_def split: option.splits)
qed

lemma handlers_total:
  assumes "attempt (v_now v) (v_source v) (s_limiter s) \<noteq> None"
  shows "without_session c a v s \<noteq> None \<and> behind_session c cfg a ws v s \<noteq> None"
proof -
  have "login c v s \<noteq> None" "change_password c v s \<noteq> None"
    using assms by (auto simp: login_def change_password_def Let_def split: option.splits prod.splits)
  moreover from this have "without_session c a v s \<noteq> None"
    by (cases "set_up c v s") (auto simp: without_session_def split: action.splits)
  ultimately show ?thesis using confirmed_action_total [OF assms] by (simp add: behind_session_def)
qed

lemma serve_total:
  assumes "attempt (v_now v) (v_source v) (s_limiter s) \<noteq> None"
  shows "serve c cfg ready v s \<noteq> None"
proof (cases "requests (v_request v)")
  case (Handled q)
  then have "q = v_request v" using handled_here by blast
  moreover have "v\<lparr>v_request := v_request v\<rparr> = v" by simp
  ultimately show ?thesis using Handled handlers_total [OF assms]
    by (auto simp: serve_def Let_def split: option.splits prod.splits)
qed (simp add: serve_def)

lemma serve_counted: "serve c cfg ready v s = Some r \<Longrightarrow> guess_counted v s r"
proof (elim serve_cases)
  fix st
  assume "r = (s, st, [])"
  then show "guess_counted v s r" using quiet_served [of v s st] by simp
next
  fix a
  assume "without_session c a v s = Some r"
  then show "guess_counted v s r" using without_session_served by (cases r) blast
next
  fix a ws
  assume "behind_session c cfg a ws v s = Some r"
  then show "guess_counted v s r" using behind_session_served by (cases r) blast
qed

lemma shut_out:
  assumes "\<forall>w \<in> set ws. \<exists>t. allow_key (v_now w) (bucket (v_source w)) (s_limiter s) = (s_limiter s, False, t)"
  shows "\<exists>s' es. serve_all c cfg ready ws s = Some (s', es) \<and> \<not> list_ex is_guess es \<and> s_limiter s' = s_limiter s"
  using assms
proof (induction ws arbitrary: s)
  case (Cons w ws)
  then obtain t where "allow_key (v_now w) (bucket (v_source w)) (s_limiter s) = (s_limiter s, False, t)" by auto
  then have t: "attempt (v_now w) (v_source w) (s_limiter s) = Some (s_limiter s, False, t)" by (simp add: attempt_def)
  with serve_total [of w s c cfg ready] obtain s1 st es where
    s1: "serve c cfg ready w s = Some (s1, st, es)" by (cases "serve c cfg ready w s") auto
  with serve_counted [OF s1] t have "s_limiter s1 = s_limiter s \<and> \<not> list_ex is_guess es"
    by (auto simp: guess_counted_def)
  with Cons.IH [of s1] Cons.prems s1 show ?case by auto
qed simp



end
