(* ===== verification/Host_Actions.thy ===== *)
theory Host_Actions
  imports Page
begin

text \<open>
  What the page does to the machine itself once a request has come through to it
  (internal/api/host.go and server.go, internal/prepare, internal/uninstall): preparing it,
  installing a newer Polyseat, restarting the daemon and removing it. A handler is the list of its
  sections under a lock, so that two handlers can be run one after the other or interleaved.
\<close>

section \<open>Who can be named\<close>

definition scan_int :: "string \<Rightarrow> int option" where
  "scan_int s =
     (let s = dropWhile (\<lambda>c. c = CHR '' '' \<or> c = CHR 0x09) s;
          sign = (case s of c # _ \<Rightarrow> if c \<in> set ''+-'' then [c] else [] | [] \<Rightarrow> []);
          ds = takeWhile is_digit (drop (length sign) s)
      in if ds = [] then None
         else case parse_int64 (sign @ ds) of (i, None) \<Rightarrow> Some i | (_, Some _) \<Rightarrow> None)"

definition account_of :: "string \<Rightarrow> string option" where
  "account_of line =
     (let fs = split_on CHR '':'' line in
      if length fs < 7 then None
      else case scan_int (fs ! 2) of
        None \<Rightarrow> None
      | Some uid \<Rightarrow>
          if uid < 1000 \<or> 65534 \<le> uid then None
          else if has_suffix (fs ! 6) ''/nologin'' \<or> has_suffix (fs ! 6) ''/false'' then None
          else Some (fs ! 0))"

text \<open>\<open>accountsFrom\<close>; a file that cannot be read names nobody.\<close>

definition accounts_from :: "string option \<Rightarrow> string list" where
  "accounts_from passwd =
     (case passwd of None \<Rightarrow> [] | Some data \<Rightarrow> List.map_filter account_of (split_on CHR 0x0A data))"

definition known_account :: "string option \<Rightarrow> string \<Rightarrow> bool" where
  "known_account passwd a \<longleftrightarrow> a \<in> set (accounts_from passwd)"

text \<open>\<open>Ready\<close>: both files of the id ranges name root.\<close>

definition prepared :: "string option list \<Rightarrow> bool" where
  "prepared files = list_all (\<lambda>f. case f of None \<Rightarrow> False
     | Some data \<Rightarrow> list_ex (\<lambda>l. has_prefix l ''root:'') (split_on CHR 0x0A data)) files"

text \<open>\<open>lastFrame\<close>: what stands after the last carriage return.\<close>

definition last_frame :: "string \<Rightarrow> string" where
  "last_frame line = trim_right_set [CHR 0x20, CHR 0x09] (rev (takeWhile (\<lambda>c. c \<noteq> CHR 0x0D) (rev line)))"

text \<open>What is asked of systemd for a removal.\<close>

definition removal_args :: "string \<Rightarrow> bool \<Rightarrow> bool \<Rightarrow> string list" where
  "removal_args path seats library =
     [''--collect'', ''--unit=polyseat-uninstall'',
      ''--description=Polyseat: remove Polyseat from this machine'', ''--on-active=2s'', path, ''--yes'']
     @ (if seats then [''--seats''] else []) @ (if library then [''--library''] else [])"

section \<open>The state behind the buttons\<close>

definition prepare_log :: nat where "prepare_log = 600"

record upkeep =
  preparing :: bool
  prep_lines :: "string list"
  prep_failed :: string
  prep_done :: bool
  updating :: bool
  up_lines :: "string list"
  up_failed :: string
  up_version :: string
  removing :: bool
  handed_over :: "string list list"   \<comment> \<open>what systemd was asked to run\<close>

definition idle_host :: upkeep where
  "idle_host = \<lparr>preparing = False, prep_lines = [], prep_failed = [], prep_done = False, updating = False,
     up_lines = [], up_failed = [], up_version = [], removing = False, handed_over = []\<rparr>"

text \<open>What the handlers find: the scripts, the accounts, the release on offer, who is playing.\<close>

record around =
  prepare_script :: "string option"
  uninstall_script :: "string option"
  passwd_file :: "string option"
  offered_release :: "(string \<times> bool) option"   \<comment> \<open>its version, and whether it has a package\<close>
  owned_by_package :: bool
  playing :: "string list"
  systemd_runs :: bool

datatype work =
    LookPreparing | LookUpdating | LookRelease | BeginUpdate | BeginPrepare string
  | LookStreams bool | CallRestart | ClaimRemoval | CallRemoval bool bool

text \<open>The sections: the state after one, and the status where the handler ends there.\<close>

definition look_release :: "around \<Rightarrow> nat option" where
  "look_release e =
     (case offered_release e of
        None \<Rightarrow> Some 409
      | Some (_, package) \<Rightarrow> if \<not> package \<or> \<not> owned_by_package e then Some 409 else None)"

definition begin_update :: "upkeep \<Rightarrow> upkeep \<times> nat option" where
  "begin_update s =
     (if updating s then (s, Some 409)
      else (s\<lparr>updating := True, up_failed := [], up_lines := [], up_version := []\<rparr>, Some 202))"

text \<open>\<open>prepare.Runner.Start\<close>.\<close>

definition begin_prepare :: "around \<Rightarrow> string \<Rightarrow> upkeep \<Rightarrow> upkeep \<times> nat option" where
  "begin_prepare e account s =
     (if prepare_script e = None then (s, Some 409)
      else if account \<noteq> [] \<and> \<not> known_account (passwd_file e) account then (s, Some 409)
      else if preparing s then (s, Some 409)
      else (s\<lparr>preparing := True, prep_lines := [], prep_failed := [], prep_done := False\<rparr>, Some 202))"

definition restart_args :: "string list" where
  "restart_args =
     [''--collect'', ''--unit=polyseat-restart'', ''--description=Polyseat: restart the daemon after an update'',
      ''--on-active=1s'', ''systemctl'', ''restart'', ''polyseatd.service'']"

definition call_restart :: "around \<Rightarrow> upkeep \<Rightarrow> upkeep \<times> nat option" where
  "call_restart e s =
     (if systemd_runs e then (s\<lparr>handed_over := handed_over s @ [restart_args]\<rparr>, Some 202) else (s, Some 500))"

text \<open>\<open>uninstall.Start\<close>: what systemd is to run, or none.\<close>

definition start_removal :: "around \<Rightarrow> bool \<Rightarrow> bool \<Rightarrow> string list option" where
  "start_removal e seats library =
     (if library \<and> \<not> seats then None
      else case uninstall_script e of
        None \<Rightarrow> None
      | Some path \<Rightarrow> if systemd_runs e then Some (removal_args path seats library) else None)"

definition claim_removal :: "upkeep \<Rightarrow> upkeep \<times> nat option" where
  "claim_removal s = (if removing s then (s, Some 409) else (s\<lparr>removing := True\<rparr>, None))"

definition call_removal :: "around \<Rightarrow> bool \<Rightarrow> bool \<Rightarrow> upkeep \<Rightarrow> upkeep \<times> nat option" where
  "call_removal e seats library s =
     (case start_removal e seats library of
        None \<Rightarrow> (s\<lparr>removing := False\<rparr>, Some 500)
      | Some x \<Rightarrow> (s\<lparr>handed_over := handed_over s @ [x]\<rparr>, Some 202))"

definition do_work :: "around \<Rightarrow> work \<Rightarrow> upkeep \<Rightarrow> upkeep \<times> nat option" where
  "do_work e w s =
     (case w of
        LookPreparing \<Rightarrow> (s, if preparing s then Some 409 else None)
      | LookUpdating \<Rightarrow> (s, if updating s then Some 409 else None)
      | LookRelease \<Rightarrow> (s, look_release e)
      | BeginUpdate \<Rightarrow> begin_update s
      | BeginPrepare account \<Rightarrow> begin_prepare e account s
      | LookStreams forced \<Rightarrow> (s, if \<not> forced \<and> playing e \<noteq> [] then Some 409 else None)
      | CallRestart \<Rightarrow> call_restart e s
      | ClaimRemoval \<Rightarrow> claim_removal s
      | CallRemoval seats library \<Rightarrow> call_removal e seats library s)"

lemmas work_defs = do_work_def look_release_def begin_update_def begin_prepare_def call_restart_def
  start_removal_def claim_removal_def call_removal_def restart_args_def

datatype job = DoUpdate | DoPrepare string | DoRestart bool | DoRemove bool bool

text \<open>The handlers from where they are let through, as sections in their order.\<close>

definition update_work :: "work list" where
  "update_work = [LookPreparing, LookRelease, BeginUpdate]"

definition prepare_work :: "string \<Rightarrow> work list" where
  "prepare_work account = [LookUpdating, BeginPrepare account]"

definition restart_work :: "bool \<Rightarrow> work list" where
  "restart_work forced = [LookPreparing, LookStreams forced, CallRestart]"

definition remove_work :: "bool \<Rightarrow> bool \<Rightarrow> work list" where
  "remove_work seats library = [ClaimRemoval, CallRemoval seats library]"

definition job_work :: "job \<Rightarrow> work list" where
  "job_work j =
     (case j of
        DoUpdate \<Rightarrow> update_work
      | DoPrepare account \<Rightarrow> prepare_work account
      | DoRestart forced \<Rightarrow> restart_work forced
      | DoRemove seats library \<Rightarrow> remove_work seats library)"

lemmas job_defs = job_work_def update_work_def prepare_work_def restart_work_def remove_work_def

fun handle_work :: "around \<Rightarrow> work list \<Rightarrow> upkeep \<Rightarrow> upkeep \<times> nat" where
  "handle_work e [] s = (s, 200)"
| "handle_work e (w # ws) s =
     (case do_work e w s of (s', Some st) \<Rightarrow> (s', st) | (s', None) \<Rightarrow> handle_work e ws s')"

text \<open>The ends of the two runs, and a line of one.\<close>

definition update_ends :: "string \<Rightarrow> string option \<Rightarrow> upkeep \<Rightarrow> upkeep" where
  "update_ends version err s =
     (case err of None \<Rightarrow> s\<lparr>updating := False, up_version := version\<rparr>
                | Some e \<Rightarrow> s\<lparr>updating := False, up_failed := e\<rparr>)"

definition prepare_says :: "string \<Rightarrow> upkeep \<Rightarrow> upkeep" where
  "prepare_says line s =
     (let ls = prep_lines s @ [last_frame line]
      in s\<lparr>prep_lines := (if prepare_log < length ls then drop (length ls - prepare_log) ls else ls)\<rparr>)"

definition prepare_ends :: "string option \<Rightarrow> upkeep \<Rightarrow> upkeep" where
  "prepare_ends err s =
     (case err of None \<Rightarrow> s\<lparr>preparing := False, prep_done := True\<rparr>
                | Some e \<Rightarrow> s\<lparr>preparing := False, prep_failed := e\<rparr>)"

section \<open>One after the other\<close>

datatype happening =
  Asked around job | UpdateEnds string "string option" | PrepareSays string | PrepareEnds "string option"

definition happen :: "happening \<Rightarrow> upkeep \<Rightarrow> upkeep" where
  "happen x s =
     (case x of
        Asked e j \<Rightarrow> fst (handle_work e (job_work j) s)
      | UpdateEnds v err \<Rightarrow> update_ends v err s
      | PrepareSays l \<Rightarrow> prepare_says l s
      | PrepareEnds err \<Rightarrow> prepare_ends err s)"

definition one_package_run :: "upkeep \<Rightarrow> bool" where
  "one_package_run s \<longleftrightarrow> \<not> (preparing s \<and> updating s) \<and> length (prep_lines s) \<le> prepare_log"

lemma happen_keeps: "one_package_run s \<Longrightarrow> one_package_run (happen x s)"
  by (auto simp: one_package_run_def happen_def job_defs work_defs update_ends_def prepare_says_def
      prepare_ends_def Let_def split: happening.splits job.splits option.splits)

text \<open>
  As long as requests are answered one after the other there is never more than one run of the
  package manager, a preparation and an update exclude each other, and the log of a preparation
  keeps its last 600 lines.
\<close>

theorem one_run_at_a_time: "one_package_run (fold happen xs idle_host)"
proof -
  have "one_package_run (fold happen xs s)" if "one_package_run s" for s
    using that by (induction xs arbitrary: s) (auto simp: happen_keeps)
  moreover have "one_package_run idle_host" by (simp add: one_package_run_def idle_host_def)
  ultimately show ?thesis by blast
qed

text \<open>
  What systemd is asked for. A restart is asked for only with nothing being prepared and, unless
  it is forced, with nobody playing; a removal hands over the deletion of the seats exactly when it
  was asked for, and never the library without them.
\<close>

theorem what_systemd_is_asked:
  assumes "handle_work e (job_work j) s = (s', st)" "handed_over s' = handed_over s @ [x]"
  shows "(j = DoRestart forced \<longrightarrow> \<not> preparing s \<and> (forced \<or> playing e = []))
    \<and> (j = DoRemove seats library \<longrightarrow>
        \<not> removing s \<and> (''--seats'' \<in> set (drop 6 x) \<longleftrightarrow> seats) \<and> (library \<longrightarrow> seats))"
  using assms
  by (auto simp: job_defs work_defs removal_args_def split: option.splits if_splits)

lemma what_systemd_is_asked_witness:
  "''--seats'' \<in> set (drop 6 (removal_args ''/usr/bin/polyseat-uninstall'' True False))"
proof -
  let ?e = "\<lparr>prepare_script = None, uninstall_script = Some ''/usr/bin/polyseat-uninstall'', passwd_file = None,
    offered_release = None, owned_by_package = False, playing = [], systemd_runs = True\<rparr>"
  have h: "handle_work ?e (job_work (DoRemove True False)) idle_host
      = (idle_host\<lparr>removing := True, handed_over := [removal_args ''/usr/bin/polyseat-uninstall'' True False]\<rparr>, 202)"
    by (simp add: job_defs work_defs idle_host_def)
  show ?thesis
    using what_systemd_is_asked [OF h, of "removal_args ''/usr/bin/polyseat-uninstall'' True False" False True False]
    by (simp add: idle_host_def)
qed

section \<open>What the order of the sections leaves open\<close>

text \<open>
  A restart looks at a preparation and not at an update, so it is granted while the package
  manager installs the update as a child of this process.
\<close>

lemma restart_during_an_update:
  "updating s \<Longrightarrow> \<not> preparing s \<Longrightarrow> playing e = [] \<Longrightarrow> systemd_runs e \<Longrightarrow>
   handle_work e (job_work (DoRestart False)) s = (s\<lparr>handed_over := handed_over s @ [restart_args]\<rparr>, 202)"
  by (simp add: job_defs work_defs)

text \<open>Two handlers, section by section: which one goes on.\<close>

fun interleaved :: "around \<Rightarrow> bool list \<Rightarrow> work list \<Rightarrow> work list \<Rightarrow> upkeep \<Rightarrow> upkeep" where
  "interleaved e [] ws vs s = s"
| "interleaved e (True # qs) (w # ws) vs s =
     (case do_work e w s of (s', r) \<Rightarrow> interleaved e qs (if r = None then ws else []) vs s')"
| "interleaved e (False # qs) ws (v # vs) s =
     (case do_work e v s of (s', r) \<Rightarrow> interleaved e qs ws (if r = None then vs else []) s')"
| "interleaved e (_ # qs) ws vs s = interleaved e qs ws vs s"

text \<open>
  Between the look at the other run and the start of one's own there is no lock that both take, so
  a preparation and an update that are asked for together can both start.
\<close>

lemma both_can_start:
  assumes "prepare_script e = Some p" "offered_release e = Some (v, True)" "owned_by_package e"
  shows "let s = interleaved e [True, False, True, True, False] (job_work DoUpdate) (job_work (DoPrepare [])) idle_host
    in preparing s \<and> updating s"
  using assms by (simp add: job_defs work_defs idle_host_def)

section \<open>The seats around a change of the uplink\<close>

definition running_seats :: "((string \<times> string) list) option \<Rightarrow> string list" where
  "running_seats listed =
     (case listed of None \<Rightarrow> []
      | Some ss \<Rightarrow> map fst (filter (\<lambda>(n, st). st = ''running'' \<or> st = ''starting'') ss))"

text \<open>\<open>resumeSeats\<close>: every seat is started, whatever became of those before it.\<close>

definition resume_seats :: "(string \<Rightarrow> string option) \<Rightarrow> string list \<Rightarrow> string list" where
  "resume_seats starts names =
     (if names = [] then []
      else [[], ''Starting the seats that were up before this:'']
        @ map (\<lambda>n. case starts n of None \<Rightarrow> ''  '' @ n | Some e \<Rightarrow> ''  ! '' @ n @ '' did not start: '' @ e) names
        @ [[], ''Each of them reports the rest of the way up on its own card.''])"

end
