(* ===== verification/Hardware.thy ===== *)
theory Hardware
  imports Filepath Host_Locale
begin

text \<open>
  What a seat gets of the machine it stands on (internal/seat/gpu.go, nvidianodes.go, input.go,
  encoder.go and mirrors.go): the card, the device nodes that have to be there before a container
  starts, the names of the devices in it, what Sunshine says it encodes with, and where its
  packages come from.
\<close>

section \<open>The card\<close>

datatype vendor = NoVendor | VendorNVIDIA | VendorAMD

record gpu =
  vendor :: vendor
  render_node :: string
  pci :: string
  driver :: string

definition no_gpu :: gpu where
  "no_gpu = \<lparr>vendor = NoVendor, render_node = [], pci = [], driver = []\<rparr>"

text \<open>
  One entry of \<open>/sys/class/drm\<close>: what \<open>device/vendor\<close> holds and where the links \<open>device\<close> and
  \<open>device/driver\<close> lead, each if it can be read. The directory is its names with their entries.
\<close>

record drm_entry =
  vendor_file :: "string option"
  device_link :: "string option"
  driver_link :: "string option"

type_synonym drm = "(string \<times> drm_entry) list"

definition read_gpu :: "drm \<Rightarrow> string \<Rightarrow> gpu option" where
  "read_gpu drm node =
     (case map_of drm node of
        None \<Rightarrow> None
      | Some d \<Rightarrow>
        (case vendor_file d of
           None \<Rightarrow> None
         | Some t \<Rightarrow>
             let v = trim_space t;
                 g = \<lparr>vendor = NoVendor, render_node = ''/dev/dri/'' @ node,
                      pci = (case device_link d of None \<Rightarrow> [] | Some l \<Rightarrow> path_base l),
                      driver = (case driver_link d of None \<Rightarrow> [] | Some l \<Rightarrow> path_base l)\<rparr>
             in if v = ''0x10de'' then Some (g\<lparr>vendor := VendorNVIDIA\<rparr>)
                else if v = ''0x1002'' then Some (g\<lparr>vendor := VendorAMD\<rparr>)
                else None))"

text \<open>Sorted by name, bytes compared as \<open>sort.Strings\<close> does.\<close>

fun before_or_same :: "string \<Rightarrow> string \<Rightarrow> bool" where
  "before_or_same [] _ = True"
| "before_or_same (_ # _) [] = False"
| "before_or_same (c # cs) (d # ds) =
     ((of_char c :: nat) < of_char d \<or> c = d \<and> before_or_same cs ds)"

fun insert_name :: "string \<Rightarrow> string list \<Rightarrow> string list" where
  "insert_name n [] = [n]"
| "insert_name n (m # ms) = (if before_or_same n m then n # m # ms else m # insert_name n ms)"

definition sort_names :: "string list \<Rightarrow> string list" where
  "sort_names ns = foldr insert_name ns []"

definition supported_cards :: "drm \<Rightarrow> gpu list" where
  "supported_cards drm =
     List.map_filter (read_gpu drm) (sort_names (filter (\<lambda>n. has_prefix n ''renderD'') (map fst drm)))"

definition detect_gpu :: "drm \<Rightarrow> gpu option" where
  "detect_gpu drm =
     (case supported_cards drm of
        [] \<Rightarrow> None
      | [g] \<Rightarrow> Some g
      | g # gs \<Rightarrow> (case filter (\<lambda>g. vendor g = VendorNVIDIA) (g # gs) of n # _ \<Rightarrow> Some n | [] \<Rightarrow> Some g))"

definition gpu_at :: "drm \<Rightarrow> string \<Rightarrow> gpu option" where
  "gpu_at drm node = read_gpu drm (path_base node)"

text \<open>The device a seat is given: the keys beside its type and mode.\<close>

definition gpu_device :: "drm \<Rightarrow> gpu \<Rightarrow> bool \<Rightarrow> (string \<times> string) list" where
  "gpu_device drm g all =
     [(''type'', ''gpu''), (''mode'', ''0666'')]
     @ (if all \<or> pci g = [] then []
        else let cards = supported_cards drm in
          if length cards < 2 then []
          else if list_ex (\<lambda>c. pci c = pci g) cards then [(''pci'', pci g)] else [])"

definition profiles_dir :: string where "profiles_dir = ''/usr/share/nvidia''"

definition profiles_mount :: "(string \<times> string) list" where
  "profiles_mount = [(''type'', ''disk''), (''source'', profiles_dir), (''path'', profiles_dir),
     (''readonly'', ''true''), (''required'', ''false'')]"

definition driver_flags :: "string list" where
  "driver_flags =
     [''--assume-installed'', ''opengl-driver'', ''--assume-installed'', ''vulkan-driver'',
      ''--assume-installed'', ''lib32-opengl-driver'', ''--assume-installed'', ''lib32-vulkan-driver'',
      ''--assume-installed'', ''opencl-nvidia'']"

record stack =
  st_config :: "(string \<times> string) list"
  st_profiles :: "(string \<times> string) list option"   \<comment> \<open>none takes the device off\<close>
  st_packages :: "string list"
  st_driver_flags :: "string list"                    \<comment> \<open>pacman is told the driver is there\<close>
  st_env :: "string list"
  st_encoder :: string
  st_adapter :: string

definition stack_for :: "gpu \<Rightarrow> stack" where
  "stack_for g =
     (if vendor g = VendorAMD
      then \<lparr>st_config = [(''nvidia.runtime'', ''false'')], st_profiles = None,
            st_packages = [''vulkan-radeon'', ''lib32-vulkan-radeon'', ''lib32-mesa'', ''libva-utils''],
            st_driver_flags = [], st_env = [''WLR_RENDER_DRM_DEVICE='' @ render_node g],
            st_encoder = ''vaapi'', st_adapter = render_node g\<rparr>
      else \<lparr>st_config = [(''nvidia.runtime'', ''true''), (''nvidia.driver.capabilities'', ''all'')],
            st_profiles = Some profiles_mount, st_packages = [], st_driver_flags = driver_flags,
            st_env = [''GBM_BACKEND=nvidia-drm'', ''__GLX_VENDOR_LIBRARY_NAME=nvidia''],
            st_encoder = ''nvenc'', st_adapter = []\<rparr>)"

definition drop_in :: "stack \<Rightarrow> string list" where
  "drop_in st =
     [''# Polyseat: the graphics stack this machine has.'',
      ''# Written by polyseatd, changes are overwritten.'', ''[Service]'']
     @ map (\<lambda>l. ''Environment='' @ l) (st_env st)"

lemma read_gpu_node: "read_gpu drm node = Some g \<Longrightarrow> render_node g = ''/dev/dri/'' @ node \<and> vendor g \<noteq> NoVendor"
  by (auto simp: read_gpu_def Let_def split: option.splits if_splits)

lemma set_sort_names [simp]: "set (sort_names ns) = set ns"
proof -
  have "set (insert_name n ms) = insert n (set ms)" for n ms by (induction ms) auto
  then show ?thesis unfolding sort_names_def by (induction ns) auto
qed

lemma supported_card:
  "g \<in> set (supported_cards drm) \<longleftrightarrow>
     (\<exists>n. n \<in> set (map fst drm) \<and> has_prefix n ''renderD'' \<and> read_gpu drm n = Some g)"
  by (force simp: supported_cards_def map_filter_def)

text \<open>
  A seat is pinned to a card only where that matters and only to one that is there. Whatever
  the machine has become since the card was picked, the address in the device is that of a card
  among several that are in the machine now, for an address without a card keeps the container
  from starting; and the card that is picked is one of them.
\<close>

theorem pinned_card_is_there:
  "((''pci'', p) \<in> set (gpu_device drm g all) \<longrightarrow>
      \<not> all \<and> p = pci g \<and> p \<noteq> [] \<and> (\<exists>c \<in> set (supported_cards drm). pci c = p) \<and> 2 \<le> length (supported_cards drm))
    \<and> (detect_gpu drm = Some g \<longrightarrow> g \<in> set (supported_cards drm)
        \<and> (vendor g \<noteq> VendorNVIDIA \<longrightarrow> (\<forall>c \<in> set (supported_cards drm). vendor c \<noteq> VendorNVIDIA)))
    \<and> (detect_gpu drm = None \<longleftrightarrow> supported_cards drm = [])"
proof -
  have "g \<in> set (supported_cards drm) \<and> (vendor g \<noteq> VendorNVIDIA \<longrightarrow> (\<forall>c \<in> set (supported_cards drm). vendor c \<noteq> VendorNVIDIA))"
    if "detect_gpu drm = Some g"
  proof (cases "supported_cards drm")
    case (Cons x xs)
    show ?thesis
    proof (cases "filter (\<lambda>g. vendor g = VendorNVIDIA) (x # xs)")
      case Nil
      with that Cons show ?thesis
        by (cases xs) (auto simp: detect_gpu_def filter_empty_conv split: if_splits)
    next
      case (Cons y ys)
      then have "y \<in> {g \<in> set (x # xs). vendor g = VendorNVIDIA}" by (metis list.set_intros(1) set_filter)
      moreover have "g = y" using that \<open>supported_cards drm = x # xs\<close> Cons
        by (cases xs) (auto simp: detect_gpu_def split: if_splits)
      ultimately show ?thesis using \<open>supported_cards drm = x # xs\<close> by auto
    qed
  qed (use that in \<open>simp add: detect_gpu_def\<close>)
  moreover have "detect_gpu drm = None \<longleftrightarrow> supported_cards drm = []"
    by (auto simp: detect_gpu_def split: list.splits)
  moreover have "(''pci'', p) \<in> set (gpu_device drm g all) \<longrightarrow>
      \<not> all \<and> p = pci g \<and> p \<noteq> [] \<and> (\<exists>c \<in> set (supported_cards drm). pci c = p) \<and> 2 \<le> length (supported_cards drm)"
    by (auto simp: gpu_device_def Let_def list_ex_iff split: if_splits)
  ultimately show ?thesis by blast
qed

section \<open>The nodes a container needs\<close>

text \<open>The driver's description of the card at an address, if it has one.\<close>

fun minor_of :: "string list \<Rightarrow> nat option" where
  "minor_of [] = None"
| "minor_of (l # ls) =
     (case cut l '':'' of
        None \<Rightarrow> minor_of ls
      | Some (key, v) \<Rightarrow>
          if trim_space key \<noteq> ''Device Minor'' then minor_of ls
          else case parse_int64 (trim_space v) of
            (_, Some _) \<Rightarrow> None
          | (i, None) \<Rightarrow> if i < 0 then None else Some (nat i))"

definition nvidia_minor :: "(string \<Rightarrow> string option) \<Rightarrow> string \<Rightarrow> nat option" where
  "nvidia_minor information addr =
     (if addr = [] then None
      else case information addr of None \<Rightarrow> None | Some data \<Rightarrow> minor_of (split_on CHR 0x0A data))"

definition nvidia_nodes_for :: "nat \<Rightarrow> string list" where
  "nvidia_nodes_for minor = [''/dev/nvidiactl'', ''/dev/nvidia'' @ format_int (int minor)]"

text \<open>What creating the nodes does: the nodes there are afterwards, or an error.\<close>

datatype guard_error = NotCreated | StillMissing "string list"

definition missing :: "string list \<Rightarrow> string set \<Rightarrow> string list" where
  "missing nodes there = filter (\<lambda>n. n \<notin> there) nodes"

definition node_guard ::
  "vendor \<Rightarrow> string list \<Rightarrow> (string set \<Rightarrow> string set \<times> bool) \<Rightarrow> string set \<Rightarrow> string set \<times> guard_error option" where
  "node_guard v nodes create there =
     (if v \<noteq> VendorNVIDIA then (there, None)
      else if missing nodes there = [] then (there, None)
      else case create there of
        (there', False) \<Rightarrow> (there', Some NotCreated)
      | (there', True) \<Rightarrow>
          (there', if missing nodes there' = [] then None else Some (StillMissing (missing nodes there'))))"

text \<open>\<open>awaitGPU\<close>; a card whose number the driver does not say is taken for the first.\<close>

definition await_gpu ::
  "gpu \<Rightarrow> (string \<Rightarrow> string option) \<Rightarrow> (nat \<Rightarrow> string set \<Rightarrow> string set \<times> bool) \<Rightarrow> string set
     \<Rightarrow> string set \<times> guard_error option" where
  "await_gpu g information create there =
     (if vendor g \<noteq> VendorNVIDIA then (there, None)
      else let minor = (case nvidia_minor information (pci g) of None \<Rightarrow> 0 | Some m \<Rightarrow> m)
           in node_guard (vendor g) (nvidia_nodes_for minor) (create minor) there)"

lemma node_guard_leaves:
  assumes "node_guard VendorNVIDIA nodes create there = (there', None)"
  shows "set nodes \<subseteq> there' \<and> (set nodes \<subseteq> there \<longrightarrow> there' = there)"
proof (cases "missing nodes there = []")
  case True
  with assms show ?thesis by (auto simp: node_guard_def missing_def filter_empty_conv)
next
  case False
  then have "\<not> set nodes \<subseteq> there" by (auto simp: missing_def filter_empty_conv)
  moreover have "missing nodes there' = []"
    using assms False
    by (cases "create there"; cases "snd (create there)") (simp_all add: node_guard_def split: if_splits)
  ultimately show ?thesis by (auto simp: missing_def filter_empty_conv)
qed

text \<open>
  A container starts only with its card. When the guard lets a start of an NVIDIA seat go
  on, the control node and the node of the card the driver names for the seat's address are there,
  whatever creating them claimed; and where they were there before, nothing is created.
\<close>

theorem start_goes_on_with_the_card:
  assumes "await_gpu g information create there = (there', None)" "vendor g = VendorNVIDIA"
  shows "''/dev/nvidiactl'' \<in> there'
    \<and> (\<forall>m. nvidia_minor information (pci g) = Some m \<longrightarrow> ''/dev/nvidia'' @ format_int (int m) \<in> there')
    \<and> (set (nvidia_nodes_for (case nvidia_minor information (pci g) of None \<Rightarrow> 0 | Some m \<Rightarrow> m)) \<subseteq> there
        \<longrightarrow> there' = there)"
proof -
  let ?nodes = "nvidia_nodes_for (case nvidia_minor information (pci g) of None \<Rightarrow> 0 | Some m \<Rightarrow> m)"
  have "node_guard VendorNVIDIA ?nodes (create (case nvidia_minor information (pci g) of None \<Rightarrow> 0 | Some m \<Rightarrow> m)) there
      = (there', None)"
    using assms by (simp only: await_gpu_def Let_def not_not simp_thms if_False)
  from node_guard_leaves [OF this] have "set ?nodes \<subseteq> there' \<and> (set ?nodes \<subseteq> there \<longrightarrow> there' = there)" .
  then show ?thesis by (cases "nvidia_minor information (pci g)") (simp_all add: nvidia_nodes_for_def)
qed

lemma start_goes_on_with_the_card_witness:
  "''/dev/nvidia1'' \<in> {''/dev/nvidiactl'', ''/dev/nvidia1''}"
proof -
  let ?g = "no_gpu\<lparr>vendor := VendorNVIDIA, pci := ''0000:09:00.0''\<rparr>"
  let ?create = "\<lambda>m there. ({''/dev/nvidiactl'', ''/dev/nvidia1''} :: string set, True)"
  have l: "split_on CHR 0x0A ''Device Minor: 1'' = [''Device Minor: 1'']"
    "cut ''Device Minor: 1'' '':'' = Some (''Device Minor'', '' 1'')"
    "trim_space ''Device Minor'' = ''Device Minor''" "trim_space '' 1'' = ''1''" by code_simp+
  have "parse_int64 ''1'' = (1, None)" by (simp add: parse_int64_def digit_val_def)
  with l have m: "nvidia_minor (\<lambda>_. Some ''Device Minor: 1'') ''0000:09:00.0'' = Some 1"
    by (simp add: nvidia_minor_def)
  have "nvidia_nodes_for 1 = [''/dev/nvidiactl'', ''/dev/nvidia1'']" by code_simp
  then have "await_gpu ?g (\<lambda>_. Some ''Device Minor: 1'') ?create {''/dev/nvidiactl''}
      = ({''/dev/nvidiactl'', ''/dev/nvidia1''}, None)"
    using m by (simp add: await_gpu_def no_gpu_def node_guard_def missing_def)
  from start_goes_on_with_the_card [OF this] show ?thesis by simp
qed

section \<open>Names of devices\<close>

definition plain_node :: "string \<Rightarrow> bool" where
  "plain_node n \<longleftrightarrow> n \<noteq> [] \<and> n = path_base n \<and> n \<noteq> ''.'' \<and> n \<noteq> ''..''"

text \<open>\<open>strings.ReplaceAll\<close> for a text that is not empty.\<close>

function replace_all :: "string \<Rightarrow> string \<Rightarrow> string \<Rightarrow> string" where
  "replace_all old new s =
     (case s of
        [] \<Rightarrow> []
      | c # cs \<Rightarrow>
          if old \<noteq> [] \<and> has_prefix s old then new @ replace_all old new (drop (length old) s)
          else c # replace_all old new cs)"
  by pat_completeness auto
termination
  by (relation "measure (\<lambda>(old, new, s). length s)") auto

declare replace_all.simps [simp del]

definition strip_seat_tag :: "string \<Rightarrow> string \<Rightarrow> string" where
  "strip_seat_tag name seat =
     (let tag = ''('' @ seat @ '')'';
          n = replace_all ('' '' @ tag @ '' '') '' '' (trim_space name)
      in trim_space (trim_suffix n tag))"

text \<open>The node and the name; \<open>read\<close> is the file \<open>device/name\<close> below the node.\<close>

definition describe_input :: "(string \<Rightarrow> string option) \<Rightarrow> string \<Rightarrow> string \<Rightarrow> string \<times> string" where
  "describe_input read node seat =
     (node,
      if \<not> plain_node node then node
      else case read node of
        None \<Rightarrow> node
      | Some raw \<Rightarrow> let n = strip_seat_tag raw seat in if n = [] then node else n)"

section \<open>What Sunshine encodes with\<close>

definition encoder_line :: "string \<Rightarrow> (string \<times> string) option" where
  "encoder_line l =
     (case cut_prefix (trim_space l) ''Found '' of
        None \<Rightarrow> None
      | Some rest \<Rightarrow>
          (case cut rest '' encoder: '' of
             None \<Rightarrow> None
           | Some (codec, e) \<Rightarrow> if e = [] then None else Some (codec, e)))"

definition seen_encoders :: "string \<Rightarrow> (string \<times> string) list" where
  "seen_encoders out = fold (\<lambda>(k, v). AList.update k v) (List.map_filter encoder_line (split_on CHR 0x0A out)) []"

definition backend_of :: "string \<Rightarrow> string" where
  "backend_of e = (case cut e ''_'' of None \<Rightarrow> e | Some (_, suffix) \<Rightarrow> suffix)"

definition parse_encoders :: "string \<Rightarrow> string \<times> string list" where
  "parse_encoders out =
     (let codecs = filter (\<lambda>k. k \<in> set (map fst (seen_encoders out))) [''H.264'', ''HEVC'', ''AV1'']
      in (case codecs of [] \<Rightarrow> []
          | k # _ \<Rightarrow> (case filter (\<lambda>b. b \<noteq> []) (map (\<lambda>k. backend_of (the (map_of (seen_encoders out) k))) codecs) of
              [] \<Rightarrow> [] | b # _ \<Rightarrow> b), codecs))"

definition software_encoder :: "string \<Rightarrow> bool" where
  "software_encoder e = has_prefix e ''lib''"

text \<open>
  A codec that only an earlier start of Sunshine found is still reported after a later one that did
  not find it: the lines are overwritten codec by codec, not run by run.
\<close>

lemma earlier_codecs_stay:
  "parse_encoders (''Found H.264 encoder: h264_nvenc'' @ CHR 0x0A # ''Found AV1 encoder: av1_nvenc'' @ CHR 0x0A #
     ''Found H.264 encoder: libx264'') = (''libx264'', [''H.264'', ''AV1''])"
  by code_simp

section \<open>Where packages come from\<close>

definition mirror_char :: "char \<Rightarrow> bool" where
  "mirror_char c \<longleftrightarrow> is_alnum c \<or> c \<in> set ''._~:/@%+-''"

text \<open>\<open>https?://[...]*\$repo[...$]*\<close>, the first dollar being that of the variable.\<close>

definition mirror_url :: "string \<Rightarrow> bool" where
  "mirror_url u =
     (case cut_prefix u ''http'' of
        None \<Rightarrow> False
      | Some r \<Rightarrow>
          (case cut_prefix (trim_prefix r ''s'') ''://'' of
             None \<Rightarrow> False
           | Some r \<Rightarrow>
               (case cut_prefix (dropWhile mirror_char r) ''$repo'' of
                  None \<Rightarrow> False
                | Some r \<Rightarrow> list_all (\<lambda>c. mirror_char c \<or> c = CHR ''$'') r)))"

definition re_space :: "char \<Rightarrow> bool" where
  "re_space c \<longleftrightarrow> c \<in> {CHR 0x09, CHR 0x0A, CHR 0x0C, CHR 0x0D, CHR 0x20}"

definition mirror_line :: "string \<Rightarrow> string option" where
  "mirror_line l =
     (case cut_prefix (trim_space l) ''Server'' of
        None \<Rightarrow> None
      | Some r \<Rightarrow>
          (case dropWhile re_space r of
             [] \<Rightarrow> None
           | c # r \<Rightarrow>
               if c \<noteq> CHR ''='' then None
               else let u = rev (dropWhile re_space (rev (dropWhile re_space r)))
                    in if mirror_url u then Some u else None))"

definition mirror_servers :: "string \<Rightarrow> string list" where
  "mirror_servers l = List.map_filter mirror_line (split_on CHR 0x0A l)"

definition geo_mirror :: string where "geo_mirror = ''https://geo.mirror.pkgbuild.com/$repo/os/$arch''"
definition host_mirrors :: nat where "host_mirrors = 4"

text \<open>Each server once, where it came first.\<close>

fun firsts :: "string list \<Rightarrow> string list \<Rightarrow> string list" where
  "firsts seen [] = []"
| "firsts seen (x # xs) = (if x \<in> set seen then firsts seen xs else x # firsts (x # seen) xs)"

definition mirror_header :: "string list" where
  "mirror_header =
     [''# Written by Polyseat, because the image this seat was built from'',
      ''# names one mirror, far away. Arch'' @ [CHR 0x27] @ ''s own geo mirror, then the first'',
      ''# of the host'' @ [CHR 0x27] @ ''s, then what the image had. Edit it freely: a list'',
      ''# with two servers or more is left alone.'']"

definition better_servers :: "string \<Rightarrow> string \<Rightarrow> string list" where
  "better_servers seat host =
     firsts [] (geo_mirror # take host_mirrors (mirror_servers host) @ mirror_servers seat)"

definition better_mirrorlist :: "string \<Rightarrow> string \<Rightarrow> string option" where
  "better_mirrorlist seat host =
     (if 2 \<le> length (mirror_servers seat) then None
      else Some (concat (map (\<lambda>l. l @ [CHR 0x0A])
             (mirror_header @ map (\<lambda>s. ''Server = '' @ s) (better_servers seat host)))))"

lemma set_firsts: "set (firsts seen xs) = set xs - set seen"
  by (induction seen xs rule: firsts.induct) auto

lemma distinct_firsts: "distinct (firsts seen xs)"
  by (induction seen xs rule: firsts.induct) (auto simp: set_firsts)

lemma dropWhile_tail: "set (dropWhile P xs) \<subseteq> set xs"
  by (auto dest: set_dropWhileD)

lemma cut_prefix_Some: "cut_prefix s p = Some r \<longleftrightarrow> s = p @ r"
  by (auto simp: cut_prefix_def has_prefix_iff)

lemma trim_prefix_is: "trim_prefix s p = s \<or> s = p @ trim_prefix s p"
  by (auto simp: trim_prefix_def has_prefix_iff)

lemma cut_dropWhile: "cut_prefix (dropWhile P s) p = Some r \<Longrightarrow> \<exists>a. s = a @ p @ r \<and> list_all P a"
  using takeWhile_dropWhile_id [of P s] set_takeWhileD [of _ P s]
  by (auto simp: cut_prefix_Some list_all_iff intro!: exI [of _ "takeWhile P s"])

text \<open>A server is nothing but characters of an address, so it is one line of a list and comes back.\<close>

lemma mirror_url_chars:
  assumes "mirror_url u"
  shows "list_all (\<lambda>c. mirror_char c \<or> c = CHR ''$'') u \<and> u \<noteq> []"
proof -
  obtain r q t where r: "cut_prefix u ''http'' = Some r" and q: "cut_prefix (trim_prefix r ''s'') ''://'' = Some q"
    and t: "cut_prefix (dropWhile mirror_char q) ''$repo'' = Some t" "list_all (\<lambda>c. mirror_char c \<or> c = CHR ''$'') t"
    using assms by (auto simp: mirror_url_def split: option.splits)
  obtain a where a: "q = a @ ''$repo'' @ t" "list_all mirror_char a" using cut_dropWhile [OF t(1)] by blast
  let ?ok = "\<lambda>c. mirror_char c \<or> c = CHR ''$''"
  have lits: "list_all ?ok ''$repo''" "list_all ?ok ''://''" "list_all ?ok ''s''" "list_all ?ok ''http''" by code_simp+
  have "list_all ?ok a" using a(2) by (simp add: list_all_iff)
  then have okq: "list_all ?ok q" unfolding a(1) list_all_append using lits(1) t(2) by blast
  have "trim_prefix r ''s'' = ''://'' @ q" using q by (simp only: cut_prefix_Some)
  with trim_prefix_is [of r "''s''"] have "r = ''://'' @ q \<or> r = ''s'' @ ''://'' @ q" by metis
  then have "list_all ?ok r" using lits(2,3) okq by (elim disjE) (simp_all only: list_all_append simp_thms)
  moreover have "u = ''http'' @ r" using r by (simp only: cut_prefix_Some)
  ultimately show ?thesis using lits(4) by (simp only: list_all_append) simp
qed

lemma mirror_char_plain:
  assumes "mirror_char c \<or> c = CHR ''$''"
  shows "c \<noteq> CHR 0x0A" "\<not> re_space c" "\<forall>w \<in> set (map rev space_seqs). w \<noteq> [] \<and> hd w \<noteq> c"
proof -
  have n: "\<not> (mirror_char CHR 0x0A \<or> CHR 0x0A = CHR ''$'')" by code_simp
  have r: "list_all (\<lambda>d. \<not> (mirror_char d \<or> d = CHR ''$'')) [CHR 0x09, CHR 0x0A, CHR 0x0C, CHR 0x0D, CHR 0x20]"
    by code_simp
  have s: "list_all (\<lambda>w. w \<noteq> [] \<and> \<not> (mirror_char (hd w) \<or> hd w = CHR ''$'')) (map rev space_seqs)"
    by code_simp
  show "c \<noteq> CHR 0x0A" using n assms by blast
  show "\<not> re_space c" using r assms by (auto simp: re_space_def)
  show "\<forall>w \<in> set (map rev space_seqs). w \<noteq> [] \<and> hd w \<noteq> c" using s assms unfolding list_all_iff by blast
qed

lemma server_line:
  assumes "mirror_url u"
  shows "mirror_line (''Server = '' @ u) = Some u"
proof -
  obtain v c where u: "u = v @ [c]" using mirror_url_chars [OF assms] by (cases u rule: rev_cases) auto
  have c: "mirror_char c \<or> c = CHR ''$''" using mirror_url_chars [OF assms] u by (simp add: list_all_iff)
  have "trim_right_space (''Server = '' @ u) = ''Server = '' @ u"
    using trim_seqs_plain [OF mirror_char_plain(3) [OF c], of "rev (''Server = '' @ v)"]
    by (simp add: trim_right_space_def u)
  then have t: "trim_space (''Server = '' @ u) = ''Server = '' @ u"
    by (simp add: trim_space_def trim_seqs_plain space_seqs_def)
  have h: "hd u = CHR ''h''" using assms by (auto simp: mirror_url_def cut_prefix_Some split: option.splits)
  then have "dropWhile re_space u = u" by (cases u) (auto simp: re_space_def)
  moreover have "dropWhile re_space (rev u) = rev u" using mirror_char_plain(2) [OF c] u by simp
  ultimately show ?thesis using assms
    by (simp add: mirror_line_def t [simplified] cut_prefix_def re_space_def Let_def)
qed

lemma split_lines:
  "list_all (\<lambda>l. CHR 0x0A \<notin> set l) ls \<Longrightarrow> split_on CHR 0x0A (concat (map (\<lambda>l. l @ [CHR 0x0A]) ls)) = ls @ [[]]"
  by (induction ls) (auto simp: split_on_append split_on_no_sep)

lemma mirror_server_url: "u \<in> set (mirror_servers l) \<Longrightarrow> mirror_url u"
proof -
  assume "u \<in> set (mirror_servers l)"
  then obtain x where "mirror_line x = Some u" by (force simp: mirror_servers_def map_filter_def)
  then show "mirror_url u" by (auto simp: mirror_line_def Let_def split: option.splits list.splits if_splits)
qed

lemma better_server_url: "u \<in> set (better_servers seat host) \<Longrightarrow> mirror_url u"
proof -
  assume "u \<in> set (better_servers seat host)"
  then have "u = geo_mirror \<or> u \<in> set (mirror_servers host) \<or> u \<in> set (mirror_servers seat)"
    by (auto simp: better_servers_def set_firsts dest: in_set_takeD)
  moreover have "mirror_url geo_mirror" by code_simp
  ultimately show "mirror_url u" using mirror_server_url by blast
qed

text \<open>
  The list a seat is given is the one that was meant. A list that replaces the
  image's is read back as the servers it was made of, each once: Arch's own first, four of the
  host's at most, and every server the seat had; none of them is more than one line, so that
  nothing else of the host's file gets into the seat; and a list of two servers or more is left
  alone, so the one written is not written again.
\<close>

theorem mirror_list_reads_back:
  assumes "better_mirrorlist seat host = Some l"
  shows "mirror_servers l = better_servers seat host \<and> distinct (mirror_servers l)
    \<and> set (mirror_servers seat) \<subseteq> set (mirror_servers l) \<and> hd (mirror_servers l) = geo_mirror
    \<and> (2 \<le> length (mirror_servers l) \<longrightarrow> better_mirrorlist l host' = None)"
proof -
  let ?ss = "better_servers seat host"
  have l: "l = concat (map (\<lambda>l. l @ [CHR 0x0A]) (mirror_header @ map (\<lambda>s. ''Server = '' @ s) ?ss))"
    using assms by (auto simp: better_mirrorlist_def split: if_splits)
  have "list_all (\<lambda>l. CHR 0x0A \<notin> set l) mirror_header" by code_simp
  moreover have "CHR 0x0A \<notin> set s" if "s \<in> set ?ss" for s
    using mirror_url_chars [OF better_server_url [OF that]] mirror_char_plain(1) by (auto simp: list_all_iff)
  ultimately have "split_on CHR 0x0A l = mirror_header @ map (\<lambda>s. ''Server = '' @ s) ?ss @ [[]]"
    unfolding l by (subst split_lines) (auto simp: list_all_iff)
  moreover have "List.map_filter mirror_line mirror_header = []" by code_simp
  moreover have "mirror_line [] = None" by code_simp
  moreover have "List.map_filter mirror_line (map (\<lambda>s. ''Server = '' @ s) ss) = ss"
    if "\<forall>s \<in> set ss. mirror_url s" for ss
    using that by (induction ss) (simp_all add: map_filter_simps server_line [simplified])
  ultimately have r: "mirror_servers l = ?ss"
    using better_server_url by (simp add: mirror_servers_def map_filter_def)
  moreover have "distinct ?ss" "set (mirror_servers seat) \<subseteq> set ?ss" "hd ?ss = geo_mirror"
    by (auto simp: better_servers_def distinct_firsts set_firsts)
  ultimately show ?thesis by (auto simp: better_mirrorlist_def)
qed

lemma mirror_list_reads_back_witness:
  "mirror_servers (the (better_mirrorlist ''Server = https://m/$repo'' [])) = [geo_mirror, ''https://m/$repo'']"
proof -
  have b: "better_servers ''Server = https://m/$repo'' [] = [geo_mirror, ''https://m/$repo'']" by code_simp
  obtain l where l: "better_mirrorlist ''Server = https://m/$repo'' [] = Some l"
  proof -
    have "\<not> 2 \<le> length (mirror_servers ''Server = https://m/$repo'')" by code_simp
    then show ?thesis using that by (simp only: better_mirrorlist_def if_False)
  qed
  from mirror_list_reads_back [OF this] b show ?thesis unfolding l by simp
qed

end
