(* ===== verification/Pairing.thy ===== *)
theory Pairing
  imports Access App_List
begin

text \<open>
  What is asked of the Sunshine of a seat (internal/sunshine/client.go, and the operations of the
  manager that ask it): which clients are paired, which wait for a PIN, the PIN itself, and that
  it reads its list of applications again. Sunshine is not in the repository: it is what answers.
\<close>

section \<open>One call\<close>

text \<open>No answer, with the reason, or a status with a body, which may be no JSON.\<close>

datatype sun_answer = NoReply string | Replied nat "json option"

datatype sun_error =
  Unreachable string | BadLogin | NoSuchRoute | OtherAnswer nat | NotJSON | WrongShape

definition call_within :: "sun_answer \<Rightarrow> sun_error + json" where
  "call_within a =
     (case a of
        NoReply e \<Rightarrow> Inl (Unreachable e)
      | Replied code b \<Rightarrow>
          if code = 200 then (case b of None \<Rightarrow> Inl NotJSON | Some j \<Rightarrow> Inr j)
          else if code = 401 then Inl BadLogin
          else if code = 404 then Inl NoSuchRoute
          else Inl (OtherAnswer code))"

text \<open>The shapes the answers are read as, none where the body has another.\<close>

definition object_of :: "json \<Rightarrow> (string \<times> json) list option" where
  "object_of j = (case j of JObj ms \<Rightarrow> Some ms | JNull \<Rightarrow> Some [] | _ \<Rightarrow> None)"

definition text_field :: "string \<Rightarrow> (string \<times> json) list \<Rightarrow> string option" where
  "text_field k ms =
     (if list_all str_or_null (members k ms)
      then Some (fold (\<lambda>v n. case v of JStr s \<Rightarrow> s | _ \<Rightarrow> n) (members k ms) []) else None)"

definition bool_field :: "string \<Rightarrow> (string \<times> json) list \<Rightarrow> bool option" where
  "bool_field k ms =
     (if list_all (\<lambda>v. case v of JBool _ \<Rightarrow> True | JNull \<Rightarrow> True | _ \<Rightarrow> False) (members k ms)
      then Some (fold (\<lambda>v b. case v of JBool x \<Rightarrow> x | _ \<Rightarrow> b) (members k ms) False) else None)"

definition status_of :: "json \<Rightarrow> bool option" where
  "status_of j = (case object_of j of None \<Rightarrow> None | Some ms \<Rightarrow> bool_field ''status'' ms)"

record pairing =
  p_id :: string
  p_name :: string
  p_address :: string

definition pairing_of :: "json \<Rightarrow> pairing option" where
  "pairing_of j =
     (case object_of j of
        None \<Rightarrow> None
      | Some ms \<Rightarrow>
          (case (text_field ''id'' ms, text_field ''name'' ms, text_field ''address'' ms) of
             (Some i, Some n, Some a) \<Rightarrow> Some \<lparr>p_id = i, p_name = n, p_address = a\<rparr>
           | _ \<Rightarrow> None))"

text \<open>The value of \<open>pairings\<close>: absent or null, or a list; the last one that is there counts.\<close>

definition pairings_of :: "json \<Rightarrow> pairing list option option" where
  "pairings_of j =
     (case object_of j of
        None \<Rightarrow> None
      | Some ms \<Rightarrow>
          fold (\<lambda>v acc. case (acc, v) of
              (None, _) \<Rightarrow> None
            | (Some _, JNull) \<Rightarrow> Some None
            | (Some _, JArr es) \<Rightarrow>
                if list_all (\<lambda>e. pairing_of e \<noteq> None) es then Some (Some (map (the \<circ> pairing_of) es)) else None
            | _ \<Rightarrow> None) (members ''pairings'' ms) (Some None))"

definition answered_status :: "sun_answer \<Rightarrow> sun_error + bool" where
  "answered_status a =
     (case call_within a of
        Inl e \<Rightarrow> Inl e
      | Inr j \<Rightarrow> (case status_of j of None \<Rightarrow> Inl WrongShape | Some b \<Rightarrow> Inr b))"

section \<open>Pairing\<close>

text \<open>
  \<open>PendingPairings\<close>: who waits, and whether this Sunshine can say. A route that is not there, an
  answer that is no JSON and one of another shape are all the answer of an older one.
\<close>

definition pending_pairings :: "sun_answer \<Rightarrow> sun_error + pairing list \<times> bool" where
  "pending_pairings a =
     (case call_within a of
        Inl e \<Rightarrow> if e = NoSuchRoute \<or> e = NotJSON then Inr ([], False) else Inl e
      | Inr j \<Rightarrow>
          (case pairings_of j of
             None \<Rightarrow> Inr ([], False)
           | Some None \<Rightarrow> Inr ([], False)
           | Some (Some ps) \<Rightarrow> Inr (ps, True)))"

definition describe :: "pairing list \<Rightarrow> string" where
  "describe ps = join '', '' (map (\<lambda>p.
     if p_name p \<noteq> [] \<and> p_address p \<noteq> [] then p_name p @ '' at '' @ p_address p
     else if p_name p \<noteq> [] then p_name p
     else if p_address p \<noteq> [] then p_address p
     else ''an unnamed device'') ps)"

datatype pair_error = CallFailed sun_error | NobodyWaits | SeveralWait nat string | NotPaired

text \<open>What was posted, with the id of a request where there is one.\<close>

record pin_post =
  post_pin :: string
  post_name :: string
  post_id :: "string option"

definition pair_device ::
  "string \<Rightarrow> string \<Rightarrow> sun_answer \<Rightarrow> (pin_post \<Rightarrow> sun_answer) \<Rightarrow> pin_post list \<times> pair_error option" where
  "pair_device pin name shown answer =
     (let post = (\<lambda>i. let b = \<lparr>post_pin = pin, post_name = name, post_id = i\<rparr> in
            ([b], case answered_status (answer b) of
               Inl e \<Rightarrow> Some (CallFailed e)
             | Inr ok \<Rightarrow> if ok then None else Some NotPaired))
      in case pending_pairings shown of
           Inl e \<Rightarrow> ([], Some (CallFailed e))
         | Inr (ps, versioned) \<Rightarrow>
             if \<not> versioned then post None
             else (case ps of
                 [] \<Rightarrow> ([], Some NobodyWaits)
               | [p] \<Rightarrow> post (Some (p_id p))
               | _ \<Rightarrow> ([], Some (SeveralWait (length ps) (describe ps)))))"

text \<open>The handler in front of it: a PIN there has to be, a name is made up.\<close>

definition pair_request :: "string \<Rightarrow> string \<Rightarrow> (string \<times> string) option" where
  "pair_request pin name = (if pin = [] then None else Some (pin, if name = [] then ''device'' else name))"

text \<open>\<open>Discard\<close>, \<open>Unpair\<close> and \<open>CloseApp\<close>: whether what was asked for is the case.\<close>

definition discard_pairing :: "sun_answer \<Rightarrow> sun_error option" where
  "discard_pairing a = (case answered_status a of Inl e \<Rightarrow> Some e | Inr _ \<Rightarrow> None)"

definition unpair :: "sun_answer \<Rightarrow> pair_error option" where
  "unpair a = (case answered_status a of Inl e \<Rightarrow> Some (CallFailed e) | Inr ok \<Rightarrow> if ok then None else Some NotPaired)"

definition close_app :: "sun_answer \<Rightarrow> pair_error option" where
  "close_app a = (case answered_status a of Inl e \<Rightarrow> Some (CallFailed e) | Inr ok \<Rightarrow> if ok then None else Some NotPaired)"

text \<open>\<open>sunshineClient\<close>: where a call goes and with which login.\<close>

datatype client_error = NotASeat | NoAccess access_error

definition sunshine_client ::
  "bool \<Rightarrow> secret_error + secrets \<Rightarrow> bool \<Rightarrow> addresses \<Rightarrow> devices option \<Rightarrow> client_error + string \<times> secrets" where
  "sunshine_client known got running as inst =
     (if \<not> known then Inl NotASeat
      else case got of
        Inl e \<Rightarrow> Inl (NoAccess (SecretsFail e))
      | Inr s \<Rightarrow>
          if sunshine_user s = [] then Inl (NoAccess NoLoginYet)
          else let a = management_address as inst
               in if a = [] then Inl (NoAccess (no_management_path running as)) else Inr (a, s))"

section \<open>The list of applications\<close>

text \<open>The object that is posted: the first entry as it came, with its index.\<close>

definition reloaded_entry :: "json \<Rightarrow> json option" where
  "reloaded_entry j =
     (case object_of j of
        None \<Rightarrow> None
      | Some ms \<Rightarrow> Some (JObj (AList.update ''index'' (JNum ''0'') (keep_last (map (map_prod id norm) ms)))))"

definition apps_member :: "json \<Rightarrow> json list option" where
  "apps_member j =
     (case object_of j of
        None \<Rightarrow> None
      | Some ms \<Rightarrow> if list_all arr_or_null (members ''apps'' ms)
                   then Some (fold read_apps (members ''apps'' ms) []) else None)"

definition reload_list ::
  "sun_answer \<Rightarrow> (json \<Rightarrow> sun_answer) \<Rightarrow> json list \<times> pair_error option" where
  "reload_list shown answer =
     (case call_within shown of
        Inl e \<Rightarrow> ([], Some (CallFailed e))
      | Inr j \<Rightarrow>
          (case apps_member j of
             None \<Rightarrow> ([], Some (CallFailed WrongShape))
           | Some [] \<Rightarrow> ([], None)
           | Some (e # es) \<Rightarrow>
               (case reloaded_entry e of
                  None \<Rightarrow> ([], Some (CallFailed WrongShape))
                | Some b \<Rightarrow>
                    ([b], case answered_status (answer b) of
                       Inl x \<Rightarrow> Some (CallFailed x)
                     | Inr ok \<Rightarrow> if ok then None else Some NotPaired))))"

section \<open>A PIN is for one device\<close>

text \<open>
  Property C39: a PIN is never tried on a device it may not belong to. Whatever Sunshine answers,
  at most one PIN is sent; where Sunshine says who is waiting it is sent for the one device that
  is and not at all when none or several are; without a name of a request only to a Sunshine that
  cannot tell them apart; and a device counts as paired only when a PIN was sent and Sunshine
  said so.
\<close>

theorem a_pin_is_for_one_device:
  assumes "pair_device pin name shown answer = (posts, e)"
  shows "length posts \<le> 1
    \<and> (\<forall>b \<in> set posts. post_pin b = pin \<and>
        (case post_id b of
           Some i \<Rightarrow> \<exists>p. pending_pairings shown = Inr ([p], True) \<and> i = p_id p
         | None \<Rightarrow> pending_pairings shown = Inr ([], False)))
    \<and> (e = None \<longrightarrow> (\<exists>b. posts = [b] \<and> answered_status (answer b) = Inr True))"
proof -
  have old: "snd r = False \<Longrightarrow> pending_pairings shown = Inr r \<Longrightarrow> fst r = []" for r
    by (auto simp: pending_pairings_def split: sum.splits option.splits if_splits)
  show ?thesis
  proof (cases "pending_pairings shown")
    case (Inl x)
    with assms show ?thesis by (auto simp: pair_device_def Let_def)
  next
    case (Inr r)
    obtain ps v where r: "r = (ps, v)" by force
    show ?thesis
    proof (cases v)
      case False
      with old [of r] Inr r have "ps = []" by simp
      with False Inr r assms show ?thesis
        by (auto simp: pair_device_def Let_def split: sum.splits if_splits)
    next
      case True
      with Inr r assms show ?thesis
        by (auto simp: pair_device_def Let_def split: list.splits sum.splits if_splits)
    qed
  qed
qed

text \<open>One device waits, another Sunshine has two, and one cannot say.\<close>

definition waiting_json :: "string list \<Rightarrow> json" where
  "waiting_json is' = JObj [(''pairings'', JArr (map (\<lambda>i. JObj [(''id'', JStr i), (''name'', JStr ''tv'')]) is'))]"

lemma a_pin_is_for_one_device_witness:
  "pair_device ''1234'' ''tv'' (Replied 200 (Some (waiting_json [''a'', ''b'']))) (\<lambda>_. Replied 200 None)
     = ([], Some (SeveralWait 2 ''tv, tv''))
   \<and> (\<exists>p. pending_pairings (Replied 200 (Some (waiting_json [''a'']))) = Inr ([p], True) \<and> ''a'' = p_id p)"
proof -
  have "pair_device ''1234'' ''tv'' (Replied 200 (Some (waiting_json [''a'', ''b'']))) (\<lambda>_. Replied 200 None)
     = ([], Some (SeveralWait 2 ''tv, tv''))" by code_simp
  moreover have "pair_device ''1234'' ''tv'' (Replied 200 (Some (waiting_json [''a'']))) (\<lambda>_. Replied 200 (Some (JObj [(''status'', JBool True)])))
      = ([\<lparr>post_pin = ''1234'', post_name = ''tv'', post_id = Some ''a''\<rparr>], None)" by code_simp
  from a_pin_is_for_one_device [OF this]
  have "\<exists>p. pending_pairings (Replied 200 (Some (waiting_json [''a'']))) = Inr ([p], True) \<and> ''a'' = p_id p" by simp
  ultimately show ?thesis by blast
qed

text \<open>
  A reload alters nothing: what is posted is the first entry of the list Sunshine gave, member by
  member, with the index that says it is the first.
\<close>

lemma reload_alters_nothing:
  assumes "reload_list shown answer = (posts, e)" "b \<in> set posts"
  shows "\<exists>j x xs ms. call_within shown = Inr j \<and> apps_member j = Some (x # xs) \<and> object_of x = Some ms
    \<and> b = JObj (AList.update ''index'' (JNum ''0'') (keep_last (map (map_prod id norm) ms)))"
  using assms
  by (auto simp: reload_list_def reloaded_entry_def split: sum.splits option.splits list.splits if_splits)

end
