(* ===== verification/Spec2Isabelle.thy ===== *)
theory Spec2Isabelle
  imports Limiter Auth_Store Supervise Update LanBridge HostCg Manifest Filepath NetIP
    Tree_FS Private_Folder Clone Clone_Copy Clone_Carry Clone_Swap Clone_Safety
    Pool Pool_Sync Pool_Ask Pool_Facts Pool_World Pool_Pass Pool_Rules Pool_Give Pool_Marks
    Pool_Forward Pool_Uninstall Pool_Sample Pool_Promises
    Seat Incus Config Network Guard HostPkg
    Lanes Stream_Watch Records Seat_Life Host_Locale Drop Access Folder_Setup Games App_List App_Refresh Share_Book Software Freshness
    Page Host_Actions Hardware Pairing
begin

text \<open>
  Polyseat (src/, Go) is a daemon that runs several gaming seats on one host. A seat is an Incus
  container with a session of its own (sway, Sunshine, Steam); people play in it over Moonlight.
  The daemon makes and provisions seats, starts and stops them, watches them on a timer, shares
  one library of games between them by cloning files, keeps the list of games a client is shown,
  and serves a web page to do all of that from. This library translates the logic of its own that
  the program has into definitions and proves what makes it correct.

  How the parts interact. \<open>cmd/polyseatd\<close> reads the configuration (\<open>internal/config\<close>), opens the
  password store (\<open>internal/auth\<close>) and the records of the seats (\<open>internal/seat/seat.go\<close>), and
  starts the manager (\<open>internal/seat/manager.go\<close>) and the page (\<open>internal/api\<close>). A request passes
  the guard and reaches a handler, which calls the manager. The manager claims a seat for one
  operation at a time, stops the readings of it, and runs the operation against Incus
  (\<open>internal/incusx\<close>) with the child processes of \<open>internal/supervise\<close>. A timer reads every seat,
  folds what it says into a belief about its stream, rebuilds its list of games when nobody plays,
  and passes over the library (\<open>internal/library\<close>), whose members are the seats and the host.

  Conventions. A Go string is a list of bytes, an \<open>int64\<close> or \<open>int\<close> an integer with the bounds
  written out where they matter, a map an association list where its order can be seen. A function
  that returns \<open>(T, error)\<close> returns a sum, \<open>Inl\<close> for the error; an error is a constructor, not its
  sentence. Every call that leaves the program (a system call, Incus, systemd, a server, the clock,
  random bytes, a hash, the decoder of a file in JSON) is an argument: an answer, a list of answers
  or an oracle of faults, so that a theorem holds for every way the calls can go. Lines for the log
  are left out. A history of calls is newest first where a later call is judged by earlier ones.

  The theories and what they model.

  \<^item> \<open>Prelude\<close>, \<open>Strconv\<close>, \<open>Filepath\<close>, \<open>NetIP\<close>: what the sources use of the standard library
    (\<open>strings\<close>, \<open>strconv\<close>, \<open>path/filepath\<close>, \<open>net\<close>, \<open>net/netip\<close>), with the lemmas the components share.
    \<open>Line_Stream\<close>: the locale of a writer that is fed chunks and emits lines, interpreted by the two
    writers of the program.
  \<^item> \<open>Limiter\<close>, \<open>Auth_Store\<close> (internal/auth/auth.go): the limiter of failed sign-ins with its
    table; the credentials, their file and the session tokens. Shown: the table is bounded, a
    password is set in memory and on disk or in neither, and setting it ends every session.
  \<^item> \<open>Supervise\<close> (internal/supervise): one child process as a step relation over the state under the
    lock, the supervising goroutine and the callers of Stop. Shown: never two children.
  \<^item> \<open>Update\<close> (internal/update): version order, the checker, download and verification. Shown: only a
    file of the project with the stated checksum is installed.
  \<^item> \<open>LanBridge\<close>, \<open>HostCg\<close>, \<open>HostPkg\<close>, \<open>Config\<close> (the packages of those names): the run of the bridge
    script, the cgroup hierarchies that are found and recovered, the package family, the configuration.
  \<^item> \<open>Tree_FS\<close>, \<open>Private_Folder\<close>, \<open>Clone\<close>, \<open>Clone_Copy\<close>, \<open>Clone_Carry\<close>, \<open>Clone_Swap\<close>, \<open>Clone_Safety\<close>
    (internal/library nofollow.go, private.go, folder.go, clone.go): a tree of entries with owners,
    modes and times, walked without following links under an oracle of faults; copying a game,
    carrying the saves over and swapping it in. Shown: the copy is the image of its source, a clone
    that fails changes nothing, no save is lost whichever call fails. The walk to a path outside
    opens at most forty components anew, the bound the source has.
  \<^item> \<open>Manifest\<close>, \<open>Pool\<close>, \<open>Pool_Sync\<close>, \<open>Pool_Ask\<close> and the theories \<open>Pool_*\<close> of their proofs
    (internal/library steam.go and pool.go): Steam's files; the pool with its members, its state and
    the pass that takes titles in and hands them out. \<open>Pool_Pass\<close> states as a locale what a relation
    on the pool has to satisfy to be kept by every pass; \<open>Pool_Rules\<close> and \<open>Pool_Forward\<close> interpret it.
    Shown: handing out refines a description over maps of builds, titles taken away stay away, the
    pool never goes back to an older build, an uninstall takes a title everywhere or nowhere.
  \<^item> \<open>Seat\<close> (internal/seat/seat.go): the record, its checks, and the store over the files of its
    directory. Shown: the store refines a map and stays inside its directory.
  \<^item> \<open>Incus\<close>, \<open>Network\<close> (internal/incusx/client.go, internal/seat/network.go): merging configuration,
    identifiers, addresses; the uplink, the LAN interface and the management interface.
  \<^item> \<open>Guard\<close> (internal/api/guard.go): what a request has to be before a handler sees it.
  \<^item> \<open>Lanes\<close>, \<open>Records\<close>, \<open>Seat_Life\<close>, \<open>Stream_Watch\<close> (internal/seat/manager.go, start.go,
    sunshinelog.go): the lanes and the claim as a step relation; the records under their lock and the
    pass over stale seats, whose waits are bounded by \<open>sweep_patience\<close>; starting, building, stopping
    and deleting as programs of calls; the belief about a stream. Shown: no reading meets an
    operation, the broker never meets a seat that is going down, a seat counts as idle only after
    it was silent, the state says how an operation ended, a record marked current was built so.
  \<^item> \<open>Host_Locale\<close>, \<open>Drop\<close>, \<open>Access\<close> (internal/seat locale.go, files.go, secrets.go and parts of
    manager.go): what a seat takes from its host, the files that are uploaded into it, and its login.
    The links of the way to a file are followed at most forty times, as the kernel does.
  \<^item> \<open>Folder_Setup\<close> (internal/seat/foldersetup.go): the setup scripts of shared folders. The worker is
    given one round more than there are runs waiting, and is shown to need no more.
  \<^item> \<open>Games\<close>, \<open>App_List\<close> (internal/seat games.go, desktopgames.go, heroicgames.go, apps.go): what a
    seat can start, the commands Sunshine is given for it, and the list of Moonlight.

  \<^item> \<open>App_Refresh\<close> (internal/seat/software.go and parts of manager.go): when the list is rebuilt and
    when Sunshine is told of it. \<open>Share_Book\<close> (internal/seat/share.go): the entries of a launcher that
    are learned in one member and written into the others. Shown: what is
    written is a recipe somebody had, and an entry removed by hand stays removed.
  \<^item> \<open>Software\<close>, \<open>Freshness\<close> (internal/seat/software.go, appimage.go, freshness.go): what is installed
    into a seat from the page and with which commands; what a seat is behind on, who is asked for
    it and when, and the update of its software. Shown: no name reaches a shell as more than a name,
    and no update takes a stream away.
  \<^item> \<open>Page\<close>, \<open>Host_Actions\<close> (internal/api/server.go and host.go, internal/prepare, internal/uninstall):
    which handler a request reaches, sessions and the password that is asked for again; preparing
    the host, updating, restarting and removing the daemon as sections under its locks.
  \<^item> \<open>Hardware\<close>, \<open>Pairing\<close> (internal/seat gpu.go, nvidianodes.go, input.go, encoder.go, mirrors.go;
    internal/sunshine/client.go): the card and the nodes of a seat, its mirrors, and what is asked
    of Sunshine. Shown: a PIN goes to the one device it was meant for.

  What the groups of lemmas show. Each theory first states the behaviour of its operations on every
  branch, then the invariant of its state and that every operation keeps it, and last the properties
  of the manifest (labelled C1 to C40) as short consequences. Properties about sequences of
  operations are folds or step relations over an event type that has every operation, every failing
  call and, where the code keeps something on disk, the restart of the daemon.

  Not modelled, and why. The TLS certificate (internal/auth/tls.go) is the standard library's.
  Of the page (internal/api) the handlers that only decode, call the manager and encode are the
  events of \<open>Page\<close>; the JSON shapes they answer with are not modelled.
  Provisioning (internal/seat/provision.go) is a sequence of commands and configuration files for a
  container: its decisions are the commands themselves, and what they do is the container's.
  \<open>internal/report\<close> prints what the commands of a host say, as do the sections of
  \<open>internal/prepare\<close> and \<open>internal/uninstall\<close> that are not decisions. The scripts that run inside a
  seat, the web page, the build files and the packages outside the repository are not Go code of
  the daemon; where the daemon relies on one, what it relies on is a named hypothesis or an argument.
\<close>

end
